(* ===== verification/Prelude.thy ===== *)
theory Prelude
  imports Main "HOL-Library.List_Lexorder" "HOL-Library.Char_ord" "HOL-Library.Sublist"
begin

text \<open>
  Shared vocabulary of the development: Go's zero-valued map reads, the pieces of the
  \<open>strings\<close> and \<open>strconv\<close> packages the sources call, and the generic lemmas on
  lists and maps that the component theories use.

  A Go \<open>string\<close> is a byte sequence and is modelled by \<^typ>\<open>string\<close>; Go compares
  strings bytewise, which is the order of \<open>List_Lexorder\<close> over \<open>Char_ord\<close>.
  Only ASCII white space is treated as white space (Go also trims U+0085 and U+00A0).
\<close>

named_theorems go_simps \<open>unfolding rules for the Go library helpers\<close>
named_theorems ctl_simps \<open>unfolding rules for the operator's reconcilers\<close>
named_theorems host_simps \<open>unfolding rules for the node agent's host operations\<close>

section \<open>Maps with Go's zero value\<close>

text \<open>Reading a missing key of a Go \<open>map[string]string\<close> (or of a nil map) gives \<open>""\<close>,
  of a \<open>map[string]bool\<close> gives \<open>false\<close>.\<close>

definition mget :: "('k \<rightharpoonup> string) \<Rightarrow> 'k \<Rightarrow> string" where
  "mget m k = (case m k of None \<Rightarrow> '''' | Some v \<Rightarrow> v)"

lemma mget_upd [simp]: "mget (m(k \<mapsto> v)) k' = (if k' = k then v else mget m k')"
  by (simp add: mget_def)

lemma mget_empty [simp]: "mget Map.empty k = ''''"
  by (simp add: mget_def)

section \<open>Strings\<close>

text \<open>\<open>strings.HasPrefix(s, p)\<close>.\<close>

definition hasPrefix :: "string \<Rightarrow> string \<Rightarrow> bool" where
  "hasPrefix s p \<longleftrightarrow> take (length p) s = p"

lemma hasPrefix_append [simp]: "hasPrefix (p @ s) p"
  by (simp add: hasPrefix_def)

lemma hasPrefix_iff: "hasPrefix s p \<longleftrightarrow> (\<exists>t. s = p @ t)"
  by (metis append_eq_conv_conj hasPrefix_def append_take_drop_id)

text \<open>\<open>strings.Join(xs, sep)\<close>.\<close>

fun joinWith :: "string \<Rightarrow> string list \<Rightarrow> string" where
  "joinWith sep [] = ''''"
| "joinWith sep [x] = x"
| "joinWith sep (x # y # ys) = x @ sep @ joinWith sep (y # ys)"

text \<open>\<open>strconv.Itoa\<close> and the \<open>%d\<close> verb.\<close>

fun digit_char :: "nat \<Rightarrow> char" where
  "digit_char n = char_of (48 + n)"

fun utoa :: "nat \<Rightarrow> string" where
  "utoa n = (if n < 10 then [digit_char n] else utoa (n div 10) @ [digit_char (n mod 10)])"

declare utoa.simps [simp del]

definition itoa :: "int \<Rightarrow> string" where
  "itoa i = (if i < 0 then ''-'' @ utoa (nat (- i)) else utoa (nat i))"

lemma digit_char_inj: "a < 10 \<Longrightarrow> b < 10 \<Longrightarrow> digit_char a = digit_char b \<Longrightarrow> a = b"
proof -
  assume ab: "a < 10" "b < 10" and eq: "digit_char a = digit_char b"
  from eq have "(of_char (char_of (48 + a) :: char) :: nat) = of_char (char_of (48 + b) :: char)"
    by simp
  with ab show "a = b" by (simp add: of_char_of)
qed

lemma utoa_not_Nil [simp]: "utoa n \<noteq> []" "[] \<noteq> utoa n"
  by (subst utoa.simps, simp)+

lemma utoa_inj: "utoa m = utoa n \<Longrightarrow> m = n"
proof (induction m arbitrary: n rule: utoa.induct)
  case (1 m)
  show ?case
  proof (cases "m < 10")
    case True
    then have m: "utoa m = [digit_char m]" by (subst utoa.simps) simp
    show ?thesis
    proof (cases "n < 10")
      case True
      then have "utoa n = [digit_char n]" by (subst utoa.simps) simp
      with m "1.prems" \<open>m < 10\<close> True show ?thesis
        by (auto dest: digit_char_inj simp del: digit_char.simps)
    next
      case False
      then have "utoa n = utoa (n div 10) @ [digit_char (n mod 10)]" by (subst utoa.simps) simp
      with m "1.prems" show ?thesis by (simp del: digit_char.simps)
    qed
  next
    case False
    then have m: "utoa m = utoa (m div 10) @ [digit_char (m mod 10)]" by (subst utoa.simps) simp
    show ?thesis
    proof (cases "n < 10")
      case True
      then have "utoa n = [digit_char n]" by (subst utoa.simps) simp
      with m "1.prems" show ?thesis by (simp del: digit_char.simps)
    next
      case n: False
      then have "utoa n = utoa (n div 10) @ [digit_char (n mod 10)]" by (subst utoa.simps) simp
      with m "1.prems" have "utoa (m div 10) = utoa (n div 10)"
        and "digit_char (m mod 10) = digit_char (n mod 10)"
        by (simp_all del: digit_char.simps)
      with "1.IH"[OF False] have "m div 10 = n div 10" and "m mod 10 = n mod 10"
        by (auto dest: digit_char_inj[rotated 2] simp del: digit_char.simps)
      then show ?thesis by (metis div_mult_mod_eq)
    qed
  qed
qed

lemma utoa_inj_iff [simp]: "utoa m = utoa n \<longleftrightarrow> m = n"
  by (auto dest: utoa_inj)

section \<open>Lists\<close>

text \<open>Folding a Go loop that keeps the first best element: \<open>best == nil || better(x, best)\<close>.\<close>

fun pick_best :: "('a \<Rightarrow> 'a \<Rightarrow> bool) \<Rightarrow> 'a option \<Rightarrow> 'a list \<Rightarrow> 'a option" where
  "pick_best better cur [] = cur"
| "pick_best better cur (x # xs) =
     pick_best better
       (case cur of None \<Rightarrow> Some x | Some c \<Rightarrow> if better x c then Some x else Some c) xs"

lemma pick_best_None [simp]: "pick_best b cur xs = None \<longleftrightarrow> cur = None \<and> xs = []"
  by (induction b cur xs rule: pick_best.induct) (auto split: option.splits)

lemma pick_best_mem:
  "pick_best b cur xs = Some x \<Longrightarrow> cur = Some x \<or> x \<in> set xs"
  by (induction b cur xs rule: pick_best.induct) (auto split: option.splits if_splits)

section \<open>Sorting by a Go comparator\<close>

text \<open>\<open>sort.Slice(xs, lt)\<close>. The algorithm of the library is not specified; when \<open>lt\<close> is a
  strict total order on the elements that are there every sort gives this list.\<close>

fun insert_by :: "('a \<Rightarrow> 'a \<Rightarrow> bool) \<Rightarrow> 'a \<Rightarrow> 'a list \<Rightarrow> 'a list" where
  "insert_by lt x [] = [x]"
| "insert_by lt x (y # ys) = (if lt y x then y # insert_by lt x ys else x # y # ys)"

definition sort_by :: "('a \<Rightarrow> 'a \<Rightarrow> bool) \<Rightarrow> 'a list \<Rightarrow> 'a list" where
  "sort_by lt xs = foldr (insert_by lt) xs []"

lemma set_insert_by [simp]: "set (insert_by lt x ys) = insert x (set ys)"
  by (induction ys) auto

lemma set_sort_by [simp]: "set (sort_by lt xs) = set xs"
  unfolding sort_by_def by (induction xs) auto

lemma length_insert_by [simp]: "length (insert_by lt x ys) = Suc (length ys)"
  by (induction ys) auto

lemma length_sort_by [simp]: "length (sort_by lt xs) = length xs"
  unfolding sort_by_def by (induction xs) auto

lemma sort_by_Nil_iff [simp]: "sort_by lt xs = [] \<longleftrightarrow> xs = []"
  by (metis length_sort_by length_0_conv)

text \<open>What \<open>sort.Slice\<close> asks of its comparator, and what makes its result unique.\<close>

locale weak_order =
  fixes lt :: "'a \<Rightarrow> 'a \<Rightarrow> bool"
  assumes before_asym: "lt x y \<Longrightarrow> \<not> lt y x"
    and before_trans: "\<not> lt y x \<Longrightarrow> \<not> lt z y \<Longrightarrow> \<not> lt z x"
begin

lemma sorted_insert_by:
  "sorted_wrt (\<lambda>x y. \<not> lt y x) ys \<Longrightarrow> sorted_wrt (\<lambda>x y. \<not> lt y x) (insert_by lt x ys)"
  by (induction ys) (auto dest: before_asym before_trans)

lemma sorted_sort_by: "sorted_wrt (\<lambda>x y. \<not> lt y x) (sort_by lt xs)"
  unfolding sort_by_def by (induction xs) (auto intro: sorted_insert_by)

end

locale strict_order =
  fixes lt :: "'a \<Rightarrow> 'a \<Rightarrow> bool"
  assumes irrefl: "\<not> lt x x"
    and trans: "lt x y \<Longrightarrow> lt y z \<Longrightarrow> lt x z"
    and total: "x \<noteq> y \<Longrightarrow> lt x y \<or> lt y x"
begin

lemma asym: "lt x y \<Longrightarrow> \<not> lt y x"
  using irrefl trans by blast

lemma le_trans: "\<not> lt y x \<Longrightarrow> \<not> lt z y \<Longrightarrow> \<not> lt z x"
  by (metis total trans)

end

sublocale strict_order < weak: weak_order lt
  by unfold_locales (auto dest: asym le_trans)

context strict_order
begin

lemma sort_by_hd:
  assumes "xs \<noteq> []" "y \<in> set xs" "y \<noteq> hd (sort_by lt xs)"
  shows "lt (hd (sort_by lt xs)) y"
proof -
  from assms(1) obtain z zs where s: "sort_by lt xs = z # zs" by (metis sort_by_Nil_iff neq_Nil_conv)
  with weak.sorted_sort_by[of xs] have "\<forall>w \<in> set zs. \<not> lt w z" by simp
  moreover have "y \<in> set (z # zs)" using assms(2) s by (metis set_sort_by)
  ultimately show ?thesis using assms(3) s total by auto
qed

text \<open>Sorting does not depend on the order the elements come in.\<close>

lemma sort_by_hd_cong:
  assumes "set xs = set ys" "xs \<noteq> []"
  shows "hd (sort_by lt xs) = hd (sort_by lt ys)"
proof (rule ccontr)
  assume ne: "hd (sort_by lt xs) \<noteq> hd (sort_by lt ys)"
  have ys: "ys \<noteq> []" using assms by auto
  have "hd (sort_by lt xs) \<in> set xs" "hd (sort_by lt ys) \<in> set ys"
    using assms(2) ys by (metis hd_in_set set_sort_by sort_by_Nil_iff)+
  then show False
    using sort_by_hd[OF assms(2), of "hd (sort_by lt ys)"] sort_by_hd[OF ys, of "hd (sort_by lt xs)"] ne assms(1) asym
    by auto
qed

end

end
