(* ===== verification/K8s.thy ===== *)
theory K8s
  imports Prelude
begin

text \<open>
  The Kubernetes data the sources read and write, and the interface to the library code
  they call. Library functions (\<open>meta.SetStatusCondition\<close>, the finalizer helpers of
  \<open>controllerutil\<close>) are not part of the repository: they are the fields of the record
  \<open>metalib\<close>, an argument of every definition that calls them, and what the code relies on
  is the locale \<open>metalib_laws\<close>. The API client is a parameter as well: a reconciler takes
  the answers to its reads and writes as functions and returns the writes it issued, in
  order, with its result.
\<close>

section \<open>API errors\<close>

text \<open>An error value carries the status reason the \<open>apierrors.Is...\<close> predicates test (they
  look through \<open>%w\<close> wrapping) and the text \<open>Error()\<close> prints.\<close>

datatype api_reason =
  NotFound | Conflict | AlreadyExists | Invalid | BadRequest | Forbidden | OtherReason

record go_error =
  eReason :: api_reason
  eText :: string

definition errorf :: "string \<Rightarrow> go_error" where
  "errorf msg = \<lparr>eReason = OtherReason, eText = msg\<rparr>"

definition wrap :: "string \<Rightarrow> go_error \<Rightarrow> go_error" where
  "wrap pre e = e\<lparr>eText := pre @ eText e\<rparr>"

definition IsReason :: "api_reason \<Rightarrow> go_error option \<Rightarrow> bool" where
  "IsReason r err \<longleftrightarrow> (case err of None \<Rightarrow> False | Some e \<Rightarrow> eReason e = r)"

definition IgnoreNotFound :: "go_error option \<Rightarrow> go_error option" where
  "IgnoreNotFound err = (if IsReason NotFound err then None else err)"

lemma IsReason_simps [simp]:
  "\<not> IsReason r None" "IsReason r (Some e) \<longleftrightarrow> eReason e = r"
  by (simp_all add: IsReason_def)

lemma IgnoreNotFound_simps [simp]:
  "IgnoreNotFound None = None"
  "IgnoreNotFound (Some e) = (if eReason e = NotFound then None else Some e)"
  by (simp_all add: IgnoreNotFound_def)

lemma wrap_simps [simp]: "eReason (wrap p e) = eReason e" "eText (wrap p e) = p @ eText e"
  by (simp_all add: wrap_def)

section \<open>Object metadata and conditions\<close>

record NamespacedName =
  nnNamespace :: string
  nnName :: string

record ObjectMeta =
  omNamespace :: string
  omName :: string
  omGeneration :: int
  omResourceVersion :: string
  omDeleting :: bool \<comment> \<open>\<open>DeletionTimestamp\<close> is set\<close>
  omFinalizers :: "string list"
  omAnnotations :: "string \<rightharpoonup> string"
  omLabels :: "string \<rightharpoonup> string"

definition meta0 :: "string \<Rightarrow> string \<Rightarrow> ObjectMeta" where
  "meta0 ns n = \<lparr>omNamespace = ns, omName = n, omGeneration = 0, omResourceVersion = '''',
     omDeleting = False, omFinalizers = [], omAnnotations = Map.empty, omLabels = Map.empty\<rparr>"

definition keyOf :: "ObjectMeta \<Rightarrow> NamespacedName" where
  "keyOf m = \<lparr>nnNamespace = omNamespace m, nnName = omName m\<rparr>"

datatype ConditionStatus = ConditionTrue | ConditionFalse | ConditionUnknown

record Condition =
  cType :: string
  cStatus :: ConditionStatus
  cReason :: string
  cMessage :: string
  cObservedGeneration :: int

section \<open>The library helpers\<close>

record metalib =
  SetStatusCondition :: "Condition list \<Rightarrow> Condition \<Rightarrow> Condition list"
  FindStatusCondition :: "Condition list \<Rightarrow> string \<Rightarrow> Condition option"
  IsStatusConditionTrue :: "Condition list \<Rightarrow> string \<Rightarrow> bool"
  AddFinalizer :: "ObjectMeta \<Rightarrow> string \<Rightarrow> ObjectMeta \<times> bool"
  ContainsFinalizer :: "ObjectMeta \<Rightarrow> string \<Rightarrow> bool"
  RemoveFinalizer :: "ObjectMeta \<Rightarrow> string \<Rightarrow> ObjectMeta"

text \<open>What the reconcilers rely on: a condition set is the one found under its type and no
  other type is touched; \<open>IsStatusConditionTrue\<close> reads the condition
  \<open>FindStatusCondition\<close> returns; the finalizer helpers add, test and remove one entry of
  the object's finalizers and leave the rest of the metadata alone, and \<open>AddFinalizer\<close>
  reports whether it changed the list.\<close>

locale metalib_laws =
  fixes lib :: metalib
  assumes find_nil: "FindStatusCondition lib [] t = None"
    and find_set: "FindStatusCondition lib (SetStatusCondition lib cs c) t =
           (if t = cType c then Some c else FindStatusCondition lib cs t)"
    and is_true: "IsStatusConditionTrue lib cs t \<longleftrightarrow>
           (\<exists>c. FindStatusCondition lib cs t = Some c \<and> cStatus c = ConditionTrue)"
    and contains: "ContainsFinalizer lib m f \<longleftrightarrow> f \<in> set (omFinalizers m)"
    and add_changed: "snd (AddFinalizer lib m f) \<longleftrightarrow> f \<notin> set (omFinalizers m)"
    and add_set: "set (omFinalizers (fst (AddFinalizer lib m f))) = insert f (set (omFinalizers m))"
    and add_rest: "(fst (AddFinalizer lib m f))\<lparr>omFinalizers := []\<rparr> = m\<lparr>omFinalizers := []\<rparr>"
    and remove_set: "set (omFinalizers (RemoveFinalizer lib m f)) = set (omFinalizers m) - {f}"
    and remove_rest: "(RemoveFinalizer lib m f)\<lparr>omFinalizers := []\<rparr> = m\<lparr>omFinalizers := []\<rparr>"
begin

lemma is_true_set:
  "IsStatusConditionTrue lib (SetStatusCondition lib cs c) t \<longleftrightarrow>
     (if t = cType c then cStatus c = ConditionTrue else IsStatusConditionTrue lib cs t)"
  by (simp add: is_true find_set)

lemma add_name: "omName (fst (AddFinalizer lib m f)) = omName m"
    "omNamespace (fst (AddFinalizer lib m f)) = omNamespace m"
    "omGeneration (fst (AddFinalizer lib m f)) = omGeneration m"
    "omResourceVersion (fst (AddFinalizer lib m f)) = omResourceVersion m"
    "omDeleting (fst (AddFinalizer lib m f)) = omDeleting m"
  using arg_cong[OF add_rest[of m f], of omName] arg_cong[OF add_rest[of m f], of omNamespace]
    arg_cong[OF add_rest[of m f], of omGeneration] arg_cong[OF add_rest[of m f], of omResourceVersion]
    arg_cong[OF add_rest[of m f], of omDeleting]
  by simp_all

lemma removed_rest: "omResourceVersion (RemoveFinalizer lib m f) = omResourceVersion m"
    "omName (RemoveFinalizer lib m f) = omName m" "omDeleting (RemoveFinalizer lib m f) = omDeleting m"
  using arg_cong[OF remove_rest[of m f], of omResourceVersion] arg_cong[OF remove_rest[of m f], of omName]
    arg_cong[OF remove_rest[of m f], of omDeleting]
  by simp_all

end

text \<open>A reference implementation of the documented behaviour.\<close>

fun setCond :: "Condition list \<Rightarrow> Condition \<Rightarrow> Condition list" where
  "setCond [] c = [c]"
| "setCond (x # xs) c = (if cType x = cType c then c # xs else x # setCond xs c)"

fun findCond :: "Condition list \<Rightarrow> string \<Rightarrow> Condition option" where
  "findCond [] t = None"
| "findCond (x # xs) t = (if cType x = t then Some x else findCond xs t)"

definition std_metalib :: metalib where
  "std_metalib =
    \<lparr>SetStatusCondition = setCond,
     FindStatusCondition = findCond,
     IsStatusConditionTrue =
       (\<lambda>cs t. case findCond cs t of None \<Rightarrow> False | Some c \<Rightarrow> cStatus c = ConditionTrue),
     AddFinalizer = (\<lambda>m f. if f \<in> set (omFinalizers m) then (m, False)
       else (m\<lparr>omFinalizers := omFinalizers m @ [f]\<rparr>, True)),
     ContainsFinalizer = (\<lambda>m f. f \<in> set (omFinalizers m)),
     RemoveFinalizer = (\<lambda>m f. m\<lparr>omFinalizers := filter (\<lambda>x. x \<noteq> f) (omFinalizers m)\<rparr>)\<rparr>"

lemma findCond_setCond:
  "findCond (setCond cs c) t = (if t = cType c then Some c else findCond cs t)"
  by (induction cs c rule: setCond.induct) auto

interpretation std: metalib_laws std_metalib
  by unfold_locales (auto simp: std_metalib_def findCond_setCond split: option.splits)

section \<open>Core and storage objects\<close>

text \<open>A \<open>resource.Quantity\<close> is represented by its \<open>Value()\<close>.\<close>

record NodeCondition =
  ncType :: string
  ncStatus :: ConditionStatus

record Node =
  nMeta :: ObjectMeta
  nConditions :: "NodeCondition list"

record Secret =
  secMeta :: ObjectMeta
  secData :: "string \<rightharpoonup> string"

record CSISource =
  csiDriver :: string
  csiVolumeHandle :: string

record PersistentVolume =
  pvMeta :: ObjectMeta
  pvCSI :: "CSISource option"
  pvClaimRef :: "NamespacedName option"

record PersistentVolumeClaim =
  pvcMeta :: ObjectMeta
  pvcVolumeName :: string
  pvcStorageClassName :: "string option"
  pvcVolumeMode :: "string option"

record StorageClass =
  sclMeta :: ObjectMeta
  sclProvisioner :: string
  sclParameters :: "string \<rightharpoonup> string"
  sclReclaimPolicy :: "string option"
  sclMountOptions :: "string list"
  sclAllowVolumeExpansion :: "bool option"
  sclVolumeBindingMode :: "string option"

section \<open>Results of a reconcile pass\<close>

text \<open>Durations are nanoseconds.\<close>

record ctrl_Result =
  RequeueAfter :: int

definition second :: int where
  "second = 1000000000"

definition no_requeue :: ctrl_Result where
  "no_requeue = \<lparr>RequeueAfter = 0\<rparr>"

definition requeue :: "int \<Rightarrow> ctrl_Result" where
  "requeue d = \<lparr>RequeueAfter = d\<rparr>"

text \<open>The writes a pass issued, its \<open>ctrl.Result\<close> and its error.\<close>

type_synonym 'w outcome = "'w list \<times> ctrl_Result \<times> go_error option"

abbreviation done_with :: "'w list \<Rightarrow> 'w outcome" where
  "done_with ws \<equiv> (ws, no_requeue, None)"

abbreviation fail_with :: "'w list \<Rightarrow> go_error option \<Rightarrow> 'w outcome" where
  "fail_with ws e \<equiv> (ws, no_requeue, e)"

end
