(* ===== verification/Api_Types.thy ===== *)
theory Api_Types
  imports K8s
begin

text \<open>
  The custom resources of \<open>operator/api/v1alpha1\<close> and the subset of the r-drbd API mirrored in
  \<open>operator/api/rdrbd/v1alpha1\<close>: one record per Go struct, with the names, classes and
  credential rules the operator, the agent and the server share.
\<close>

section \<open>Shared names (conditions.go)\<close>

abbreviation ConditionAvailable :: string where "ConditionAvailable \<equiv> ''Available''"
abbreviation ConditionHostReady :: string where "ConditionHostReady \<equiv> ''HostReady''"
abbreviation ConditionRegistered :: string where "ConditionRegistered \<equiv> ''Registered''"
abbreviation ConditionTornDown :: string where "ConditionTornDown \<equiv> ''TornDown''"
abbreviation ConditionDeregistered :: string where "ConditionDeregistered \<equiv> ''Deregistered''"

abbreviation ReasonReady :: string where "ReasonReady \<equiv> ''Ready''"
abbreviation ReasonInvalidSpec :: string where "ReasonInvalidSpec \<equiv> ''InvalidSpec''"
abbreviation ReasonWaitingForAgent :: string where "ReasonWaitingForAgent \<equiv> ''WaitingForAgent''"
abbreviation ReasonWaitingForVolume :: string where "ReasonWaitingForVolume \<equiv> ''WaitingForVolume''"
abbreviation ReasonHostError :: string where "ReasonHostError \<equiv> ''HostError''"
abbreviation ReasonWaitingForPool :: string where "ReasonWaitingForPool \<equiv> ''WaitingForPool''"
abbreviation ReasonBackendError :: string where "ReasonBackendError \<equiv> ''BackendError''"
abbreviation ReasonUnsupported :: string where "ReasonUnsupported \<equiv> ''Unsupported''"
abbreviation ReasonHostNotReady :: string where "ReasonHostNotReady \<equiv> ''HostNotReady''"

abbreviation DefaultTier :: string where "DefaultTier \<equiv> ''default''"
abbreviation LocalClass :: string where "LocalClass \<equiv> ''stornas-local''"
abbreviation ReplicatedClass :: string where "ReplicatedClass \<equiv> ''stornas-replicated''"
abbreviation TierClassLabel :: string where "TierClassLabel \<equiv> ''storage.stornas.io/tier''"
abbreviation PoolAnnotation :: string where "PoolAnnotation \<equiv> ''r-drbd.io/pool''"
abbreviation ThinLV :: string where "ThinLV \<equiv> ''thin''"
abbreviation IQNPrefix :: string where "IQNPrefix \<equiv> ''iqn.2026-08.io.stornas:''"
abbreviation ConsumerAnnotation :: string where
  "ConsumerAnnotation \<equiv> ''storage.stornas.io/consumer''"
abbreviation ConsumerHost :: string where "ConsumerHost \<equiv> ''host''"

definition TierClasses :: "string \<Rightarrow> string \<times> string" where
  "TierClasses tier =
     (if tier = '''' \<or> tier = DefaultTier then (LocalClass, ReplicatedClass)
      else (LocalClass @ ''-'' @ tier, ReplicatedClass @ ''-'' @ tier))"

definition MinDevices :: "string \<Rightarrow> int" where
  "MinDevices raid =
     (if raid = ''raid1'' then 2
      else if raid = ''raid5'' then 3
      else if raid = ''raid10'' then 4
      else 1)"

section \<open>StoragePool (storagepool_types.go)\<close>

record StoragePoolSpec =
  spsNode :: string
  spsDevices :: "string list"
  spsTier :: string
  spsRaid :: string
  spsThin :: "bool option"

record DeviceStatus =
  dsPath :: string
  dsSerial :: string
  dsSmart :: string
  dsState :: string

record StoragePoolStatus =
  spConditions :: "Condition list"
  spVG :: string
  spCapacity :: "int option"
  spFree :: "int option"
  spHealth :: string
  spDevices :: "DeviceStatus list"
  spRebuildPercent :: "int option"

record StoragePool =
  spMeta :: ObjectMeta
  spSpec :: StoragePoolSpec
  spStatus :: StoragePoolStatus

definition VGName :: "StoragePool \<Rightarrow> string" where
  "VGName p = ''stornas-'' @ omName (spMeta p)"

section \<open>Target (target\_types.go)\<close>

record LUN =
  lunID :: int
  lunClaimName :: string

record Initiator =
  iniIQN :: string
  iniChapSecretRef :: string

record TargetSpec =
  tsVIP :: string
  tsLUNs :: "LUN list"
  tsInitiators :: "Initiator list"

record LUNStatus =
  lsID :: int
  lsDevice :: string

record SecretVersion =
  svName :: string
  svResourceVersion :: string

record TargetStatus =
  ttConditions :: "Condition list"
  ttIQN :: string
  ttActiveNode :: string
  ttLUNs :: "LUNStatus list"
  ttChapSecretVersions :: "SecretVersion list"
  ttSessions :: int
  ttState :: string

record Target =
  tMeta :: ObjectMeta
  tSpec :: TargetSpec
  tStatus :: TargetStatus

text \<open>The CHAP pair a Secret's data holds; usable only when both keys are set.\<close>

definition ChapCredentials :: "(string \<rightharpoonup> string) \<Rightarrow> string \<times> string \<times> bool" where
  "ChapCredentials data =
     (let user = mget data ''username''; password = mget data ''password''
      in (user, password, user \<noteq> '''' \<and> password \<noteq> ''''))"

section \<open>Share (share\_types.go)\<close>

record NFSExport =
  nfsClients :: "string list"

record SMBExport =
  smbName :: string
  smbValidUsers :: "string list"

record ShareSpec =
  ssClaimName :: string
  ssNFS :: "NFSExport option"
  ssSMB :: "SMBExport option"

record ShareStatus =
  shConditions :: "Condition list"
  shNode :: string
  shDevice :: string
  shState :: string

record Share =
  shMeta :: ObjectMeta
  shSpec :: ShareSpec
  shStatus :: ShareStatus

section \<open>LocalUser (localuser\_types.go)\<close>

record LocalUserSpec =
  luRole :: string
  luSMB :: bool
  luPasswordSecretRef :: string

record LocalUserStatus =
  luConditions :: "Condition list"
  luPasswordSecretVersion :: string

record LocalUser =
  luMeta :: ObjectMeta
  luSpec :: LocalUserSpec
  luStatus :: LocalUserStatus

definition LocalUserPassword :: "(string \<rightharpoonup> string) \<Rightarrow> string \<times> bool" where
  "LocalUserPassword data =
     (let password = mget data ''password'' in (password, password \<noteq> ''''))"

section \<open>NodeInventory (nodeinventory\_types.go)\<close>

text \<open>The agent always sets a disk's size, so it is not optional here.\<close>

record Disk =
  dkPath :: string
  dkModel :: string
  dkSerial :: string
  dkSize :: int
  dkRotational :: bool
  dkClaimed :: bool
  dkSmart :: string
  dkTempCelsius :: "int option"
  dkPowerOnHours :: "int option"

record NodeInventory =
  niMeta :: ObjectMeta
  niDisks :: "Disk list"
  niObservedAt :: "int option"

section \<open>The r-drbd API (api/rdrbd/v1alpha1)\<close>

abbreviation Driver :: string where "Driver \<equiv> ''r-drbd.io''"
abbreviation ParamTier :: string where "ParamTier \<equiv> ''tier''"
abbreviation ConditionSplitBrain :: string where "ConditionSplitBrain \<equiv> ''SplitBrain''"

record PoolSpec =
  psNode :: string
  psTier :: string
  psVG :: string
  psThinPool :: string
  psOvercommitPercent :: "int option"
  psReservePercent :: "int option"

record PoolStatus =
  ptTotalBytes :: "int option"
  ptFreeBytes :: "int option"
  ptVolumes :: "string list"
  ptCommittedBytes :: "int option"
  ptPlaceableBytes :: "int option"
  ptConditions :: "Condition list"

record Pool =
  plMeta :: ObjectMeta
  plSpec :: PoolSpec
  plStatus :: PoolStatus

abbreviation RoleDiskful :: string where "RoleDiskful \<equiv> ''diskful''"
abbreviation RoleDiskless :: string where "RoleDiskless \<equiv> ''diskless''"
abbreviation RoleTiebreaker :: string where "RoleTiebreaker \<equiv> ''tiebreaker''"

record AssignedReplica =
  arNode :: string
  arPool :: string
  arNodeID :: int
  arRole :: string

record VolumeSpec =
  vsSizeBytes :: int
  vsReplicas :: int
  vsTier :: string
  vsPool :: string
  vsNode :: string
  vsResolve :: "string option" \<comment> \<open>\<open>Resolve.Survivor\<close>\<close>
  vsAssignment :: "AssignedReplica list option" \<comment> \<open>\<open>Assignment.Replicas\<close>\<close>

record ReplicaStatus =
  rsNode :: string
  rsPresent :: bool
  rsDiskState :: string
  rsSyncPercent :: "int option"
  rsPeers :: "string \<rightharpoonup> string"
  rsInUse :: bool
  rsQuorum :: "bool option"
  rsDevicePath :: string

record VolumeStatus =
  vtPhase :: string
  vtConditions :: "Condition list"
  vtPrimary :: string
  vtReplicas :: "ReplicaStatus list"

record Volume =
  vMeta :: ObjectMeta
  vSpec :: VolumeSpec
  vStatus :: VolumeStatus

definition Diskful :: "Volume \<Rightarrow> string \<Rightarrow> bool" where
  "Diskful v node =
     (case vsAssignment (vSpec v) of
        None \<Rightarrow> False
      | Some rs \<Rightarrow> list_ex (\<lambda>r. arNode r = node \<and> arRole r = RoleDiskful) rs)"

section \<open>Names of storage classes\<close>

text \<open>\<open>replicated\<close> of \<open>internal/api/api.go\<close>: the shipped class and every tier's clone of it.\<close>

definition replicated :: "string \<Rightarrow> bool" where
  "replicated cls \<longleftrightarrow> cls = ReplicatedClass \<or> hasPrefix cls (ReplicatedClass @ ''-'')"

definition tier_or_default :: "string \<Rightarrow> string" where
  "tier_or_default t = (if t = '''' then DefaultTier else t)"

lemma TierClasses_norm: "TierClasses (tier_or_default t) = TierClasses t"
  by (simp add: TierClasses_def tier_or_default_def)

lemma TierClasses_neq: "fst (TierClasses s) \<noteq> snd (TierClasses t)"
  by (simp add: TierClasses_def)

lemma TierClasses_inj:
  "TierClasses s = TierClasses t \<longleftrightarrow> tier_or_default s = tier_or_default t"
  "fst (TierClasses s) = fst (TierClasses t) \<longleftrightarrow> tier_or_default s = tier_or_default t"
  "snd (TierClasses s) = snd (TierClasses t) \<longleftrightarrow> tier_or_default s = tier_or_default t"
  by (auto simp: TierClasses_def tier_or_default_def)

lemma replicated_TierClasses:
  "replicated (snd (TierClasses t))" "\<not> replicated (fst (TierClasses t))"
  by (auto simp: TierClasses_def replicated_def hasPrefix_def)

section \<open>Zero values\<close>

definition volume0 :: "string \<Rightarrow> Volume" where
  "volume0 n = \<lparr>vMeta = meta0 '''' n,
     vSpec = \<lparr>vsSizeBytes = 0, vsReplicas = 1, vsTier = '''', vsPool = '''', vsNode = '''',
              vsResolve = None, vsAssignment = None\<rparr>,
     vStatus = \<lparr>vtPhase = '''', vtConditions = [], vtPrimary = '''', vtReplicas = []\<rparr>\<rparr>"

definition replica0 :: "string \<Rightarrow> string \<Rightarrow> ReplicaStatus" where
  "replica0 n dev = \<lparr>rsNode = n, rsPresent = True, rsDiskState = ''UpToDate'', rsSyncPercent = None,
     rsPeers = Map.empty, rsInUse = False, rsQuorum = None, rsDevicePath = dev\<rparr>"

definition diskful0 :: "string \<Rightarrow> AssignedReplica" where
  "diskful0 n = \<lparr>arNode = n, arPool = '''', arNodeID = 0, arRole = RoleDiskful\<rparr>"

definition target0 :: "string \<Rightarrow> string \<Rightarrow> Target" where
  "target0 ns n = \<lparr>tMeta = meta0 ns n,
     tSpec = \<lparr>tsVIP = '''', tsLUNs = [], tsInitiators = []\<rparr>,
     tStatus = \<lparr>ttConditions = [], ttIQN = '''', ttActiveNode = '''', ttLUNs = [],
       ttChapSecretVersions = [], ttSessions = 0, ttState = ''''\<rparr>\<rparr>"

definition share0 :: "string \<Rightarrow> string \<Rightarrow> Share" where
  "share0 ns n = \<lparr>shMeta = meta0 ns n,
     shSpec = \<lparr>ssClaimName = '''', ssNFS = None, ssSMB = None\<rparr>,
     shStatus = \<lparr>shConditions = [], shNode = '''', shDevice = '''', shState = ''''\<rparr>\<rparr>"

definition pool0 :: "string \<Rightarrow> StoragePool" where
  "pool0 n = \<lparr>spMeta = meta0 '''' n,
     spSpec = \<lparr>spsNode = '''', spsDevices = [], spsTier = DefaultTier, spsRaid = ''none'', spsThin = None\<rparr>,
     spStatus = \<lparr>spConditions = [], spVG = '''', spCapacity = None, spFree = None, spHealth = '''',
       spDevices = [], spRebuildPercent = None\<rparr>\<rparr>"

lemmas zero_defs = meta0_def volume0_def replica0_def diskful0_def target0_def share0_def pool0_def

end
