(* ===== verification/Placement.thy ===== *)
theory Placement
  imports Api_Types
begin

text \<open>
  \<open>ResolvePlacement\<close> of \<open>operator/internal/rdrbd/resolver.go\<close>: which node serves an r-drbd Volume
  and which block device is opened there.
\<close>

section \<open>The resolver\<close>

record candidate =
  cdNode :: string
  cdDevice :: string
  cdInUse :: bool
  cdUpToDate :: bool

text \<open>The first loop: the replicas that can serve at all.\<close>

definition servable :: "Volume \<Rightarrow> ReplicaStatus \<Rightarrow> bool" where
  "servable v r \<longleftrightarrow> \<not> (\<not> rsPresent r \<or> rsDevicePath r = '''' \<or> \<not> Diskful v (rsNode r))"

definition candidates :: "Volume \<Rightarrow> candidate list" where
  "candidates v =
     map (\<lambda>r. \<lparr>cdNode = rsNode r, cdDevice = rsDevicePath r,
               cdInUse = rsInUse r \<or> vtPrimary (vStatus v) = rsNode r,
               cdUpToDate = rsDiskState r = ''UpToDate''\<rparr>)
       (filter (servable v) (vtReplicas (vStatus v)))"

text \<open>The second loop: diskful copies in the assignment.\<close>

definition replica_count :: "Volume \<Rightarrow> int" where
  "replica_count v =
     (case vsAssignment (vSpec v) of
        None \<Rightarrow> 0
      | Some rs \<Rightarrow> int (length (filter (\<lambda>a. arRole a = RoleDiskful) rs)))"

definition score :: "string \<Rightarrow> candidate \<Rightarrow> int" where
  "score pref c =
     (let s = (if cdUpToDate c then 4 else 0)
      in if cdInUse c then s + 2 else if cdNode c = pref then s + 1 else s)"

text \<open>The pick loop keeps an index into \<open>all\<close>, \<open>-1\<close> for none yet; the model keeps the
  candidate it points at.\<close>

fun pick_loop :: "string \<Rightarrow> (string \<Rightarrow> bool) \<Rightarrow> candidate option \<Rightarrow> candidate list \<Rightarrow> candidate option" where
  "pick_loop pref avoid pick [] = pick"
| "pick_loop pref avoid pick (c # cs) =
     (if avoid (cdNode c) then pick_loop pref avoid pick cs
      else pick_loop pref avoid
        (case pick of
           None \<Rightarrow> Some c
         | Some p \<Rightarrow> if score pref c > score pref p then Some c else Some p) cs)"

record placement =
  plcNode :: string
  plcDevice :: string
  plcReplicas :: int
  plcErr :: "go_error option"

definition ResolvePlacement :: "Volume \<Rightarrow> string \<Rightarrow> (string \<Rightarrow> bool) \<Rightarrow> placement" where
  "ResolvePlacement v pref avoid =
     (case pick_loop pref avoid None (candidates v) of
        None \<Rightarrow> \<lparr>plcNode = '''', plcDevice = '''', plcReplicas = replica_count v,
                 plcErr = Some (errorf (''volume '' @ omName (vMeta v) @
                   '' has no healthy diskful replica with a device''))\<rparr>
      | Some c \<Rightarrow> \<lparr>plcNode = cdNode c, plcDevice = cdDevice c, plcReplicas = replica_count v,
                   plcErr = None\<rparr>)"

section \<open>The pick loop is a first maximum\<close>

lemma pick_loop_filter:
  "pick_loop pref avoid p cs =
     pick_best (\<lambda>c d. score pref c > score pref d) p (filter (\<lambda>c. \<not> avoid (cdNode c)) cs)"
  by (induction pref avoid p cs rule: pick_loop.induct) auto

text \<open>\<open>first_max f xs\<close>: no element has a larger \<open>f\<close>, and every element before it has a smaller
  one.\<close>

definition first_max :: "('a \<Rightarrow> int) \<Rightarrow> 'a list \<Rightarrow> 'a \<Rightarrow> bool" where
  "first_max f xs x \<longleftrightarrow>
     (\<exists>ys zs. xs = ys @ x # zs \<and> (\<forall>y \<in> set ys. f y < f x) \<and> (\<forall>z \<in> set zs. f z \<le> f x))"

lemma first_maxI:
  "xs = ys @ x # zs \<Longrightarrow> \<forall>y \<in> set ys. f y < f x \<Longrightarrow> \<forall>z \<in> set zs. f z \<le> f x \<Longrightarrow> first_max f xs x"
  unfolding first_max_def by blast

lemma first_maxD: "first_max f xs x \<Longrightarrow> y \<in> set xs \<Longrightarrow> f y \<le> f x"
  by (auto simp: first_max_def order.strict_implies_order)

lemma first_max_mem: "first_max f xs x \<Longrightarrow> x \<in> set xs"
  by (auto simp: first_max_def)

lemma first_max_snoc:
  "first_max f xs x \<Longrightarrow> first_max f (xs @ [y]) (if f y > f x then y else x)"
proof (cases "f y > f x")
  case True
  assume "first_max f xs x"
  then have "\<forall>z \<in> set xs. f z < f y"
    using True by (auto dest: first_maxD)
  then show ?thesis
    using True by (simp add: first_maxI[of _ xs y "[]"])
next
  case False
  assume "first_max f xs x"
  then obtain ys zs where "xs = ys @ x # zs" "\<forall>y \<in> set ys. f y < f x" "\<forall>z \<in> set zs. f z \<le> f x"
    by (auto simp: first_max_def)
  then show ?thesis
    using False by (auto intro!: first_maxI[of _ ys x "zs @ [y]"])
qed

lemma pick_best_first_max_aux:
  assumes "first_max f ps p"
  shows "\<exists>x. pick_best (\<lambda>c d. f c > f d) (Some p) xs = Some x \<and> first_max f (ps @ xs) x"
  using assms
proof (induction xs arbitrary: ps p)
  case Nil
  then show ?case by simp
next
  case (Cons y ys)
  from first_max_snoc[OF Cons.prems, of y] have "first_max f (ps @ [y]) (if f p < f y then y else p)" .
  from Cons.IH[OF this] show ?case by (cases "f p < f y") simp_all
qed

lemma pick_best_first_max:
  assumes "xs \<noteq> []"
  shows "\<exists>x. pick_best (\<lambda>c d. f c > f d) None xs = Some x \<and> first_max f xs x"
proof (cases xs)
  case Nil
  with assms show ?thesis by simp
next
  case (Cons y ys)
  have "first_max f [y] y" by (rule first_maxI[of _ "[]" _ "[]"]) simp_all
  from pick_best_first_max_aux[OF this, of ys] Cons show ?thesis by simp
qed

lemma first_max_unique:
  assumes "first_max f xs x" and "first_max f xs y"
  shows "x = y"
proof -
  from assms(1) obtain a b where x: "xs = a @ x # b" "\<forall>z \<in> set a. f z < f x" "\<forall>z \<in> set b. f z \<le> f x"
    by (auto simp: first_max_def)
  from assms(2) obtain c d where y: "xs = c @ y # d" "\<forall>z \<in> set c. f z < f y" "\<forall>z \<in> set d. f z \<le> f y"
    by (auto simp: first_max_def)
  have "f x = f y"
    using assms by (meson antisym first_maxD first_max_mem)
  have "x \<notin> set c" "y \<notin> set a"
    using x(2) y(2) \<open>f x = f y\<close> by auto
  from x(1) y(1) have "a @ x # b = c @ y # d" by simp
  then obtain us where "a @ us = c \<and> x # b = us @ y # d \<or> a = c @ us \<and> us @ x # b = y # d"
    by (auto simp: append_eq_append_conv2)
  then show ?thesis
  proof
    assume "a @ us = c \<and> x # b = us @ y # d"
    with \<open>x \<notin> set c\<close> show ?thesis by (cases us) auto
  next
    assume "a = c @ us \<and> us @ x # b = y # d"
    with \<open>y \<notin> set a\<close> show ?thesis by (cases us) auto
  qed
qed

text \<open>The nodes placement may use: servable replicas off the avoided nodes.\<close>

definition eligible :: "Volume \<Rightarrow> (string \<Rightarrow> bool) \<Rightarrow> candidate list" where
  "eligible v avoid = filter (\<lambda>c. \<not> avoid (cdNode c)) (candidates v)"

lemma ResolvePlacement_cases:
  obtains (none) "eligible v avoid = []"
      and "plcErr (ResolvePlacement v pref avoid) \<noteq> None"
      and "plcNode (ResolvePlacement v pref avoid) = ''''"
  | (some) c where "first_max (score pref) (eligible v avoid) c"
      and "ResolvePlacement v pref avoid =
             \<lparr>plcNode = cdNode c, plcDevice = cdDevice c, plcReplicas = replica_count v, plcErr = None\<rparr>"
proof (cases "eligible v avoid = []")
  case True
  then show ?thesis
    by (intro none) (simp_all add: ResolvePlacement_def pick_loop_filter eligible_def)
next
  case False
  from pick_best_first_max[OF False, of "score pref"] obtain c where
    "pick_best (\<lambda>c d. score pref c > score pref d) None (eligible v avoid) = Some c"
    "first_max (score pref) (eligible v avoid) c"
    by blast
  then show ?thesis
    by (intro some[of c]) (simp_all add: ResolvePlacement_def pick_loop_filter eligible_def)
qed

lemma eligible_iff:
  "c \<in> set (eligible v avoid) \<longleftrightarrow>
     (\<exists>r \<in> set (vtReplicas (vStatus v)).
        rsPresent r \<and> rsDevicePath r \<noteq> '''' \<and> Diskful v (rsNode r) \<and> \<not> avoid (rsNode r) \<and>
        c = \<lparr>cdNode = rsNode r, cdDevice = rsDevicePath r,
             cdInUse = rsInUse r \<or> vtPrimary (vStatus v) = rsNode r,
             cdUpToDate = rsDiskState r = ''UpToDate''\<rparr>)"
  by (auto simp: eligible_def candidates_def servable_def)

lemma score_bounds: "0 \<le> score p c" "score p c \<le> 6" "cdUpToDate c \<longleftrightarrow> 4 \<le> score p c"
  by (auto simp: score_def Let_def)

section \<open>The order placement follows\<close>

text \<open>Abstract specification, free of the score arithmetic: a replica outranks another when it
  is UpToDate and the other is not, or, at equal data quality, when it is in use and the other
  is not, or when neither is in use and only it sits on the preferred node.\<close>

definition uptodate :: "ReplicaStatus \<Rightarrow> bool" where
  "uptodate r \<longleftrightarrow> rsDiskState r = ''UpToDate''"

definition in_use :: "Volume \<Rightarrow> ReplicaStatus \<Rightarrow> bool" where
  "in_use v r \<longleftrightarrow> rsInUse r \<or> vtPrimary (vStatus v) = rsNode r"

definition may_serve :: "Volume \<Rightarrow> (string \<Rightarrow> bool) \<Rightarrow> ReplicaStatus \<Rightarrow> bool" where
  "may_serve v avoid r \<longleftrightarrow>
     rsPresent r \<and> rsDevicePath r \<noteq> '''' \<and> Diskful v (rsNode r) \<and> \<not> avoid (rsNode r)"

definition outranks :: "Volume \<Rightarrow> string \<Rightarrow> ReplicaStatus \<Rightarrow> ReplicaStatus \<Rightarrow> bool" where
  "outranks v pref r r' \<longleftrightarrow>
     uptodate r \<and> \<not> uptodate r' \<or>
     uptodate r = uptodate r' \<and>
       (in_use v r \<and> \<not> in_use v r' \<or>
        \<not> in_use v r \<and> \<not> in_use v r' \<and> rsNode r = pref \<and> rsNode r' \<noteq> pref)"

definition cand_of :: "Volume \<Rightarrow> ReplicaStatus \<Rightarrow> candidate" where
  "cand_of v r = \<lparr>cdNode = rsNode r, cdDevice = rsDevicePath r, cdInUse = in_use v r,
                  cdUpToDate = uptodate r\<rparr>"

lemma outranks_score: "outranks v pref r r' \<longleftrightarrow> score pref (cand_of v r') < score pref (cand_of v r)"
  by (auto simp: outranks_def score_def cand_of_def)

lemma eligible_map:
  "eligible v avoid = map (cand_of v) (filter (may_serve v avoid) (vtReplicas (vStatus v)))"
  by (simp add: eligible_def candidates_def filter_map servable_def may_serve_def cand_of_def
      in_use_def uptodate_def o_def conj_ac cong: filter_cong)

lemma first_max_map:
  assumes "first_max f (map g xs) c"
  shows "\<exists>ys x zs. xs = ys @ x # zs \<and> c = g x \<and> (\<forall>y \<in> set ys. f (g y) < f (g x)) \<and>
           (\<forall>z \<in> set zs. f (g z) \<le> f (g x))"
proof -
  from assms obtain as bs where "map g xs = as @ c # bs" and a: "\<forall>y \<in> set as. f y < f c"
    and b: "\<forall>z \<in> set bs. f z \<le> f c"
    by (auto simp: first_max_def)
  then obtain ys x zs where "xs = ys @ x # zs" "map g ys = as" "g x = c" "map g zs = bs"
    by (auto simp: map_eq_append_conv map_eq_Cons_conv)
  with a b show ?thesis by (intro exI[of _ ys] exI[of _ x] exI[of _ zs]) auto
qed

lemma ResolvePlacement_first:
  assumes "plcErr (ResolvePlacement v pref avoid) = None"
  shows "\<exists>ys r zs. filter (may_serve v avoid) (vtReplicas (vStatus v)) = ys @ r # zs \<and>
           plcNode (ResolvePlacement v pref avoid) = rsNode r \<and>
           plcDevice (ResolvePlacement v pref avoid) = rsDevicePath r \<and>
           (\<forall>y \<in> set ys. outranks v pref r y) \<and> (\<forall>z \<in> set zs. \<not> outranks v pref z r)"
proof (cases rule: ResolvePlacement_cases[of v avoid pref])
  case none
  with assms show ?thesis by simp
next
  case (some c)
  then have "first_max (score pref) (map (cand_of v) (filter (may_serve v avoid) (vtReplicas (vStatus v)))) c"
    by (simp add: eligible_map)
  from first_max_map[OF this] obtain ys r zs where
    "filter (may_serve v avoid) (vtReplicas (vStatus v)) = ys @ r # zs" "c = cand_of v r"
    "\<forall>y \<in> set ys. score pref (cand_of v y) < score pref (cand_of v r)"
    "\<forall>z \<in> set zs. score pref (cand_of v z) \<le> score pref (cand_of v r)"
    by blast
  with some(2) show ?thesis
    by (intro exI[of _ ys] exI[of _ r] exI[of _ zs])
       (auto simp: outranks_score cand_of_def not_less)
qed

section \<open>The contract of the resolver\<close>

text \<open>What the reconcilers rely on: a successful answer names a replica that may serve, and
  there is an answer whenever one may.\<close>

locale placement_contract =
  fixes resolve :: "Volume \<Rightarrow> string \<Rightarrow> (string \<Rightarrow> bool) \<Rightarrow> placement"
  assumes sound: "plcErr (resolve v pref avoid) = None \<Longrightarrow>
      \<exists>r \<in> set (vtReplicas (vStatus v)). may_serve v avoid r \<and>
        plcNode (resolve v pref avoid) = rsNode r \<and> plcDevice (resolve v pref avoid) = rsDevicePath r"
    and complete: "\<exists>r \<in> set (vtReplicas (vStatus v)). may_serve v avoid r \<Longrightarrow>
      plcErr (resolve v pref avoid) = None"
    and sticky: "plcErr (resolve v pref avoid) = None \<Longrightarrow>
      plcNode (resolve v (plcNode (resolve v pref avoid)) avoid) = plcNode (resolve v pref avoid)"
begin

lemma not_avoided: "plcErr (resolve v pref avoid) = None \<Longrightarrow> \<not> avoid (plcNode (resolve v pref avoid))"
  using sound[of v pref avoid] by (auto simp: may_serve_def)

lemma device_nonempty: "plcErr (resolve v pref avoid) = None \<Longrightarrow> plcDevice (resolve v pref avoid) \<noteq> ''''"
  using sound[of v pref avoid] by (auto simp: may_serve_def)

lemma diskful: "plcErr (resolve v pref avoid) = None \<Longrightarrow> Diskful v (plcNode (resolve v pref avoid))"
  using sound[of v pref avoid] by (auto simp: may_serve_def)

lemma err_iff: "plcErr (resolve v pref avoid) = None \<longleftrightarrow>
    (\<exists>r \<in> set (vtReplicas (vStatus v)). may_serve v avoid r)"
  using sound complete by blast

text \<open>Losing the serving node (it joins the avoided set) moves the placement off it, as long as
  another replica may serve.\<close>

lemma failover:
  assumes "\<exists>r \<in> set (vtReplicas (vStatus v)). may_serve v (avoid(n := True)) r"
  shows "plcErr (resolve v n (avoid(n := True))) = None"
    and "plcNode (resolve v n (avoid(n := True))) \<noteq> n"
  using complete[OF assms, of n] not_avoided[of v n "avoid(n := True)"] by auto

end

lemma split_before:
  assumes "ys @ c # zs = as @ d # bs" and "d \<notin> set ys" and "d \<noteq> c"
  shows "c \<in> set as"
proof -
  from assms(1) obtain us where "ys @ us = as \<and> c # zs = us @ d # bs \<or> ys = as @ us \<and> us @ c # zs = d # bs"
    by (auto simp: append_eq_append_conv2)
  with assms(2,3) show ?thesis by (cases us) auto
qed

lemma resolve_sticky_aux:
  assumes c: "first_max (score pref) xs c" and d: "first_max (score (cdNode c)) xs d"
  shows "cdNode d = cdNode c"
proof (rule ccontr)
  assume ne: "cdNode d \<noteq> cdNode c"
  from c obtain ys zs where xs: "xs = ys @ c # zs" and ys: "\<forall>y \<in> set ys. score pref y < score pref c"
    by (auto simp: first_max_def)
  from d obtain as bs where xs': "xs = as @ d # bs"
    and as: "\<forall>y \<in> set as. score (cdNode c) y < score (cdNode c) d"
    by (auto simp: first_max_def)
  have le: "score (cdNode c) d \<le> score pref d" using ne by (simp add: score_def)
  have ge: "score pref c \<le> score (cdNode c) c" by (simp add: score_def)
  have cd: "score (cdNode c) c \<le> score (cdNode c) d" and dc: "score pref d \<le> score pref c"
    using first_maxD[OF d first_max_mem[OF c]] first_maxD[OF c first_max_mem[OF d]] by simp_all
  have "d \<notin> set ys" using ys le ge cd by auto
  moreover have "d \<noteq> c" using ne by auto
  ultimately have "c \<in> set as" using split_before xs xs' by metis
  then have "score (cdNode c) c < score (cdNode c) d" using as by blast
  with le ge dc show False by simp
qed

lemma resolve_sticky:
  assumes "plcErr (ResolvePlacement v pref avoid) = None"
  shows "plcNode (ResolvePlacement v (plcNode (ResolvePlacement v pref avoid)) avoid) =
           plcNode (ResolvePlacement v pref avoid)"
proof (cases rule: ResolvePlacement_cases[of v avoid pref])
  case none
  with assms show ?thesis by simp
next
  case (some c)
  show ?thesis
  proof (cases rule: ResolvePlacement_cases[of v avoid "cdNode c"])
    case none
    with some(1) show ?thesis by (auto simp: first_max_def)
  next
    case inner: (some e)
    with resolve_sticky_aux[OF some(1)] have "cdNode e = cdNode c" by blast
    with inner(2) some(2) show ?thesis by simp
  qed
qed

interpretation rp: placement_contract ResolvePlacement
proof
  fix v pref avoid
  assume "plcErr (ResolvePlacement v pref avoid) = None"
  from ResolvePlacement_first[OF this] obtain ys r zs where
    r: "filter (may_serve v avoid) (vtReplicas (vStatus v)) = ys @ r # zs"
    "plcNode (ResolvePlacement v pref avoid) = rsNode r"
    "plcDevice (ResolvePlacement v pref avoid) = rsDevicePath r" by blast
  from arg_cong[OF r(1), of set] have "r \<in> set (vtReplicas (vStatus v))" "may_serve v avoid r" by auto
  with r show "\<exists>r \<in> set (vtReplicas (vStatus v)). may_serve v avoid r \<and>
      plcNode (ResolvePlacement v pref avoid) = rsNode r \<and> plcDevice (ResolvePlacement v pref avoid) = rsDevicePath r"
    by blast
next
  fix v avoid pref
  assume "\<exists>r \<in> set (vtReplicas (vStatus v)). may_serve v avoid r"
  then have "eligible v avoid \<noteq> []" by (auto simp: eligible_map filter_empty_conv)
  then show "plcErr (ResolvePlacement v pref avoid) = None"
    by (cases rule: ResolvePlacement_cases[of v avoid pref]) auto
next
  fix v pref avoid
  assume "plcErr (ResolvePlacement v pref avoid) = None"
  then show "plcNode (ResolvePlacement v (plcNode (ResolvePlacement v pref avoid)) avoid) =
      plcNode (ResolvePlacement v pref avoid)"
    by (rule resolve_sticky)
qed

section \<open>Properties\<close>

text \<open>\<^bold>\<open>C8\<close>. The resolver implements the placement order: it answers exactly when some present, diskful
  replica with a device sits on a node that is not avoided, and then it names the first such
  replica, in status order, that no other one outranks.\<close>

theorem placement_refines_order:
  "(plcErr (ResolvePlacement v pref avoid) = None \<longleftrightarrow>
      (\<exists>r \<in> set (vtReplicas (vStatus v)). may_serve v avoid r)) \<and>
   (plcErr (ResolvePlacement v pref avoid) = None \<longrightarrow>
      (\<exists>ys r zs. filter (may_serve v avoid) (vtReplicas (vStatus v)) = ys @ r # zs \<and>
         plcNode (ResolvePlacement v pref avoid) = rsNode r \<and>
         plcDevice (ResolvePlacement v pref avoid) = rsDevicePath r \<and>
         (\<forall>y \<in> set ys. outranks v pref r y) \<and> (\<forall>z \<in> set zs. \<not> outranks v pref z r)))"
  using rp.err_iff ResolvePlacement_first by blast

definition two_replicas :: Volume where
  "two_replicas = (volume0 ''v'')\<lparr>
     vSpec := (vSpec (volume0 ''v''))\<lparr>vsAssignment := Some [diskful0 ''a'', diskful0 ''b'']\<rparr>,
     vStatus := (vStatus (volume0 ''v''))\<lparr>vtReplicas :=
       [(replica0 ''a'' ''/dev/drbd7'')\<lparr>rsDiskState := ''Outdated'', rsInUse := True\<rparr>,
        replica0 ''b'' ''/dev/drbd7'']\<rparr>\<rparr>"

lemma two_replicas_placed:
  "ResolvePlacement two_replicas ''a'' (\<lambda>_. False) =
     \<lparr>plcNode = ''b'', plcDevice = ''/dev/drbd7'', plcReplicas = 2, plcErr = None\<rparr>"
  by code_simp

theorem placement_refines_order_witness:
  "\<exists>ys r zs. filter (may_serve two_replicas (\<lambda>_. False)) (vtReplicas (vStatus two_replicas)) = ys @ r # zs \<and>
     rsNode r = ''b'' \<and> (\<forall>y \<in> set ys. outranks two_replicas ''a'' r y)"
proof -
  from placement_refines_order[of two_replicas "''a''" "\<lambda>_. False"] obtain ys r zs where
    "filter (may_serve two_replicas (\<lambda>_. False)) (vtReplicas (vStatus two_replicas)) = ys @ r # zs"
    "''b'' = rsNode r" "\<forall>y \<in> set ys. outranks two_replicas ''a'' r y"
    by (auto simp: two_replicas_placed)
  then show ?thesis by metis
qed

text \<open>Placement is sticky: asked again with the node it chose as the preferred one, it
  chooses that node again, so a reconcile loop that records the answer does not flap.\<close>

theorem placement_sticky:
  assumes "plcErr (ResolvePlacement v pref avoid) = None"
  shows "plcNode (ResolvePlacement v (plcNode (ResolvePlacement v pref avoid)) avoid) =
           plcNode (ResolvePlacement v pref avoid)"
  by (rule rp.sticky[OF assms])

theorem placement_sticky_witness:
  "plcNode (ResolvePlacement two_replicas ''b'' (\<lambda>_. False)) = ''b''"
  using placement_sticky[of two_replicas "''a''" "\<lambda>_. False"] by (simp add: two_replicas_placed)



end
