(* ===== verification/Cluster.thy ===== *)
theory Cluster
  imports Placement
begin

text \<open>
  The operator's view of the API server and the helpers its reconcilers share:
  \<open>controller/claim.go\<close> (claim to Volume and back, the serving key the Volume watch filters
  on) and \<open>controller/nodes.go\<close> (node readiness).

  The controller-runtime client is the record \<open>kclient\<close>: one function per call the sources
  make, giving the error or the object the server answers with. A pass of a reconciler reads
  from one such value, so two identical reads in a pass agree; what it writes is returned to
  the caller as a list.
\<close>

section \<open>The client\<close>

record kclient =
  GetPVC :: "NamespacedName \<Rightarrow> go_error + PersistentVolumeClaim"
  GetPV :: "string \<Rightarrow> go_error + PersistentVolume"
  GetVolume :: "string \<Rightarrow> go_error + Volume"
  GetNode :: "string \<Rightarrow> go_error + Node"
  ListNodes :: "go_error + Node list"
  GetSecret :: "NamespacedName \<Rightarrow> go_error + Secret"
  GetTarget :: "NamespacedName \<Rightarrow> go_error + Target"
  ListTargets :: "string option \<Rightarrow> go_error + Target list" \<comment> \<open>\<open>InNamespace\<close> when given\<close>
  UpdateTarget :: "Target \<Rightarrow> go_error + Target"
  UpdateTargetStatus :: "Target \<Rightarrow> go_error + Target"
  GetShare :: "NamespacedName \<Rightarrow> go_error + Share"
  ListShares :: "string option \<Rightarrow> go_error + Share list"
  UpdateShare :: "Share \<Rightarrow> go_error + Share"
  UpdateShareStatus :: "Share \<Rightarrow> go_error + Share"
  GetStoragePool :: "string \<Rightarrow> go_error + StoragePool"
  ListStoragePools :: "go_error + StoragePool list"
  UpdateStoragePool :: "StoragePool \<Rightarrow> go_error + StoragePool"
  UpdateStoragePoolStatus :: "StoragePool \<Rightarrow> go_error + StoragePool"
  GetPool :: "string \<Rightarrow> go_error + Pool"
  CreatePool :: "Pool \<Rightarrow> go_error option"
  RemovePool :: "Pool \<Rightarrow> go_error option"
  GetLocalUser :: "NamespacedName \<Rightarrow> go_error + LocalUser"
  ListLocalUsers :: "string option \<Rightarrow> go_error + LocalUser list"
  UpdateLocalUserStatus :: "LocalUser \<Rightarrow> go_error + LocalUser"
  ListPVCs :: "go_error + PersistentVolumeClaim list"
  PatchPVC :: "PersistentVolumeClaim \<Rightarrow> PersistentVolumeClaim \<Rightarrow> go_error option"
  ListVolumes :: "go_error + Volume list"
  GetStorageClass :: "string \<Rightarrow> go_error + StorageClass"
  CreateStorageClass :: "StorageClass \<Rightarrow> go_error option"
  ListTierClasses :: "go_error + StorageClass list" \<comment> \<open>\<open>HasLabels{TierClassLabel}\<close>\<close>
  DeleteStorageClass :: "StorageClass \<Rightarrow> go_error option"

section \<open>Claims and Volumes (claim.go)\<close>

definition claimVolume :: "kclient \<Rightarrow> string \<Rightarrow> string \<Rightarrow> Volume option \<times> string \<times> string" where
  "claimVolume c namespace claim =
     (case GetPVC c \<lparr>nnNamespace = namespace, nnName = claim\<rparr> of
        Inl _ \<Rightarrow> (None, ReasonWaitingForVolume, ''claim '' @ claim @ '' not found'')
      | Inr pvc \<Rightarrow>
        if pvcVolumeName pvc = '''' then (None, ReasonWaitingForVolume, ''claim '' @ claim @ '' not bound'')
        else
          (case GetPV c (pvcVolumeName pvc) of
             Inl _ \<Rightarrow> (None, ReasonWaitingForVolume, ''volume '' @ pvcVolumeName pvc @ '' not found'')
           | Inr pv \<Rightarrow>
             (case pvCSI pv of
                None \<Rightarrow> (None, ReasonInvalidSpec, ''claim is not backed by r-drbd'')
              | Some csi \<Rightarrow>
                if csiDriver csi \<noteq> Driver then (None, ReasonInvalidSpec, ''claim is not backed by r-drbd'')
                else
                  (case GetVolume c (csiVolumeHandle csi) of
                     Inl _ \<Rightarrow> (None, ReasonWaitingForVolume,
                        ''r-drbd volume '' @ csiVolumeHandle csi @ '' not found'')
                   | Inr vol \<Rightarrow> (Some vol, '''', '''')))))"

definition volumeClaim :: "kclient \<Rightarrow> string \<Rightarrow> NamespacedName \<times> bool" where
  "volumeClaim c name =
     (case GetPV c name of
        Inl _ \<Rightarrow> (\<lparr>nnNamespace = '''', nnName = ''''\<rparr>, False)
      | Inr pv \<Rightarrow>
        (case pvClaimRef pv of
           None \<Rightarrow> (\<lparr>nnNamespace = '''', nnName = ''''\<rparr>, False)
         | Some ref \<Rightarrow> (ref, True)))"

record servingKey =
  skPrimary :: string
  skRoles :: "string \<rightharpoonup> string"
  skReplicas :: "string \<rightharpoonup> ReplicaStatus"

definition serving_replica :: "ReplicaStatus \<Rightarrow> ReplicaStatus" where
  "serving_replica r =
     \<lparr>rsNode = rsNode r, rsPresent = rsPresent r, rsDiskState = rsDiskState r, rsSyncPercent = None,
      rsPeers = Map.empty, rsInUse = rsInUse r, rsQuorum = None, rsDevicePath = rsDevicePath r\<rparr>"

definition serving :: "Volume \<Rightarrow> servingKey" where
  "serving v =
     \<lparr>skPrimary = vtPrimary (vStatus v),
      skRoles =
        (case vsAssignment (vSpec v) of
           None \<Rightarrow> Map.empty
         | Some rs \<Rightarrow> foldl (\<lambda>m r. m(arNode r \<mapsto> arRole r)) Map.empty rs),
      skReplicas =
        foldl (\<lambda>m r. m(rsNode r \<mapsto> serving_replica r)) Map.empty (vtReplicas (vStatus v))\<rparr>"

text \<open>\<open>volumeServingChanged\<close>: the update filter of the Volume watches (both sides are Volumes
  there); creates and deletes pass.\<close>

definition volumeServingChanged :: "Volume \<Rightarrow> Volume \<Rightarrow> bool" where
  "volumeServingChanged oldVol newVol \<longleftrightarrow> serving oldVol \<noteq> serving newVol"

section \<open>Node readiness (nodes.go)\<close>

fun node_ready_conds :: "NodeCondition list \<Rightarrow> bool" where
  "node_ready_conds [] = False"
| "node_ready_conds (c # cs) =
     (if ncType c = ''Ready'' then ncStatus c = ConditionTrue else node_ready_conds cs)"

definition nodeReady :: "Node \<Rightarrow> bool" where
  "nodeReady n = node_ready_conds (nConditions n)"

definition unreadyNodes :: "kclient \<Rightarrow> go_error + (string \<Rightarrow> bool)" where
  "unreadyNodes c =
     (case ListNodes c of
        Inl e \<Rightarrow> Inl e
      | Inr ns \<Rightarrow>
        Inr (foldl (\<lambda>down n. if \<not> nodeReady n then down(omName (nMeta n) := True) else down)
               (\<lambda>_. False) ns))"

definition nodeGoneOrUnready :: "kclient \<Rightarrow> string \<Rightarrow> go_error + bool" where
  "nodeGoneOrUnready c name =
     (case GetNode c name of
        Inl e \<Rightarrow> if eReason e = NotFound then Inr True else Inl e
      | Inr n \<Rightarrow> Inr (\<not> nodeReady n))"

datatype node_event = NodeCreate Node | NodeUpdate Node Node | NodeDelete Node | NodeGeneric Node

fun nodeReadyChanged :: "node_event \<Rightarrow> bool" where
  "nodeReadyChanged (NodeCreate _) = False"
| "nodeReadyChanged (NodeUpdate oldNode newNode) = (nodeReady oldNode \<noteq> nodeReady newNode)"
| "nodeReadyChanged (NodeDelete _) = True"
| "nodeReadyChanged (NodeGeneric _) = False"

section \<open>Lemmas\<close>

lemma claimVolume_iff:
  "claimVolume c ns cl = (Some v, re, m) \<longleftrightarrow>
     re = '''' \<and> m = '''' \<and>
     (\<exists>pvc pv csi. GetPVC c \<lparr>nnNamespace = ns, nnName = cl\<rparr> = Inr pvc \<and> pvcVolumeName pvc \<noteq> '''' \<and>
        GetPV c (pvcVolumeName pvc) = Inr pv \<and> pvCSI pv = Some csi \<and> csiDriver csi = Driver \<and>
        GetVolume c (csiVolumeHandle csi) = Inr v)"
  by (auto simp: claimVolume_def split: sum.splits option.splits if_splits)

lemma claimVolume_reason:
  "fst (snd (claimVolume c ns cl)) = '''' \<longleftrightarrow> (\<exists>v. claimVolume c ns cl = (Some v, '''', ''''))"
  by (auto simp: claimVolume_def split: sum.splits option.splits if_splits)

lemma claimVolume_reasons:
  "fst (snd (claimVolume c ns cl)) \<in> {'''', ReasonWaitingForVolume, ReasonInvalidSpec}"
  by (auto simp: claimVolume_def split: sum.splits option.splits if_splits)

lemma unready_fold:
  "foldl (\<lambda>down n. if \<not> nodeReady n then down(omName (nMeta n) := True) else down) d ns x \<longleftrightarrow>
     d x \<or> (\<exists>n \<in> set ns. omName (nMeta n) = x \<and> \<not> nodeReady n)"
  by (induction ns arbitrary: d) auto

lemma unreadyNodes_iff:
  "unreadyNodes c = Inr avoid \<Longrightarrow>
     avoid x \<longleftrightarrow> (\<exists>ns. ListNodes c = Inr ns \<and> (\<exists>n \<in> set ns. omName (nMeta n) = x \<and> \<not> nodeReady n))"
  by (auto simp: unreadyNodes_def unready_fold split: sum.splits)

lemma foldl_upd_other: "k \<notin> f ` set xs \<Longrightarrow> foldl (\<lambda>m r. m(f r \<mapsto> g r)) m0 xs k = m0 k"
  by (induction xs arbitrary: m0) auto

lemma foldl_upd_mem:
  "distinct (map f xs) \<Longrightarrow> r \<in> set xs \<Longrightarrow> foldl (\<lambda>m r. m(f r \<mapsto> g r)) m0 xs (f r) = Some (g r)"
  by (induction xs arbitrary: m0) (auto simp: foldl_upd_other)

lemma foldl_upd_iff:
  assumes "distinct (map f xs)"
  shows "foldl (\<lambda>m r. m(f r \<mapsto> g r)) Map.empty xs k = Some y \<longleftrightarrow> (\<exists>r \<in> set xs. f r = k \<and> g r = y)"
proof (cases "k \<in> f ` set xs")
  case True
  then obtain r where r: "r \<in> set xs" "k = f r" by blast
  have "r' = r" if "r' \<in> set xs" "f r' = f r" for r'
    using that r(1) assms by (auto simp: distinct_map dest: inj_onD)
  with r foldl_upd_mem[OF assms r(1), where g = g and ?m0.0 = Map.empty] show ?thesis by auto
next
  case False
  then show ?thesis by (auto simp: foldl_upd_other)
qed

section \<open>The serving key carries what placement reads\<close>

text \<open>A Volume lists each node once in its assignment and once in its status.\<close>

definition nodes_distinct :: "Volume \<Rightarrow> bool" where
  "nodes_distinct v \<longleftrightarrow>
     distinct (map rsNode (vtReplicas (vStatus v))) \<and>
     distinct (map arNode (case vsAssignment (vSpec v) of None \<Rightarrow> [] | Some rs \<Rightarrow> rs))"

lemma serving_replicas_iff:
  "nodes_distinct v \<Longrightarrow>
     skReplicas (serving v) k = Some y \<longleftrightarrow>
       (\<exists>r \<in> set (vtReplicas (vStatus v)). rsNode r = k \<and> serving_replica r = y)"
  by (simp add: nodes_distinct_def serving_def foldl_upd_iff)

lemma serving_roles_iff:
  "nodes_distinct v \<Longrightarrow>
     skRoles (serving v) k = Some y \<longleftrightarrow>
       (\<exists>a \<in> set (case vsAssignment (vSpec v) of None \<Rightarrow> [] | Some rs \<Rightarrow> rs). arNode a = k \<and> arRole a = y)"
  by (auto simp: nodes_distinct_def serving_def foldl_upd_iff split: option.splits)

lemma Diskful_roles: "nodes_distinct v \<Longrightarrow> Diskful v n \<longleftrightarrow> skRoles (serving v) n = Some RoleDiskful"
  by (auto simp: serving_roles_iff Diskful_def list_ex_iff split: option.splits)

lemma replica_count_roles:
  assumes "nodes_distinct v"
  shows "replica_count v = int (card {n. skRoles (serving v) n = Some RoleDiskful})"
proof -
  define as where "as = (case vsAssignment (vSpec v) of None \<Rightarrow> [] | Some rs \<Rightarrow> rs)"
  have d: "distinct (map arNode as)" using assms by (simp add: nodes_distinct_def as_def)
  then have "inj_on arNode {a \<in> set as. arRole a = RoleDiskful}"
    by (auto simp: distinct_map intro: inj_on_subset)
  moreover have "{n. skRoles (serving v) n = Some RoleDiskful} = arNode ` {a \<in> set as. arRole a = RoleDiskful}"
    by (auto simp: serving_roles_iff[OF assms] as_def)
  moreover have "card {a \<in> set as. arRole a = RoleDiskful} = length (filter (\<lambda>a. arRole a = RoleDiskful) as)"
    using d distinct_card[of "filter (\<lambda>a. arRole a = RoleDiskful) as"] by (simp add: distinct_map)
  ultimately show ?thesis
    by (auto simp: replica_count_def as_def card_image split: option.splits)
qed

lemma serving_eq_replica:
  assumes "nodes_distinct v" "nodes_distinct w" "serving v = serving w" "r \<in> set (vtReplicas (vStatus v))"
  obtains r' where "r' \<in> set (vtReplicas (vStatus w))" "serving_replica r' = serving_replica r"
proof -
  have "skReplicas (serving v) (rsNode r) = Some (serving_replica r)"
    using serving_replicas_iff[OF assms(1)] assms(4) by blast
  then have "skReplicas (serving w) (rsNode r) = Some (serving_replica r)"
    by (simp add: assms(3))
  with serving_replicas_iff[OF assms(2)] that show ?thesis by blast
qed

lemma serving_replica_rank:
  assumes "nodes_distinct v" "nodes_distinct w" "serving v = serving w" "serving_replica r' = serving_replica r"
  shows "may_serve w avoid r' \<longleftrightarrow> may_serve v avoid r" and "in_use w r' \<longleftrightarrow> in_use v r"
    and "uptodate r' \<longleftrightarrow> uptodate r" and "rsNode r' = rsNode r" and "rsDevicePath r' = rsDevicePath r"
proof -
  have "rsNode r' = rsNode r" "rsPresent r' = rsPresent r" "rsDevicePath r' = rsDevicePath r"
    "rsInUse r' = rsInUse r" "rsDiskState r' = rsDiskState r"
    using assms(4) by (simp_all add: serving_replica_def)
  moreover have "vtPrimary (vStatus w) = vtPrimary (vStatus v)"
    using assms(3) by (simp add: serving_def)
  ultimately show "may_serve w avoid r' \<longleftrightarrow> may_serve v avoid r" "in_use w r' \<longleftrightarrow> in_use v r"
    "uptodate r' \<longleftrightarrow> uptodate r" "rsNode r' = rsNode r" "rsDevicePath r' = rsDevicePath r"
    using assms by (simp_all add: may_serve_def in_use_def uptodate_def Diskful_roles)
qed

text \<open>What the Volume watch drops is invisible to placement: between two Volumes with the same
  serving key there is an answer for both or for neither, the same number of diskful copies, and
  the node and device chosen for one are a best choice for the other.\<close>

lemma serving_suffices:
  assumes dv: "nodes_distinct v" and dw: "nodes_distinct w" and eq: "\<not> volumeServingChanged v w"
  shows "plcErr (ResolvePlacement v pref avoid) = None \<longleftrightarrow> plcErr (ResolvePlacement w pref avoid) = None"
    and "plcReplicas (ResolvePlacement v pref avoid) = plcReplicas (ResolvePlacement w pref avoid)"
    and "plcErr (ResolvePlacement v pref avoid) = None \<Longrightarrow>
      \<exists>r \<in> set (vtReplicas (vStatus w)). may_serve w avoid r \<and>
        rsNode r = plcNode (ResolvePlacement v pref avoid) \<and>
        rsDevicePath r = plcDevice (ResolvePlacement v pref avoid) \<and>
        (\<forall>r' \<in> set (vtReplicas (vStatus w)). may_serve w avoid r' \<longrightarrow> \<not> outranks w pref r' r)"
proof -
  from eq have s: "serving v = serving w" by (simp add: volumeServingChanged_def)
  note rank = serving_replica_rank[OF dv dw s] serving_replica_rank[OF dw dv s[symmetric]]
  show "plcErr (ResolvePlacement v pref avoid) = None \<longleftrightarrow> plcErr (ResolvePlacement w pref avoid) = None"
    unfolding rp.err_iff
    by (metis rank(1) serving_eq_replica[OF dv dw s] serving_eq_replica[OF dw dv s[symmetric]])
  have "plcReplicas (ResolvePlacement x pref avoid) = replica_count x" for x
    by (simp add: ResolvePlacement_def split: option.splits)
  then show "plcReplicas (ResolvePlacement v pref avoid) = plcReplicas (ResolvePlacement w pref avoid)"
    by (simp add: replica_count_roles dv dw s)
  assume "plcErr (ResolvePlacement v pref avoid) = None"
  from ResolvePlacement_first[OF this] obtain ys r zs where
    f: "filter (may_serve v avoid) (vtReplicas (vStatus v)) = ys @ r # zs"
    and nd: "plcNode (ResolvePlacement v pref avoid) = rsNode r"
    "plcDevice (ResolvePlacement v pref avoid) = rsDevicePath r"
    and best: "\<forall>y \<in> set ys. outranks v pref r y" "\<forall>z \<in> set zs. \<not> outranks v pref z r" by blast
  from arg_cong[OF f, of set] have r: "r \<in> set (vtReplicas (vStatus v))" "may_serve v avoid r"
    and all: "\<And>x. x \<in> set (vtReplicas (vStatus v)) \<Longrightarrow> may_serve v avoid x \<Longrightarrow> x \<in> set ys \<union> {r} \<union> set zs"
    by auto
  have top: "\<not> outranks v pref x r" if "x \<in> set (vtReplicas (vStatus v))" "may_serve v avoid x" for x
    using all[OF that] best by (auto simp: outranks_score)
  from serving_eq_replica[OF dv dw s r(1)] obtain r' where
    r': "r' \<in> set (vtReplicas (vStatus w))" "serving_replica r' = serving_replica r" .
  have "\<not> outranks w pref x' r'" if "x' \<in> set (vtReplicas (vStatus w))" "may_serve w avoid x'" for x'
  proof -
    from serving_eq_replica[OF dw dv s[symmetric] that(1)] obtain x where
      x: "x \<in> set (vtReplicas (vStatus v))" "serving_replica x = serving_replica x'" .
    have "may_serve v avoid x" using rank(6)[OF x(2)] that(2) by simp
    with top x(1) have "\<not> outranks v pref x r" by blast
    then show ?thesis
      using rank(7-9)[OF x(2)] rank(2-4)[OF r'(2)] by (simp add: outranks_def)
  qed
  with r r' nd rank(1,4,5)[OF r'(2)]
  show "\<exists>r \<in> set (vtReplicas (vStatus w)). may_serve w avoid r \<and>
        rsNode r = plcNode (ResolvePlacement v pref avoid) \<and>
        rsDevicePath r = plcDevice (ResolvePlacement v pref avoid) \<and>
        (\<forall>r' \<in> set (vtReplicas (vStatus w)). may_serve w avoid r' \<longrightarrow> \<not> outranks w pref r' r)"
    by (intro bexI[of _ r']) auto
qed

section \<open>A client for concrete runs\<close>

text \<open>An empty cluster: every read is NotFound, every list empty, every write accepted.\<close>

definition not_found :: go_error where
  "not_found = \<lparr>eReason = NotFound, eText = ''not found''\<rparr>"

definition client0 :: kclient where
  "client0 = \<lparr>GetPVC = \<lambda>_. Inl not_found, GetPV = \<lambda>_. Inl not_found, GetVolume = \<lambda>_. Inl not_found,
     GetNode = \<lambda>_. Inl not_found, ListNodes = Inr [], GetSecret = \<lambda>_. Inl not_found,
     GetTarget = \<lambda>_. Inl not_found, ListTargets = \<lambda>_. Inr [], UpdateTarget = Inr, UpdateTargetStatus = Inr,
     GetShare = \<lambda>_. Inl not_found, ListShares = \<lambda>_. Inr [], UpdateShare = Inr, UpdateShareStatus = Inr,
     GetStoragePool = \<lambda>_. Inl not_found, ListStoragePools = Inr [], UpdateStoragePool = Inr,
     UpdateStoragePoolStatus = Inr,
     GetPool = \<lambda>_. Inl not_found, CreatePool = \<lambda>_. None, RemovePool = \<lambda>_. None,
     GetLocalUser = \<lambda>_. Inl not_found, ListLocalUsers = \<lambda>_. Inr [], UpdateLocalUserStatus = Inr,
     ListPVCs = Inr [], PatchPVC = \<lambda>_ _. None, ListVolumes = Inr [],
     GetStorageClass = \<lambda>_. Inl not_found, CreateStorageClass = \<lambda>_. None,
     ListTierClasses = Inr [], DeleteStorageClass = \<lambda>_. None\<rparr>"

text \<open>A node with the given readiness, a Volume with healthy diskful replicas on the given nodes,
  and the claim objects that lead to it.\<close>

definition node0 :: "string \<Rightarrow> bool \<Rightarrow> Node" where
  "node0 n ready = \<lparr>nMeta = meta0 '''' n,
     nConditions = [\<lparr>ncType = ''Ready'', ncStatus = if ready then ConditionTrue else ConditionFalse\<rparr>]\<rparr>"

definition vol_on :: "string \<Rightarrow> string list \<Rightarrow> Volume" where
  "vol_on n nodes = (volume0 n)\<lparr>
     vSpec := (vSpec (volume0 n))\<lparr>vsAssignment := Some (map diskful0 nodes)\<rparr>,
     vStatus := (vStatus (volume0 n))\<lparr>vtReplicas := map (\<lambda>x. replica0 x (''/dev/drbd-'' @ n)) nodes\<rparr>\<rparr>"

definition pvc0 :: "string \<Rightarrow> string \<Rightarrow> string \<Rightarrow> PersistentVolumeClaim" where
  "pvc0 ns n pv = \<lparr>pvcMeta = meta0 ns n, pvcVolumeName = pv, pvcStorageClassName = None, pvcVolumeMode = None\<rparr>"

definition pv0 :: "string \<Rightarrow> PersistentVolume" where
  "pv0 n = \<lparr>pvMeta = meta0 '''' n, pvCSI = Some \<lparr>csiDriver = Driver, csiVolumeHandle = n\<rparr>, pvClaimRef = None\<rparr>"

text \<open>A cluster where each claim is bound to the PersistentVolume and r-drbd Volume of its own
  name, given the Volumes.\<close>

definition with_volumes :: "(string \<Rightarrow> Volume option) \<Rightarrow> kclient \<Rightarrow> kclient" where
  "with_volumes vols c = c\<lparr>
     GetPVC := \<lambda>k. (case vols (nnName k) of None \<Rightarrow> Inl not_found
                     | Some _ \<Rightarrow> Inr (pvc0 (nnNamespace k) (nnName k) (nnName k))),
     GetPV := \<lambda>n. (case vols n of None \<Rightarrow> Inl not_found | Some _ \<Rightarrow> Inr (pv0 n)),
     GetVolume := \<lambda>n. (case vols n of None \<Rightarrow> Inl not_found | Some v \<Rightarrow> Inr v)\<rparr>"

lemmas run_defs = zero_defs client0_def node0_def vol_on_def pvc0_def pv0_def with_volumes_def not_found_def

section \<open>Properties\<close>

text \<open>The Volume watch loses nothing placement depends on: when it drops an update (equal
  serving keys; each node listed once), both Volumes have an answer or neither, with the same
  number of diskful copies, and the node and device chosen for the old one are, for the new one,
  those of a replica that may serve and that no other outranks.\<close>

theorem serving_key_sufficient:
  assumes "nodes_distinct v" and "nodes_distinct w" and "\<not> volumeServingChanged v w"
  shows "(plcErr (ResolvePlacement v pref avoid) = None \<longleftrightarrow> plcErr (ResolvePlacement w pref avoid) = None) \<and>
         plcReplicas (ResolvePlacement v pref avoid) = plcReplicas (ResolvePlacement w pref avoid) \<and>
         (plcErr (ResolvePlacement v pref avoid) = None \<longrightarrow>
           (\<exists>r \<in> set (vtReplicas (vStatus w)). may_serve w avoid r \<and>
              rsNode r = plcNode (ResolvePlacement v pref avoid) \<and>
              rsDevicePath r = plcDevice (ResolvePlacement v pref avoid) \<and>
              (\<forall>r' \<in> set (vtReplicas (vStatus w)). may_serve w avoid r' \<longrightarrow> \<not> outranks w pref r' r)))"
  using serving_suffices[OF assms] by blast

text \<open>A resync: the same Volume with sync progress reported on one replica.\<close>

definition syncing :: Volume where
  "syncing = two_replicas\<lparr>vStatus := (vStatus two_replicas)\<lparr>vtReplicas :=
     [(replica0 ''a'' ''/dev/drbd7'')\<lparr>rsDiskState := ''Outdated'', rsInUse := True, rsSyncPercent := Some 40\<rparr>,
      replica0 ''b'' ''/dev/drbd7'']\<rparr>\<rparr>"

theorem serving_key_sufficient_witness:
  "plcErr (ResolvePlacement syncing ''a'' (\<lambda>_. False)) = None"
proof -
  have d: "nodes_distinct two_replicas" "nodes_distinct syncing" by code_simp+
  have "\<not> volumeServingChanged two_replicas syncing"
    by (simp add: volumeServingChanged_def serving_def serving_replica_def two_replicas_def syncing_def zero_defs)
  from serving_key_sufficient[OF d this, of "''a''" "\<lambda>_. False"]
  show ?thesis by (simp add: two_replicas_placed rp.err_iff)
qed

end
