(* ===== verification/Target_Ctl.thy ===== *)
theory Target_Ctl
  imports Cluster
begin

text \<open>
  The operator's Target controller, \<open>operator/internal/controller/target_controller.go\<close>:
  placement and device resolution of iSCSI targets, the CHAP secret versions the agent reads,
  the deletion handshake, and the maps from watched objects to the targets they concern.
\<close>

abbreviation teardownFinalizer :: string where
  "teardownFinalizer \<equiv> ''storage.stornas.io/teardown''"

definition volumeSettleInterval :: int where
  "volumeSettleInterval = 15 * second"

section \<open>What Target and Share passes share\<close>

text \<open>The Available condition a pass starts from, and the stale-HostReady reset after a move.\<close>

definition available0 :: "int \<Rightarrow> Condition" where
  "available0 gen = \<lparr>cType = ConditionAvailable, cStatus = ConditionFalse, cReason = '''',
     cMessage = '''', cObservedGeneration = gen\<rparr>"

definition movedCondition :: "string \<Rightarrow> int \<Rightarrow> Condition" where
  "movedCondition node gen = \<lparr>cType = ConditionHostReady, cStatus = ConditionFalse,
     cReason = ReasonWaitingForAgent, cMessage = ''moved to '' @ node, cObservedGeneration = gen\<rparr>"

section \<open>CHAP secrets\<close>

fun chap_loop :: "kclient \<Rightarrow> string \<Rightarrow> Initiator list \<Rightarrow> (string \<Rightarrow> bool) \<Rightarrow> SecretVersion list \<Rightarrow> string \<Rightarrow>
    go_error + SecretVersion list \<times> string" where
  "chap_loop c ns [] seen versions problem = Inr (versions, problem)"
| "chap_loop c ns (ini # inis) seen versions problem =
     (let ref = iniChapSecretRef ini in
      if ref = '''' \<or> seen ref then chap_loop c ns inis seen versions problem
      else
        let seen' = seen(ref := True) in
        (case GetSecret c \<lparr>nnNamespace = ns, nnName = ref\<rparr> of
           Inl e \<Rightarrow>
             if eReason e = NotFound then
               chap_loop c ns inis seen' versions
                 (if problem = '''' then ''chap secret '' @ ref @ '' not found'' else problem)
             else Inl e
         | Inr secret \<Rightarrow>
             (case ChapCredentials (secData secret) of (_, _, usable) \<Rightarrow>
                if \<not> usable then
                  chap_loop c ns inis seen' versions
                    (if problem = '''' then ''chap secret '' @ ref @ '' has no username or password key''
                     else problem)
                else
                  chap_loop c ns inis seen'
                    (versions @ [\<lparr>svName = ref, svResourceVersion = omResourceVersion (secMeta secret)\<rparr>])
                    problem)))"

definition chapSecrets :: "kclient \<Rightarrow> Target \<Rightarrow> go_error + SecretVersion list \<times> string" where
  "chapSecrets c target =
     chap_loop c (omNamespace (tMeta target)) (tsInitiators (tSpec target)) (\<lambda>_. False) [] ''''"

section \<open>The reconcile pass\<close>

datatype target_write = WTarget Target | WTargetStatus Target

text \<open>The claim loop: the Volumes of the LUNs in order, stopping at the first unusable claim.\<close>

fun claim_loop :: "kclient \<Rightarrow> string \<Rightarrow> LUN list \<Rightarrow> Volume list \<Rightarrow> Volume list \<times> string \<times> string" where
  "claim_loop c ns [] vols = (vols, '''', '''')"
| "claim_loop c ns (lun # luns) vols =
     (case claimVolume c ns (lunClaimName lun) of (v, re, m) \<Rightarrow>
        if re \<noteq> '''' then (vols, re, m)
        else claim_loop c ns luns (vols @ (case v of None \<Rightarrow> [] | Some x \<Rightarrow> [x])))"

text \<open>The placement loop over the Volumes and the LUNs they come from. \<open>i = 0\<close> is the first
  iteration; the result is the placement error, or node, replication and LUN statuses.\<close>

fun place_loop :: "string \<Rightarrow> (string \<Rightarrow> bool) \<Rightarrow> nat \<Rightarrow> (Volume \<times> LUN) list \<Rightarrow> string \<Rightarrow> bool \<Rightarrow> LUNStatus list \<Rightarrow>
    go_error + string \<times> bool \<times> LUNStatus list" where
  "place_loop active avoid i [] node repl luns = Inr (node, repl, luns)"
| "place_loop active avoid i ((v, lun) # rest) node repl luns =
     (let p = ResolvePlacement v active avoid in
      case plcErr p of
        Some e \<Rightarrow> Inl e
      | None \<Rightarrow>
        place_loop active avoid (i + 1) rest
          (if i = 0 then plcNode p else node)
          (repl \<or> plcReplicas p > 1)
          (luns @ [\<lparr>lsID = lunID lun, lsDevice = plcDevice p\<rparr>]))"

text \<open>The default branch of the pass: place, check the VIP rule, record the placement and judge
  availability. Gives the target with its new status and the Available condition.\<close>

definition target_place :: "metalib \<Rightarrow> (string \<Rightarrow> bool) \<Rightarrow> Volume list \<Rightarrow> string \<Rightarrow> Target \<Rightarrow> Target \<times> Condition" where
  "target_place lib avoid vols secretProblem target =
     (let st = tStatus target; gen = omGeneration (tMeta target); av = available0 gen in
      case place_loop (ttActiveNode st) avoid 0 (zip vols (tsLUNs (tSpec target))) '''' False [] of
        Inl e \<Rightarrow> (target, av\<lparr>cReason := ReasonWaitingForVolume, cMessage := eText e\<rparr>)
      | Inr (node, repl, luns) \<Rightarrow>
        if repl \<and> tsVIP (tSpec target) = '''' then
          (target, av\<lparr>cReason := ReasonInvalidSpec, cMessage := ''vip is required when a LUN is replicated''\<rparr>)
        else
          let moved = ttActiveNode st \<noteq> '''' \<and> ttActiveNode st \<noteq> node;
              conds = (if moved then SetStatusCondition lib (ttConditions st) (movedCondition node gen)
                       else ttConditions st);
              target' = target\<lparr>tStatus := st\<lparr>ttActiveNode := node, ttLUNs := luns, ttConditions := conds\<rparr>\<rparr> in
          (target',
           if secretProblem \<noteq> '''' then av\<lparr>cReason := ReasonInvalidSpec, cMessage := secretProblem\<rparr>
           else if IsStatusConditionTrue lib conds ConditionHostReady then
             av\<lparr>cStatus := ConditionTrue, cReason := ReasonReady\<rparr>
           else av\<lparr>cReason := ReasonWaitingForAgent,
                   cMessage := ''waiting for the node agent to export the target''\<rparr>))"

definition set_target_cond :: "metalib \<Rightarrow> Target \<Rightarrow> Condition \<Rightarrow> Target" where
  "set_target_cond lib t cond =
     t\<lparr>tStatus := (tStatus t)\<lparr>ttConditions := SetStatusCondition lib (ttConditions (tStatus t)) cond\<rparr>\<rparr>"

text \<open>The status a pass computes for a live target, and its requeue; \<open>Inl\<close> for the errors that end
  the pass before the status is written.\<close>

definition target_status_pass :: "metalib \<Rightarrow> kclient \<Rightarrow> Target \<Rightarrow> go_error + Target \<times> ctrl_Result" where
  "target_status_pass lib c tgt =
     (let av = available0 (omGeneration (tMeta tgt));
          target1 = tgt\<lparr>tStatus := (tStatus tgt)\<lparr>ttIQN := IQNPrefix @ omName (tMeta tgt)\<rparr>\<rparr> in
      case chapSecrets c target1 of
        Inl e \<Rightarrow> Inl e
      | Inr (versions, secretProblem) \<Rightarrow>
        let target = target1\<lparr>tStatus := (tStatus target1)\<lparr>ttChapSecretVersions := versions\<rparr>\<rparr> in
        (case claim_loop c (omNamespace (tMeta target)) (tsLUNs (tSpec target)) [] of
           (vols, reason, msg) \<Rightarrow>
             if reason \<noteq> '''' then
               Inr (set_target_cond lib target (av\<lparr>cReason := reason, cMessage := msg\<rparr>),
                    if reason = ReasonWaitingForVolume then requeue volumeSettleInterval else no_requeue)
             else
               (case unreadyNodes c of
                  Inl e \<Rightarrow> Inl e
                | Inr avoid \<Rightarrow>
                  (case target_place lib avoid vols secretProblem target of (target', cond) \<Rightarrow>
                     Inr (set_target_cond lib target' cond, no_requeue)))))"

definition target_reconcileDelete :: "metalib \<Rightarrow> kclient \<Rightarrow> Target \<Rightarrow> target_write outcome" where
  "target_reconcileDelete lib c target =
     (if \<not> ContainsFinalizer lib (tMeta target) teardownFinalizer then done_with []
      else
        let node = ttActiveNode (tStatus target);
            removed = target\<lparr>tMeta := RemoveFinalizer lib (tMeta target) teardownFinalizer\<rparr> in
        case (if node = '''' \<or> ttState (tStatus target) = ''Removed'' then Inr True
              else nodeGoneOrUnready c node) of
          Inl e \<Rightarrow> fail_with [] (Some e)
        | Inr done \<Rightarrow>
          if \<not> done then ([], requeue volumeSettleInterval, None)
          else
            (case UpdateTarget c removed of
               Inl e \<Rightarrow> if eReason e = Conflict then done_with [WTarget removed]
                        else fail_with [WTarget removed] (Some e)
             | Inr _ \<Rightarrow> done_with [WTarget removed]))"

text \<open>\<open>live_pass\<close>: the status pass and its write, on the target the API server holds; \<open>ws\<close> are the
  writes already issued.\<close>

definition target_live_pass :: "metalib \<Rightarrow> kclient \<Rightarrow> target_write list \<Rightarrow> Target \<Rightarrow> target_write outcome" where
  "target_live_pass lib c ws target =
     (case target_status_pass lib c target of
        Inl e \<Rightarrow> fail_with ws (Some e)
      | Inr (target', res) \<Rightarrow>
        (case UpdateTargetStatus c target' of
           Inl e \<Rightarrow> if eReason e = Conflict then done_with (ws @ [WTargetStatus target'])
                    else fail_with (ws @ [WTargetStatus target']) (Some e)
         | Inr _ \<Rightarrow> (ws @ [WTargetStatus target'], res, None)))"

definition TargetReconcile :: "metalib \<Rightarrow> kclient \<Rightarrow> NamespacedName \<Rightarrow> target_write outcome" where
  "TargetReconcile lib c req =
     (case GetTarget c req of
        Inl e \<Rightarrow> fail_with [] (IgnoreNotFound (Some e))
      | Inr target \<Rightarrow>
        if omDeleting (tMeta target) then target_reconcileDelete lib c target
        else
          (case AddFinalizer lib (tMeta target) teardownFinalizer of (m, changed) \<Rightarrow>
             let held = target\<lparr>tMeta := m\<rparr> in
             if changed then
               (case UpdateTarget c held of
                  Inl e \<Rightarrow> if eReason e = Conflict then done_with [WTarget held]
                           else fail_with [WTarget held] (Some e)
                | Inr server \<Rightarrow> target_live_pass lib c [WTarget held] server)
             else target_live_pass lib c [] held))"

section \<open>Watch maps\<close>

definition allTargets :: "kclient \<Rightarrow> NamespacedName list" where
  "allTargets c = (case ListTargets c None of Inl _ \<Rightarrow> [] | Inr ts \<Rightarrow> map (\<lambda>t. keyOf (tMeta t)) ts)"

definition secretTargets :: "kclient \<Rightarrow> ObjectMeta \<Rightarrow> NamespacedName list" where
  "secretTargets c obj =
     (case ListTargets c (Some (omNamespace obj)) of
        Inl _ \<Rightarrow> []
      | Inr ts \<Rightarrow>
        map (\<lambda>t. keyOf (tMeta t))
          (filter (\<lambda>t. list_ex (\<lambda>ini. iniChapSecretRef ini = omName obj) (tsInitiators (tSpec t))) ts))"

definition volumeTargets :: "kclient \<Rightarrow> string \<Rightarrow> NamespacedName list" where
  "volumeTargets c name =
     (case volumeClaim c name of (claim, ok) \<Rightarrow>
        if \<not> ok then []
        else
          (case ListTargets c (Some (nnNamespace claim)) of
             Inl _ \<Rightarrow> []
           | Inr ts \<Rightarrow>
             map (\<lambda>t. keyOf (tMeta t))
               (filter (\<lambda>t. list_ex (\<lambda>lun. lunClaimName lun = nnName claim) (tsLUNs (tSpec t))) ts)))"

section \<open>The loops\<close>

lemma place_loop_Inr:
  "place_loop active avoid i xs node repl luns = Inr (node', repl', luns') \<longleftrightarrow>
     (\<forall>x \<in> set xs. plcErr (ResolvePlacement (fst x) active avoid) = None) \<and>
     node' = (if i = 0 \<and> xs \<noteq> [] then plcNode (ResolvePlacement (fst (hd xs)) active avoid) else node) \<and>
     repl' = (repl \<or> (\<exists>x \<in> set xs. plcReplicas (ResolvePlacement (fst x) active avoid) > 1)) \<and>
     luns' = luns @ map (\<lambda>x. \<lparr>lsID = lunID (snd x), lsDevice = plcDevice (ResolvePlacement (fst x) active avoid)\<rparr>) xs"
proof (induction xs arbitrary: i node repl luns)
  case Nil
  then show ?case by auto
next
  case (Cons x xs)
  then show ?case by (cases x) (auto simp: Let_def split: option.splits)
qed

lemma place_loop_Inl:
  "place_loop active avoid i xs node repl luns = Inl e \<Longrightarrow>
     \<exists>x \<in> set xs. plcErr (ResolvePlacement (fst x) active avoid) = Some e"
proof (induction xs arbitrary: i node repl luns)
  case Nil
  then show ?case by simp
next
  case (Cons x xs)
  then show ?case by (cases x) (auto simp: Let_def split: option.splits)
qed

definition claims_resolve :: "kclient \<Rightarrow> string \<Rightarrow> LUN list \<Rightarrow> Volume list \<Rightarrow> bool" where
  "claims_resolve c ns luns vols \<longleftrightarrow>
     list_all2 (\<lambda>l v. claimVolume c ns (lunClaimName l) = (Some v, '''', '''')) luns vols"

lemma claim_loop_ok:
  "claim_loop c ns luns vs = (vols, '''', m) \<longleftrightarrow>
     m = '''' \<and> (\<exists>us. vols = vs @ us \<and> claims_resolve c ns luns us)"
proof (induction luns arbitrary: vs)
  case Nil
  then show ?case by (auto simp: claims_resolve_def)
next
  case (Cons lun luns)
  obtain v re msg where cv: "claimVolume c ns (lunClaimName lun) = (v, re, msg)" by (metis prod_cases3)
  show ?case
  proof (cases "re = ''''")
    case True
    with claimVolume_reason[of c ns "lunClaimName lun"] cv obtain x where x: "v = Some x" "msg = ''''" by auto
    show ?thesis using Cons.IH[of "vs @ [x]"] cv True x
      by (auto simp: claims_resolve_def list_all2_Cons1)
  next
    case False
    with cv show ?thesis by (auto simp: claims_resolve_def list_all2_Cons1)
  qed
qed

lemma claim_loop_reason:
  "fst (snd (claim_loop c ns luns vs)) \<in> {'''', ReasonWaitingForVolume, ReasonInvalidSpec}"
proof (induction luns arbitrary: vs)
  case (Cons l luns)
  then show ?case using claimVolume_reasons[of c ns "lunClaimName l"] by (auto split: prod.splits)
qed simp

lemma claims_resolve_length: "claims_resolve c ns luns vols \<Longrightarrow> length luns = length vols"
  by (simp add: claims_resolve_def list_all2_lengthD)

definition chap_usable :: "kclient \<Rightarrow> string \<Rightarrow> string \<Rightarrow> bool" where
  "chap_usable c ns ref \<longleftrightarrow>
     (\<exists>s. GetSecret c \<lparr>nnNamespace = ns, nnName = ref\<rparr> = Inr s \<and> snd (snd (ChapCredentials (secData s))))"

definition secret_version :: "kclient \<Rightarrow> string \<Rightarrow> string \<Rightarrow> string" where
  "secret_version c ns ref =
     (case GetSecret c \<lparr>nnNamespace = ns, nnName = ref\<rparr> of Inl _ \<Rightarrow> '''' | Inr s \<Rightarrow> omResourceVersion (secMeta s))"

lemma chap_loop_Cons:
  assumes "chap_loop c ns (ini # inis) seen vs p = Inr r"
  obtains (skip) "iniChapSecretRef ini = '''' \<or> seen (iniChapSecretRef ini)" and "chap_loop c ns inis seen vs p = Inr r"
  | (bad) q where "iniChapSecretRef ini \<noteq> ''''" "\<not> seen (iniChapSecretRef ini)"
      "\<not> chap_usable c ns (iniChapSecretRef ini)" "q \<noteq> ''''"
      "chap_loop c ns inis (seen(iniChapSecretRef ini := True)) vs q = Inr r"
  | (good) "iniChapSecretRef ini \<noteq> ''''" "\<not> seen (iniChapSecretRef ini)" "chap_usable c ns (iniChapSecretRef ini)"
      "chap_loop c ns inis (seen(iniChapSecretRef ini := True))
         (vs @ [\<lparr>svName = iniChapSecretRef ini, svResourceVersion = secret_version c ns (iniChapSecretRef ini)\<rparr>]) p = Inr r"
  using assms
  by (auto simp: Let_def chap_usable_def secret_version_def split: sum.splits if_splits prod.splits)

lemma chap_loop_problem:
  "chap_loop c ns inis seen vs p = Inr (vs', p') \<Longrightarrow>
     p' = '''' \<longleftrightarrow> p = '''' \<and> (\<forall>ini \<in> set inis. iniChapSecretRef ini = '''' \<or> seen (iniChapSecretRef ini) \<or>
       chap_usable c ns (iniChapSecretRef ini))"
proof (induction inis arbitrary: seen vs p)
  case Nil
  then show ?case by auto
next
  case (Cons ini inis)
  from Cons.prems show ?case
  proof (cases rule: chap_loop_Cons)
    case skip
    then show ?thesis using Cons.IH[OF skip(2)] by auto
  next
    case (bad q)
    then show ?thesis using Cons.IH[OF bad(5)] by auto
  next
    case good
    then show ?thesis using Cons.IH[OF good(4)] by auto
  qed
qed

lemma chap_loop_versions:
  "chap_loop c ns inis seen vs p = Inr (vs', p') \<Longrightarrow>
     \<exists>refs. vs' = vs @ map (\<lambda>ref. \<lparr>svName = ref, svResourceVersion = secret_version c ns ref\<rparr>) refs \<and> distinct refs \<and>
       set refs = {ref \<in> iniChapSecretRef ` set inis. ref \<noteq> '''' \<and> \<not> seen ref \<and> chap_usable c ns ref}"
proof (induction inis arbitrary: seen vs p)
  case Nil
  then show ?case by simp
next
  case (Cons ini inis)
  let ?ref = "iniChapSecretRef ini"
  from Cons.prems show ?case
  proof (cases rule: chap_loop_Cons)
    case skip
    from Cons.IH[OF this(2)] this(1) show ?thesis by (auto cong: conj_cong)
  next
    case (bad q)
    from Cons.IH[OF bad(5)] obtain refs where
      "vs' = vs @ map (\<lambda>ref. \<lparr>svName = ref, svResourceVersion = secret_version c ns ref\<rparr>) refs" "distinct refs"
      "set refs = {ref \<in> iniChapSecretRef ` set inis. ref \<noteq> '''' \<and> \<not> (seen(?ref := True)) ref \<and> chap_usable c ns ref}"
      by blast
    with bad(3) show ?thesis by (intro exI[of _ refs]) auto
  next
    case good
    from Cons.IH[OF good(4)] obtain refs where
      "vs' = vs @ map (\<lambda>ref. \<lparr>svName = ref, svResourceVersion = secret_version c ns ref\<rparr>) (?ref # refs)" "distinct refs"
      "set refs = {ref \<in> iniChapSecretRef ` set inis. ref \<noteq> '''' \<and> \<not> (seen(?ref := True)) ref \<and> chap_usable c ns ref}"
      by auto
    with good(1-3) show ?thesis by (intro exI[of _ "?ref # refs"]) auto
  qed
qed

section \<open>The status a pass writes\<close>

lemma available0_simps [simp]:
  "cType (available0 g) = ConditionAvailable" "cStatus (available0 g) = ConditionFalse"
  "cObservedGeneration (available0 g) = g"
  by (simp_all add: available0_def)

lemma movedCondition_simps [simp]:
  "cType (movedCondition n g) = ConditionHostReady" "cStatus (movedCondition n g) = ConditionFalse"
  by (simp_all add: movedCondition_def)

lemma set_target_cond_simps [simp]:
  "tMeta (set_target_cond lib t cond) = tMeta t" "tSpec (set_target_cond lib t cond) = tSpec t"
  "ttConditions (tStatus (set_target_cond lib t cond)) = SetStatusCondition lib (ttConditions (tStatus t)) cond"
  "ttActiveNode (tStatus (set_target_cond lib t cond)) = ttActiveNode (tStatus t)"
  "ttLUNs (tStatus (set_target_cond lib t cond)) = ttLUNs (tStatus t)"
  "ttIQN (tStatus (set_target_cond lib t cond)) = ttIQN (tStatus t)"
  "ttState (tStatus (set_target_cond lib t cond)) = ttState (tStatus t)"
  "ttChapSecretVersions (tStatus (set_target_cond lib t cond)) = ttChapSecretVersions (tStatus t)"
  by (simp_all add: set_target_cond_def)

text \<open>The three ways \<open>target_place\<close> ends: a LUN with no servable replica, a missing VIP, or a
  placement.\<close>

lemma target_place_cases:
  assumes "target_place lib avoid vols problem t = (t', cond)"
  obtains (unplaced) e where "t' = t" "cReason cond = ReasonWaitingForVolume" "cStatus cond = ConditionFalse"
      "\<exists>v \<in> set vols. plcErr (ResolvePlacement v (ttActiveNode (tStatus t)) avoid) = Some e"
  | (novip) "t' = t" "cReason cond = ReasonInvalidSpec" "cStatus cond = ConditionFalse"
      "tsVIP (tSpec t) = ''''"
  | (placed) node luns repl where
      "place_loop (ttActiveNode (tStatus t)) avoid 0 (zip vols (tsLUNs (tSpec t))) '''' False [] = Inr (node, repl, luns)"
      "repl \<Longrightarrow> tsVIP (tSpec t) \<noteq> ''''"
      "t' = t\<lparr>tStatus := (tStatus t)\<lparr>ttActiveNode := node, ttLUNs := luns,
         ttConditions := (if ttActiveNode (tStatus t) \<noteq> '''' \<and> ttActiveNode (tStatus t) \<noteq> node
           then SetStatusCondition lib (ttConditions (tStatus t)) (movedCondition node (omGeneration (tMeta t)))
           else ttConditions (tStatus t))\<rparr>\<rparr>"
      "cStatus cond = (if problem = '''' \<and> IsStatusConditionTrue lib (ttConditions (tStatus t')) ConditionHostReady
         then ConditionTrue else ConditionFalse)"
proof (cases "place_loop (ttActiveNode (tStatus t)) avoid 0 (zip vols (tsLUNs (tSpec t))) '''' False []")
  case (Inl e)
  from place_loop_Inl[OF Inl] have "\<exists>v \<in> set vols. plcErr (ResolvePlacement v (ttActiveNode (tStatus t)) avoid) = Some e"
    by (auto dest: set_zip_leftD)
  with Inl assms show ?thesis by (intro unplaced[of e]) (auto simp: target_place_def Let_def)
next
  case (Inr r)
  then obtain node repl luns where r: "r = (node, repl, luns)" by (cases r) auto
  show ?thesis
  proof (cases "repl \<and> tsVIP (tSpec t) = ''''")
    case True
    with Inr r assms show ?thesis by (intro novip) (auto simp: target_place_def Let_def)
  next
    case False
    show ?thesis
      by (rule placed[of node repl luns])
         (use Inr r assms False in \<open>auto simp: target_place_def Let_def split: if_splits\<close>)
  qed
qed

lemma target_place_cond_type:
  "target_place lib avoid vols problem t = (t', cond) \<Longrightarrow> cType cond = ConditionAvailable"
  by (auto simp: target_place_def Let_def split: sum.splits if_splits)

text \<open>What it means for a target's status to promise service: the facts behind Available=True.\<close>

definition target_served :: "metalib \<Rightarrow> kclient \<Rightarrow> Target \<Rightarrow> bool" where
  "target_served lib c t \<longleftrightarrow>
     IsStatusConditionTrue lib (ttConditions (tStatus t)) ConditionHostReady \<and>
     ttIQN (tStatus t) = IQNPrefix @ omName (tMeta t) \<and>
     (\<forall>ini \<in> set (tsInitiators (tSpec t)). iniChapSecretRef ini \<noteq> '''' \<longrightarrow>
        chap_usable c (omNamespace (tMeta t)) (iniChapSecretRef ini)) \<and>
     (\<exists>vols avoid pref. claims_resolve c (omNamespace (tMeta t)) (tsLUNs (tSpec t)) vols \<and>
        unreadyNodes c = Inr avoid \<and>
        (\<forall>v \<in> set vols. plcErr (ResolvePlacement v pref avoid) = None) \<and>
        (vols \<noteq> [] \<longrightarrow> ttActiveNode (tStatus t) = plcNode (ResolvePlacement (hd vols) pref avoid) \<and>
           \<not> avoid (ttActiveNode (tStatus t))) \<and>
        ttLUNs (tStatus t) = map2 (\<lambda>v l. \<lparr>lsID = lunID l, lsDevice = plcDevice (ResolvePlacement v pref avoid)\<rparr>)
          vols (tsLUNs (tSpec t)) \<and>
        ((\<exists>v \<in> set vols. replica_count v > 1) \<longrightarrow> tsVIP (tSpec t) \<noteq> ''''))"

lemma target_status_pass_cases:
  assumes "target_status_pass lib c tgt = Inr (t, res)"
  obtains versions problem prepared where
    "chapSecrets c tgt = Inr (versions, problem)"
    "prepared = tgt\<lparr>tStatus := (tStatus tgt)\<lparr>ttIQN := IQNPrefix @ omName (tMeta tgt), ttChapSecretVersions := versions\<rparr>\<rparr>"
    "(\<exists>reason msg. reason \<in> {ReasonWaitingForVolume, ReasonInvalidSpec} \<and>
        (\<nexists>vols. claims_resolve c (omNamespace (tMeta tgt)) (tsLUNs (tSpec tgt)) vols) \<and>
        t = set_target_cond lib prepared (available0 (omGeneration (tMeta tgt))\<lparr>cReason := reason, cMessage := msg\<rparr>)) \<or>
     (\<exists>vols avoid t' cond. claims_resolve c (omNamespace (tMeta tgt)) (tsLUNs (tSpec tgt)) vols \<and>
        unreadyNodes c = Inr avoid \<and> target_place lib avoid vols problem prepared = (t', cond) \<and>
        t = set_target_cond lib t' cond)"
proof -
  have same: "chapSecrets c (tgt\<lparr>tStatus := x\<rparr>) = chapSecrets c tgt" for x by (simp add: chapSecrets_def)
  obtain versions problem where cs: "chapSecrets c tgt = Inr (versions, problem)"
    using assms by (cases "chapSecrets c tgt") (auto simp: target_status_pass_def Let_def same)
  let ?p = "tgt\<lparr>tStatus := (tStatus tgt)\<lparr>ttIQN := IQNPrefix @ omName (tMeta tgt), ttChapSecretVersions := versions\<rparr>\<rparr>"
  obtain vols reason msg where cl:
    "claim_loop c (omNamespace (tMeta tgt)) (tsLUNs (tSpec tgt)) [] = (vols, reason, msg)" by (metis prod_cases3)
  show ?thesis
  proof (cases "reason = ''''")
    case True
    with cl claim_loop_ok[of c "omNamespace (tMeta tgt)" "tsLUNs (tSpec tgt)" "[]" vols msg] have
      "claims_resolve c (omNamespace (tMeta tgt)) (tsLUNs (tSpec tgt)) vols" by simp
    with True show ?thesis
      by (intro that[OF cs refl] disjI2)
         (use assms cs cl in \<open>auto simp: target_status_pass_def Let_def same split: sum.splits prod.splits\<close>)
  next
    case False
    then have "\<nexists>us. claims_resolve c (omNamespace (tMeta tgt)) (tsLUNs (tSpec tgt)) us"
      using claim_loop_ok[of c "omNamespace (tMeta tgt)" "tsLUNs (tSpec tgt)" "[]"] cl by auto
    moreover have "reason \<in> {ReasonWaitingForVolume, ReasonInvalidSpec}"
      using claim_loop_reason[of c "omNamespace (tMeta tgt)" "tsLUNs (tSpec tgt)" "[]"] cl False by simp
    ultimately show ?thesis
      by (intro that[OF cs refl] disjI1 exI[of _ reason] exI[of _ msg])
         (use False assms cs cl in \<open>auto simp: target_status_pass_def Let_def same\<close>)
  qed
qed

lemma target_status_pass_frame:
  assumes "target_status_pass lib c tgt = Inr (t, res)"
  shows "tMeta t = tMeta tgt" "tSpec t = tSpec tgt" "ttIQN (tStatus t) = IQNPrefix @ omName (tMeta tgt)"
    "ttState (tStatus t) = ttState (tStatus tgt)"
proof -
  have "tMeta t = tMeta tgt \<and> tSpec t = tSpec tgt \<and> ttIQN (tStatus t) = IQNPrefix @ omName (tMeta tgt) \<and>
      ttState (tStatus t) = ttState (tStatus tgt)"
    using assms by (cases rule: target_status_pass_cases) (auto elim: target_place_cases)
  then show "tMeta t = tMeta tgt" "tSpec t = tSpec tgt" "ttIQN (tStatus t) = IQNPrefix @ omName (tMeta tgt)"
    "ttState (tStatus t) = ttState (tStatus tgt)" by simp_all
qed

lemma zip_place:
  assumes "place_loop active avoid 0 (zip vols luns) '''' False [] = Inr (node, repl, sts)" "length luns = length vols"
  shows "\<forall>v \<in> set vols. plcErr (ResolvePlacement v active avoid) = None"
    and "vols \<noteq> [] \<Longrightarrow> node = plcNode (ResolvePlacement (hd vols) active avoid)"
    and "sts = map2 (\<lambda>v l. \<lparr>lsID = lunID l, lsDevice = plcDevice (ResolvePlacement v active avoid)\<rparr>) vols luns"
    and "repl \<longleftrightarrow> (\<exists>v \<in> set vols. plcReplicas (ResolvePlacement v active avoid) > 1)"
proof -
  note p = assms(1)[unfolded place_loop_Inr]
  have s: "set vols = fst ` set (zip vols luns)"
    using assms(2) by (metis map_fst_zip set_map)
  show "\<forall>v \<in> set vols. plcErr (ResolvePlacement v active avoid) = None" using p by (auto simp: s)
  show "repl \<longleftrightarrow> (\<exists>v \<in> set vols. plcReplicas (ResolvePlacement v active avoid) > 1)" using p by (auto simp: s)
  show "sts = map2 (\<lambda>v l. \<lparr>lsID = lunID l, lsDevice = plcDevice (ResolvePlacement v active avoid)\<rparr>) vols luns"
    using p by (simp add: case_prod_beta)
  assume "vols \<noteq> []"
  with assms(2) obtain v vs l ls where "vols = v # vs" "luns = l # ls" by (cases vols; cases luns) auto
  with p show "node = plcNode (ResolvePlacement (hd vols) active avoid)" by simp
qed

lemma plcReplicas_count [simp]: "plcReplicas (ResolvePlacement v pref avoid) = replica_count v"
  by (simp add: ResolvePlacement_def split: option.splits)

context metalib_laws
begin

lemma target_pass_served:
  assumes "target_status_pass lib c tgt = Inr (t, res)"
    and "IsStatusConditionTrue lib (ttConditions (tStatus t)) ConditionAvailable"
  shows "target_served lib c t"
  using assms(1)
proof (cases rule: target_status_pass_cases)
  case (1 versions problem prepared)
  from 1(3) obtain vols avoid t' cond where cr: "claims_resolve c (omNamespace (tMeta tgt)) (tsLUNs (tSpec tgt)) vols"
    and un: "unreadyNodes c = Inr avoid" and tp: "target_place lib avoid vols problem prepared = (t', cond)"
    and t: "t = set_target_cond lib t' cond"
    using assms(2) by (auto simp: is_true_set)
  have "cStatus cond = ConditionTrue"
    using assms(2) t target_place_cond_type[OF tp] by (simp add: is_true_set)
  with tp show ?thesis
  proof (cases rule: target_place_cases)
    case (placed node luns repl)
    with \<open>cStatus cond = ConditionTrue\<close> have p: "problem = ''''"
      and h: "IsStatusConditionTrue lib (ttConditions (tStatus t')) ConditionHostReady" by (auto split: if_splits)
    have h': "IsStatusConditionTrue lib (ttConditions (tStatus t)) ConditionHostReady"
      using h t target_place_cond_type[OF tp] by (simp add: is_true_set)
    have len: "length (tsLUNs (tSpec prepared)) = length vols"
      using claims_resolve_length[OF cr] 1(2) by simp
    note z = zip_place[OF placed(1) len]
    have "chap_loop c (omNamespace (tMeta tgt)) (tsInitiators (tSpec tgt)) (\<lambda>_. False) [] '''' = Inr (versions, problem)"
      using 1(1) by (simp add: chapSecrets_def)
    from chap_loop_problem[OF this] p have secrets: "\<forall>ini \<in> set (tsInitiators (tSpec tgt)).
        iniChapSecretRef ini = '''' \<or> chap_usable c (omNamespace (tMeta tgt)) (iniChapSecretRef ini)" by simp
    note frame = target_status_pass_frame[OF assms(1)]
    have node: "ttActiveNode (tStatus t) = node" "ttLUNs (tStatus t) = luns"
      using t placed(3) by simp_all
    have "\<not> avoid node" if "vols \<noteq> []"
      using z(1,2) that rp.not_avoided by (metis hd_in_set)
    then show ?thesis
      unfolding target_served_def frame(1,2) node
      using h' frame(1,2,3) secrets cr un z placed(2) 1(2)
      by (auto intro!: exI[of _ vols] exI[of _ avoid] exI[of _ "ttActiveNode (tStatus prepared)"])
  qed simp_all
qed

lemma target_pass_moved:
  assumes "target_status_pass lib c tgt = Inr (t, res)"
    and "ttActiveNode (tStatus tgt) \<noteq> ''''" and "ttActiveNode (tStatus t) \<noteq> ttActiveNode (tStatus tgt)"
  shows "\<not> IsStatusConditionTrue lib (ttConditions (tStatus t)) ConditionAvailable"
    and "\<not> IsStatusConditionTrue lib (ttConditions (tStatus t)) ConditionHostReady"
proof -
  have "\<not> IsStatusConditionTrue lib (ttConditions (tStatus t)) ConditionAvailable \<and>
      \<not> IsStatusConditionTrue lib (ttConditions (tStatus t)) ConditionHostReady"
    using assms(1)
  proof (cases rule: target_status_pass_cases)
    case (1 versions problem prepared)
    have act: "ttActiveNode (tStatus prepared) = ttActiveNode (tStatus tgt)" using 1(2) by simp
    from 1(3) assms(3) act obtain vols avoid t' cond where
      tp: "target_place lib avoid vols problem prepared = (t', cond)" and t: "t = set_target_cond lib t' cond"
      by auto
    have ty: "cType cond = ConditionAvailable" by (rule target_place_cond_type[OF tp])
    from tp show ?thesis
    proof (cases rule: target_place_cases)
      case (placed node luns repl)
      then have "ttConditions (tStatus t') =
          SetStatusCondition lib (ttConditions (tStatus prepared)) (movedCondition node (omGeneration (tMeta prepared)))"
        using assms(2,3) t act by auto
      then have "\<not> IsStatusConditionTrue lib (ttConditions (tStatus t')) ConditionHostReady"
        by (simp add: is_true_set)
      with placed(4) ty t show ?thesis by (simp add: is_true_set)
    qed (use assms(3) t act in simp_all)
  qed
  then show "\<not> IsStatusConditionTrue lib (ttConditions (tStatus t)) ConditionAvailable"
    "\<not> IsStatusConditionTrue lib (ttConditions (tStatus t)) ConditionHostReady" by simp_all
qed

lemma target_pass_unplaced:
  assumes "target_status_pass lib c tgt = Inr (t, res)" and "unreadyNodes c = Inr avoid"
    and none: "\<not> (\<exists>vols. claims_resolve c (omNamespace (tMeta tgt)) (tsLUNs (tSpec tgt)) vols \<and>
              (\<forall>v \<in> set vols. \<exists>r \<in> set (vtReplicas (vStatus v)). may_serve v avoid r))"
  shows "ttActiveNode (tStatus t) = ttActiveNode (tStatus tgt) \<and> ttLUNs (tStatus t) = ttLUNs (tStatus tgt) \<and>
         \<not> IsStatusConditionTrue lib (ttConditions (tStatus t)) ConditionAvailable"
  using assms(1)
proof (cases rule: target_status_pass_cases)
  case (1 versions problem prepared)
  from 1(3) show ?thesis
  proof (elim disjE exE conjE)
    fix reason msg
    assume "t = set_target_cond lib prepared (available0 (omGeneration (tMeta tgt))\<lparr>cReason := reason, cMessage := msg\<rparr>)"
    then show ?thesis using 1(2) by (simp add: is_true_set)
  next
    fix vols avoid' t' cond
    assume cr: "claims_resolve c (omNamespace (tMeta tgt)) (tsLUNs (tSpec tgt)) vols"
      and av: "unreadyNodes c = Inr avoid'" and tp: "target_place lib avoid' vols problem prepared = (t', cond)"
      and t: "t = set_target_cond lib t' cond"
    have ty: "cType cond = ConditionAvailable" by (rule target_place_cond_type[OF tp])
    from tp show ?thesis
    proof (cases rule: target_place_cases)
      case (placed node luns repl)
      have "length (tsLUNs (tSpec prepared)) = length vols"
        using claims_resolve_length[OF cr] 1(2) by simp
      from zip_place(1)[OF placed(1) this] have
        "\<forall>v \<in> set vols. \<exists>r \<in> set (vtReplicas (vStatus v)). may_serve v avoid r"
        using av assms(2) by (simp add: rp.err_iff)
      with none cr show ?thesis by blast
    qed (use 1(2) t ty in \<open>simp_all add: is_true_set\<close>)
  qed
qed

end

section \<open>The whole pass\<close>

text \<open>The object a pass works on: what it read, or what the server answered to the finalizer
  update.\<close>

definition target_in_hand :: "metalib \<Rightarrow> kclient \<Rightarrow> NamespacedName \<Rightarrow> Target option" where
  "target_in_hand lib c req =
     (case GetTarget c req of
        Inl _ \<Rightarrow> None
      | Inr target \<Rightarrow>
        let held = target\<lparr>tMeta := fst (AddFinalizer lib (tMeta target) teardownFinalizer)\<rparr> in
        if omDeleting (tMeta target) then None
        else if snd (AddFinalizer lib (tMeta target) teardownFinalizer) then
          (case UpdateTarget c held of Inl _ \<Rightarrow> None | Inr server \<Rightarrow> Some server)
        else Some held)"

lemma live_pass_status:
  "WTargetStatus t \<in> set (fst (target_live_pass lib c ws tgt)) \<longleftrightarrow>
     WTargetStatus t \<in> set ws \<or> (\<exists>res. target_status_pass lib c tgt = Inr (t, res))"
  by (auto simp: target_live_pass_def split: sum.splits prod.splits if_splits)

lemma live_pass_object:
  "WTarget t \<in> set (fst (target_live_pass lib c ws tgt)) \<longleftrightarrow> WTarget t \<in> set ws"
  by (auto simp: target_live_pass_def split: sum.splits prod.splits if_splits)

lemma delete_no_status: "WTargetStatus t \<notin> set (fst (target_reconcileDelete lib c tgt))"
  by (auto simp: target_reconcileDelete_def Let_def split: sum.splits if_splits)

lemma target_status_written:
  "WTargetStatus t \<in> set (fst (TargetReconcile lib c req)) \<longleftrightarrow>
     (\<exists>tgt res. target_in_hand lib c req = Some tgt \<and> target_status_pass lib c tgt = Inr (t, res))"
  by (cases "GetTarget c req")
     (auto simp: TargetReconcile_def target_in_hand_def Let_def live_pass_status delete_no_status
        split: sum.splits prod.splits if_splits)

text \<open>What the API server promises of an accepted update: the stored object carries the finalizers
  that were sent.\<close>

definition target_update_keeps_finalizers :: "kclient \<Rightarrow> bool" where
  "target_update_keeps_finalizers c \<longleftrightarrow>
     (\<forall>t t'. UpdateTarget c t = Inr t' \<longrightarrow> set (omFinalizers (tMeta t')) = set (omFinalizers (tMeta t)))"

definition target_release_ok :: "kclient \<Rightarrow> Target \<Rightarrow> bool" where
  "target_release_ok c t \<longleftrightarrow>
     ttActiveNode (tStatus t) = '''' \<or> ttState (tStatus t) = ''Removed'' \<or>
     nodeGoneOrUnready c (ttActiveNode (tStatus t)) = Inr True"

context metalib_laws
begin

lemma target_hold:
  assumes "target_in_hand lib c req = Some t" and "target_update_keeps_finalizers c"
  shows "teardownFinalizer \<in> set (omFinalizers (tMeta t))"
proof (cases "GetTarget c req")
  case (Inl e)
  with assms(1) show ?thesis by (simp add: target_in_hand_def)
next
  case (Inr tgt)
  then show ?thesis
    using assms add_set[of "tMeta tgt" teardownFinalizer]
    unfolding target_in_hand_def target_update_keeps_finalizers_def
    by (auto simp: Let_def split: if_splits sum.splits)
qed

lemma target_delete:
  assumes "GetTarget c req = Inr t" and "omDeleting (tMeta t)" and "teardownFinalizer \<in> set (omFinalizers (tMeta t))"
  shows "fst (TargetReconcile lib c req) =
     (if target_release_ok c t then [WTarget (t\<lparr>tMeta := RemoveFinalizer lib (tMeta t) teardownFinalizer\<rparr>)] else [])"
  using assms
  by (auto simp: TargetReconcile_def target_reconcileDelete_def target_release_ok_def contains Let_def
      split: sum.splits)

end

section \<open>Properties\<close>


text \<open>A replicated target with its host ready, on a cluster where node \<open>a\<close> is down.\<close>

definition host_ready :: Condition where
  "host_ready = \<lparr>cType = ConditionHostReady, cStatus = ConditionTrue, cReason = ReasonReady, cMessage = '''',
     cObservedGeneration = 1\<rparr>"

definition demo_target :: "string \<Rightarrow> Target" where
  "demo_target active = (target0 ''ns'' ''t'')\<lparr>
     tMeta := (meta0 ''ns'' ''t'')\<lparr>omFinalizers := [teardownFinalizer]\<rparr>,
     tSpec := \<lparr>tsVIP = ''10.0.0.9'', tsLUNs = [\<lparr>lunID = 0, lunClaimName = ''v''\<rparr>], tsInitiators = []\<rparr>,
     tStatus := (tStatus (target0 ''ns'' ''t''))\<lparr>ttActiveNode := active, ttConditions := [host_ready]\<rparr>\<rparr>"

definition demo_cluster :: "Target \<Rightarrow> kclient" where
  "demo_cluster t = (with_volumes [''v'' \<mapsto> vol_on ''v'' [''a'', ''b'']] client0)\<lparr>
     GetTarget := \<lambda>_. Inr t, ListNodes := Inr [node0 ''a'' False, node0 ''b'' True],
     GetNode := \<lambda>n. Inr (node0 n (n \<noteq> ''a''))\<rparr>"

definition demo_key :: NamespacedName where
  "demo_key = \<lparr>nnNamespace = ''ns'', nnName = ''t''\<rparr>"

definition demo_status :: "string \<Rightarrow> Target option" where
  "demo_status active =
     (case fst (TargetReconcile std_metalib (demo_cluster (demo_target active)) demo_key) of
        [WTargetStatus t] \<Rightarrow> Some t | _ \<Rightarrow> None)"

lemma demo_status_written:
  "demo_status active = Some t \<Longrightarrow>
     WTargetStatus t \<in> set (fst (TargetReconcile std_metalib (demo_cluster (demo_target active)) demo_key))"
  by (auto simp: demo_status_def split: list.splits target_write.splits)

text \<open>The host of \<open>b\<close> is ready and the target already lives there; the same target still recorded
  on \<open>a\<close> moves.\<close>

lemma demo_stays:
  "case demo_status ''b'' of None \<Rightarrow> False
   | Some t \<Rightarrow> IsStatusConditionTrue std_metalib (ttConditions (tStatus t)) ConditionAvailable"
  by code_simp

lemma demo_moves:
  "case demo_status ''a'' of None \<Rightarrow> False | Some t \<Rightarrow> ttActiveNode (tStatus t) = ''b''"
  by code_simp


text \<open>A move is never reported as service: a pass that changes a recorded active node writes
  both HostReady and Available as not true, so Available waits for the new node's agent.\<close>

theorem target_move_resets:
  assumes "metalib_laws lib"
    and "target_in_hand lib c req = Some tgt"
    and "WTargetStatus t \<in> set (fst (TargetReconcile lib c req))"
    and "ttActiveNode (tStatus tgt) \<noteq> ''''" and "ttActiveNode (tStatus t) \<noteq> ttActiveNode (tStatus tgt)"
  shows "\<not> IsStatusConditionTrue lib (ttConditions (tStatus t)) ConditionHostReady \<and>
         \<not> IsStatusConditionTrue lib (ttConditions (tStatus t)) ConditionAvailable"
proof -
  from assms(2,3) obtain res where "target_status_pass lib c tgt = Inr (t, res)"
    unfolding target_status_written by auto
  from metalib_laws.target_pass_moved[OF assms(1) this assms(4,5)] show ?thesis by simp
qed

lemma demo_in_hand:
  "target_in_hand std_metalib (demo_cluster (demo_target a)) demo_key = Some (demo_target a)"
  by (simp add: target_in_hand_def demo_cluster_def demo_target_def std_metalib_def run_defs)

theorem target_move_resets_witness:
  "\<exists>t. demo_status ''a'' = Some t \<and>
     \<not> IsStatusConditionTrue std_metalib (ttConditions (tStatus t)) ConditionAvailable"
proof -
  from demo_moves obtain t where t: "demo_status ''a'' = Some t" "ttActiveNode (tStatus t) = ''b''"
    by (auto split: option.splits)
  have "ttActiveNode (tStatus (demo_target ''a'')) = ''a''" by code_simp
  with t target_move_resets[OF std.metalib_laws_axioms demo_in_hand demo_status_written[OF t(1)]]
  show ?thesis by simp
qed

text \<open>A pass that cannot place every LUN leaves the recorded active node and LUN devices as
  they were (the agent keeps exporting what it exports) and reports Available=False.\<close>

theorem target_unplaced_keeps:
  assumes "metalib_laws lib"
    and "target_in_hand lib c req = Some tgt"
    and "WTargetStatus t \<in> set (fst (TargetReconcile lib c req))"
    and "unreadyNodes c = Inr avoid"
    and "\<not> (\<exists>vols. claims_resolve c (omNamespace (tMeta tgt)) (tsLUNs (tSpec tgt)) vols \<and>
              (\<forall>v \<in> set vols. \<exists>r \<in> set (vtReplicas (vStatus v)). may_serve v avoid r))"
  shows "ttActiveNode (tStatus t) = ttActiveNode (tStatus tgt) \<and> ttLUNs (tStatus t) = ttLUNs (tStatus tgt) \<and>
         \<not> IsStatusConditionTrue lib (ttConditions (tStatus t)) ConditionAvailable"
proof -
  from assms(2,3) obtain res where p: "target_status_pass lib c tgt = Inr (t, res)"
    unfolding target_status_written by auto
  from metalib_laws.target_pass_unplaced[OF assms(1) this assms(4,5)] show ?thesis .
qed

lemma demo_down_written:
  "\<exists>t. WTargetStatus t \<in> set (fst (TargetReconcile std_metalib
      ((demo_cluster (demo_target ''b''))\<lparr>ListNodes := Inr [node0 ''a'' False, node0 ''b'' False]\<rparr>) demo_key))"
proof -
  have "case fst (TargetReconcile std_metalib
      ((demo_cluster (demo_target ''b''))\<lparr>ListNodes := Inr [node0 ''a'' False, node0 ''b'' False]\<rparr>) demo_key) of
      [WTargetStatus t] \<Rightarrow> True | _ \<Rightarrow> False" by code_simp
  then show ?thesis by (auto split: list.splits target_write.splits)
qed

theorem target_unplaced_keeps_witness:
  "\<exists>t. WTargetStatus t \<in> set (fst (TargetReconcile std_metalib
      ((demo_cluster (demo_target ''b''))\<lparr>ListNodes := Inr [node0 ''a'' False, node0 ''b'' False]\<rparr>) demo_key)) \<and>
     ttActiveNode (tStatus t) = ''b''"
proof -
  let ?c = "(demo_cluster (demo_target ''b''))\<lparr>ListNodes := Inr [node0 ''a'' False, node0 ''b'' False]\<rparr>"
  obtain t where t: "WTargetStatus t \<in> set (fst (TargetReconcile std_metalib ?c demo_key))"
    using demo_down_written by blast
  have hand: "target_in_hand std_metalib ?c demo_key = Some (demo_target ''b'')"
    by (simp add: target_in_hand_def demo_cluster_def demo_target_def std_metalib_def run_defs)
  have down: "unreadyNodes ?c = Inr (\<lambda>x. x = ''a'' \<or> x = ''b'')"
    by (auto simp: unreadyNodes_def node0_def nodeReady_def meta0_def fun_eq_iff)
  have "claimVolume ?c ''ns'' ''v'' = (Some (vol_on ''v'' [''a'', ''b'']), '''', '''')"
    by (simp add: claimVolume_def demo_cluster_def run_defs)
  then have only: "claims_resolve ?c (omNamespace (tMeta (demo_target ''b''))) (tsLUNs (tSpec (demo_target ''b''))) vols \<longleftrightarrow>
      vols = [vol_on ''v'' [''a'', ''b'']]" for vols
    by (auto simp: claims_resolve_def demo_target_def meta0_def list_all2_Cons1)
  have "\<not> may_serve v (\<lambda>x. x = ''a'' \<or> x = ''b'') r"
    if "v = vol_on ''v'' [''a'', ''b'']" "r \<in> set (vtReplicas (vStatus v))" for v r
    using that by (auto simp: may_serve_def run_defs)
  then have "\<not> (\<exists>vols. claims_resolve ?c (omNamespace (tMeta (demo_target ''b''))) (tsLUNs (tSpec (demo_target ''b''))) vols \<and>
       (\<forall>v \<in> set vols. \<exists>r \<in> set (vtReplicas (vStatus v)). may_serve v (\<lambda>x. x = ''a'' \<or> x = ''b'') r))"
    unfolding only by auto
  from target_unplaced_keeps[OF std.metalib_laws_axioms hand t down this] t
  show ?thesis by (auto simp: demo_target_def)
qed

text \<open>\<^bold>\<open>C11\<close>. The deletion handshake of a target. While it lives, a status (and so a placement) is
  written only for an object that carries the teardown finalizer, given that the server stores the
  finalizers an update sends. Once it is deleted, a pass releases the finalizer exactly when no
  node was ever placed, the agent reported Removed, or the active node is gone or unready; a
  release writes the object without that finalizer and nothing else.\<close>

theorem target_teardown_handshake:
  assumes "metalib_laws lib" and "target_update_keeps_finalizers c"
  shows "(\<forall>t. WTargetStatus t \<in> set (fst (TargetReconcile lib c req)) \<longrightarrow>
            teardownFinalizer \<in> set (omFinalizers (tMeta t))) \<and>
         (\<forall>t. GetTarget c req = Inr t \<and> omDeleting (tMeta t) \<and> teardownFinalizer \<in> set (omFinalizers (tMeta t)) \<longrightarrow>
            fst (TargetReconcile lib c req) =
              (if target_release_ok c t
               then [WTarget (t\<lparr>tMeta := RemoveFinalizer lib (tMeta t) teardownFinalizer\<rparr>)] else []))"
proof (intro conjI allI impI)
  fix t
  assume "WTargetStatus t \<in> set (fst (TargetReconcile lib c req))"
  then obtain tgt res where h: "target_in_hand lib c req = Some tgt" and p: "target_status_pass lib c tgt = Inr (t, res)"
    unfolding target_status_written by blast
  from metalib_laws.target_hold[OF assms(1) h assms(2)] target_status_pass_frame(1)[OF p]
  show "teardownFinalizer \<in> set (omFinalizers (tMeta t))" by simp
next
  fix t
  assume "GetTarget c req = Inr t \<and> omDeleting (tMeta t) \<and> teardownFinalizer \<in> set (omFinalizers (tMeta t))"
  then show "fst (TargetReconcile lib c req) =
      (if target_release_ok c t
       then [WTarget (t\<lparr>tMeta := RemoveFinalizer lib (tMeta t) teardownFinalizer\<rparr>)] else [])"
    using metalib_laws.target_delete[OF assms(1)] by blast
qed

text \<open>Deleting the demo target: held while its node \<open>b\<close> is up, released when it lives on the dead \<open>a\<close>.\<close>

definition demo_deleting :: "string \<Rightarrow> Target" where
  "demo_deleting active = (demo_target active)\<lparr>tMeta := (tMeta (demo_target active))\<lparr>omDeleting := True\<rparr>\<rparr>"

theorem target_teardown_handshake_witness:
  "fst (TargetReconcile std_metalib (demo_cluster (demo_deleting ''b'')) demo_key) = [] \<and>
   length (fst (TargetReconcile std_metalib (demo_cluster (demo_deleting ''a'')) demo_key)) = 1"
proof -
  have keeps: "target_update_keeps_finalizers (demo_cluster t)" for t
    by (simp add: target_update_keeps_finalizers_def demo_cluster_def with_volumes_def client0_def)
  have read: "GetTarget (demo_cluster t) demo_key = Inr t" for t by (simp add: demo_cluster_def)
  have del: "omDeleting (tMeta (demo_deleting a))" "teardownFinalizer \<in> set (omFinalizers (tMeta (demo_deleting a)))" for a
    by (simp_all add: demo_deleting_def demo_target_def)
  have ok: "target_release_ok (demo_cluster (demo_deleting ''a'')) (demo_deleting ''a'')"
    "\<not> target_release_ok (demo_cluster (demo_deleting ''b'')) (demo_deleting ''b'')"
    by (simp_all add: target_release_ok_def nodeGoneOrUnready_def demo_cluster_def demo_deleting_def demo_target_def
        nodeReady_def run_defs)
  show ?thesis
    using target_teardown_handshake[OF std.metalib_laws_axioms keeps, of "demo_deleting ''b''" demo_key]
      target_teardown_handshake[OF std.metalib_laws_axioms keeps, of "demo_deleting ''a''" demo_key] read del ok
    by auto
qed

text \<open>The CHAP secret versions recorded for the agent: one entry for each distinct secret the
  initiators reference that exists and holds both keys, with the resource version just read, none
  for the others; and a problem is reported exactly when some referenced secret is not usable.\<close>

theorem chap_versions_exact:
  assumes "chapSecrets c t = Inr (versions, problem)"
  shows "distinct (map svName versions) \<and>
         set versions = {\<lparr>svName = ref, svResourceVersion = secret_version c (omNamespace (tMeta t)) ref\<rparr> | ref.
            ref \<noteq> '''' \<and> (\<exists>ini \<in> set (tsInitiators (tSpec t)). iniChapSecretRef ini = ref) \<and>
            chap_usable c (omNamespace (tMeta t)) ref} \<and>
         (problem = '''' \<longleftrightarrow>
            (\<forall>ini \<in> set (tsInitiators (tSpec t)). iniChapSecretRef ini = '''' \<or>
               chap_usable c (omNamespace (tMeta t)) (iniChapSecretRef ini)))"
proof -
  note loop = assms[unfolded chapSecrets_def]
  from chap_loop_versions[OF loop] obtain refs where
    v: "versions = map (\<lambda>ref. \<lparr>svName = ref, svResourceVersion = secret_version c (omNamespace (tMeta t)) ref\<rparr>) refs"
    and d: "distinct refs"
    and s: "set refs = {ref \<in> iniChapSecretRef ` set (tsInitiators (tSpec t)). ref \<noteq> '''' \<and>
       chap_usable c (omNamespace (tMeta t)) ref}"
    by auto
  have "map svName versions = refs" using v by (simp add: o_def)
  moreover from v s have "set versions =
      {\<lparr>svName = ref, svResourceVersion = secret_version c (omNamespace (tMeta t)) ref\<rparr> | ref.
            ref \<noteq> '''' \<and> (\<exists>ini \<in> set (tsInitiators (tSpec t)). iniChapSecretRef ini = ref) \<and>
            chap_usable c (omNamespace (tMeta t)) ref}" by auto
  ultimately show ?thesis using d chap_loop_problem[OF loop] by simp
qed

definition chap_cluster :: kclient where
  "chap_cluster = client0\<lparr>GetSecret := \<lambda>k. if nnName k = ''s''
     then Inr \<lparr>secMeta = (meta0 ''ns'' ''s'')\<lparr>omResourceVersion := ''7''\<rparr>,
               secData = [''username'' \<mapsto> ''u'', ''password'' \<mapsto> ''p'']\<rparr>
     else Inl not_found\<rparr>"

definition chap_target :: Target where
  "chap_target = (target0 ''ns'' ''t'')\<lparr>tSpec := \<lparr>tsVIP = '''', tsLUNs = [], tsInitiators =
     [\<lparr>iniIQN = ''i1'', iniChapSecretRef = ''s''\<rparr>, \<lparr>iniIQN = ''i2'', iniChapSecretRef = ''gone''\<rparr>,
      \<lparr>iniIQN = ''i3'', iniChapSecretRef = ''s''\<rparr>]\<rparr>\<rparr>"

theorem chap_versions_exact_witness:
  "\<exists>versions problem. chapSecrets chap_cluster chap_target = Inr (versions, problem) \<and> problem \<noteq> '''' \<and>
     distinct (map svName versions) \<and> versions \<noteq> []"
proof -
  have run: "chapSecrets chap_cluster chap_target =
      Inr ([\<lparr>svName = ''s'', svResourceVersion = ''7''\<rparr>], ''chap secret gone not found'')"
    by code_simp
  from chap_versions_exact[OF run] run show ?thesis by simp
qed

text \<open>Two unreplicated LUNs, their Volumes on different nodes.\<close>

definition gap_target :: Target where
  "gap_target = (demo_target '''')\<lparr>tSpec := \<lparr>tsVIP = '''',
     tsLUNs = [\<lparr>lunID = 0, lunClaimName = ''v''\<rparr>, \<lparr>lunID = 1, lunClaimName = ''w''\<rparr>], tsInitiators = []\<rparr>\<rparr>"

definition gap_cluster :: kclient where
  "gap_cluster = (with_volumes [''v'' \<mapsto> vol_on ''v'' [''a''], ''w'' \<mapsto> vol_on ''w'' [''b'']] client0)\<lparr>
     GetTarget := \<lambda>_. Inr gap_target, ListNodes := Inr [node0 ''a'' True, node0 ''b'' True]\<rparr>"

text \<open>The type comment says that LUNs whose primaries differ can be colocated because DRBD
  device paths are node-agnostic. Placement takes the node from the first LUN only: here the second
  LUN's Volume has its one replica on \<open>b\<close>, and the pass still lists its device for the active node
  \<open>a\<close> without a condition against it, reporting Available as soon as HostReady is true.\<close>

theorem target_colocation_gap:
  "case fst (TargetReconcile std_metalib gap_cluster demo_key) of
     [WTargetStatus t] \<Rightarrow>
       ttActiveNode (tStatus t) = ''a'' \<and>
       ttLUNs (tStatus t) = [\<lparr>lsID = 0, lsDevice = ''/dev/drbd-v''\<rparr>, \<lparr>lsID = 1, lsDevice = ''/dev/drbd-w''\<rparr>] \<and>
       (case claimVolume gap_cluster ''ns'' ''w'' of
          (Some w, _, _) \<Rightarrow> map rsNode (vtReplicas (vStatus w)) = [''b''] | _ \<Rightarrow> False) \<and>
       IsStatusConditionTrue std_metalib (ttConditions (tStatus t)) ConditionAvailable
   | _ \<Rightarrow> False"
  by code_simp

end
