(* ===== verification/Share_Ctl.thy ===== *)
theory Share_Ctl
  imports Target_Ctl
begin

text \<open>
  The operator's Share controller, \<open>operator/internal/controller/share_controller.go\<close>: placement
  of file shares, the deletion handshake and the watch maps. The Available condition a pass starts
  from and the reset after a move are those of the Target controller.
\<close>

datatype share_write = WShare Share | WShareStatus Share

section \<open>The reconcile pass\<close>

definition set_share_cond :: "metalib \<Rightarrow> Share \<Rightarrow> Condition \<Rightarrow> Share" where
  "set_share_cond lib s cond =
     s\<lparr>shStatus := (shStatus s)\<lparr>shConditions := SetStatusCondition lib (shConditions (shStatus s)) cond\<rparr>\<rparr>"

definition share_place :: "metalib \<Rightarrow> (string \<Rightarrow> bool) \<Rightarrow> Volume \<Rightarrow> Share \<Rightarrow> Share \<times> Condition" where
  "share_place lib avoid vol share =
     (let st = shStatus share; gen = omGeneration (shMeta share); av = available0 gen;
          p = ResolvePlacement vol (shNode st) avoid in
      case plcErr p of
        Some e \<Rightarrow> (share, av\<lparr>cReason := ReasonWaitingForVolume, cMessage := eText e\<rparr>)
      | None \<Rightarrow>
        let moved = shNode st \<noteq> '''' \<and> shNode st \<noteq> plcNode p;
            conds = (if moved then SetStatusCondition lib (shConditions st) (movedCondition (plcNode p) gen)
                     else shConditions st);
            share' = share\<lparr>shStatus := st\<lparr>shNode := plcNode p, shDevice := plcDevice p, shConditions := conds\<rparr>\<rparr> in
        (share',
         if IsStatusConditionTrue lib conds ConditionHostReady then
           av\<lparr>cStatus := ConditionTrue, cReason := ReasonReady\<rparr>
         else av\<lparr>cReason := ReasonWaitingForAgent,
                 cMessage := ''waiting for the node agent to mount and export''\<rparr>))"

definition share_status_pass :: "metalib \<Rightarrow> kclient \<Rightarrow> Share \<Rightarrow> go_error + Share \<times> ctrl_Result" where
  "share_status_pass lib c share =
     (case claimVolume c (omNamespace (shMeta share)) (ssClaimName (shSpec share)) of (vol, reason, msg) \<Rightarrow>
        if reason \<noteq> '''' then
          Inr (set_share_cond lib share (available0 (omGeneration (shMeta share))\<lparr>cReason := reason, cMessage := msg\<rparr>),
               if reason = ReasonWaitingForVolume then requeue volumeSettleInterval else no_requeue)
        else
          (case unreadyNodes c of
             Inl e \<Rightarrow> Inl e
           | Inr avoid \<Rightarrow>
             (case share_place lib avoid (case vol of None \<Rightarrow> volume0 '''' | Some v \<Rightarrow> v) share of
                (share', cond) \<Rightarrow> Inr (set_share_cond lib share' cond, no_requeue))))"

definition share_reconcileDelete :: "metalib \<Rightarrow> kclient \<Rightarrow> Share \<Rightarrow> share_write outcome" where
  "share_reconcileDelete lib c share =
     (if \<not> ContainsFinalizer lib (shMeta share) teardownFinalizer then done_with []
      else
        let node = shNode (shStatus share);
            removed = share\<lparr>shMeta := RemoveFinalizer lib (shMeta share) teardownFinalizer\<rparr> in
        case (if node = '''' \<or> shState (shStatus share) = ''Removed'' then Inr True
              else nodeGoneOrUnready c node) of
          Inl e \<Rightarrow> fail_with [] (Some e)
        | Inr done \<Rightarrow>
          if \<not> done then ([], requeue volumeSettleInterval, None)
          else
            (case UpdateShare c removed of
               Inl e \<Rightarrow> if eReason e = Conflict then done_with [WShare removed]
                        else fail_with [WShare removed] (IgnoreNotFound (Some e))
             | Inr _ \<Rightarrow> done_with [WShare removed]))"

definition share_live_pass :: "metalib \<Rightarrow> kclient \<Rightarrow> share_write list \<Rightarrow> Share \<Rightarrow> share_write outcome" where
  "share_live_pass lib c ws share =
     (case share_status_pass lib c share of
        Inl e \<Rightarrow> fail_with ws (Some e)
      | Inr (share', res) \<Rightarrow>
        (case UpdateShareStatus c share' of
           Inl e \<Rightarrow> if eReason e = Conflict then done_with (ws @ [WShareStatus share'])
                    else fail_with (ws @ [WShareStatus share']) (Some e)
         | Inr _ \<Rightarrow> (ws @ [WShareStatus share'], res, None)))"

definition ShareReconcile :: "metalib \<Rightarrow> kclient \<Rightarrow> NamespacedName \<Rightarrow> share_write outcome" where
  "ShareReconcile lib c req =
     (case GetShare c req of
        Inl e \<Rightarrow> fail_with [] (IgnoreNotFound (Some e))
      | Inr share \<Rightarrow>
        if omDeleting (shMeta share) then share_reconcileDelete lib c share
        else
          (case AddFinalizer lib (shMeta share) teardownFinalizer of (m, changed) \<Rightarrow>
             let held = share\<lparr>shMeta := m\<rparr> in
             if changed then
               (case UpdateShare c held of
                  Inl e \<Rightarrow> if eReason e = Conflict then done_with [WShare held]
                           else fail_with [WShare held] (Some e)
                | Inr server \<Rightarrow> share_live_pass lib c [WShare held] server)
             else share_live_pass lib c [] held))"

section \<open>Watch maps\<close>

definition allShares :: "kclient \<Rightarrow> NamespacedName list" where
  "allShares c = (case ListShares c None of Inl _ \<Rightarrow> [] | Inr ss \<Rightarrow> map (\<lambda>s. keyOf (shMeta s)) ss)"

definition volumeShares :: "kclient \<Rightarrow> string \<Rightarrow> NamespacedName list" where
  "volumeShares c name =
     (case volumeClaim c name of (claim, ok) \<Rightarrow>
        if \<not> ok then []
        else
          (case ListShares c (Some (nnNamespace claim)) of
             Inl _ \<Rightarrow> []
           | Inr ss \<Rightarrow>
             map (\<lambda>s. keyOf (shMeta s)) (filter (\<lambda>s. ssClaimName (shSpec s) = nnName claim) ss)))"

section \<open>The status a pass writes\<close>

lemma set_share_cond_simps [simp]:
  "shMeta (set_share_cond lib s cond) = shMeta s" "shSpec (set_share_cond lib s cond) = shSpec s"
  "shConditions (shStatus (set_share_cond lib s cond)) = SetStatusCondition lib (shConditions (shStatus s)) cond"
  "shNode (shStatus (set_share_cond lib s cond)) = shNode (shStatus s)"
  "shDevice (shStatus (set_share_cond lib s cond)) = shDevice (shStatus s)"
  "shState (shStatus (set_share_cond lib s cond)) = shState (shStatus s)"
  by (simp_all add: set_share_cond_def)

text \<open>What a pass of the share controller does to the status, by cases.\<close>

lemma share_status_pass_cases:
  assumes "share_status_pass lib c share = Inr (s, res)"
  obtains (claim) reason msg where
      "\<nexists>v. claimVolume c (omNamespace (shMeta share)) (ssClaimName (shSpec share)) = (Some v, '''', '''')"
      "s = set_share_cond lib share (available0 (omGeneration (shMeta share))\<lparr>cReason := reason, cMessage := msg\<rparr>)"
  | (unplaced) v avoid e where
      "claimVolume c (omNamespace (shMeta share)) (ssClaimName (shSpec share)) = (Some v, '''', '''')"
      "unreadyNodes c = Inr avoid" "plcErr (ResolvePlacement v (shNode (shStatus share)) avoid) = Some e"
      "s = set_share_cond lib share (available0 (omGeneration (shMeta share))
             \<lparr>cReason := ReasonWaitingForVolume, cMessage := eText e\<rparr>)"
  | (placed) v avoid p conds cond where
      "claimVolume c (omNamespace (shMeta share)) (ssClaimName (shSpec share)) = (Some v, '''', '''')"
      "unreadyNodes c = Inr avoid" "p = ResolvePlacement v (shNode (shStatus share)) avoid" "plcErr p = None"
      "conds = (if shNode (shStatus share) \<noteq> '''' \<and> shNode (shStatus share) \<noteq> plcNode p
         then SetStatusCondition lib (shConditions (shStatus share)) (movedCondition (plcNode p) (omGeneration (shMeta share)))
         else shConditions (shStatus share))"
      "cType cond = ConditionAvailable"
      "cStatus cond = (if IsStatusConditionTrue lib conds ConditionHostReady then ConditionTrue else ConditionFalse)"
      "s = set_share_cond lib (share\<lparr>shStatus := (shStatus share)
             \<lparr>shNode := plcNode p, shDevice := plcDevice p, shConditions := conds\<rparr>\<rparr>) cond"
proof -
  obtain vol reason msg where cv:
    "claimVolume c (omNamespace (shMeta share)) (ssClaimName (shSpec share)) = (vol, reason, msg)" by (metis prod_cases3)
  show ?thesis
  proof (cases "reason = ''''")
    case False
    with cv assms show ?thesis by (intro claim[of msg reason]) (auto simp: share_status_pass_def)
  next
    case True
    with claimVolume_reason cv obtain v where v: "vol = Some v" "msg = ''''" by (metis fst_conv snd_conv prod.inject)
    with True cv have cv': "claimVolume c (omNamespace (shMeta share)) (ssClaimName (shSpec share)) = (Some v, '''', '''')"
      by simp
    from assms cv' obtain avoid where un: "unreadyNodes c = Inr avoid"
      by (auto simp: share_status_pass_def split: sum.splits)
    let ?p = "ResolvePlacement v (shNode (shStatus share)) avoid"
    show ?thesis
    proof (cases "plcErr ?p")
      case (Some e)
      show ?thesis
        by (rule unplaced[OF cv' un Some]) (use assms cv' un Some in \<open>simp add: share_status_pass_def share_place_def Let_def\<close>)
    next
      case None
      let ?st = "shStatus share"
      let ?conds = "if shNode ?st \<noteq> [] \<and> shNode ?st \<noteq> plcNode ?p
         then SetStatusCondition lib (shConditions ?st) (movedCondition (plcNode ?p) (omGeneration (shMeta share)))
         else shConditions ?st"
      let ?cond = "if IsStatusConditionTrue lib ?conds ConditionHostReady
         then available0 (omGeneration (shMeta share))\<lparr>cStatus := ConditionTrue, cReason := ReasonReady\<rparr>
         else available0 (omGeneration (shMeta share))\<lparr>cReason := ReasonWaitingForAgent,
                cMessage := ''waiting for the node agent to mount and export''\<rparr>"
      show ?thesis
        by (rule placed[OF cv' un refl None refl, of ?cond])
           (use assms cv' un None in \<open>simp_all add: share_status_pass_def share_place_def Let_def\<close>)
    qed
  qed
qed

text \<open>The facts behind Available=True of a share.\<close>

definition share_served :: "metalib \<Rightarrow> kclient \<Rightarrow> Share \<Rightarrow> bool" where
  "share_served lib c s \<longleftrightarrow>
     IsStatusConditionTrue lib (shConditions (shStatus s)) ConditionHostReady \<and>
     (\<exists>v avoid r. claimVolume c (omNamespace (shMeta s)) (ssClaimName (shSpec s)) = (Some v, '''', '''') \<and>
        unreadyNodes c = Inr avoid \<and> r \<in> set (vtReplicas (vStatus v)) \<and> may_serve v avoid r \<and>
        shNode (shStatus s) = rsNode r \<and> shDevice (shStatus s) = rsDevicePath r)"

definition share_in_hand :: "metalib \<Rightarrow> kclient \<Rightarrow> NamespacedName \<Rightarrow> Share option" where
  "share_in_hand lib c req =
     (case GetShare c req of
        Inl _ \<Rightarrow> None
      | Inr share \<Rightarrow>
        let held = share\<lparr>shMeta := fst (AddFinalizer lib (shMeta share) teardownFinalizer)\<rparr> in
        if omDeleting (shMeta share) then None
        else if snd (AddFinalizer lib (shMeta share) teardownFinalizer) then
          (case UpdateShare c held of Inl _ \<Rightarrow> None | Inr server \<Rightarrow> Some server)
        else Some held)"

lemma share_live_status:
  "WShareStatus s \<in> set (fst (share_live_pass lib c ws sh)) \<longleftrightarrow>
     WShareStatus s \<in> set ws \<or> (\<exists>res. share_status_pass lib c sh = Inr (s, res))"
  by (auto simp: share_live_pass_def split: sum.splits prod.splits if_splits)

lemma share_delete_no_status: "WShareStatus s \<notin> set (fst (share_reconcileDelete lib c sh))"
  by (auto simp: share_reconcileDelete_def Let_def split: sum.splits if_splits)

lemma share_status_written:
  "WShareStatus s \<in> set (fst (ShareReconcile lib c req)) \<longleftrightarrow>
     (\<exists>sh res. share_in_hand lib c req = Some sh \<and> share_status_pass lib c sh = Inr (s, res))"
  by (cases "GetShare c req")
     (auto simp: ShareReconcile_def share_in_hand_def Let_def share_live_status share_delete_no_status
        split: sum.splits prod.splits if_splits)

definition share_update_keeps_finalizers :: "kclient \<Rightarrow> bool" where
  "share_update_keeps_finalizers c \<longleftrightarrow>
     (\<forall>s s'. UpdateShare c s = Inr s' \<longrightarrow> set (omFinalizers (shMeta s')) = set (omFinalizers (shMeta s)))"

definition share_release_ok :: "kclient \<Rightarrow> Share \<Rightarrow> bool" where
  "share_release_ok c s \<longleftrightarrow>
     shNode (shStatus s) = '''' \<or> shState (shStatus s) = ''Removed'' \<or>
     nodeGoneOrUnready c (shNode (shStatus s)) = Inr True"

context metalib_laws
begin

lemma share_pass_served:
  assumes "share_status_pass lib c sh = Inr (s, res)"
    and "IsStatusConditionTrue lib (shConditions (shStatus s)) ConditionAvailable"
  shows "share_served lib c s"
  using assms(1)
proof (cases rule: share_status_pass_cases)
  case (placed v avoid p conds cond)
  from placed(4) rp.sound[of v "shNode (shStatus sh)" avoid] placed(3) obtain r where
    "r \<in> set (vtReplicas (vStatus v))" "may_serve v avoid r" "plcNode p = rsNode r" "plcDevice p = rsDevicePath r"
    by auto
  moreover have "IsStatusConditionTrue lib conds ConditionHostReady"
    using assms(2) placed(6-8) by (auto simp: is_true_set split: if_splits)
  ultimately show ?thesis using placed(1,2,6-8) by (auto simp: share_served_def is_true_set)
qed (use assms(2) in \<open>simp_all add: is_true_set\<close>)

lemma share_pass_moved:
  assumes "share_status_pass lib c sh = Inr (s, res)"
    and "shNode (shStatus sh) \<noteq> ''''" and "shNode (shStatus s) \<noteq> shNode (shStatus sh)"
  shows "\<not> IsStatusConditionTrue lib (shConditions (shStatus s)) ConditionAvailable \<and>
         \<not> IsStatusConditionTrue lib (shConditions (shStatus s)) ConditionHostReady"
  using assms(1)
proof (cases rule: share_status_pass_cases)
  case (placed v avoid p conds cond)
  have "conds = SetStatusCondition lib (shConditions (shStatus sh)) (movedCondition (plcNode p) (omGeneration (shMeta sh)))"
    using placed(5,8) assms(2,3) by auto
  with placed(6-8) show ?thesis by (simp add: is_true_set)
qed (use assms(3) in simp_all)

lemma share_hold:
  assumes "share_in_hand lib c req = Some s" and "share_update_keeps_finalizers c"
  shows "teardownFinalizer \<in> set (omFinalizers (shMeta s))"
proof (cases "GetShare c req")
  case (Inl e)
  with assms(1) show ?thesis by (simp add: share_in_hand_def)
next
  case (Inr sh)
  then show ?thesis
    using assms add_set[of "shMeta sh" teardownFinalizer]
    unfolding share_in_hand_def share_update_keeps_finalizers_def
    by (auto simp: Let_def split: if_splits sum.splits)
qed

lemma share_delete:
  assumes "GetShare c req = Inr s" and "omDeleting (shMeta s)" and "teardownFinalizer \<in> set (omFinalizers (shMeta s))"
  shows "fst (ShareReconcile lib c req) =
     (if share_release_ok c s then [WShare (s\<lparr>shMeta := RemoveFinalizer lib (shMeta s) teardownFinalizer\<rparr>)] else [])"
  using assms
  by (auto simp: ShareReconcile_def share_reconcileDelete_def share_release_ok_def contains Let_def
      split: sum.splits)

end

section \<open>Properties\<close>

text \<open>A share's reported state follows its host: a status with Available=True is written only
  when HostReady is true and the recorded node and device are those of a replica of the claim's
  Volume that may serve on a ready node; and a pass that changes a recorded node writes both
  HostReady and Available as not true.\<close>

theorem share_available_sound:
  assumes "metalib_laws lib"
    and "share_in_hand lib c req = Some sh"
    and "WShareStatus s \<in> set (fst (ShareReconcile lib c req))"
  shows "(IsStatusConditionTrue lib (shConditions (shStatus s)) ConditionAvailable \<longrightarrow> share_served lib c s) \<and>
         (shNode (shStatus sh) \<noteq> '''' \<and> shNode (shStatus s) \<noteq> shNode (shStatus sh) \<longrightarrow>
            \<not> IsStatusConditionTrue lib (shConditions (shStatus s)) ConditionAvailable \<and>
            \<not> IsStatusConditionTrue lib (shConditions (shStatus s)) ConditionHostReady)"
proof -
  from assms(2,3) obtain res where p: "share_status_pass lib c sh = Inr (s, res)"
    unfolding share_status_written by auto
  show ?thesis
    using metalib_laws.share_pass_served[OF assms(1) p] metalib_laws.share_pass_moved[OF assms(1) p] by blast
qed

definition demo_share :: "string \<Rightarrow> Share" where
  "demo_share node = (share0 ''ns'' ''s'')\<lparr>
     shMeta := (meta0 ''ns'' ''s'')\<lparr>omFinalizers := [teardownFinalizer]\<rparr>,
     shSpec := \<lparr>ssClaimName = ''v'', ssNFS = Some \<lparr>nfsClients = [''10.0.0.0/24'']\<rparr>, ssSMB = None\<rparr>,
     shStatus := (shStatus (share0 ''ns'' ''s''))\<lparr>shNode := node, shConditions := [host_ready]\<rparr>\<rparr>"

definition share_cluster :: "Share \<Rightarrow> kclient" where
  "share_cluster s = (demo_cluster (demo_target ''''))\<lparr>GetShare := \<lambda>_. Inr s\<rparr>"

definition share_run :: "string \<Rightarrow> Share option" where
  "share_run node =
     (case fst (ShareReconcile std_metalib (share_cluster (demo_share node)) demo_key) of
        [WShareStatus s] \<Rightarrow> Some s | _ \<Rightarrow> None)"

lemma share_run_written:
  "share_run node = Some s \<Longrightarrow>
     WShareStatus s \<in> set (fst (ShareReconcile std_metalib (share_cluster (demo_share node)) demo_key))"
  by (auto simp: share_run_def split: list.splits share_write.splits)

lemma share_run_hand:
  "share_in_hand std_metalib (share_cluster (demo_share n)) demo_key = Some (demo_share n)"
  by (simp add: share_in_hand_def share_cluster_def demo_share_def std_metalib_def run_defs)

lemma share_run_stays:
  "case share_run ''b'' of None \<Rightarrow> False
   | Some s \<Rightarrow> IsStatusConditionTrue std_metalib (shConditions (shStatus s)) ConditionAvailable"
  by code_simp

theorem share_available_sound_witness:
  "\<exists>s. share_run ''b'' = Some s \<and> share_served std_metalib (share_cluster (demo_share ''b'')) s"
proof -
  from share_run_stays obtain s where s: "share_run ''b'' = Some s"
    "IsStatusConditionTrue std_metalib (shConditions (shStatus s)) ConditionAvailable"
    by (auto split: option.splits)
  with share_available_sound[OF std.metalib_laws_axioms share_run_hand share_run_written[OF s(1)]] show ?thesis by blast
qed

text \<open>\<^bold>\<open>C12\<close>. The deletion handshake of a share, as for a target: its status is written only under the
  teardown finalizer, and once it is deleted a pass releases the finalizer exactly when no node was
  placed, the agent reported Removed, or the node is gone or unready.\<close>

theorem share_teardown_handshake:
  assumes "metalib_laws lib" and "share_update_keeps_finalizers c"
  shows "(\<forall>s. WShareStatus s \<in> set (fst (ShareReconcile lib c req)) \<longrightarrow>
            teardownFinalizer \<in> set (omFinalizers (shMeta s))) \<and>
         (\<forall>s. GetShare c req = Inr s \<and> omDeleting (shMeta s) \<and> teardownFinalizer \<in> set (omFinalizers (shMeta s)) \<longrightarrow>
            fst (ShareReconcile lib c req) =
              (if share_release_ok c s
               then [WShare (s\<lparr>shMeta := RemoveFinalizer lib (shMeta s) teardownFinalizer\<rparr>)] else []))"
proof (intro conjI allI impI)
  fix s
  assume "WShareStatus s \<in> set (fst (ShareReconcile lib c req))"
  then obtain sh res where h: "share_in_hand lib c req = Some sh" and p: "share_status_pass lib c sh = Inr (s, res)"
    unfolding share_status_written by blast
  from p have "shMeta s = shMeta sh" by (cases rule: share_status_pass_cases) simp_all
  with metalib_laws.share_hold[OF assms(1) h assms(2)]
  show "teardownFinalizer \<in> set (omFinalizers (shMeta s))" by simp
next
  fix s
  assume "GetShare c req = Inr s \<and> omDeleting (shMeta s) \<and> teardownFinalizer \<in> set (omFinalizers (shMeta s))"
  then show "fst (ShareReconcile lib c req) =
      (if share_release_ok c s
       then [WShare (s\<lparr>shMeta := RemoveFinalizer lib (shMeta s) teardownFinalizer\<rparr>)] else [])"
    using metalib_laws.share_delete[OF assms(1)] by blast
qed

definition share_deleting :: "string \<Rightarrow> Share" where
  "share_deleting node = (demo_share node)\<lparr>shMeta := (shMeta (demo_share node))\<lparr>omDeleting := True\<rparr>\<rparr>"

theorem share_teardown_handshake_witness:
  "fst (ShareReconcile std_metalib (share_cluster (share_deleting ''b'')) demo_key) = [] \<and>
   length (fst (ShareReconcile std_metalib (share_cluster (share_deleting ''a'')) demo_key)) = 1"
proof -
  have keeps: "share_update_keeps_finalizers (share_cluster s)" for s
    by (simp add: share_update_keeps_finalizers_def share_cluster_def demo_cluster_def with_volumes_def client0_def)
  have read: "GetShare (share_cluster s) demo_key = Inr s" for s by (simp add: share_cluster_def)
  have del: "omDeleting (shMeta (share_deleting a))" "teardownFinalizer \<in> set (omFinalizers (shMeta (share_deleting a)))" for a
    by (simp_all add: share_deleting_def demo_share_def)
  have ok: "share_release_ok (share_cluster (share_deleting ''a'')) (share_deleting ''a'')"
    "\<not> share_release_ok (share_cluster (share_deleting ''b'')) (share_deleting ''b'')"
    by (simp_all add: share_release_ok_def nodeGoneOrUnready_def share_cluster_def demo_cluster_def
        share_deleting_def demo_share_def nodeReady_def run_defs)
  show ?thesis
    using share_teardown_handshake[OF std.metalib_laws_axioms keeps, of "share_deleting ''b''" demo_key]
      share_teardown_handshake[OF std.metalib_laws_axioms keeps, of "share_deleting ''a''" demo_key] read del ok
    by auto
qed

end
