(* ===== verification/Pool_Ctl.thy ===== *)
theory Pool_Ctl
  imports Target_Ctl
begin

text \<open>
  StoragePools and their r-drbd Pools: \<open>operator/internal/rdrbd/registrar.go\<close> (the Pool a
  StoragePool registers as, its creation and its release) and the StoragePool controller,
  \<open>operator/internal/controller/storagepool_controller.go\<close>.
\<close>

datatype pool_write =
    CreateRPool Pool
  | DeleteRPool Pool
  | WStoragePool StoragePool
  | WStoragePoolStatus StoragePool
  | Warning string string \<comment> \<open>event reason and message\<close>

section \<open>The registrar (registrar.go)\<close>

definition PoolSpec :: "StoragePool \<Rightarrow> PoolSpec" where
  "PoolSpec sp =
     \<lparr>psNode = spsNode (spSpec sp),
      psTier = (if spsTier (spSpec sp) = '''' then DefaultTier else spsTier (spSpec sp)),
      psVG = VGName sp, psThinPool = ThinLV, psOvercommitPercent = None, psReservePercent = None\<rparr>"

definition sameLocation :: "PoolSpec \<Rightarrow> PoolSpec \<Rightarrow> bool" where
  "sameLocation a b \<longleftrightarrow> psNode a = psNode b \<and> psTier a = psTier b \<and> psVG a = psVG b \<and> psThinPool a = psThinPool b"

definition newPool :: "StoragePool \<Rightarrow> Pool" where
  "newPool sp = \<lparr>plMeta = meta0 '''' (omName (spMeta sp)), plSpec = PoolSpec sp,
     plStatus = \<lparr>ptTotalBytes = None, ptFreeBytes = None, ptVolumes = [], ptCommittedBytes = None,
       ptPlaceableBytes = None, ptConditions = []\<rparr>\<rparr>"

text \<open>Writes, ready, message, error.\<close>

type_synonym registration = "pool_write list \<times> bool \<times> string \<times> go_error option"

definition EnsurePool :: "metalib \<Rightarrow> kclient \<Rightarrow> StoragePool \<Rightarrow> registration" where
  "EnsurePool lib c sp =
     (let want = PoolSpec sp; name = omName (spMeta sp) in
      case GetPool c name of
        Inl e \<Rightarrow>
          if eReason e = NotFound then
            (case CreatePool c (newPool sp) of
               None \<Rightarrow> ([CreateRPool (newPool sp)], False, ''r-drbd pool created, waiting for the agent'', None)
             | Some ce \<Rightarrow>
               if eReason ce \<noteq> AlreadyExists then
                 ([CreateRPool (newPool sp)], False, '''', Some (wrap (''create r-drbd pool '' @ name @ '': '') ce))
               else ([CreateRPool (newPool sp)], False, ''r-drbd pool created, waiting for the agent'', None))
          else ([], False, '''', Some (wrap (''get r-drbd pool '' @ name @ '': '') e))
      | Inr pool \<Rightarrow>
          if \<not> sameLocation (plSpec pool) want then
            ([], False,
             ''r-drbd pool '' @ name @ '' exists for '' @ psVG (plSpec pool) @ ''/'' @ psThinPool (plSpec pool) @
             '' on '' @ psNode (plSpec pool) @ '' in tier '' @ psTier (plSpec pool) @ '', not '' @
             psVG want @ ''/'' @ psThinPool want @ '' on '' @ psNode want @ '' in tier '' @ psTier want, None)
          else if omDeleting (plMeta pool) then
            ([], False, ''r-drbd pool '' @ name @ '' is still being deleted'', None)
          else
            (case FindStatusCondition lib (ptConditions (plStatus pool)) ConditionAvailable of
               None \<Rightarrow> ([], False, ''waiting for the r-drbd agent to report the pool'', None)
             | Some cond \<Rightarrow>
               if cStatus cond \<noteq> ConditionTrue then
                 ([], False, ''r-drbd pool not available: '' @ cMessage cond, None)
               else ([], True, '''', None)))"

definition DeletePool :: "kclient \<Rightarrow> StoragePool \<Rightarrow> registration" where
  "DeletePool c sp =
     (let name = omName (spMeta sp) in
      case GetPool c name of
        Inl e \<Rightarrow>
          if eReason e = NotFound then ([], True, '''', None)
          else ([], False, '''', Some (wrap (''get r-drbd pool '' @ name @ '': '') e))
      | Inr pool \<Rightarrow>
          if psNode (plSpec pool) \<noteq> spsNode (spSpec sp) \<or> psVG (plSpec pool) \<noteq> VGName sp then
            ([], True, '''', None)
          else
            let ws = (if \<not> omDeleting (plMeta pool) then [DeleteRPool pool] else []);
                err = (if \<not> omDeleting (plMeta pool) then IgnoreNotFound (RemovePool c pool) else None) in
            (case err of
               Some e \<Rightarrow> (ws, False, '''', Some (wrap (''delete r-drbd pool '' @ name @ '': '') e))
             | None \<Rightarrow>
               if length (ptVolumes (plStatus pool)) > 0 then
                 (ws, False, ''pool still backs volumes: '' @ joinWith '', '' (ptVolumes (plStatus pool)), None)
               else (ws, False, ''waiting for r-drbd to release the pool'', None)))"

section \<open>The reconcile pass (storagepool\_controller.go)\<close>

abbreviation poolFinalizer :: string where
  "poolFinalizer \<equiv> ''storage.stornas.io/deregister''"

definition pool_cond :: "string \<Rightarrow> ConditionStatus \<Rightarrow> string \<Rightarrow> string \<Rightarrow> StoragePool \<Rightarrow> Condition" where
  "pool_cond ty st reason msg pool =
     \<lparr>cType = ty, cStatus = st, cReason = reason, cMessage = msg, cObservedGeneration = omGeneration (spMeta pool)\<rparr>"

definition set_pool_cond :: "metalib \<Rightarrow> StoragePool \<Rightarrow> Condition \<Rightarrow> StoragePool" where
  "set_pool_cond lib p cond =
     p\<lparr>spStatus := (spStatus p)\<lparr>spConditions := SetStatusCondition lib (spConditions (spStatus p)) cond\<rparr>\<rparr>"

definition pool_reconcileDelete :: "metalib \<Rightarrow> kclient \<Rightarrow> StoragePool \<Rightarrow> pool_write outcome" where
  "pool_reconcileDelete lib c pool =
     (if \<not> ContainsFinalizer lib (spMeta pool) poolFinalizer then done_with []
      else
        (case DeletePool c pool of (ws, gone, msg, err) \<Rightarrow>
           case err of
             Some e \<Rightarrow> fail_with ws (Some e)
           | None \<Rightarrow>
             if \<not> gone then
               let pool' = set_pool_cond lib pool
                     (pool_cond ConditionDeregistered ConditionFalse ReasonWaitingForPool msg pool) in
               (case UpdateStoragePoolStatus c pool' of
                  Inl e \<Rightarrow> if eReason e \<noteq> Conflict then fail_with (ws @ [WStoragePoolStatus pool']) (IgnoreNotFound (Some e))
                           else done_with (ws @ [WStoragePoolStatus pool'])
                | Inr _ \<Rightarrow> done_with (ws @ [WStoragePoolStatus pool']))
             else if \<not> IsStatusConditionTrue lib (spConditions (spStatus pool)) ConditionDeregistered then
               let pool' = set_pool_cond lib pool (pool_cond ConditionDeregistered ConditionTrue ReasonReady '''' pool) in
               (case UpdateStoragePoolStatus c pool' of
                  Inl e \<Rightarrow> if eReason e = Conflict then done_with (ws @ [WStoragePoolStatus pool'])
                           else fail_with (ws @ [WStoragePoolStatus pool']) (IgnoreNotFound (Some e))
                | Inr _ \<Rightarrow> (ws @ [WStoragePoolStatus pool'], requeue volumeSettleInterval, None))
             else
               let removed = pool\<lparr>spMeta := RemoveFinalizer lib (spMeta pool) poolFinalizer\<rparr>;
                   release = (case UpdateStoragePool c removed of
                      Inl e \<Rightarrow> fail_with (ws @ [WStoragePool removed]) (IgnoreNotFound (Some e))
                    | Inr _ \<Rightarrow> done_with (ws @ [WStoragePool removed])) in
               if \<not> IsStatusConditionTrue lib (spConditions (spStatus pool)) ConditionTornDown then
                 (case nodeGoneOrUnready c (spsNode (spSpec pool)) of
                    Inl e \<Rightarrow> fail_with ws (Some e)
                  | Inr gone \<Rightarrow> if \<not> gone then (ws, requeue volumeSettleInterval, None) else release)
               else release))"

text \<open>The Warning event of an unhealthy pool; \<open>recorder\<close> is whether one is configured.\<close>

definition pool_alert :: "bool \<Rightarrow> StoragePool \<Rightarrow> pool_write list" where
  "pool_alert recorder pool =
     (let h = spHealth (spStatus pool) in
      if recorder \<and> (h = ''Degraded'' \<or> h = ''Failed'') then
        [Warning (''Pool'' @ h)
           (''pool '' @ omName (spMeta pool) @ '' is '' @ h @
            concat (map (\<lambda>d. if dsState d = ''Missing'' \<or> dsState d = ''Failed''
                             then ''; '' @ dsPath d @ '' '' @ dsState d else '''') (spDevices (spStatus pool))))]
      else [])"

text \<open>The status part of a live pass: writes, the pool with its conditions, and \<open>backendErr\<close>.\<close>

definition pool_status_pass :: "metalib \<Rightarrow> kclient \<Rightarrow> StoragePool \<Rightarrow> pool_write list \<times> StoragePool \<times> go_error option" where
  "pool_status_pass lib c pool =
     (let spec = spSpec pool; conds = spConditions (spStatus pool);
          av = (\<lambda>st reason msg. pool_cond ConditionAvailable st reason msg pool);
          agent = ''waiting for the node agent to converge host state'' in
      if int (length (spsDevices spec)) < MinDevices (spsRaid spec) then
        ([], set_pool_cond lib pool (av ConditionFalse ReasonInvalidSpec
           (spsRaid spec @ '' needs at least '' @ itoa (MinDevices (spsRaid spec)) @ '' devices, got '' @
            itoa (int (length (spsDevices spec))))), None)
      else if spsThin spec = Some False then
        ([], set_pool_cond lib
               (set_pool_cond lib pool
                  (pool_cond ConditionRegistered ConditionFalse ReasonUnsupported ''r-drbd pools are thin only'' pool))
               (av ConditionFalse ReasonUnsupported ''r-drbd pools are thin only''), None)
      else if \<not> IsStatusConditionTrue lib conds ConditionHostReady then
        ([], set_pool_cond lib
               (set_pool_cond lib pool (pool_cond ConditionRegistered ConditionUnknown ReasonHostNotReady agent pool))
               (av ConditionFalse ReasonWaitingForAgent agent), None)
      else
        (case EnsurePool lib c pool of (ws, ready, msg, err) \<Rightarrow>
           let (st, reason, m) =
             (case err of
                Some e \<Rightarrow> (ConditionFalse, ReasonBackendError, eText e)
              | None \<Rightarrow> if \<not> ready then (ConditionFalse, ReasonWaitingForPool, msg)
                        else (ConditionTrue, ReasonReady, '''')) in
           (ws, set_pool_cond lib
                  (set_pool_cond lib pool (pool_cond ConditionRegistered st reason m pool))
                  (av st reason m), err)))"

definition pool_live_pass :: "metalib \<Rightarrow> bool \<Rightarrow> kclient \<Rightarrow> pool_write list \<Rightarrow> StoragePool \<Rightarrow> pool_write outcome" where
  "pool_live_pass lib recorder c ws pool =
     (case pool_status_pass lib c pool of (ws', pool', backendErr) \<Rightarrow>
        let ws2 = ws @ pool_alert recorder pool @ ws' @ [WStoragePoolStatus pool'] in
        (case UpdateStoragePoolStatus c pool' of
           Inl e \<Rightarrow> if eReason e = Conflict then done_with ws2 else fail_with ws2 (Some e)
         | Inr _ \<Rightarrow> (ws2, no_requeue, backendErr)))"

definition StoragePoolReconcile :: "metalib \<Rightarrow> bool \<Rightarrow> kclient \<Rightarrow> string \<Rightarrow> pool_write outcome" where
  "StoragePoolReconcile lib recorder c name =
     (case GetStoragePool c name of
        Inl e \<Rightarrow> fail_with [] (IgnoreNotFound (Some e))
      | Inr pool \<Rightarrow>
        if omDeleting (spMeta pool) then pool_reconcileDelete lib c pool
        else
          (case AddFinalizer lib (spMeta pool) poolFinalizer of (m, changed) \<Rightarrow>
             let held = pool\<lparr>spMeta := m\<rparr> in
             if changed then
               (case UpdateStoragePool c held of
                  Inl e \<Rightarrow> fail_with [WStoragePool held] (Some e)
                | Inr server \<Rightarrow> pool_live_pass lib recorder c [WStoragePool held] server)
             else pool_live_pass lib recorder c [] held))"

section \<open>The registrar's contract\<close>

text \<open>\<open>pool_released\<close>: no r-drbd Pool of this StoragePool's node and VG is left.\<close>

definition pool_ours :: "StoragePool \<Rightarrow> Pool \<Rightarrow> bool" where
  "pool_ours sp q \<longleftrightarrow> psNode (plSpec q) = spsNode (spSpec sp) \<and> psVG (plSpec q) = VGName sp"

definition pool_released :: "kclient \<Rightarrow> StoragePool \<Rightarrow> bool" where
  "pool_released c sp \<longleftrightarrow>
     (case GetPool c (omName (spMeta sp)) of Inl e \<Rightarrow> eReason e = NotFound | Inr q \<Rightarrow> \<not> pool_ours sp q)"

lemma DeletePool_gone: "fst (snd (DeletePool c sp)) \<longleftrightarrow> pool_released c sp"
  by (auto simp: DeletePool_def pool_released_def pool_ours_def Let_def split: sum.splits option.splits)

lemma DeletePool_gone_quiet: "pool_released c sp \<Longrightarrow> DeletePool c sp = ([], True, '''', None)"
  by (auto simp: DeletePool_def pool_released_def pool_ours_def Let_def split: sum.splits)

lemma DeletePool_writes:
  "w \<in> set (fst (DeletePool c sp)) \<longleftrightarrow>
     (\<exists>q. w = DeleteRPool q \<and> GetPool c (omName (spMeta sp)) = Inr q \<and> pool_ours sp q \<and> \<not> omDeleting (plMeta q))"
  by (auto simp: DeletePool_def pool_ours_def Let_def split: sum.splits option.splits)

text \<open>A Pool EnsurePool calls ready.\<close>

definition pool_backed :: "metalib \<Rightarrow> kclient \<Rightarrow> StoragePool \<Rightarrow> bool" where
  "pool_backed lib c sp \<longleftrightarrow>
     (\<exists>q cond. GetPool c (omName (spMeta sp)) = Inr q \<and> sameLocation (plSpec q) (PoolSpec sp) \<and> \<not> omDeleting (plMeta q) \<and>
        FindStatusCondition lib (ptConditions (plStatus q)) ConditionAvailable = Some cond \<and> cStatus cond = ConditionTrue)"

lemma EnsurePool_ready:
  "EnsurePool lib c sp = (ws, ready, msg, err) \<Longrightarrow> ready \<longleftrightarrow> pool_backed lib c sp"
  by (auto simp: EnsurePool_def pool_backed_def Let_def split: sum.splits option.splits if_splits)

lemma EnsurePool_ready_err: "EnsurePool lib c sp = (ws, True, msg, err) \<Longrightarrow> err = None \<and> ws = []"
  by (auto simp: EnsurePool_def Let_def split: sum.splits option.splits if_splits)

lemma EnsurePool_writes:
  "w \<in> set (fst (EnsurePool lib c sp)) \<longleftrightarrow>
     w = CreateRPool (newPool sp) \<and> (\<exists>e. GetPool c (omName (spMeta sp)) = Inl e \<and> eReason e = NotFound)"
  by (auto simp: EnsurePool_def Let_def split: sum.splits option.splits)

lemma newPool_ours: "pool_ours sp (newPool sp)" "sameLocation (plSpec (newPool sp)) (PoolSpec sp)"
  by (simp_all add: pool_ours_def newPool_def PoolSpec_def sameLocation_def)

section \<open>What a pass writes\<close>

lemma set_pool_cond_simps [simp]:
  "spMeta (set_pool_cond lib p cond) = spMeta p" "spSpec (set_pool_cond lib p cond) = spSpec p"
  "spConditions (spStatus (set_pool_cond lib p cond)) = SetStatusCondition lib (spConditions (spStatus p)) cond"
  by (simp_all add: set_pool_cond_def)

lemma pool_cond_simps [simp]:
  "cType (pool_cond ty st r m p) = ty" "cStatus (pool_cond ty st r m p) = st"
  by (simp_all add: pool_cond_def)

abbreviation pool_true :: "metalib \<Rightarrow> StoragePool \<Rightarrow> string \<Rightarrow> bool" where
  "pool_true lib p ty \<equiv> IsStatusConditionTrue lib (spConditions (spStatus p)) ty"

text \<open>When a deleting pool's finalizer may go.\<close>

definition pool_release_ok :: "metalib \<Rightarrow> kclient \<Rightarrow> StoragePool \<Rightarrow> bool" where
  "pool_release_ok lib c sp \<longleftrightarrow>
     pool_released c sp \<and> pool_true lib sp ConditionDeregistered \<and>
     (pool_true lib sp ConditionTornDown \<or> nodeGoneOrUnready c (spsNode (spSpec sp)) = Inr True)"

definition pool_in_hand :: "metalib \<Rightarrow> kclient \<Rightarrow> string \<Rightarrow> StoragePool option" where
  "pool_in_hand lib c name =
     (case GetStoragePool c name of
        Inl _ \<Rightarrow> None
      | Inr pool \<Rightarrow>
        let held = pool\<lparr>spMeta := fst (AddFinalizer lib (spMeta pool) poolFinalizer)\<rparr> in
        if omDeleting (spMeta pool) then None
        else if snd (AddFinalizer lib (spMeta pool) poolFinalizer) then
          (case UpdateStoragePool c held of Inl _ \<Rightarrow> None | Inr server \<Rightarrow> Some server)
        else Some held)"

definition pool_serving :: "metalib \<Rightarrow> kclient \<Rightarrow> StoragePool \<Rightarrow> bool" where
  "pool_serving lib c p \<longleftrightarrow>
     MinDevices (spsRaid (spSpec p)) \<le> int (length (spsDevices (spSpec p))) \<and> spsThin (spSpec p) \<noteq> Some False \<and>
     pool_true lib p ConditionHostReady \<and> pool_true lib p ConditionRegistered \<and> pool_backed lib c p"

lemma pool_alert_writes: "w \<in> set (pool_alert r p) \<Longrightarrow> \<exists>a b. w = Warning a b"
  by (auto simp: pool_alert_def Let_def split: if_splits)

context metalib_laws
begin

lemma pool_delete_writes:
  assumes "GetStoragePool c name = Inr sp" and "omDeleting (spMeta sp)"
    and "w \<in> set (fst (StoragePoolReconcile lib rec c name))"
  shows "(\<exists>q. w = DeleteRPool q \<and> GetPool c (omName (spMeta sp)) = Inr q \<and> pool_ours sp q \<and> \<not> omDeleting (plMeta q)) \<or>
         (\<exists>p. w = WStoragePoolStatus p \<and> (pool_true lib p ConditionDeregistered \<longleftrightarrow> pool_released c sp) \<and>
            pool_true lib p ConditionTornDown = pool_true lib sp ConditionTornDown) \<or>
         w = WStoragePool (sp\<lparr>spMeta := RemoveFinalizer lib (spMeta sp) poolFinalizer\<rparr>) \<and> pool_release_ok lib c sp"
proof -
  obtain ws gone msg err where d: "DeletePool c sp = (ws, gone, msg, err)" by (metis prod_cases4)
  have g: "gone \<longleftrightarrow> pool_released c sp" using DeletePool_gone[of c sp] d by simp
  have ws: "w \<in> set ws \<Longrightarrow>
      \<exists>q. w = DeleteRPool q \<and> GetPool c (omName (spMeta sp)) = Inr q \<and> pool_ours sp q \<and> \<not> omDeleting (plMeta q)" for w
    using DeletePool_writes[of w c sp] d by simp
  show ?thesis
    using assms d g ws[of w]
    by (auto simp: StoragePoolReconcile_def pool_reconcileDelete_def Let_def pool_release_ok_def is_true_set
        split: if_splits option.splits sum.splits)
qed

lemma pool_delete_release:
  assumes "GetStoragePool c name = Inr sp" and "omDeleting (spMeta sp)"
    and "poolFinalizer \<in> set (omFinalizers (spMeta sp))" and "pool_release_ok lib c sp"
  shows "fst (StoragePoolReconcile lib rec c name) = [WStoragePool (sp\<lparr>spMeta := RemoveFinalizer lib (spMeta sp) poolFinalizer\<rparr>)]"
  using assms DeletePool_gone_quiet[of c sp]
  by (auto simp: StoragePoolReconcile_def pool_reconcileDelete_def pool_release_ok_def contains Let_def split: sum.splits)

lemma pool_status_pass_true:
  assumes "pool_status_pass lib c sp = (ws, p, err)" and "pool_true lib p ConditionAvailable"
  shows "pool_serving lib c p"
proof -
  have inv: "\<not> int (length (spsDevices (spSpec sp))) < MinDevices (spsRaid (spSpec sp))" "spsThin (spSpec sp) \<noteq> Some False"
    "pool_true lib sp ConditionHostReady"
    using assms by (auto simp: pool_status_pass_def Let_def is_true_set split: if_splits)
  obtain ws' ready msg e where ep: "EnsurePool lib c sp = (ws', ready, msg, e)" by (metis prod_cases4)
  have "ready \<and> e = None \<and> p = set_pool_cond lib (set_pool_cond lib sp
      (pool_cond ConditionRegistered ConditionTrue ReasonReady '''' sp)) (pool_cond ConditionAvailable ConditionTrue ReasonReady '''' sp)"
    using assms inv ep by (auto simp: pool_status_pass_def Let_def is_true_set split: if_splits option.splits)
  with inv EnsurePool_ready[OF ep] show ?thesis
    by (auto simp: pool_serving_def is_true_set pool_backed_def PoolSpec_def VGName_def)
qed

lemma pool_status_pass_frame:
  assumes "pool_status_pass lib c sp = (ws, p, err)" and "ty \<notin> {ConditionAvailable, ConditionRegistered}"
  shows "FindStatusCondition lib (spConditions (spStatus p)) ty = FindStatusCondition lib (spConditions (spStatus sp)) ty"
  using assms by (auto simp: pool_status_pass_def Let_def find_set split: if_splits prod.splits option.splits)

lemma pool_live_writes:
  assumes "pool_in_hand lib c name = Some sp" and "w \<in> set (fst (StoragePoolReconcile lib rec c name))"
  shows "(\<exists>p. w = WStoragePool p) \<or> (\<exists>a b. w = Warning a b) \<or> w \<in> set (fst (pool_status_pass lib c sp)) \<or>
         w = WStoragePoolStatus (fst (snd (pool_status_pass lib c sp)))"
  using assms
  by (cases "GetStoragePool c name")
     (auto simp: StoragePoolReconcile_def pool_in_hand_def pool_live_pass_def Let_def
        dest: pool_alert_writes split: sum.splits prod.splits if_splits)

end

lemma pool_status_writes:
  "w \<in> set (fst (pool_status_pass lib c sp)) \<Longrightarrow>
     w = CreateRPool (newPool sp) \<and> pool_true lib sp ConditionHostReady \<and>
     (\<exists>e. GetPool c (omName (spMeta sp)) = Inl e \<and> eReason e = NotFound)"
  using EnsurePool_writes[of w lib c sp]
  by (auto simp: pool_status_pass_def Let_def split: if_splits prod.splits)

section \<open>Properties\<close>

text \<open>\<^bold>\<open>C13\<close>. Deletion of a StoragePool, write by write. A pass over a deleting pool only issues: the
  delete of the r-drbd Pool that carries this pool's node and VG and is not yet being deleted; a
  status whose Deregistered (the agent's clearance to wipe) is true exactly when no such r-drbd
  Pool is left, and whose TornDown is the agent's; or the object without the finalizer, and that
  only when the r-drbd Pool is released, the clearance had been given, and the agent confirmed the
  teardown or its node is gone or unready.\<close>

theorem pool_delete_safe:
  assumes "metalib_laws lib"
    and "GetStoragePool c name = Inr sp" and "omDeleting (spMeta sp)"
    and "w \<in> set (fst (StoragePoolReconcile lib rec c name))"
  shows "(\<exists>q. w = DeleteRPool q \<and> GetPool c (omName (spMeta sp)) = Inr q \<and> pool_ours sp q \<and> \<not> omDeleting (plMeta q)) \<or>
         (\<exists>p. w = WStoragePoolStatus p \<and> (pool_true lib p ConditionDeregistered \<longleftrightarrow> pool_released c sp) \<and>
            pool_true lib p ConditionTornDown = pool_true lib sp ConditionTornDown) \<or>
         w = WStoragePool (sp\<lparr>spMeta := RemoveFinalizer lib (spMeta sp) poolFinalizer\<rparr>) \<and> pool_release_ok lib c sp"
  by (rule metalib_laws.pool_delete_writes[OF assms])

definition demo_pool :: "Condition list \<Rightarrow> StoragePool" where
  "demo_pool conds = (pool0 ''p'')\<lparr>
     spMeta := (meta0 '''' ''p'')\<lparr>omFinalizers := [poolFinalizer], omDeleting := True\<rparr>,
     spSpec := (spSpec (pool0 ''p''))\<lparr>spsNode := ''a'', spsDevices := [''/dev/disk/by-id/d1'']\<rparr>,
     spStatus := (spStatus (pool0 ''p''))\<lparr>spConditions := conds\<rparr>\<rparr>"

definition pool_cluster :: "StoragePool \<Rightarrow> Pool option \<Rightarrow> kclient" where
  "pool_cluster sp q = client0\<lparr>GetStoragePool := \<lambda>_. Inr sp,
     GetPool := \<lambda>_. (case q of None \<Rightarrow> Inl not_found | Some x \<Rightarrow> Inr x),
     GetNode := \<lambda>n. Inr (node0 n True)\<rparr>"

definition cond_true :: "string \<Rightarrow> Condition" where
  "cond_true ty = \<lparr>cType = ty, cStatus = ConditionTrue, cReason = ReasonReady, cMessage = '''', cObservedGeneration = 0\<rparr>"

lemma demo_pool_facts:
  "omDeleting (spMeta (demo_pool cs))" "poolFinalizer \<in> set (omFinalizers (spMeta (demo_pool cs)))"
  "omName (spMeta (demo_pool cs)) = ''p''" "spConditions (spStatus (demo_pool cs)) = cs"
  "spsNode (spSpec (demo_pool cs)) = ''a''"
  by (simp_all add: demo_pool_def meta0_def)

lemma pool_cluster_facts:
  "GetStoragePool (pool_cluster sp q) n = Inr sp"
  "GetPool (pool_cluster sp q) n = (case q of None \<Rightarrow> Inl not_found | Some x \<Rightarrow> Inr x)"
  by (simp_all add: pool_cluster_def)

theorem pool_delete_safe_witness:
  "\<exists>w \<in> set (fst (StoragePoolReconcile std_metalib True (pool_cluster (demo_pool []) None) ''p'')).
     \<exists>p. w = WStoragePoolStatus p \<and> pool_true std_metalib p ConditionDeregistered"
proof -
  let ?c = "pool_cluster (demo_pool []) None"
  have rel: "pool_released ?c (demo_pool [])" by (simp add: pool_released_def pool_cluster_facts not_found_def)
  have "case fst (StoragePoolReconcile std_metalib True ?c ''p'') of [WStoragePoolStatus p] \<Rightarrow> True | _ \<Rightarrow> False"
    by code_simp
  then obtain p where w: "WStoragePoolStatus p \<in> set (fst (StoragePoolReconcile std_metalib True ?c ''p''))"
    by (auto split: list.splits pool_write.splits)
  from pool_delete_safe[OF std.metalib_laws_axioms pool_cluster_facts(1) demo_pool_facts(1) w] rel
  have "pool_true std_metalib p ConditionDeregistered" by auto
  with w show ?thesis by blast
qed

text \<open>\<^bold>\<open>C14\<close>. The handshake makes progress: a deleting pool whose r-drbd Pool is gone and whose
  clearance was given is released by the next pass, with a single write, once the agent confirmed
  TornDown or its node is gone or unready.\<close>

theorem pool_delete_progress:
  assumes "metalib_laws lib"
    and "GetStoragePool c name = Inr sp" and "omDeleting (spMeta sp)"
    and "poolFinalizer \<in> set (omFinalizers (spMeta sp))" and "pool_release_ok lib c sp"
  shows "fst (StoragePoolReconcile lib rec c name) =
           [WStoragePool (sp\<lparr>spMeta := RemoveFinalizer lib (spMeta sp) poolFinalizer\<rparr>)]"
  by (rule metalib_laws.pool_delete_release[OF assms])

theorem pool_delete_progress_witness:
  "length (fst (StoragePoolReconcile std_metalib True
     (pool_cluster (demo_pool [cond_true ConditionDeregistered, cond_true ConditionTornDown]) None) ''p'')) = 1"
proof -
  let ?sp = "demo_pool [cond_true ConditionDeregistered, cond_true ConditionTornDown]"
  have "pool_release_ok std_metalib (pool_cluster ?sp None) ?sp"
    by (simp add: pool_release_ok_def pool_released_def pool_cluster_facts demo_pool_facts not_found_def
        std_metalib_def cond_true_def)
  from pool_delete_progress[OF std.metalib_laws_axioms pool_cluster_facts(1) demo_pool_facts(1,2) this] show ?thesis
    by simp
qed

text \<open>A live StoragePool: Available=True is written only together with Registered and HostReady
  true, for a spec with enough devices that is not thick, while the r-drbd Pool of its name sits at
  its location, is not being deleted and is itself Available; a pass creates an r-drbd Pool only when none of
  the name exists and the host is ready; and no condition but Available and Registered is
  touched.\<close>

theorem pool_available_sound:
  assumes "metalib_laws lib" and "pool_in_hand lib c name = Some sp"
  shows "(\<forall>p. WStoragePoolStatus p \<in> set (fst (StoragePoolReconcile lib rec c name)) \<longrightarrow>
            (pool_true lib p ConditionAvailable \<longrightarrow> pool_serving lib c p) \<and>
            (\<forall>ty. ty \<noteq> ConditionAvailable \<and> ty \<noteq> ConditionRegistered \<longrightarrow>
               FindStatusCondition lib (spConditions (spStatus p)) ty =
               FindStatusCondition lib (spConditions (spStatus sp)) ty)) \<and>
         (\<forall>q. CreateRPool q \<in> set (fst (StoragePoolReconcile lib rec c name)) \<longrightarrow>
            q = newPool sp \<and> pool_true lib sp ConditionHostReady \<and>
            (\<exists>e. GetPool c (omName (spMeta sp)) = Inl e \<and> eReason e = NotFound))"
proof -
  obtain ws p err where run: "pool_status_pass lib c sp = (ws, p, err)" by (metis prod_cases3)
  note writes = metalib_laws.pool_live_writes[OF assms]
  have "p' = p" if "WStoragePoolStatus p' \<in> set (fst (StoragePoolReconcile lib rec c name))" for p'
    using writes[OF that] pool_status_writes run by fastforce
  moreover have "q = newPool sp \<and> pool_true lib sp ConditionHostReady \<and>
      (\<exists>e. GetPool c (omName (spMeta sp)) = Inl e \<and> eReason e = NotFound)"
    if "CreateRPool q \<in> set (fst (StoragePoolReconcile lib rec c name))" for q
    using writes[OF that] pool_status_writes[of "CreateRPool q" lib c sp] by blast
  ultimately show ?thesis
    using metalib_laws.pool_status_pass_true[OF assms(1) run] metalib_laws.pool_status_pass_frame[OF assms(1) run]
    by blast
qed

definition live_pool :: StoragePool where
  "live_pool = (demo_pool [host_ready])\<lparr>spMeta := (meta0 '''' ''p'')\<lparr>omFinalizers := [poolFinalizer]\<rparr>\<rparr>"

definition backing_pool :: Pool where
  "backing_pool = (newPool live_pool)\<lparr>plStatus := (plStatus (newPool live_pool))
     \<lparr>ptConditions := [cond_true ConditionAvailable]\<rparr>\<rparr>"

theorem pool_available_sound_witness:
  "\<exists>p. WStoragePoolStatus p \<in> set (fst (StoragePoolReconcile std_metalib False
         (pool_cluster live_pool (Some backing_pool)) ''p'')) \<and>
       pool_serving std_metalib (pool_cluster live_pool (Some backing_pool)) p"
proof -
  let ?c = "pool_cluster live_pool (Some backing_pool)"
  have hand: "pool_in_hand std_metalib ?c ''p'' = Some live_pool"
    by (simp add: pool_in_hand_def pool_cluster_facts live_pool_def std_metalib_def meta0_def)
  have "case fst (StoragePoolReconcile std_metalib False ?c ''p'') of
      [WStoragePoolStatus p] \<Rightarrow> pool_true std_metalib p ConditionAvailable | _ \<Rightarrow> False"
    by code_simp
  then obtain p where "WStoragePoolStatus p \<in> set (fst (StoragePoolReconcile std_metalib False ?c ''p''))"
    "pool_true std_metalib p ConditionAvailable"
    by (auto simp: neq_Nil_conv split: list.splits pool_write.splits)
  with pool_available_sound[OF std.metalib_laws_axioms hand] show ?thesis by blast
qed

end
