(* ===== verification/Claim_Binder.thy ===== *)
theory Claim_Binder
  imports Cluster
begin

text \<open>
  The ClaimBinder of \<open>operator/internal/controller/claim_binder.go\<close>: the node a host-consumed
  WaitForFirstConsumer claim is bound to. Go ranges over the \<open>free\<close> map in an unspecified
  order; \<open>order\<close> is that order, a list of the map's keys.
\<close>

abbreviation selectedNodeAnnotation :: string where
  "selectedNodeAnnotation \<equiv> ''volume.kubernetes.io/selected-node''"

datatype claim_write = PatchClaim PersistentVolumeClaim PersistentVolumeClaim \<comment> \<open>base, patched\<close>

section \<open>The binder\<close>

definition hostClaimPending :: "PersistentVolumeClaim \<Rightarrow> bool" where
  "hostClaimPending pvc \<longleftrightarrow>
     \<not> omDeleting (pvcMeta pvc) \<and> pvcVolumeName pvc = '''' \<and>
     mget (omAnnotations (pvcMeta pvc)) selectedNodeAnnotation = '''' \<and>
     mget (omAnnotations (pvcMeta pvc)) ConsumerAnnotation = ConsumerHost"

definition wffcClass :: "kclient \<Rightarrow> PersistentVolumeClaim \<Rightarrow> StorageClass option \<times> go_error option" where
  "wffcClass c pvc =
     (case pvcStorageClassName pvc of
        None \<Rightarrow> (None, None)
      | Some name \<Rightarrow>
        if name = '''' then (None, None)
        else
          (case GetStorageClass c name of
             Inl e \<Rightarrow> (None, IgnoreNotFound (Some e))
           | Inr sc \<Rightarrow>
             if sclProvisioner sc \<noteq> Driver \<or> sclVolumeBindingMode sc \<noteq> Some ''WaitForFirstConsumer''
             then (None, None) else (Some sc, None)))"

fun pinned_loop :: "metalib \<Rightarrow> string \<Rightarrow> StoragePool list \<Rightarrow> string" where
  "pinned_loop lib pinned [] = ''''"
| "pinned_loop lib pinned (p # ps) =
     (if omName (spMeta p) = pinned \<and> IsStatusConditionTrue lib (spConditions (spStatus p)) ConditionAvailable
      then spsNode (spSpec p) else pinned_loop lib pinned ps)"

definition pool_free :: "StoragePool \<Rightarrow> int" where
  "pool_free p = (case spFree (spStatus p) of None \<Rightarrow> 0 | Some f \<Rightarrow> f)"

definition tier_pool :: "metalib \<Rightarrow> string \<Rightarrow> StoragePool \<Rightarrow> bool" where
  "tier_pool lib tier p \<longleftrightarrow>
     (if spsTier (spSpec p) = '''' then DefaultTier else spsTier (spSpec p)) = tier \<and>
     IsStatusConditionTrue lib (spConditions (spStatus p)) ConditionAvailable"

fun free_loop :: "metalib \<Rightarrow> string \<Rightarrow> StoragePool list \<Rightarrow> (string \<rightharpoonup> int) \<Rightarrow> (string \<rightharpoonup> int)" where
  "free_loop lib tier [] free = free"
| "free_loop lib tier (p # ps) free =
     (if \<not> tier_pool lib tier p then free_loop lib tier ps free
      else
        let f = pool_free p; n = spsNode (spSpec p) in
        free_loop lib tier ps
          (case free n of
             None \<Rightarrow> free(n \<mapsto> f)
           | Some cur \<Rightarrow> if f > cur then free(n \<mapsto> f) else free))"

fun ready_loop :: "kclient \<Rightarrow> string list \<Rightarrow> string list \<Rightarrow> go_error + string list" where
  "ready_loop c [] nodes = Inr nodes"
| "ready_loop c (n # ns) nodes =
     (case nodeGoneOrUnready c n of
        Inl e \<Rightarrow> Inl e
      | Inr gone \<Rightarrow> ready_loop c ns (if \<not> gone then nodes @ [n] else nodes))"

definition free_of :: "(string \<rightharpoonup> int) \<Rightarrow> string \<Rightarrow> int" where
  "free_of free n = (case free n of None \<Rightarrow> 0 | Some f \<Rightarrow> f)"

definition more_free :: "(string \<rightharpoonup> int) \<Rightarrow> string \<Rightarrow> string \<Rightarrow> bool" where
  "more_free free a b \<longleftrightarrow>
     (if free_of free a \<noteq> free_of free b then free_of free a > free_of free b else a < b)"

definition pickNode :: "metalib \<Rightarrow> kclient \<Rightarrow> ((string \<rightharpoonup> int) \<Rightarrow> string list) \<Rightarrow> PersistentVolumeClaim \<Rightarrow> StorageClass \<Rightarrow>
    go_error + string" where
  "pickNode lib c order pvc sc =
     (case ListStoragePools c of
        Inl e \<Rightarrow> Inl e
      | Inr pools \<Rightarrow>
        let pinned = mget (omAnnotations (pvcMeta pvc)) PoolAnnotation in
        if pinned \<noteq> '''' then Inr (pinned_loop lib pinned pools)
        else
          let t = mget (sclParameters sc) ParamTier;
              tier = (if t = '''' then DefaultTier else t);
              free = free_loop lib tier pools Map.empty in
          (case ready_loop c (order free) [] of
             Inl e \<Rightarrow> Inl e
           | Inr nodes \<Rightarrow> if nodes = [] then Inr '''' else Inr (hd (sort_by (more_free free) nodes))))"

definition ClaimBinderReconcile :: "metalib \<Rightarrow> kclient \<Rightarrow> ((string \<rightharpoonup> int) \<Rightarrow> string list) \<Rightarrow> NamespacedName \<Rightarrow>
    claim_write outcome" where
  "ClaimBinderReconcile lib c order req =
     (case GetPVC c req of
        Inl e \<Rightarrow> fail_with [] (IgnoreNotFound (Some e))
      | Inr pvc \<Rightarrow>
        if \<not> hostClaimPending pvc then done_with []
        else
          (case wffcClass c pvc of
             (_, Some e) \<Rightarrow> fail_with [] (Some e)
           | (None, None) \<Rightarrow> done_with []
           | (Some sc, None) \<Rightarrow>
             (case pickNode lib c order pvc sc of
                Inl e \<Rightarrow> fail_with [] (Some e)
              | Inr node \<Rightarrow>
                if node = '''' then done_with []
                else
                  let pvc' = pvc\<lparr>pvcMeta := (pvcMeta pvc)\<lparr>omAnnotations :=
                        (omAnnotations (pvcMeta pvc))(selectedNodeAnnotation \<mapsto> node)\<rparr>\<rparr> in
                  fail_with [PatchClaim pvc pvc'] (PatchPVC c pvc pvc'))))"

definition pendingHostClaims :: "kclient \<Rightarrow> NamespacedName list" where
  "pendingHostClaims c =
     (case ListPVCs c of Inl _ \<Rightarrow> [] | Inr pvcs \<Rightarrow> map (\<lambda>p. keyOf (pvcMeta p)) (filter hostClaimPending pvcs))"

section \<open>Lemmas\<close>

interpretation mf: strict_order "more_free free" for free :: "string \<rightharpoonup> int"
  by unfold_locales (auto simp: more_free_def split: if_splits)

lemma free_loop_Some:
  "free_loop lib tier ps free n = Some f \<Longrightarrow>
     (free n = Some f \<or> (\<exists>p \<in> set ps. tier_pool lib tier p \<and> spsNode (spSpec p) = n \<and> pool_free p = f)) \<and>
     (\<forall>g. free n = Some g \<longrightarrow> g \<le> f) \<and>
     (\<forall>p \<in> set ps. tier_pool lib tier p \<and> spsNode (spSpec p) = n \<longrightarrow> pool_free p \<le> f)"
proof (induction ps arbitrary: free)
  case (Cons p ps)
  from Cons.prems have run: "free_loop lib tier ps
      (if \<not> tier_pool lib tier p then free else (case free (spsNode (spSpec p)) of
         None \<Rightarrow> free(spsNode (spSpec p) \<mapsto> pool_free p)
       | Some cur \<Rightarrow> if pool_free p > cur then free(spsNode (spSpec p) \<mapsto> pool_free p) else free)) n = Some f"
    by (simp add: Let_def split: if_splits)
  from Cons.IH[OF run] show ?case
    by (auto split: if_splits option.splits)
qed simp

lemma free_loop_dom:
  "n \<in> dom (free_loop lib tier ps free) \<longleftrightarrow>
     n \<in> dom free \<or> (\<exists>p \<in> set ps. tier_pool lib tier p \<and> spsNode (spSpec p) = n)"
  by (induction lib tier ps free rule: free_loop.induct) (auto simp: Let_def split: option.splits if_splits)

lemma free_loop_finite: "finite (dom (free_loop lib tier ps Map.empty))"
proof -
  have "dom (free_loop lib tier ps Map.empty) \<subseteq> (\<lambda>p. spsNode (spSpec p)) ` set ps"
  proof
    fix n
    assume "n \<in> dom (free_loop lib tier ps Map.empty)"
    then show "n \<in> (\<lambda>p. spsNode (spSpec p)) ` set ps" by (auto simp only: free_loop_dom dom_empty)
  qed
  then show ?thesis by (rule finite_subset) simp
qed

lemma ready_loop_Inr:
  "ready_loop c ns acc = Inr nodes \<longleftrightarrow>
     (\<forall>n \<in> set ns. \<exists>g. nodeGoneOrUnready c n = Inr g) \<and>
     nodes = acc @ filter (\<lambda>n. nodeGoneOrUnready c n = Inr False) ns"
  by (induction ns arbitrary: acc) (auto split: sum.splits)

lemma pinned_loop_sound:
  "pinned_loop lib pinned ps = n \<Longrightarrow> n \<noteq> '''' \<Longrightarrow>
     \<exists>p \<in> set ps. omName (spMeta p) = pinned \<and> spsNode (spSpec p) = n \<and>
       IsStatusConditionTrue lib (spConditions (spStatus p)) ConditionAvailable"
  by (induction ps) (auto split: if_splits)

section \<open>The choice, specified\<close>

text \<open>A node that could hold the claim: it is Ready and has an Available pool of the tier; its free
  space is that of its best such pool.\<close>

definition tier_node :: "metalib \<Rightarrow> kclient \<Rightarrow> string \<Rightarrow> StoragePool list \<Rightarrow> string \<Rightarrow> bool" where
  "tier_node lib c tier pools n \<longleftrightarrow>
     nodeGoneOrUnready c n = Inr False \<and> (\<exists>p \<in> set pools. tier_pool lib tier p \<and> spsNode (spSpec p) = n)"

definition best_free :: "metalib \<Rightarrow> string \<Rightarrow> StoragePool list \<Rightarrow> string \<Rightarrow> int" where
  "best_free lib tier pools n = Max (pool_free ` {p \<in> set pools. tier_pool lib tier p \<and> spsNode (spSpec p) = n})"

definition class_tier :: "StorageClass \<Rightarrow> string" where
  "class_tier sc = (if mget (sclParameters sc) ParamTier = '''' then DefaultTier else mget (sclParameters sc) ParamTier)"

lemma free_of_best:
  assumes "n \<in> dom (free_loop lib tier ps Map.empty)"
  shows "free_of (free_loop lib tier ps Map.empty) n = best_free lib tier ps n"
proof -
  from assms obtain f where f: "free_loop lib tier ps Map.empty n = Some f" by blast
  from free_loop_Some[OF f] have "f \<in> pool_free ` {p \<in> set ps. tier_pool lib tier p \<and> spsNode (spSpec p) = n}"
    "\<forall>g \<in> pool_free ` {p \<in> set ps. tier_pool lib tier p \<and> spsNode (spSpec p) = n}. g \<le> f" by auto
  then have "best_free lib tier ps n = f" unfolding best_free_def by (intro Max_eqI) auto
  with f show ?thesis by (simp add: free_of_def)
qed

lemma pickNode_unpinned:
  assumes "pickNode lib c order pvc sc = Inr n" and "ListStoragePools c = Inr pools"
    and "mget (omAnnotations (pvcMeta pvc)) PoolAnnotation = ''''"
    and keys: "\<And>free. finite (dom free) \<Longrightarrow> set (order free) = dom free"
  shows "n = '''' \<and> (\<nexists>m. tier_node lib c (class_tier sc) pools m) \<or>
         tier_node lib c (class_tier sc) pools n \<and>
         (\<forall>m. tier_node lib c (class_tier sc) pools m \<and> m \<noteq> n \<longrightarrow>
            best_free lib (class_tier sc) pools m < best_free lib (class_tier sc) pools n \<or>
            best_free lib (class_tier sc) pools m = best_free lib (class_tier sc) pools n \<and> n < m)"
proof -
  let ?t = "class_tier sc" and ?free = "free_loop lib (class_tier sc) pools Map.empty"
  from assms obtain nodes where r: "ready_loop c (order ?free) [] = Inr nodes"
    and n: "n = (if nodes = [] then '''' else hd (sort_by (more_free ?free) nodes))"
    by (auto simp: pickNode_def Let_def class_tier_def split: sum.splits if_splits)
  have mem: "m \<in> set nodes \<longleftrightarrow> tier_node lib c ?t pools m" for m
    using r keys[of ?free, OF free_loop_finite] free_loop_dom[of m lib ?t pools Map.empty]
    by (auto simp: ready_loop_Inr tier_node_def)
  have dom: "m \<in> set nodes \<Longrightarrow> m \<in> dom ?free" for m
    using r keys[of ?free, OF free_loop_finite] by (auto simp: ready_loop_Inr)
  show ?thesis
  proof (cases "nodes = []")
    case True
    with n mem show ?thesis by (metis empty_iff list.set(1))
  next
    case False
    with n have hd: "n = hd (sort_by (more_free ?free) nodes)" by simp
    have nn: "n \<in> set nodes" using False hd by (metis hd_in_set set_sort_by sort_by_Nil_iff)
    have "best_free lib ?t pools m < best_free lib ?t pools n \<or> best_free lib ?t pools m = best_free lib ?t pools n \<and> n < m"
      if "tier_node lib c ?t pools m" "m \<noteq> n" for m
      using mf.sort_by_hd[OF False, of m ?free] that mem hd free_of_best[OF dom[OF nn]] free_of_best[OF dom, of m]
      by (auto simp: more_free_def split: if_splits)
    with nn mem show ?thesis by blast
  qed
qed

section \<open>Properties\<close>

text \<open>\<^bold>\<open>C15\<close>. The binder annotates only what is its to place, and with the right node: the claim is a
  live, unbound, unplaced host claim of an r-drbd WaitForFirstConsumer class; the patch changes the
  selected-node annotation and nothing else; a claim pinned to a pool gets the node of an Available
  pool of that name; and an unpinned one gets a Ready node with an Available pool of the class's
  tier, such that every other such node has less free space in its best pool, or as much and a
  larger name. \<open>order\<close> is any order in which Go may range over the map of nodes.\<close>

theorem claim_bound_to_best_node:
  assumes "\<And>free. finite (dom free) \<Longrightarrow> set (order free) = dom free"
    and "PatchClaim pvc pvc' \<in> set (fst (ClaimBinderReconcile lib c order req))"
  shows "\<exists>n sc pools. n \<noteq> '''' \<and> GetPVC c req = Inr pvc \<and> hostClaimPending pvc \<and> wffcClass c pvc = (Some sc, None) \<and>
    ListStoragePools c = Inr pools \<and>
    pvc' = pvc\<lparr>pvcMeta := (pvcMeta pvc)\<lparr>omAnnotations := (omAnnotations (pvcMeta pvc))(selectedNodeAnnotation \<mapsto> n)\<rparr>\<rparr> \<and>
    (let pinned = mget (omAnnotations (pvcMeta pvc)) PoolAnnotation in
     if pinned \<noteq> '''' then
       \<exists>p \<in> set pools. omName (spMeta p) = pinned \<and> spsNode (spSpec p) = n \<and>
         IsStatusConditionTrue lib (spConditions (spStatus p)) ConditionAvailable
     else
       tier_node lib c (class_tier sc) pools n \<and>
       (\<forall>m. tier_node lib c (class_tier sc) pools m \<and> m \<noteq> n \<longrightarrow>
          best_free lib (class_tier sc) pools m < best_free lib (class_tier sc) pools n \<or>
          best_free lib (class_tier sc) pools m = best_free lib (class_tier sc) pools n \<and> n < m))"
proof -
  from assms(2) obtain sc n where g: "GetPVC c req = Inr pvc" "hostClaimPending pvc" "wffcClass c pvc = (Some sc, None)"
    "pickNode lib c order pvc sc = Inr n" "n \<noteq> ''''"
    "pvc' = pvc\<lparr>pvcMeta := (pvcMeta pvc)\<lparr>omAnnotations := (omAnnotations (pvcMeta pvc))(selectedNodeAnnotation \<mapsto> n)\<rparr>\<rparr>"
    by (auto simp: ClaimBinderReconcile_def Let_def split: sum.splits if_splits option.splits prod.splits)
  from g(4) obtain pools where pools: "ListStoragePools c = Inr pools"
    by (auto simp: pickNode_def split: sum.splits)
  show ?thesis
  proof (cases "mget (omAnnotations (pvcMeta pvc)) PoolAnnotation = ''''")
    case True
    from pickNode_unpinned[OF g(4) pools True assms(1)] g True pools show ?thesis by (auto simp: Let_def)
  next
    case False
    with g(4) pools have "pinned_loop lib (mget (omAnnotations (pvcMeta pvc)) PoolAnnotation) pools = n"
      by (simp add: pickNode_def Let_def)
    from pinned_loop_sound[OF this g(5)] g False pools show ?thesis by (auto simp: Let_def)
  qed
qed

definition free_pool :: "string \<Rightarrow> string \<Rightarrow> int \<Rightarrow> StoragePool" where
  "free_pool name node f = (pool0 name)\<lparr>spSpec := (spSpec (pool0 name))\<lparr>spsNode := node\<rparr>,
     spStatus := (spStatus (pool0 name))\<lparr>spFree := Some f, spConditions :=
       [\<lparr>cType = ConditionAvailable, cStatus = ConditionTrue, cReason = ReasonReady, cMessage = '''', cObservedGeneration = 0\<rparr>]\<rparr>\<rparr>"

definition binder_claim :: PersistentVolumeClaim where
  "binder_claim = \<lparr>pvcMeta = (meta0 ''ns'' ''c'')\<lparr>omAnnotations := [ConsumerAnnotation \<mapsto> ConsumerHost]\<rparr>,
     pvcVolumeName = '''', pvcStorageClassName = Some LocalClass, pvcVolumeMode = None\<rparr>"

definition binder_cluster :: kclient where
  "binder_cluster = client0\<lparr>GetPVC := \<lambda>_. Inr binder_claim,
     GetStorageClass := \<lambda>n. Inr \<lparr>sclMeta = meta0 '''' n, sclProvisioner = Driver, sclParameters = Map.empty,
        sclReclaimPolicy = None, sclMountOptions = [], sclAllowVolumeExpansion = None,
        sclVolumeBindingMode = Some ''WaitForFirstConsumer''\<rparr>,
     ListStoragePools := Inr [free_pool ''p'' ''a'' 10, free_pool ''q'' ''b'' 30, free_pool ''r'' ''a'' 20],
     GetNode := \<lambda>n. Inr (node0 n True)\<rparr>"

definition demo_req :: NamespacedName where
  "demo_req = \<lparr>nnNamespace = ''ns'', nnName = ''c''\<rparr>"

text \<open>One possible range order: sorted by name.\<close>

definition name_order :: "(string \<rightharpoonup> int) \<Rightarrow> string list" where
  "name_order free = sorted_list_of_set (dom free)"

theorem claim_bound_to_best_node_witness:
  "\<exists>pvc'. PatchClaim binder_claim pvc' \<in> set (fst (ClaimBinderReconcile std_metalib binder_cluster name_order demo_req)) \<and>
     mget (omAnnotations (pvcMeta pvc')) selectedNodeAnnotation = ''b'' \<and>
     tier_node std_metalib binder_cluster DefaultTier
       [free_pool ''p'' ''a'' 10, free_pool ''q'' ''b'' 30, free_pool ''r'' ''a'' 20] ''b''"
proof -
  have order: "set (name_order free) = dom free" if "finite (dom free)" for free
    using that by (simp add: name_order_def)
  have "free_loop std_metalib DefaultTier [free_pool ''p'' ''a'' 10, free_pool ''q'' ''b'' 30, free_pool ''r'' ''a'' 20] Map.empty =
      [''a'' \<mapsto> 20, ''b'' \<mapsto> 30]"
    by (auto simp: free_pool_def tier_pool_def pool_free_def std_metalib_def zero_defs fun_eq_iff)
  then have "ClaimBinderReconcile std_metalib binder_cluster name_order demo_req =
      fail_with [PatchClaim binder_claim (binder_claim\<lparr>pvcMeta := (pvcMeta binder_claim)\<lparr>omAnnotations :=
        (omAnnotations (pvcMeta binder_claim))(selectedNodeAnnotation \<mapsto> ''b'')\<rparr>\<rparr>)] None"
    by (simp add: ClaimBinderReconcile_def hostClaimPending_def wffcClass_def pickNode_def binder_claim_def binder_cluster_def
        nodeGoneOrUnready_def nodeReady_def name_order_def sort_by_def more_free_def free_of_def run_defs insert_commute)
  then obtain pvc' where w: "PatchClaim binder_claim pvc' \<in> set (fst (ClaimBinderReconcile std_metalib binder_cluster name_order demo_req))"
    and b: "mget (omAnnotations (pvcMeta pvc')) selectedNodeAnnotation = ''b''" by simp
  from claim_bound_to_best_node[OF order w] b w show ?thesis
    by (auto simp: binder_claim_def meta0_def binder_cluster_def wffcClass_def class_tier_def)
qed

end
