(* ===== verification/Tier_Ctl.thy ===== *)
theory Tier_Ctl
  imports Cluster
begin

text \<open>
  The tier StorageClasses, \<open>operator/internal/controller/tier_classes.go\<close>. \<open>order\<close> is the order in
  which Go ranges over the set of tiers.
\<close>

datatype class_write = CreateClass StorageClass | DeleteClass StorageClass

section \<open>The reconcile pass\<close>

definition cloneClass :: "StorageClass \<Rightarrow> string \<Rightarrow> string \<Rightarrow> StorageClass" where
  "cloneClass base name tier =
     \<lparr>sclMeta = (meta0 '''' name)\<lparr>omLabels := [TierClassLabel \<mapsto> tier]\<rparr>,
      sclProvisioner = sclProvisioner base,
      sclParameters = (sclParameters base)(ParamTier \<mapsto> tier),
      sclReclaimPolicy = sclReclaimPolicy base,
      sclMountOptions = sclMountOptions base,
      sclAllowVolumeExpansion = sclAllowVolumeExpansion base,
      sclVolumeBindingMode = sclVolumeBindingMode base\<rparr>"

definition ensureClone :: "kclient \<Rightarrow> string \<Rightarrow> string \<Rightarrow> string \<Rightarrow> class_write list \<times> go_error option" where
  "ensureClone c src name tier =
     (case GetStorageClass c src of
        Inl e \<Rightarrow> ([], Some (wrap (''base class '' @ src @ '': '') e))
      | Inr base \<Rightarrow>
        let sc = cloneClass base name tier in
        (case CreateStorageClass c sc of
           None \<Rightarrow> ([CreateClass sc], None)
         | Some e \<Rightarrow>
           if eReason e \<noteq> AlreadyExists then ([CreateClass sc], Some (wrap (''create class '' @ name @ '': '') e))
           else ([CreateClass sc], None)))"

definition pool_tiers :: "StoragePool list \<Rightarrow> string set" where
  "pool_tiers pools = set (filter (\<lambda>t. t \<noteq> [] \<and> t \<noteq> DefaultTier) (map (\<lambda>p. spsTier (spSpec p)) pools))"

fun tier_loop :: "kclient \<Rightarrow> string list \<Rightarrow> class_write list \<Rightarrow> class_write list \<times> go_error option" where
  "tier_loop c [] ws = (ws, None)"
| "tier_loop c (tier # tiers) ws =
     (case TierClasses tier of (local, repl) \<Rightarrow>
        case ensureClone c LocalClass local tier of (ws1, err1) \<Rightarrow>
          case err1 of
            Some e \<Rightarrow> (ws @ ws1, Some e)
          | None \<Rightarrow>
            (case ensureClone c ReplicatedClass repl tier of (ws2, err2) \<Rightarrow>
               case err2 of
                 Some e \<Rightarrow> (ws @ ws1 @ ws2, Some e)
               | None \<Rightarrow> tier_loop c tiers (ws @ ws1 @ ws2)))"

fun reap_loop :: "kclient \<Rightarrow> string set \<Rightarrow> StorageClass list \<Rightarrow> class_write list \<Rightarrow> class_write list \<times> go_error option" where
  "reap_loop c tiers [] ws = (ws, None)"
| "reap_loop c tiers (sc # scs) ws =
     (if mget (omLabels (sclMeta sc)) TierClassLabel \<notin> tiers then
        (case IgnoreNotFound (DeleteStorageClass c sc) of
           Some e \<Rightarrow> (ws @ [DeleteClass sc], Some e)
         | None \<Rightarrow> reap_loop c tiers scs (ws @ [DeleteClass sc]))
      else reap_loop c tiers scs ws)"

definition TierClassesReconcile :: "kclient \<Rightarrow> (string set \<Rightarrow> string list) \<Rightarrow> class_write outcome" where
  "TierClassesReconcile c order =
     (case ListStoragePools c of
        Inl e \<Rightarrow> fail_with [] (Some e)
      | Inr pools \<Rightarrow>
        let tiers = pool_tiers pools in
        (case tier_loop c (order tiers) [] of
           (ws, Some e) \<Rightarrow> fail_with ws (Some e)
         | (ws, None) \<Rightarrow>
           (case ListTierClasses c of
              Inl e \<Rightarrow> fail_with ws (Some e)
            | Inr classes \<Rightarrow>
              (case reap_loop c tiers classes ws of (ws', err) \<Rightarrow> fail_with ws' err))))"

section \<open>Lemmas\<close>

lemma finite_pool_tiers: "finite (pool_tiers pools)"
  by (simp add: pool_tiers_def)

definition class_pair :: "kclient \<Rightarrow> string \<Rightarrow> class_write list \<Rightarrow> bool" where
  "class_pair c tier ws \<longleftrightarrow>
     (\<exists>l r. GetStorageClass c LocalClass = Inr l \<and> GetStorageClass c ReplicatedClass = Inr r \<and>
        CreateClass (cloneClass l (fst (TierClasses tier)) tier) \<in> set ws \<and>
        CreateClass (cloneClass r (snd (TierClasses tier)) tier) \<in> set ws)"

lemma ensureClone_writes:
  "w \<in> set (fst (ensureClone c src name tier)) \<Longrightarrow>
     \<exists>base. GetStorageClass c src = Inr base \<and> w = CreateClass (cloneClass base name tier)"
  by (auto simp: ensureClone_def Let_def split: sum.splits option.splits if_splits)

lemma ensureClone_ok:
  "ensureClone c src name tier = (ws, None) \<Longrightarrow>
     \<exists>base. GetStorageClass c src = Inr base \<and> ws = [CreateClass (cloneClass base name tier)]"
  by (auto simp: ensureClone_def Let_def split: sum.splits option.splits if_splits)

definition tier_clone :: "kclient \<Rightarrow> string \<Rightarrow> StorageClass \<Rightarrow> bool" where
  "tier_clone c tier sc \<longleftrightarrow>
     (\<exists>l. GetStorageClass c LocalClass = Inr l \<and> sc = cloneClass l (fst (TierClasses tier)) tier) \<or>
     (\<exists>r. GetStorageClass c ReplicatedClass = Inr r \<and> sc = cloneClass r (snd (TierClasses tier)) tier)"

lemma tier_loop_writes:
  "w \<in> set (fst (tier_loop c tiers ws)) \<Longrightarrow>
     w \<in> set ws \<or> (\<exists>tier \<in> set tiers. \<exists>sc. w = CreateClass sc \<and> tier_clone c tier sc)"
proof (induction tiers arbitrary: ws)
  case (Cons tier tiers)
  obtain l r where tc: "TierClasses tier = (l, r)" by fastforce
  obtain ws1 e1 where c1: "ensureClone c LocalClass l tier = (ws1, e1)" by fastforce
  obtain ws2 e2 where c2: "ensureClone c ReplicatedClass r tier = (ws2, e2)" by fastforce
  have w1: "w \<in> set ws1 \<Longrightarrow> \<exists>sc. w = CreateClass sc \<and> tier_clone c tier sc"
    using ensureClone_writes[of w c LocalClass l tier] c1 tc by (auto simp: tier_clone_def)
  have w2: "w \<in> set ws2 \<Longrightarrow> \<exists>sc. w = CreateClass sc \<and> tier_clone c tier sc"
    using ensureClone_writes[of w c ReplicatedClass r tier] c2 tc by (auto simp: tier_clone_def)
  show ?case
    using Cons.prems w1 w2 Cons.IH[of "ws @ ws1 @ ws2"] tc c1 c2
    by (auto split: option.splits)
qed simp

lemma tier_loop_mono: "set ws \<subseteq> set (fst (tier_loop c tiers ws))"
proof (induction tiers arbitrary: ws)
  case (Cons tier tiers)
  obtain l r where tc: "TierClasses tier = (l, r)" by fastforce
  obtain ws1 e1 where c1: "ensureClone c LocalClass l tier = (ws1, e1)" by fastforce
  obtain ws2 e2 where c2: "ensureClone c ReplicatedClass r tier = (ws2, e2)" by fastforce
  show ?case using Cons.IH[of "ws @ ws1 @ ws2"] tc c1 c2 by (auto split: option.splits)
qed simp

lemma tier_loop_ok:
  "snd (tier_loop c tiers ws) = None \<Longrightarrow> tier \<in> set tiers \<Longrightarrow> class_pair c tier (fst (tier_loop c tiers ws))"
proof (induction tiers arbitrary: ws)
  case (Cons t tiers)
  obtain l r where tc: "TierClasses t = (l, r)" by fastforce
  obtain ws1 e1 where c1: "ensureClone c LocalClass l t = (ws1, e1)" by fastforce
  obtain ws2 e2 where c2: "ensureClone c ReplicatedClass r t = (ws2, e2)" by fastforce
  from Cons.prems(1) tc c1 c2 have e: "e1 = None" "e2 = None" by (auto split: option.splits)
  with tc c1 c2 have run: "tier_loop c (t # tiers) ws = tier_loop c tiers (ws @ ws1 @ ws2)" by simp
  from ensureClone_ok[of c LocalClass l t ws1] ensureClone_ok[of c ReplicatedClass r t ws2] c1 c2 e tc
  have "class_pair c t (ws @ ws1 @ ws2)" by (auto simp: class_pair_def)
  then have "class_pair c t (fst (tier_loop c tiers (ws @ ws1 @ ws2)))"
    using tier_loop_mono[of "ws @ ws1 @ ws2" c tiers] unfolding class_pair_def by blast
  moreover have "tier \<in> set tiers \<Longrightarrow> class_pair c tier (fst (tier_loop c tiers (ws @ ws1 @ ws2)))"
    using Cons.IH[of "ws @ ws1 @ ws2"] Cons.prems(1) run by simp
  ultimately show ?case using Cons.prems(2) run by auto
qed simp

lemma reap_loop_writes:
  "w \<in> set (fst (reap_loop c tiers scs ws)) \<Longrightarrow>
     w \<in> set ws \<or> (\<exists>sc \<in> set scs. w = DeleteClass sc \<and> mget (omLabels (sclMeta sc)) TierClassLabel \<notin> tiers)"
  by (induction scs arbitrary: ws) (fastforce split: option.splits if_splits)+

lemma reap_loop_ok:
  "snd (reap_loop c tiers scs ws) = None \<Longrightarrow>
     set (fst (reap_loop c tiers scs ws)) =
       set ws \<union> DeleteClass ` {sc \<in> set scs. mget (omLabels (sclMeta sc)) TierClassLabel \<notin> tiers}"
  by (induction scs arbitrary: ws) (auto split: option.splits if_splits)

section \<open>Properties\<close>

text \<open>\<^bold>\<open>C16\<close>. The tier classes follow the pools. A pass creates only clones of the two shipped classes
  for tiers some pool names, named by \<open>TierClasses\<close>, labelled and parametrised with the tier, and
  deletes only labelled classes of tiers no pool names; when it ends without an error it has asked
  for both classes of every such tier and for the deletion of every class of a vanished tier.\<close>

theorem tier_classes_follow_pools:
  assumes "\<And>s. finite s \<Longrightarrow> set (order s) = s"
    and "ListStoragePools c = Inr pools"
    and "TierClassesReconcile c order = (ws, res, err)"
  shows "(\<forall>sc. CreateClass sc \<in> set ws \<longrightarrow> (\<exists>tier \<in> pool_tiers pools. tier_clone c tier sc)) \<and>
         (\<forall>sc. DeleteClass sc \<in> set ws \<longrightarrow> mget (omLabels (sclMeta sc)) TierClassLabel \<notin> pool_tiers pools \<and>
            (\<exists>classes. ListTierClasses c = Inr classes \<and> sc \<in> set classes)) \<and>
         (err = None \<longrightarrow> (\<forall>tier \<in> pool_tiers pools. class_pair c tier ws) \<and>
            (\<exists>classes. ListTierClasses c = Inr classes \<and>
               (\<forall>sc \<in> set classes. mget (omLabels (sclMeta sc)) TierClassLabel \<notin> pool_tiers pools \<longrightarrow>
                  DeleteClass sc \<in> set ws)))"
proof -
  let ?t = "pool_tiers pools"
  have o: "set (order ?t) = ?t" using assms(1) finite_pool_tiers by blast
  obtain ws1 e1 where l: "tier_loop c (order ?t) [] = (ws1, e1)" by fastforce
  have w1: "w \<in> set ws1 \<Longrightarrow> \<exists>tier \<in> ?t. \<exists>sc. w = CreateClass sc \<and> tier_clone c tier sc" for w
    using tier_loop_writes[of w c "order ?t" "[]"] l o by simp
  show ?thesis
  proof (cases e1)
    case (Some e)
    with assms(2,3) l have "ws = ws1" "err = Some e" by (auto simp: TierClassesReconcile_def)
    with w1 show ?thesis by fastforce
  next
    case None
    have pair: "class_pair c tier ws1" if "tier \<in> ?t" for tier
      using tier_loop_ok[of c "order ?t" "[]" tier] l None o that by simp
    show ?thesis
    proof (cases "ListTierClasses c")
      case (Inl e)
      with assms(2,3) l None have "ws = ws1" "err = Some e" by (auto simp: TierClassesReconcile_def)
      with w1 show ?thesis by fastforce
    next
      case (Inr classes)
      obtain ws2 e2 where r: "reap_loop c ?t classes ws1 = (ws2, e2)" by fastforce
      with assms(2,3) l None Inr have ws: "ws = ws2" "err = e2" by (auto simp: TierClassesReconcile_def)
      have mono: "set ws1 \<subseteq> set ws2" if "e2 = None"
        using reap_loop_ok[of c ?t classes ws1] r that by auto
      have "\<forall>tier \<in> ?t. class_pair c tier ws2" if "e2 = None"
        using pair mono[OF that] unfolding class_pair_def by blast
      moreover have "DeleteClass sc \<in> set ws2"
        if "e2 = None" "sc \<in> set classes" "mget (omLabels (sclMeta sc)) TierClassLabel \<notin> ?t" for sc
        using reap_loop_ok[of c ?t classes ws1] r that by auto
      moreover have origin: "w \<in> set ws2 \<Longrightarrow> w \<in> set ws1 \<or>
          (\<exists>sc \<in> set classes. w = DeleteClass sc \<and> mget (omLabels (sclMeta sc)) TierClassLabel \<notin> ?t)" for w
        using reap_loop_writes[of w c ?t classes ws1] r by simp
      moreover have "\<exists>tier \<in> ?t. tier_clone c tier sc" if "CreateClass sc \<in> set ws2" for sc
        using origin[OF that] w1[of "CreateClass sc"] by auto
      moreover have "sc \<in> set classes \<and> mget (omLabels (sclMeta sc)) TierClassLabel \<notin> ?t" if "DeleteClass sc \<in> set ws2" for sc
        using origin[OF that] w1[of "DeleteClass sc"] by auto
      ultimately show ?thesis unfolding ws Inr by auto
    qed
  qed
qed

definition tier_cluster :: kclient where
  "tier_cluster = client0\<lparr>
     ListStoragePools := Inr [(pool0 ''p'')\<lparr>spSpec := (spSpec (pool0 ''p''))\<lparr>spsTier := ''fast''\<rparr>\<rparr>, pool0 ''q''],
     GetStorageClass := \<lambda>n. Inr \<lparr>sclMeta = meta0 '''' n, sclProvisioner = Driver, sclParameters = [ParamTier \<mapsto> DefaultTier],
        sclReclaimPolicy = None, sclMountOptions = [], sclAllowVolumeExpansion = None,
        sclVolumeBindingMode = Some ''WaitForFirstConsumer''\<rparr>\<rparr>"

definition set_order :: "string set \<Rightarrow> string list" where
  "set_order s = sorted_list_of_set s"

theorem tier_classes_follow_pools_witness:
  "class_pair tier_cluster ''fast'' (fst (TierClassesReconcile tier_cluster set_order))"
proof -
  have order: "set (set_order s) = s" if "finite s" for s using that by (simp add: set_order_def)
  have read: "ListStoragePools tier_cluster =
      Inr [(pool0 ''p'')\<lparr>spSpec := (spSpec (pool0 ''p''))\<lparr>spsTier := ''fast''\<rparr>\<rparr>, pool0 ''q'']"
    by (simp add: tier_cluster_def)
  obtain ws res err where run: "TierClassesReconcile tier_cluster set_order = (ws, res, err)" by (metis prod_cases3)
  have fast: "''fast'' \<in> pool_tiers [(pool0 ''p'')\<lparr>spSpec := (spSpec (pool0 ''p''))\<lparr>spsTier := ''fast''\<rparr>\<rparr>, pool0 ''q'']"
    by (simp add: pool_tiers_def)
  have only: "pool_tiers [(pool0 ''p'')\<lparr>spSpec := (spSpec (pool0 ''p''))\<lparr>spsTier := ''fast''\<rparr>\<rparr>, pool0 ''q''] = {''fast''}"
    by (simp add: pool_tiers_def pool0_def)
  have "snd (snd (TierClassesReconcile tier_cluster set_order)) = None"
    unfolding TierClassesReconcile_def read
    by (simp add: only set_order_def) (simp add: ensureClone_def tier_cluster_def client0_def TierClasses_def)
  with tier_classes_follow_pools[OF order read run] fast run show ?thesis by simp
qed

end
