(* ===== verification/User_Ctl.thy ===== *)
theory User_Ctl
  imports Target_Ctl
begin

text \<open>
  The LocalUser controller, \<open>operator/internal/controller/localuser_controller.go\<close>: it validates
  the password Secret and publishes its version for the agents.
\<close>

datatype user_write = WLocalUserStatus LocalUser

definition user_status :: "metalib \<Rightarrow> kclient \<Rightarrow> LocalUser \<Rightarrow> go_error + LocalUser" where
  "user_status lib c user =
     (let ref = luPasswordSecretRef (luSpec user);
          ok = (available0 (omGeneration (luMeta user)))\<lparr>cStatus := ConditionTrue, cReason := ReasonReady\<rparr>;
          bad = (\<lambda>msg. ok\<lparr>cStatus := ConditionFalse, cReason := ReasonInvalidSpec, cMessage := msg\<rparr>);
          finish = (\<lambda>version cond. user\<lparr>luStatus := (luStatus user)\<lparr>luPasswordSecretVersion := version,
             luConditions := SetStatusCondition lib (luConditions (luStatus user)) cond\<rparr>\<rparr>) in
      case GetSecret c \<lparr>nnNamespace = omNamespace (luMeta user), nnName = ref\<rparr> of
        Inl e \<Rightarrow>
          if eReason e = NotFound then Inr (finish '''' (bad (''password secret '' @ ref @ '' not found'')))
          else Inl e
      | Inr secret \<Rightarrow>
          if \<not> snd (LocalUserPassword (secData secret)) then
            Inr (finish '''' (bad (''password secret '' @ ref @ '' has no password key'')))
          else Inr (finish (omResourceVersion (secMeta secret)) ok))"

definition LocalUserReconcile :: "metalib \<Rightarrow> kclient \<Rightarrow> NamespacedName \<Rightarrow> user_write outcome" where
  "LocalUserReconcile lib c req =
     (case GetLocalUser c req of
        Inl e \<Rightarrow> fail_with [] (IgnoreNotFound (Some e))
      | Inr user \<Rightarrow>
        (case user_status lib c user of
           Inl e \<Rightarrow> fail_with [] (Some e)
         | Inr user' \<Rightarrow>
           (case UpdateLocalUserStatus c user' of
              Inl e \<Rightarrow> if eReason e = Conflict then done_with [WLocalUserStatus user']
                       else fail_with [WLocalUserStatus user'] (Some e)
            | Inr _ \<Rightarrow> done_with [WLocalUserStatus user'])))"

definition secretUsers :: "kclient \<Rightarrow> ObjectMeta \<Rightarrow> NamespacedName list" where
  "secretUsers c obj =
     (case ListLocalUsers c (Some (omNamespace obj)) of
        Inl _ \<Rightarrow> []
      | Inr us \<Rightarrow> map (\<lambda>u. keyOf (luMeta u)) (filter (\<lambda>u. luPasswordSecretRef (luSpec u) = omName obj) us))"

section \<open>Properties\<close>

definition password_usable :: "kclient \<Rightarrow> LocalUser \<Rightarrow> bool" where
  "password_usable c u \<longleftrightarrow>
     (\<exists>s. GetSecret c \<lparr>nnNamespace = omNamespace (luMeta u), nnName = luPasswordSecretRef (luSpec u)\<rparr> = Inr s \<and>
        mget (secData s) ''password'' \<noteq> '''')"

text \<open>A user's status says whether its password is usable: the status a pass writes has
  Available=True exactly when the referenced secret exists and holds a non-empty password, its
  published version is then the secret's resource version and empty otherwise, and the rest of the
  object is what was read.\<close>

theorem user_status_exact:
  assumes "metalib_laws lib"
    and "GetLocalUser c req = Inr user"
    and "WLocalUserStatus u \<in> set (fst (LocalUserReconcile lib c req))"
  shows "luMeta u = luMeta user \<and> luSpec u = luSpec user \<and>
         (IsStatusConditionTrue lib (luConditions (luStatus u)) ConditionAvailable \<longleftrightarrow> password_usable c user) \<and>
         luPasswordSecretVersion (luStatus u) =
           (if password_usable c user
            then secret_version c (omNamespace (luMeta user)) (luPasswordSecretRef (luSpec user)) else '''')"
proof -
  from assms(2,3) have run: "user_status lib c user = Inr u"
    by (auto simp: LocalUserReconcile_def split: sum.splits if_splits)
  then show ?thesis
    by (auto simp: user_status_def Let_def password_usable_def secret_version_def LocalUserPassword_def
        metalib_laws.is_true_set[OF assms(1)] split: sum.splits if_splits)
qed

definition demo_user :: LocalUser where
  "demo_user = \<lparr>luMeta = meta0 ''ns'' ''u'', luSpec = \<lparr>luRole = ''viewer'', luSMB = True, luPasswordSecretRef = ''s''\<rparr>,
     luStatus = \<lparr>luConditions = [], luPasswordSecretVersion = ''''\<rparr>\<rparr>"

theorem user_status_exact_witness:
  "\<exists>u. WLocalUserStatus u \<in> set (fst (LocalUserReconcile std_metalib
         (chap_cluster\<lparr>GetLocalUser := \<lambda>_. Inr demo_user\<rparr>) demo_key)) \<and>
       luPasswordSecretVersion (luStatus u) = ''7''"
proof -
  let ?c = "chap_cluster\<lparr>GetLocalUser := \<lambda>_. Inr demo_user\<rparr>"
  have read: "GetLocalUser ?c demo_key = Inr demo_user" by simp
  have "case fst (LocalUserReconcile std_metalib ?c demo_key) of [WLocalUserStatus u] \<Rightarrow> True | _ \<Rightarrow> False" by code_simp
  then obtain u where w: "WLocalUserStatus u \<in> set (fst (LocalUserReconcile std_metalib ?c demo_key))"
    by (auto split: list.splits user_write.splits)
  have "password_usable ?c demo_user" "secret_version ?c ''ns'' ''s'' = ''7''"
    by (simp_all add: password_usable_def secret_version_def chap_cluster_def demo_user_def meta0_def)
  with user_status_exact[OF std.metalib_laws_axioms read w] w show ?thesis
    by (auto simp: demo_user_def meta0_def)
qed

end
