(* ===== verification/Go_Strings.thy ===== *)
theory Go_Strings
  imports Prelude
begin

text \<open>
  The functions of Go's \<open>strings\<close>, \<open>strconv\<close> and \<open>path/filepath\<close> packages that the host side of
  the sources calls, on ASCII strings, with the lemmas their callers use.
\<close>

section \<open>White space\<close>

definition isSpace :: "char \<Rightarrow> bool" where
  "isSpace c \<longleftrightarrow> c = CHR '' '' \<or> c = CHR 0x09 \<or> c = CHR 0x0A \<or> c = CHR 0x0B \<or> c = CHR 0x0C \<or> c = CHR 0x0D"

definition trimSpace :: "string \<Rightarrow> string" where
  "trimSpace s = rev (dropWhile isSpace (rev (dropWhile isSpace s)))"

text \<open>\<open>strings.TrimRight(s, "\n")\<close>.\<close>

definition trimRightNL :: "string \<Rightarrow> string" where
  "trimRightNL s = rev (dropWhile (\<lambda>c. c = CHR 0x0A) (rev s))"

section \<open>Searching\<close>

fun indexOf :: "string \<Rightarrow> string \<Rightarrow> nat option" where
  "indexOf [] sub = (if sub = [] then Some 0 else None)"
| "indexOf (c # s) sub = (if hasPrefix (c # s) sub then Some 0 else map_option Suc (indexOf s sub))"

definition strContains :: "string \<Rightarrow> string \<Rightarrow> bool" where
  "strContains s sub \<longleftrightarrow> indexOf s sub \<noteq> None"

definition lastIndexChar :: "string \<Rightarrow> char \<Rightarrow> nat option" where
  "lastIndexChar s c = (if c \<in> set s then Some (length s - 1 - length (takeWhile (\<lambda>x. x \<noteq> c) (rev s))) else None)"

definition indexByte :: "string \<Rightarrow> char \<Rightarrow> nat option" where
  "indexByte s c = (if c \<in> set s then Some (length (takeWhile (\<lambda>x. x \<noteq> c) s)) else None)"

definition cut :: "string \<Rightarrow> string \<Rightarrow> string \<times> string \<times> bool" where
  "cut s sep = (case indexOf s sep of None \<Rightarrow> (s, '''', False) | Some i \<Rightarrow> (take i s, drop (i + length sep) s, True))"

section \<open>Splitting\<close>

fun splitP :: "(char \<Rightarrow> bool) \<Rightarrow> string \<Rightarrow> string list" where
  "splitP p [] = [[]]"
| "splitP p (c # s) =
     (if p c then [] # splitP p s
      else (case splitP p s of [] \<Rightarrow> [[c]] | w # ws \<Rightarrow> (c # w) # ws))"

text \<open>\<open>strings.Split(s, "\n")\<close> and \<open>strings.Fields(s)\<close>.\<close>

definition splitNL :: "string \<Rightarrow> string list" where
  "splitNL s = splitP (\<lambda>c. c = CHR 0x0A) s"

definition strFields :: "string \<Rightarrow> string list" where
  "strFields s = filter (\<lambda>w. w \<noteq> []) (splitP isSpace s)"

section \<open>Replacing\<close>

function replaceAll :: "string \<Rightarrow> string \<Rightarrow> string \<Rightarrow> string" where
  "replaceAll s old new =
     (if old = [] then new @ concat (map (\<lambda>c. c # new) s)
      else
        (case s of
           [] \<Rightarrow> []
         | c # cs \<Rightarrow> if hasPrefix s old then new @ replaceAll (drop (length old) s) old new
                     else c # replaceAll cs old new))"
  by auto
termination
  by (relation "measure (\<lambda>(s, old, new). length s)") auto

declare replaceAll.simps [simp del]

section \<open>Numbers\<close>

definition digit_value :: "char \<Rightarrow> nat option" where
  "digit_value c = (let n = of_char c in if 48 \<le> n \<and> n \<le> 57 then Some (n - 48) else None)"

fun parse_digits :: "string \<Rightarrow> nat \<Rightarrow> nat option" where
  "parse_digits [] acc = Some acc"
| "parse_digits (c # s) acc = (case digit_value c of None \<Rightarrow> None | Some d \<Rightarrow> parse_digits s (10 * acc + d))"

definition parse_unsigned :: "string \<Rightarrow> nat option" where
  "parse_unsigned s = (if s = [] then None else parse_digits s 0)"

text \<open>\<open>strconv.ParseInt(s, 10, 64)\<close>: \<open>None\<close> for a syntax or a range error.\<close>

definition parseInt64 :: "string \<Rightarrow> int option" where
  "parseInt64 s =
     (case s of
        [] \<Rightarrow> None
      | c # t \<Rightarrow>
        let neg = (c = CHR ''-''); body = (if c = CHR ''-'' \<or> c = CHR ''+'' then t else s) in
        (case parse_unsigned body of
           None \<Rightarrow> None
         | Some n \<Rightarrow>
           if neg then (if int n \<le> 2 ^ 63 then Some (- int n) else None)
           else (if int n < 2 ^ 63 then Some (int n) else None)))"

text \<open>The \<open>%q\<close> verb on plain printable text, and \<open>ParseInt\<close>'s error text.\<close>

definition quoted :: "string \<Rightarrow> string" where
  "quoted s = [CHR 0x22] @ s @ [CHR 0x22]"

definition parseInt_error :: "string \<Rightarrow> string" where
  "parseInt_error s = ''strconv.ParseInt: parsing '' @ quoted s @
     (case s of
        [] \<Rightarrow> '': invalid syntax''
      | c # t \<Rightarrow>
        if parse_unsigned (if c = CHR ''-'' \<or> c = CHR ''+'' then t else s) = None then '': invalid syntax''
        else '': value out of range'')"

section \<open>Paths\<close>

text \<open>\<open>filepath.Join(dir, name)\<close> for a clean \<open>dir\<close> and a \<open>name\<close> without slashes or dots of its own
  (Kubernetes names).\<close>

definition pathJoin :: "string \<Rightarrow> string \<Rightarrow> string" where
  "pathJoin dir name = dir @ ''/'' @ name"

section \<open>Lemmas\<close>

lemma indexOf_Some: "indexOf s sub = Some i \<Longrightarrow> i \<le> length s \<and> hasPrefix (drop i s) sub"
  by (induction s sub arbitrary: i rule: indexOf.induct) (auto simp: hasPrefix_def split: if_splits)

lemma strContains_iff: "strContains s sub \<longleftrightarrow> (\<exists>a b. s = a @ sub @ b)"
proof
  assume "strContains s sub"
  then obtain i where "indexOf s sub = Some i" by (auto simp: strContains_def)
  from indexOf_Some[OF this] show "\<exists>a b. s = a @ sub @ b"
    by (metis append_take_drop_id hasPrefix_iff)
next
  assume "\<exists>a b. s = a @ sub @ b"
  then obtain a b where "s = a @ sub @ b" by blast
  then show "strContains s sub"
    unfolding strContains_def
  proof (induction a arbitrary: s)
    case Nil
    then have "hasPrefix s sub" by simp
    then show ?case by (cases s) (auto simp: hasPrefix_def)
  next
    case (Cons c a)
    then show ?case by auto
  qed
qed

lemma splitP_not_Nil [simp]: "splitP p s \<noteq> []"
  by (induction s) (auto split: list.splits)

lemma splitP_no_sep_all: "\<forall>w \<in> set (splitP p s). \<forall>c \<in> set w. \<not> p c"
  by (induction s) (auto split: list.splits)

lemma splitP_no_sep: "w \<in> set (splitP p s) \<Longrightarrow> c \<in> set w \<Longrightarrow> \<not> p c"
  using splitP_no_sep_all by blast

lemma splitP_append:
  "\<forall>c \<in> set a. \<not> p c \<Longrightarrow> p x \<Longrightarrow> splitP p (a @ x # s) = a # splitP p s"
  by (induction a) (auto split: list.splits)

lemma splitP_single: "\<forall>c \<in> set a. \<not> p c \<Longrightarrow> splitP p a = [a]"
  by (induction a) auto

lemma strFields_nonempty: "w \<in> set (strFields s) \<Longrightarrow> w \<noteq> [] \<and> (\<forall>c \<in> set w. \<not> isSpace c)"
  by (auto simp: strFields_def dest: splitP_no_sep)

lemma trimSpace_id: "s = [] \<or> (\<not> isSpace (hd s) \<and> \<not> isSpace (last s)) \<Longrightarrow> trimSpace s = s"
proof -
  assume "s = [] \<or> (\<not> isSpace (hd s) \<and> \<not> isSpace (last s))"
  then show ?thesis
  proof
    assume "\<not> isSpace (hd s) \<and> \<not> isSpace (last s)"
    moreover have "dropWhile isSpace s = s" if "\<not> isSpace (hd s)" for s using that by (cases s) auto
    ultimately show ?thesis by (simp add: trimSpace_def hd_rev)
  qed (simp add: trimSpace_def)
qed

lemma digit_value_digit_char: "d < 10 \<Longrightarrow> digit_value (digit_char d) = Some d"
  by (simp add: digit_value_def Let_def of_char_of)

lemma parse_digits_append:
  "parse_digits (s @ t) acc = (case parse_digits s acc of None \<Rightarrow> None | Some n \<Rightarrow> parse_digits t n)"
  by (induction s acc rule: parse_digits.induct) (auto split: option.splits)

lemma parse_utoa: "parse_digits (utoa n) 0 = Some n"
proof (induction n rule: utoa.induct)
  case (1 n)
  show ?case
  proof (cases "n < 10")
    case True
    then show ?thesis
      by (subst utoa.simps) (simp add: digit_value_digit_char del: digit_char.simps)
  next
    case False
    with 1 have "parse_digits (utoa (n div 10)) 0 = Some (n div 10)" by blast
    with False show ?thesis
      by (subst utoa.simps) (simp add: parse_digits_append digit_value_digit_char del: digit_char.simps)
  qed
qed

text \<open>Printing an int64 and parsing it back.\<close>

lemma utoa_hd: "hd (utoa n) \<noteq> CHR ''-'' \<and> hd (utoa n) \<noteq> CHR ''+''"
proof (induction n rule: utoa.induct)
  case (1 n)
  show ?case
  proof (cases "n < 10")
    case True
    then have "of_char (digit_char n) = 48 + n" by (simp add: of_char_of)
    then have "digit_char n \<noteq> CHR ''-''" "digit_char n \<noteq> CHR ''+''" using True by (auto simp del: digit_char.simps)
    with True show ?thesis by (subst (1 2) utoa.simps) (simp del: digit_char.simps)
  next
    case False
    with 1 show ?thesis by (subst (1 2) utoa.simps) simp
  qed
qed

lemma parseInt_itoa:
  assumes "- (2 ^ 63) \<le> i" "i < 2 ^ 63"
  shows "parseInt64 (itoa i) = Some i"
proof (cases "i < 0")
  case True
  then show ?thesis using assms
    by (auto simp: itoa_def parseInt64_def parse_unsigned_def parse_utoa)
next
  case False
  obtain c t where ct: "utoa (nat i) = c # t" by (meson neq_Nil_conv utoa_not_Nil(1))
  with utoa_hd[of "nat i"] have "c \<noteq> CHR ''-''" "c \<noteq> CHR ''+''" by simp_all
  with False ct assms parse_utoa[of "nat i"] show ?thesis
    by (auto simp: itoa_def parseInt64_def parse_unsigned_def Let_def)
qed

end
