(* ===== verification/Host.thy ===== *)
theory Host
  imports Complex_Main Go_Strings K8s "HOL-Library.State_Monad"
begin

text \<open>
  The agent's host runner: \<open>internal/agent/runner.go\<close> and \<open>lvm.Exec\<close>. What a process does on the
  host is a parameter, \<open>os\<close>: it maps the host state (a type variable) and the process started to
  its output, its failure and the new host state. Host code is a \<open>State_Monad\<close> program over that
  state and the log of the commands run so far with their results, so that statements about the log
  hold for every behaviour of the host.
\<close>

section \<open>Processes and commands\<close>

record proc =
  pArgv :: "string list"
  pStdin :: string

record proc_result =
  prStdout :: string
  prStderr :: string
  prFailed :: "string option" \<comment> \<open>the text of \<open>cmd.Run()\<close>'s error\<close>

type_synonym 'h os = "'h \<Rightarrow> proc \<Rightarrow> proc_result \<times> 'h"

record cmd =
  cName :: string
  cArgs :: "string list"
  cStdin :: string

text \<open>A command's output and error, and the log.\<close>

type_synonym cmd_result = "string \<times> go_error option"

type_synonym log = "(cmd \<times> cmd_result) list"

type_synonym ('h, 'a) prog = "('h \<times> log, 'a) state"

text \<open>\<open>lvm.Exec\<close>: stdout alone on success; on failure stdout and stderr together and an error that
  carries the command line, the process error and the output.\<close>

definition Exec :: "string \<Rightarrow> string list \<Rightarrow> proc_result \<Rightarrow> cmd_result" where
  "Exec name args res =
     (case prFailed res of
        Some err \<Rightarrow>
          let out = prStdout res @ prStderr res in
          (out, Some (errorf (name @ '' '' @ joinWith '' '' args @ '': '' @ err @ '': '' @ trimSpace out)))
      | None \<Rightarrow> (prStdout res, None))"

definition nsenter :: "string list" where
  "nsenter = [''nsenter'', ''-t'', ''1'', ''-m'', ''-u'', ''-i'', ''-n'', ''--'']"

definition hostExec :: "'h os \<Rightarrow> string \<Rightarrow> string \<Rightarrow> string list \<Rightarrow> ('h, cmd_result) prog" where
  "hostExec os stdin name args =
     State (\<lambda>(h, l).
       case os h \<lparr>pArgv = nsenter @ name # args, pStdin = stdin\<rparr> of (res, h') \<Rightarrow>
         let r = Exec name args res in
         (r, (h', l @ [(\<lparr>cName = name, cArgs = args, cStdin = stdin\<rparr>, r)])))"

definition Run :: "'h os \<Rightarrow> string \<Rightarrow> string list \<Rightarrow> ('h, cmd_result) prog" where
  "Run os name args = hostExec os '''' name args"

definition RunInput :: "'h os \<Rightarrow> string \<Rightarrow> string \<Rightarrow> string list \<Rightarrow> ('h, cmd_result) prog" where
  "RunInput os stdin name args = hostExec os stdin name args"

text \<open>The error of a command, and whether it succeeded.\<close>

definition run_err :: "'h os \<Rightarrow> string \<Rightarrow> string list \<Rightarrow> ('h, go_error option) prog" where
  "run_err os name args = do { r \<leftarrow> Run os name args; State_Monad.return (snd r) }"

definition run_ok :: "'h os \<Rightarrow> string \<Rightarrow> string list \<Rightarrow> ('h, bool) prog" where
  "run_ok os name args = do { r \<leftarrow> Run os name args; State_Monad.return (snd r = None) }"

abbreviation plain :: "string \<Rightarrow> string list \<Rightarrow> cmd" where
  "plain name args \<equiv> \<lparr>cName = name, cArgs = args, cStdin = ''''\<rparr>"

abbreviation ret :: "'a \<Rightarrow> ('h, 'a) prog" where
  "ret \<equiv> State_Monad.return"

section \<open>Reasoning about the log\<close>

text \<open>\<open>ensures P m Q\<close>: from a log that satisfies \<open>P\<close>, whatever the host does, \<open>m\<close> ends with a value and
  a log that satisfy \<open>Q\<close>.\<close>

definition ensures :: "(log \<Rightarrow> bool) \<Rightarrow> ('h, 'a) prog \<Rightarrow> ('a \<Rightarrow> log \<Rightarrow> bool) \<Rightarrow> bool" where
  "ensures P m Q \<longleftrightarrow> (\<forall>h l. P l \<longrightarrow> (case run_state m (h, l) of (x, (h', l')) \<Rightarrow> Q x l'))"

lemma ensures_return: "(\<And>l. P l \<Longrightarrow> Q x l) \<Longrightarrow> ensures P (ret x) Q"
  by (simp add: ensures_def State_Monad.return_def)

lemma ensures_bind:
  assumes "ensures P m R" and "\<And>x. ensures (R x) (f x) Q"
  shows "ensures P (State_Monad.bind m f) Q"
  unfolding ensures_def
proof (intro allI impI)
  fix h l
  assume "P l"
  obtain x h' l' where m: "run_state m (h, l) = (x, (h', l'))" by (metis prod_cases3)
  with \<open>P l\<close> assms(1) have "R x l'" unfolding ensures_def by (metis case_prod_conv)
  with assms(2)[of x] have "case run_state (f x) (h', l') of (y, (h2, l2)) \<Rightarrow> Q y l2"
    unfolding ensures_def by simp
  with m show "case run_state (State_Monad.bind m f) (h, l) of (y, (h2, l2)) \<Rightarrow> Q y l2"
    by (simp add: State_Monad.bind_def)
qed

lemma ensures_weaken:
  "ensures P m Q \<Longrightarrow> (\<And>l. P' l \<Longrightarrow> P l) \<Longrightarrow> (\<And>x l. Q x l \<Longrightarrow> Q' x l) \<Longrightarrow> ensures P' m Q'"
  unfolding ensures_def by (fastforce split: prod.splits)

lemma ensures_hostExec:
  "(\<And>l r. P l \<Longrightarrow> Q r (l @ [(\<lparr>cName = name, cArgs = args, cStdin = stdin\<rparr>, r)])) \<Longrightarrow> ensures P (hostExec os stdin name args) Q"
  by (auto simp: ensures_def hostExec_def Let_def split: prod.splits)

lemma ensures_Run:
  "(\<And>l r. P l \<Longrightarrow> Q r (l @ [(plain name args, r)])) \<Longrightarrow> ensures P (Run os name args) Q"
  unfolding Run_def by (rule ensures_hostExec)

lemma ensures_if:
  "(b \<Longrightarrow> ensures P m Q) \<Longrightarrow> (\<not> b \<Longrightarrow> ensures P n Q) \<Longrightarrow> ensures P (if b then m else n) Q"
  by simp

lemma ensures_case_option:
  "(x = None \<Longrightarrow> ensures P m Q) \<Longrightarrow> (\<And>y. x = Some y \<Longrightarrow> ensures P (f y) Q) \<Longrightarrow>
     ensures P (case x of None \<Rightarrow> m | Some y \<Rightarrow> f y) Q"
  by (cases x) simp_all

lemma ensures_case_sum:
  "(\<And>e. x = Inl e \<Longrightarrow> ensures P (f e) Q) \<Longrightarrow> (\<And>y. x = Inr y \<Longrightarrow> ensures P (g y) Q) \<Longrightarrow>
     ensures P (case x of Inl e \<Rightarrow> f e | Inr y \<Rightarrow> g y) Q"
  by (cases x) simp_all

lemma ensures_case_list:
  "(x = [] \<Longrightarrow> ensures P m Q) \<Longrightarrow> (\<And>y ys. x = y # ys \<Longrightarrow> ensures P (f y ys) Q) \<Longrightarrow>
     ensures P (case x of [] \<Rightarrow> m | y # ys \<Rightarrow> f y ys) Q"
  by (cases x) simp_all

lemma ensures_case_prod:
  "(\<And>a b. x = (a, b) \<Longrightarrow> ensures P (f a b) Q) \<Longrightarrow> ensures P (case x of (a, b) \<Rightarrow> f a b) Q"
  by (cases x) simp

lemma ensures_run_err:
  "(\<And>l r. P l \<Longrightarrow> Q (snd r) (l @ [(plain name args, r)])) \<Longrightarrow> ensures P (run_err os name args) Q"
  unfolding run_err_def
  by (rule ensures_bind[OF ensures_Run[where Q = "\<lambda>r l. Q (snd r) l"]]) (auto intro: ensures_return)

lemma ensures_run_ok:
  "(\<And>l r. P l \<Longrightarrow> Q (snd r = None) (l @ [(plain name args, r)])) \<Longrightarrow> ensures P (run_ok os name args) Q"
  unfolding run_ok_def
  by (rule ensures_bind[OF ensures_Run[where Q = "\<lambda>r l. Q (snd r = None) l"]]) (auto intro: ensures_return)

text \<open>The log a program leaves, on an empty log, and a program's value.\<close>

definition log_of :: "('h, 'a) prog \<Rightarrow> 'h \<Rightarrow> log" where
  "log_of m h = snd (snd (run_state m (h, [])))"

definition value_of :: "('h, 'a) prog \<Rightarrow> 'h \<Rightarrow> 'a" where
  "value_of m h = fst (run_state m (h, []))"

lemma ensures_run: "ensures (\<lambda>l. l = []) m Q \<Longrightarrow> Q (value_of m h) (log_of m h)"
  unfolding ensures_def log_of_def value_of_def by (metis (mono_tags, lifting) case_prod_beta)

section \<open>Justified logs\<close>

text \<open>\<open>justified J l\<close>: every entry of the log is allowed by what was seen before it.\<close>

definition justified :: "(log \<Rightarrow> cmd \<Rightarrow> bool) \<Rightarrow> log \<Rightarrow> bool" where
  "justified J l \<longleftrightarrow> (\<forall>i < length l. J (take i l) (fst (l ! i)))"

lemma justified_Nil [simp]: "justified J []"
  by (simp add: justified_def)

lemma justified_snoc [simp]: "justified J (l @ [e]) \<longleftrightarrow> justified J l \<and> J l (fst e)"
  by (auto simp: justified_def nth_append less_Suc_eq)

section \<open>Sequencing on errors\<close>

text \<open>\<open>if err := m(); err != nil { return err }\<close>, and the same in a function that also returns a
  report.\<close>

definition andThen :: "('h, go_error option) prog \<Rightarrow> ('h, go_error option) prog \<Rightarrow> ('h, go_error option) prog" where
  "andThen m k = do { e \<leftarrow> m; if e \<noteq> None then ret e else k }"

definition checked :: "'r \<Rightarrow> ('h, go_error option) prog \<Rightarrow> ('h, 'r \<times> go_error option) prog \<Rightarrow> ('h, 'r \<times> go_error option) prog" where
  "checked rep m k = do { e \<leftarrow> m; if e \<noteq> None then ret (rep, e) else k }"

lemma ensures_andThen:
  assumes "ensures P m (\<lambda>e l. if e = None then R l else Q e l)" and "ensures R k Q"
  shows "ensures P (andThen m k) Q"
  unfolding andThen_def
proof (rule ensures_bind[OF assms(1)])
  fix e
  show "ensures (\<lambda>l. if e = None then R l else Q e l) (if e \<noteq> None then ret e else k) Q"
    using assms(2) by (cases e) (auto intro: ensures_return)
qed

lemma ensures_checked:
  assumes "ensures P m (\<lambda>e l. if e = None then R l else Q (rep, e) l)" and "ensures R k Q"
  shows "ensures P (checked rep m k) Q"
  unfolding checked_def
proof (rule ensures_bind[OF assms(1)])
  fix e
  show "ensures (\<lambda>l. if e = None then R l else Q (rep, e) l) (if e \<noteq> None then ret (rep, e) else k) Q"
    using assms(2) by (cases e) (auto intro: ensures_return)
qed

section \<open>Decoders\<close>

text \<open>The sources hand command output to \<open>encoding/json\<close> and \<open>strconv.ParseFloat\<close>. Those decoders
  are arguments: \<open>golib\<close> has one field per target type, giving the decoding error or the fields the
  sources read. Nothing is assumed of them.\<close>

record lvm_entry =
  leVG :: "(string \<rightharpoonup> string) list"
  lePV :: "(string \<rightharpoonup> string) list"
  leLV :: "(string \<rightharpoonup> string) list"

record lsblk_dev =
  lbPath :: string
  lbModel :: string
  lbSerial :: string
  lbSize :: int
  lbRota :: bool
  lbType :: string

record smartctl_report =
  srPassed :: "bool option"
  srTemperature :: "int option"
  srHours :: "int option"

record golib =
  UnmarshalLvm :: "string \<Rightarrow> go_error + lvm_entry list"
  ParseFloat :: "string \<Rightarrow> rat option"
  UnmarshalLinks :: "string \<Rightarrow> go_error + string list"
  UnmarshalRoutes :: "string \<Rightarrow> go_error + string list"
  UnmarshalSessions :: "string \<Rightarrow> go_error + (string \<times> string) list" \<comment> \<open>user and pid, in range order\<close>
  UnmarshalLsblk :: "string \<Rightarrow> go_error + lsblk_dev list"
  UnmarshalSmart :: "string \<Rightarrow> go_error + smartctl_report"

text \<open>\<open>int32(f)\<close> truncates towards zero.\<close>

definition truncInt :: "rat \<Rightarrow> int" where
  "truncInt f = (if f \<ge> 0 then floor f else - floor (- f))"

section \<open>Programs that keep an invariant of the log\<close>

definition keeps :: "(log \<Rightarrow> bool) \<Rightarrow> ('h, 'a) prog \<Rightarrow> bool" where
  "keeps I m \<longleftrightarrow> ensures I m (\<lambda>_. I)"

lemma keeps_ensures: "keeps I m \<Longrightarrow> ensures I m (\<lambda>_. I)"
  by (simp add: keeps_def)

named_theorems keeps_intro \<open>rules for \<open>keeps\<close>\<close>

lemma keeps_return [keeps_intro]: "keeps I (ret x)"
  by (simp add: keeps_def ensures_return)

lemma keeps_bind [keeps_intro]: "keeps I m \<Longrightarrow> (\<And>x. keeps I (f x)) \<Longrightarrow> keeps I (State_Monad.bind m f)"
  unfolding keeps_def by (rule ensures_bind)

lemma keeps_if [keeps_intro]: "(b \<Longrightarrow> keeps I m) \<Longrightarrow> (\<not> b \<Longrightarrow> keeps I n) \<Longrightarrow> keeps I (if b then m else n)"
  by simp

lemma keeps_Let [keeps_intro]: "(\<And>y. y = x \<Longrightarrow> keeps I (f y)) \<Longrightarrow> keeps I (let y = x in f y)"
  by simp

lemma keeps_case_option [keeps_intro]:
  "(x = None \<Longrightarrow> keeps I m) \<Longrightarrow> (\<And>y. x = Some y \<Longrightarrow> keeps I (f y)) \<Longrightarrow> keeps I (case x of None \<Rightarrow> m | Some y \<Rightarrow> f y)"
  by (cases x) simp_all

lemma keeps_case_sum [keeps_intro]:
  "(\<And>e. x = Inl e \<Longrightarrow> keeps I (f e)) \<Longrightarrow> (\<And>y. x = Inr y \<Longrightarrow> keeps I (g y)) \<Longrightarrow>
     keeps I (case x of Inl e \<Rightarrow> f e | Inr y \<Rightarrow> g y)"
  by (cases x) simp_all

lemma keeps_case_list [keeps_intro]:
  "(x = [] \<Longrightarrow> keeps I m) \<Longrightarrow> (\<And>y ys. x = y # ys \<Longrightarrow> keeps I (f y ys)) \<Longrightarrow>
     keeps I (case x of [] \<Rightarrow> m | y # ys \<Rightarrow> f y ys)"
  by (cases x) simp_all

lemma keeps_case_prod [keeps_intro]:
  "(\<And>a b. x = (a, b) \<Longrightarrow> keeps I (f a b)) \<Longrightarrow> keeps I (case x of (a, b) \<Rightarrow> f a b)"
  by (cases x) simp

lemma keeps_andThen [keeps_intro]: "keeps I m \<Longrightarrow> keeps I k \<Longrightarrow> keeps I (andThen m k)"
  unfolding andThen_def by (intro keeps_intro)

lemma keeps_checked [keeps_intro]: "keeps I m \<Longrightarrow> keeps I k \<Longrightarrow> keeps I (checked rep m k)"
  unfolding checked_def by (intro keeps_intro)

lemma keeps_hostExec:
  "(\<And>l r. I l \<Longrightarrow> I (l @ [(\<lparr>cName = name, cArgs = args, cStdin = stdin\<rparr>, r)])) \<Longrightarrow> keeps I (hostExec os stdin name args)"
  unfolding keeps_def by (rule ensures_hostExec) simp

lemma keeps_Run [keeps_intro]:
  "(\<And>l r. I l \<Longrightarrow> I (l @ [(plain name args, r)])) \<Longrightarrow> keeps I (Run os name args)"
  unfolding Run_def by (rule keeps_hostExec)

lemma keeps_run_err [keeps_intro]:
  "(\<And>l r. I l \<Longrightarrow> I (l @ [(plain name args, r)])) \<Longrightarrow> keeps I (run_err os name args)"
  unfolding run_err_def by (intro keeps_intro)

lemma keeps_run_ok [keeps_intro]:
  "(\<And>l r. I l \<Longrightarrow> I (l @ [(plain name args, r)])) \<Longrightarrow> keeps I (run_ok os name args)"
  unfolding run_ok_def by (intro keeps_intro)

lemma keeps_log: "keeps I m \<Longrightarrow> I [] \<Longrightarrow> I (log_of m h)"
  by (rule ensures_run, rule ensures_weaken[OF keeps_ensures]) simp_all

lemma ensures_keeps: "(\<And>l. P l \<Longrightarrow> I l) \<Longrightarrow> keeps I m \<Longrightarrow> ensures P m (\<lambda>_. I)"
  by (auto simp: keeps_def intro: ensures_weaken)

text \<open>In a justified log, an entry satisfies \<open>J\<close> for the entries before it.\<close>

lemma justifiedD: "justified J l \<Longrightarrow> l = pre @ e # post \<Longrightarrow> J pre (fst e)"
  unfolding justified_def by (drule spec[of _ "length pre"]) simp

section \<open>Files\<close>

text \<open>The agent also reads and writes host files directly (package \<open>os\<close>). What the file system
  does is the parameter \<open>fs\<close>; a file operation is logged like a command, under the name of the Go
  function. \<open>os.IsNotExist\<close> tests the reason \<open>NotFound\<close>.\<close>

datatype fileop = ReadFile string | WriteFile string string | RemoveFile string | MkdirAll string | Stat string

type_synonym 'h fs = "'h \<Rightarrow> fileop \<Rightarrow> (go_error + string) \<times> 'h"

fun file_cmd :: "fileop \<Rightarrow> cmd" where
  "file_cmd (ReadFile p) = plain ''os.ReadFile'' [p]"
| "file_cmd (WriteFile p s) = plain ''os.WriteFile'' [p, s]"
| "file_cmd (RemoveFile p) = plain ''os.Remove'' [p]"
| "file_cmd (MkdirAll p) = plain ''os.MkdirAll'' [p]"
| "file_cmd (Stat p) = plain ''os.Stat'' [p]"

definition fileOp :: "'h fs \<Rightarrow> fileop \<Rightarrow> ('h, go_error + string) prog" where
  "fileOp fs f =
     State (\<lambda>(h, l). case fs h f of (r, h') \<Rightarrow>
       (r, (h', l @ [(file_cmd f, (case r of Inl e \<Rightarrow> ('''', Some e) | Inr s \<Rightarrow> (s, None)))])))"

definition file_err :: "'h fs \<Rightarrow> fileop \<Rightarrow> ('h, go_error option) prog" where
  "file_err fs f = do { r \<leftarrow> fileOp fs f; ret (case r of Inl e \<Rightarrow> Some e | Inr _ \<Rightarrow> None) }"

lemma keeps_fileOp [keeps_intro]: "(\<And>l r. I l \<Longrightarrow> I (l @ [(file_cmd f, r)])) \<Longrightarrow> keeps I (fileOp fs f)"
  by (auto simp: keeps_def ensures_def fileOp_def split: prod.splits)

lemma keeps_file_err [keeps_intro]: "(\<And>l r. I l \<Longrightarrow> I (l @ [(file_cmd f, r)])) \<Longrightarrow> keeps I (file_err fs f)"
  unfolding file_err_def by (intro keeps_intro)

lemma ensures_fileOp:
  "(\<And>l r. P l \<Longrightarrow> Q r (l @ [(file_cmd f, (case r of Inl e \<Rightarrow> ('''', Some e) | Inr s \<Rightarrow> (s, None)))])) \<Longrightarrow>
     ensures P (fileOp fs f) Q"
  by (auto simp: ensures_def fileOp_def split: prod.splits)

lemma ensures_file_err:
  assumes "\<And>l r. P l \<Longrightarrow> Q (snd r) (l @ [(file_cmd f, r)])"
  shows "ensures P (file_err fs f) Q"
  unfolding file_err_def
proof (rule ensures_bind[OF ensures_fileOp[where Q = "\<lambda>r l. Q (case r of Inl e \<Rightarrow> Some e | Inr _ \<Rightarrow> None) l"]])
  fix l and r :: "go_error + string"
  assume "P l"
  from assms[OF this, of "case r of Inl e \<Rightarrow> ([], Some e) | Inr s \<Rightarrow> (s, None)"]
  show "Q (case r of Inl e \<Rightarrow> Some e | Inr _ \<Rightarrow> None) (l @ [(file_cmd f, case r of Inl e \<Rightarrow> ([], Some e) | Inr s \<Rightarrow> (s, None))])"
    by (cases r) simp_all
qed (rule ensures_return)


section \<open>Exact traces\<close>

text \<open>\<open>traces m T\<close>: \<open>m\<close> only appends to the log, and the value and the entries it appends satisfy
  \<open>T\<close>.\<close>

definition traces :: "('h, 'a) prog \<Rightarrow> ('a \<Rightarrow> log \<Rightarrow> bool) \<Rightarrow> bool" where
  "traces m T \<longleftrightarrow> (\<forall>l0. ensures (\<lambda>l. l = l0) m (\<lambda>x l. \<exists>l1. l = l0 @ l1 \<and> T x l1))"

lemma traces_return: "traces (ret x) (\<lambda>y l. y = x \<and> l = [])"
  by (simp add: traces_def ensures_return)

lemma traces_weaken: "traces m T \<Longrightarrow> (\<And>x l. T x l \<Longrightarrow> U x l) \<Longrightarrow> traces m U"
  unfolding traces_def by (blast intro: ensures_weaken)

lemma traces_bind:
  assumes "traces m T" and "\<And>x. traces (f x) (U x)"
  shows "traces (State_Monad.bind m f) (\<lambda>y l. \<exists>x l1 l2. l = l1 @ l2 \<and> T x l1 \<and> U x y l2)"
  unfolding traces_def
proof (intro allI ensures_bind[OF assms(1)[unfolded traces_def, rule_format]])
  fix l0 x
  show "ensures (\<lambda>l. \<exists>l1. l = l0 @ l1 \<and> T x l1) (f x) (\<lambda>y l. \<exists>l'. l = l0 @ l' \<and> (\<exists>x l1 l2. l' = l1 @ l2 \<and> T x l1 \<and> U x y l2))"
    unfolding ensures_def
  proof (intro allI impI, elim exE conjE)
    fix h l l1
    assume l: "l = l0 @ l1" "T x l1"
    have "ensures (\<lambda>k. k = l) (f x) (\<lambda>y k. \<exists>l2. k = l @ l2 \<and> U x y l2)"
      using assms(2)[of x] unfolding traces_def by blast
    then show "case run_state (f x) (h, l) of (y, h', k) \<Rightarrow> \<exists>l'. k = l0 @ l' \<and> (\<exists>x l1 l2. l' = l1 @ l2 \<and> T x l1 \<and> U x y l2)"
      using l unfolding ensures_def by (fastforce split: prod.splits)
  qed
qed

lemma traces_Run: "traces (Run os name args) (\<lambda>r l. l = [(plain name args, r)])"
  unfolding traces_def by (simp add: ensures_Run)

lemma traces_run_err: "traces (run_err os name args) (\<lambda>e l. \<exists>r. l = [(plain name args, r)] \<and> e = snd r)"
  unfolding traces_def by (auto intro: ensures_run_err)

lemma traces_file_err: "traces (file_err fs f) (\<lambda>e l. \<exists>r. l = [(file_cmd f, r)] \<and> e = snd r)"
  unfolding traces_def by (auto intro: ensures_file_err)

lemma traces_fileOp:
  "traces (fileOp fs f) (\<lambda>r l. l = [(file_cmd f, (case r of Inl e \<Rightarrow> ('''', Some e) | Inr s \<Rightarrow> (s, None)))])"
  unfolding traces_def by (auto intro: ensures_fileOp)

lemma traces_run:
  assumes "traces m T"
  shows "T (value_of m h) (log_of m h)"
  using ensures_run[OF assms[unfolded traces_def, THEN spec[of _ "[]"]], of h] by simp

lemma traces_if:
  "traces m T \<Longrightarrow> traces n U \<Longrightarrow> traces (if b then m else n) (\<lambda>x l. if b then T x l else U x l)"
  by simp


section \<open>Justified logs with a lasting fact\<close>

text \<open>A fact about a log that later entries cannot undo.\<close>

definition log_stable :: "(log \<Rightarrow> bool) \<Rightarrow> bool" where
  "log_stable S \<longleftrightarrow> (\<forall>l e. S l \<longrightarrow> S (l @ [e]))"

text \<open>A command that succeeded.\<close>

definition ran_ok :: "log \<Rightarrow> string \<Rightarrow> string list \<Rightarrow> bool" where
  "ran_ok l name args \<longleftrightarrow> (\<exists>out. (plain name args, (out, None)) \<in> set l)"

lemma ran_okI: "(plain name args, r) \<in> set l \<Longrightarrow> snd r = None \<Longrightarrow> ran_ok l name args"
  by (cases r) (auto simp: ran_ok_def)

named_theorems log_stable_intro \<open>rules for \<open>log_stable\<close>\<close>

lemma log_stable_ran_ok [log_stable_intro]: "log_stable (\<lambda>l. ran_ok l name args)"
  unfolding log_stable_def ran_ok_def set_append by blast

lemma log_stable_conj [log_stable_intro]: "log_stable S \<Longrightarrow> log_stable T \<Longrightarrow> log_stable (\<lambda>l. S l \<and> T l)"
  unfolding log_stable_def by blast

lemma log_stable_basic [log_stable_intro]:
  "log_stable (\<lambda>l. e \<in> set l)" "log_stable (\<lambda>l. b)"
  "log_stable T \<Longrightarrow> log_stable (\<lambda>l. b \<longrightarrow> T l)"
  "log_stable S \<Longrightarrow> log_stable T \<Longrightarrow> log_stable (\<lambda>l. S l \<or> T l)"
  "(\<And>x. log_stable (P x)) \<Longrightarrow> log_stable (\<lambda>l. \<forall>x \<in> X. P x l)"
  "(\<And>x. log_stable (P x)) \<Longrightarrow> log_stable (\<lambda>l. \<exists>x. P x l)"
  "(\<And>x. log_stable (P x)) \<Longrightarrow> log_stable (\<lambda>l. \<forall>x. P x l)"
  unfolding log_stable_def set_append by blast+

text \<open>The invariant of a walk: the log is justified and \<open>S\<close> holds.\<close>

definition jinv :: "(log \<Rightarrow> cmd \<Rightarrow> bool) \<Rightarrow> (log \<Rightarrow> bool) \<Rightarrow> log \<Rightarrow> bool" where
  "jinv J S l \<longleftrightarrow> justified J l \<and> S l"

lemma jinv_snoc:
  assumes "log_stable S" and "jinv J S l" and "J l c"
  shows "jinv J S (l @ [(c, r)])"
  using assms unfolding jinv_def log_stable_def justified_snoc fst_conv by blast

lemma jinv_conj: "jinv J (\<lambda>l. S l \<and> T l) l \<longleftrightarrow> jinv J S l \<and> T l"
  by (auto simp: jinv_def)

lemma jinv_Run:
  assumes st: "log_stable S" and ok: "\<And>l. jinv J S l \<Longrightarrow> J l (plain name args)"
  shows "ensures (jinv J S) (Run os name args) (\<lambda>r. jinv J (\<lambda>l. S l \<and> (plain name args, r) \<in> set l))"
  by (rule ensures_Run) (simp add: jinv_conj jinv_snoc[of S J, OF st _ ok])

lemma jinv_run_err:
  assumes st: "log_stable S" and ok: "\<And>l. jinv J S l \<Longrightarrow> J l (plain name args)"
  shows "ensures (jinv J S) (run_err os name args) (\<lambda>e l. jinv J S l \<and> (e = None \<longrightarrow> ran_ok l name args))"
  unfolding run_err_def
  by (rule ensures_bind[OF jinv_Run[of S J, OF st ok]], assumption, rule ensures_return) (auto simp: jinv_conj intro: ran_okI)

text \<open>After a step whose success adds a fact to the log, the rest may rely on the fact.\<close>

lemma jinv_andThen:
  assumes "ensures (jinv J S) m (\<lambda>e l. jinv J S l \<and> (e = None \<longrightarrow> T l))"
    and "ensures (jinv J (\<lambda>l. S l \<and> T l)) k (\<lambda>e l. jinv J (\<lambda>l. S l \<and> T l) l \<and> (e = None \<longrightarrow> U l))"
  shows "ensures (jinv J S) (andThen m k) (\<lambda>e l. jinv J S l \<and> (e = None \<longrightarrow> T l \<and> U l))"
  by (rule ensures_andThen[OF ensures_weaken[OF assms(1)] ensures_weaken[OF assms(2)]])
     (auto simp: jinv_conj)


lemma ensures_keeps_traces:
  assumes "keeps I m" and "traces m T"
  shows "ensures I m (\<lambda>x l. I l \<and> (\<exists>pre post. l = pre @ post \<and> T x post))"
  unfolding ensures_def
proof (intro allI impI)
  fix h l assume "I l"
  with assms(1) have "case run_state m (h, l) of (x, (h', l')) \<Rightarrow> I l'" by (simp add: keeps_def ensures_def)
  moreover have "case run_state m (h, l) of (x, (h', l')) \<Rightarrow> \<exists>l1. l' = l @ l1 \<and> T x l1"
    using spec[OF assms(2)[unfolded traces_def], of l] unfolding ensures_def by simp
  ultimately show "case run_state m (h, l) of (x, (h', l')) \<Rightarrow> I l' \<and> (\<exists>pre post. l' = pre @ post \<and> T x post)"
    by (auto split: prod.splits)
qed

lemma traces_andThen:
  assumes "traces m T" and "traces k U"
  shows "traces (andThen m k) (\<lambda>e l. e \<noteq> None \<and> T e l \<or> (\<exists>l1 l2. l = l1 @ l2 \<and> T None l1 \<and> U e l2))"
  unfolding andThen_def
proof (rule traces_weaken[OF traces_bind[OF assms(1) traces_if[OF traces_return assms(2)]]], elim exE conjE)
  fix e l x l1 l2
  assume "l = l1 @ l2" "T x l1" "if x \<noteq> None then e = x \<and> l2 = [] else U e l2"
  then show "e \<noteq> None \<and> T e l \<or> (\<exists>l1 l2. l = l1 @ l2 \<and> T None l1 \<and> U e l2)"
    by (cases "x = None") auto
qed


lemma ensures_then_traces:
  assumes "ensures P m (\<lambda>e l. I l \<and> (e = None \<longrightarrow> R l))" and "traces k T"
    and "\<And>l1 l2 e. R l1 \<Longrightarrow> T e l2 \<Longrightarrow> e = None \<Longrightarrow> Q (l1 @ l2)"
  shows "ensures P (andThen m k) (\<lambda>e l. e = None \<longrightarrow> Q l)"
proof (rule ensures_andThen[OF ensures_weaken[OF assms(1)]])
  show "ensures R k (\<lambda>e l. e = None \<longrightarrow> Q l)"
    unfolding ensures_def
  proof (intro allI impI)
    fix h l assume "R l"
    from assms(2) have "case run_state k (h, l) of (e, (h', l')) \<Rightarrow> \<exists>l1. l' = l @ l1 \<and> T e l1"
      unfolding traces_def ensures_def by simp
    then show "case run_state k (h, l) of (e, (h', l')) \<Rightarrow> e = None \<longrightarrow> Q l'"
      using assms(3)[OF \<open>R l\<close>] by (auto split: prod.splits)
  qed
qed auto

end
