(* ===== verification/Lio.thy ===== *)
theory Lio
  imports Host Api_Types
begin

text \<open>
  iSCSI exports on a node, \<open>internal/agent/lio.go\<close>: the targetcli walk that converges a target, the
  revocations, the teardown and the virtual IP with its on-disk record. \<open>fs\<close> is the file system,
  \<open>rt\<close> the manager's path prefix.
\<close>

abbreviation vipRecordDir :: string where
  "vipRecordDir \<equiv> ''/var/lib/stornas/vips''"

record ChapCred =
  ccUser :: string
  ccPassword :: string

definition backstore :: "string \<Rightarrow> int \<Rightarrow> string" where
  "backstore target i = ''stornas-'' @ target @ ''-lun'' @ itoa i"

definition iqnFor :: "string \<Rightarrow> string" where
  "iqnFor name = IQNPrefix @ name"

text \<open>A create, tolerating the object-exists replies.\<close>

definition lio_ensure :: "'h os \<Rightarrow> string list \<Rightarrow> ('h, go_error option) prog" where
  "lio_ensure os args = do {
     r \<leftarrow> Run os ''targetcli'' args;
     ret (case snd r of
            None \<Rightarrow> None
          | Some e \<Rightarrow>
            let msg = eText e @ fst r in
            if \<not> strContains msg ''not exist'' \<and> strContains msg ''exists'' then None else Some e) }"

text \<open>A delete; failures are only printed.\<close>

definition lio_remove :: "'h os \<Rightarrow> string list \<Rightarrow> ('h, unit) prog" where
  "lio_remove os args = do { _ \<leftarrow> Run os ''targetcli'' args; ret () }"

definition tpg :: "string \<Rightarrow> string" where
  "tpg iqn = ''/iscsi/'' @ iqn @ ''/tpg1''"

fun lun_loop :: "'h os \<Rightarrow> string \<Rightarrow> string \<Rightarrow> LUNStatus list \<Rightarrow> ('h, go_error option) prog" where
  "lun_loop os iqn name [] = ret None"
| "lun_loop os iqn name (lun # luns) =
     (let bs = backstore name (lsID lun) in
      andThen (lio_ensure os [''/backstores/block'', ''create'', ''name='' @ bs, ''dev='' @ lsDevice lun])
        (andThen (lio_ensure os [tpg iqn @ ''/luns'', ''create'', ''/backstores/block/'' @ bs])
          (lun_loop os iqn name luns)))"

text \<open>The initiator loop: the error, \<open>auth\<close>, and the IQNs granted an ACL.\<close>

fun ini_loop :: "'h os \<Rightarrow> string \<Rightarrow> (string \<rightharpoonup> ChapCred) \<Rightarrow> Initiator list \<Rightarrow> string \<Rightarrow> string list \<Rightarrow>
    ('h, go_error option \<times> string \<times> string list) prog" where
  "ini_loop os iqn chap [] auth granted = ret (None, auth, granted)"
| "ini_loop os iqn chap (ini # inis) auth granted =
     (let auth' = (if iniChapSecretRef ini \<noteq> '''' then ''1'' else auth) in
      if iniChapSecretRef ini \<noteq> '''' \<and> chap (iniIQN ini) = None then ini_loop os iqn chap inis auth' granted
      else do {
        e \<leftarrow> lio_ensure os [tpg iqn @ ''/acls'', ''create'', iniIQN ini];
        if e \<noteq> None then ret (e, auth', granted)
        else
          (case chap (iniIQN ini) of
             None \<Rightarrow> ini_loop os iqn chap inis auth' (granted @ [iniIQN ini])
           | Some cred \<Rightarrow> do {
               r \<leftarrow> Run os ''targetcli'' [tpg iqn @ ''/acls/'' @ iniIQN ini, ''set'', ''auth'',
                      ''userid='' @ ccUser cred, ''password='' @ ccPassword cred];
               case snd r of
                 Some err \<Rightarrow> ret (Some (errorf (replaceAll (eText err) (ccPassword cred) ''<redacted>'')),
                                  auth', granted @ [iniIQN ini])
               | None \<Rightarrow> ini_loop os iqn chap inis auth' (granted @ [iniIQN ini]) }) })"

fun acl_loop :: "'h os \<Rightarrow> string \<Rightarrow> string list \<Rightarrow> string list \<Rightarrow> ('h, go_error option) prog" where
  "acl_loop os acls granted [] = ret None"
| "acl_loop os acls granted (f # fs) =
     (if \<not> hasPrefix f ''iqn.'' \<or> f \<in> set granted then acl_loop os acls granted fs
      else do {
        r \<leftarrow> Run os ''targetcli'' [acls, ''delete'', f];
        case snd r of
          Some e \<Rightarrow> if \<not> strContains (eText e @ fst r) ''No such'' then ret (Some e) else acl_loop os acls granted fs
        | None \<Rightarrow> acl_loop os acls granted fs })"

definition pruneACLs :: "'h os \<Rightarrow> Target \<Rightarrow> string list \<Rightarrow> ('h, go_error option) prog" where
  "pruneACLs os t granted =
     (let acls = tpg (ttIQN (tStatus t)) @ ''/acls'' in
      do {
        r \<leftarrow> Run os ''targetcli'' [''ls'', acls, ''1''];
        if snd r \<noteq> None then ret (snd r) else acl_loop os acls granted (strFields (fst r)) })"

fun lun_fields :: "string list \<Rightarrow> string \<times> string \<Rightarrow> string \<times> string" where
  "lun_fields [] acc = acc"
| "lun_fields (f # fs) (lun, bs) =
     (let lun' = (if lun = '''' \<and> f \<noteq> ''luns'' \<and> hasPrefix f ''lun'' then f else lun);
          bs' = (case indexOf f ''block/'' of None \<Rightarrow> bs | Some i \<Rightarrow> drop (i + length ''block/'') f) in
      lun_fields fs (lun', bs'))"

definition parseLUNLine :: "string \<Rightarrow> string \<times> string" where
  "parseLUNLine line = lun_fields (strFields line) ('''', '''')"

fun prune_lines :: "'h os \<Rightarrow> Target \<Rightarrow> string list \<Rightarrow> ('h, unit) prog" where
  "prune_lines os t [] = ret ()"
| "prune_lines os t (line # lines) =
     (case parseLUNLine line of (lun, bs) \<Rightarrow>
        if lun = '''' \<or> \<not> hasPrefix bs (''stornas-'' @ omName (tMeta t) @ ''-lun'') \<or>
           list_ex (\<lambda>l. backstore (omName (tMeta t)) (lsID l) = bs) (ttLUNs (tStatus t))
        then prune_lines os t lines
        else do {
          _ \<leftarrow> lio_remove os [tpg (ttIQN (tStatus t)) @ ''/luns'', ''delete'', lun];
          _ \<leftarrow> lio_remove os [''/backstores/block'', ''delete'', bs];
          prune_lines os t lines })"

definition pruneLUNs :: "'h os \<Rightarrow> Target \<Rightarrow> ('h, unit) prog" where
  "pruneLUNs os t = do {
     r \<leftarrow> Run os ''targetcli'' [''ls'', tpg (ttIQN (tStatus t)) @ ''/luns'', ''1''];
     if snd r \<noteq> None then ret () else prune_lines os t (splitNL (fst r)) }"

section \<open>The virtual IP\<close>

definition vip_addr :: "string \<Rightarrow> string" where
  "vip_addr vip = fst (cut vip ''/'')"

definition vipHolders :: "'h os \<Rightarrow> golib \<Rightarrow> string \<Rightarrow> ('h, string list) prog" where
  "vipHolders os lib vip = do {
     r \<leftarrow> Run os ''ip'' [''-j'', ''addr'', ''show'', ''to'', vip_addr vip];
     ret (if snd r \<noteq> None then []
          else (case UnmarshalLinks lib (fst r) of Inl _ \<Rightarrow> [] | Inr links \<Rightarrow> links)) }"

fun drop_devs :: "'h os \<Rightarrow> string \<Rightarrow> string list \<Rightarrow> ('h, unit) prog" where
  "drop_devs os vip [] = ret ()"
| "drop_devs os vip (dev # devs) = do {
     _ \<leftarrow> Run os ''ip'' [''addr'', ''del'', vip, ''dev'', dev];
     drop_devs os vip devs }"

definition dropVIP :: "'h os \<Rightarrow> golib \<Rightarrow> string \<Rightarrow> ('h, unit) prog" where
  "dropVIP os lib vip = do { devs \<leftarrow> vipHolders os lib vip; drop_devs os vip devs }"

definition vipRecord :: "string \<Rightarrow> string \<Rightarrow> string" where
  "vipRecord rt name = pathJoin (rt @ vipRecordDir) name"

definition releaseVIP :: "'h os \<Rightarrow> 'h fs \<Rightarrow> golib \<Rightarrow> string \<Rightarrow> string \<Rightarrow> ('h, unit) prog" where
  "releaseVIP os fs lib rt name = do {
     b \<leftarrow> fileOp fs (ReadFile (vipRecord rt name));
     case b of
       Inl _ \<Rightarrow> ret ()
     | Inr s \<Rightarrow> do {
         _ \<leftarrow> dropVIP os lib (trimSpace s);
         _ \<leftarrow> fileOp fs (RemoveFile (vipRecord rt name));
         ret () } }"

definition ensureVIP :: "'h os \<Rightarrow> 'h fs \<Rightarrow> golib \<Rightarrow> string \<Rightarrow> string \<Rightarrow> string \<Rightarrow> ('h, go_error option) prog" where
  "ensureVIP os fs lib rt name vip = do {
     r \<leftarrow> Run os ''ip'' [''-j'', ''route'', ''show'', ''default''];
     if snd r \<noteq> None then ret (snd r)
     else
       (case UnmarshalRoutes lib (fst r) of
          Inl _ \<Rightarrow> ret (Some (errorf (''no default route to place VIP '' @ vip @ '' on'')))
        | Inr [] \<Rightarrow> ret (Some (errorf (''no default route to place VIP '' @ vip @ '' on'')))
        | Inr (dev # _) \<Rightarrow> do {
            holders \<leftarrow> vipHolders os lib vip;
            e \<leftarrow> file_err fs (MkdirAll (rt @ vipRecordDir));
            _ \<leftarrow> (if e \<noteq> None then ret None else file_err fs (WriteFile (vipRecord rt name) vip));
            a \<leftarrow> Run os ''ip'' [''addr'', ''replace'', vip, ''dev'', dev];
            if snd a \<noteq> None then ret (snd a)
            else do {
              _ \<leftarrow> (if holders = [] then Run os ''arping'' [''-U'', ''-c'', ''2'', ''-I'', dev, vip_addr vip] else ret ('''', None));
              ret None } }) }"

section \<open>Converging and tearing down\<close>

text \<open>The end of \<open>EnsureTarget\<close>: from \<open>pruneLUNs\<close> on, and from the TPG attributes on.\<close>

definition finish_export :: "'h os \<Rightarrow> 'h fs \<Rightarrow> golib \<Rightarrow> string \<Rightarrow> Target \<Rightarrow> ('h, go_error option) prog" where
  "finish_export os fs lib rt t = do {
     _ \<leftarrow> pruneLUNs os t;
     andThen (if tsVIP (tSpec t) \<noteq> '''' then ensureVIP os fs lib rt (omName (tMeta t)) (tsVIP (tSpec t)) else ret None)
       (run_err os ''targetcli'' [''saveconfig'']) }"

definition finish_target :: "'h os \<Rightarrow> 'h fs \<Rightarrow> golib \<Rightarrow> string \<Rightarrow> Target \<Rightarrow> string \<Rightarrow> string list \<Rightarrow> ('h, go_error option) prog" where
  "finish_target os fs lib rt t auth granted =
     andThen (run_err os ''targetcli'' [tpg (ttIQN (tStatus t)), ''set'', ''attribute'', ''authentication='' @ auth, ''generate_node_acls=0''])
       (andThen (pruneACLs os t granted) (finish_export os fs lib rt t))"

definition EnsureTarget :: "'h os \<Rightarrow> 'h fs \<Rightarrow> golib \<Rightarrow> string \<Rightarrow> Target \<Rightarrow> (string \<rightharpoonup> ChapCred) \<Rightarrow> ('h, go_error option) prog" where
  "EnsureTarget os fs lib rt t chap =
     (let iqn = ttIQN (tStatus t) in
      andThen (lio_ensure os [''/iscsi'', ''create'', iqn])
        (andThen (lun_loop os iqn (omName (tMeta t)) (ttLUNs (tStatus t)))
          (do {
             r \<leftarrow> ini_loop os iqn chap (tsInitiators (tSpec t)) ''0'' [];
             (case r of (e, auth, granted) \<Rightarrow>
                if e \<noteq> None then ret e else finish_target os fs lib rt t auth granted) })))"

fun bs_loop :: "'h os \<Rightarrow> string \<Rightarrow> string list \<Rightarrow> ('h, unit) prog" where
  "bs_loop os pre [] = ret ()"
| "bs_loop os pre (f # fs) =
     (if hasPrefix f pre then do { _ \<leftarrow> lio_remove os [''/backstores/block'', ''delete'', f]; bs_loop os pre fs }
      else bs_loop os pre fs)"

definition RemoveTarget :: "'h os \<Rightarrow> 'h fs \<Rightarrow> golib \<Rightarrow> string \<Rightarrow> string \<Rightarrow> ('h, unit) prog" where
  "RemoveTarget os fs lib rt name = do {
     _ \<leftarrow> lio_remove os [''/iscsi'', ''delete'', iqnFor name];
     r \<leftarrow> Run os ''targetcli'' [''ls'', ''/backstores/block'', ''1''];
     _ \<leftarrow> (if snd r = None then bs_loop os (''stornas-'' @ name @ ''-lun'') (strFields (fst r)) else ret ());
     _ \<leftarrow> Run os ''targetcli'' [''saveconfig''];
     releaseVIP os fs lib rt name }"

definition TeardownTarget :: "'h os \<Rightarrow> 'h fs \<Rightarrow> golib \<Rightarrow> string \<Rightarrow> string \<Rightarrow> string \<Rightarrow> ('h, unit) prog" where
  "TeardownTarget os fs lib rt name vip = do {
     r \<leftarrow> Run os ''targetcli'' [''ls'', ''/iscsi/'' @ iqnFor name, ''1''];
     _ \<leftarrow> (if snd r = None then RemoveTarget os fs lib rt name else ret ());
     _ \<leftarrow> (if vip \<noteq> '''' then dropVIP os lib vip else ret ());
     releaseVIP os fs lib rt name }"

section \<open>What converging a target may do\<close>

text \<open>An initiator of the spec may log in when it needs no secret or its credential is at hand.\<close>

definition grants :: "Target \<Rightarrow> (string \<rightharpoonup> ChapCred) \<Rightarrow> string \<Rightarrow> bool" where
  "grants t chap iqn \<longleftrightarrow>
     (\<exists>ini \<in> set (tsInitiators (tSpec t)). iniIQN ini = iqn \<and> (iniChapSecretRef ini = '''' \<or> chap iqn \<noteq> None))"

definition wants_chap :: "Target \<Rightarrow> bool" where
  "wants_chap t \<longleftrightarrow> (\<exists>ini \<in> set (tsInitiators (tSpec t)). iniChapSecretRef ini \<noteq> '''')"

definition lio_ok :: "string \<Rightarrow> Target \<Rightarrow> (string \<rightharpoonup> ChapCred) \<Rightarrow> log \<Rightarrow> cmd \<Rightarrow> bool" where
  "lio_ok rt t chap l c \<longleftrightarrow>
     (\<forall>x. c = plain ''targetcli'' [tpg (ttIQN (tStatus t)) @ ''/acls'', ''create'', x] \<longrightarrow> grants t chap x) \<and>
     (\<forall>a g. c = plain ''targetcli'' [tpg (ttIQN (tStatus t)), ''set'', ''attribute'', a, g] \<longrightarrow>
        a = ''authentication='' @ (if wants_chap t then ''1'' else ''0'') \<and> g = ''generate_node_acls=0'') \<and>
     (\<forall>b. c = plain ''targetcli'' [''/backstores/block'', ''delete'', b] \<longrightarrow>
        hasPrefix b (''stornas-'' @ omName (tMeta t) @ ''-lun'') \<and>
        \<not> (\<exists>lun \<in> set (ttLUNs (tStatus t)). backstore (omName (tMeta t)) (lsID lun) = b)) \<and>
     (\<forall>v dev. c = plain ''ip'' [''addr'', ''replace'', v, ''dev'', dev] \<longrightarrow>
        v = tsVIP (tSpec t) \<and> l \<noteq> [] \<and>
        (fst (last l) = file_cmd (WriteFile (vipRecord rt (omName (tMeta t))) v) \<or>
         fst (last l) = file_cmd (MkdirAll (rt @ vipRecordDir)) \<and> snd (snd (last l)) \<noteq> None))"

abbreviation lio_inv :: "string \<Rightarrow> Target \<Rightarrow> (string \<rightharpoonup> ChapCred) \<Rightarrow> (log \<Rightarrow> bool) \<Rightarrow> log \<Rightarrow> bool" where
  "lio_inv rt t chap \<equiv> jinv (lio_ok rt t chap)"

lemma tpg_neq [simp]: "tpg iqn @ s \<noteq> ''/backstores/block''" "''/backstores/block'' \<noteq> tpg iqn @ s" "tpg iqn \<noteq> ''/backstores/block''"
  "''/backstores/block'' \<noteq> tpg iqn" "tpg iqn \<noteq> tpg iqn @ CHR ''/'' # s"
  by (simp_all add: tpg_def)

text \<open>What a log shows: a create that succeeded or found the object, a
  deleted ACL that is gone.\<close>

definition did :: "log \<Rightarrow> string list \<Rightarrow> bool" where
  "did l args \<longleftrightarrow> (\<exists>out e. (plain ''targetcli'' args, (out, e)) \<in> set l \<and>
     (\<forall>err. e = Some err \<longrightarrow> \<not> strContains (eText err @ out) ''not exist'' \<and> strContains (eText err @ out) ''exists''))"

definition gone :: "log \<Rightarrow> string list \<Rightarrow> bool" where
  "gone l args \<longleftrightarrow> (\<exists>out e. (plain ''targetcli'' args, (out, e)) \<in> set l \<and>
     (\<forall>err. e = Some err \<longrightarrow> strContains (eText err @ out) ''No such''))"

lemma log_stable_targetcli: "log_stable (\<lambda>l. did l args)" "log_stable (\<lambda>l. gone l args)"
  unfolding log_stable_def did_def gone_def set_append by blast+

lemmas log_stable_rules = log_stable_intro log_stable_targetcli

lemma didI:
  "(plain ''targetcli'' args, r) \<in> set l \<Longrightarrow>
   (\<And>e. snd r = Some e \<Longrightarrow> \<not> strContains (eText e @ fst r) ''not exist'' \<and> strContains (eText e @ fst r) ''exists'') \<Longrightarrow>
   did l args"
  by (cases r) (auto simp: did_def)

lemma goneI:
  "(plain ''targetcli'' args, r) \<in> set l \<Longrightarrow> (\<And>e. snd r = Some e \<Longrightarrow> strContains (eText e @ fst r) ''No such'') \<Longrightarrow> gone l args"
  by (cases r) (auto simp: gone_def)

lemma lio_ensure_did:
  assumes st: "log_stable S" and ok: "\<And>l. lio_ok rt t chap l (plain ''targetcli'' args)"
  shows "ensures (lio_inv rt t chap S) (lio_ensure os args) (\<lambda>e l. lio_inv rt t chap S l \<and> (e = None \<longrightarrow> did l args))"
  unfolding lio_ensure_def
  by (rule ensures_bind[OF jinv_Run[of S "lio_ok rt t chap", OF st ok]], rule ensures_return)
     (auto simp: jinv_conj Let_def split: option.splits if_splits intro: didI)

text \<open>The LUN loop ends without an error only when every backstore and every LUN is there.\<close>

definition lun_done :: "log \<Rightarrow> Target \<Rightarrow> LUNStatus \<Rightarrow> bool" where
  "lun_done l t lun \<longleftrightarrow>
     did l [''/backstores/block'', ''create'', ''name='' @ backstore (omName (tMeta t)) (lsID lun), ''dev='' @ lsDevice lun] \<and>
     did l [tpg (ttIQN (tStatus t)) @ ''/luns'', ''create'', ''/backstores/block/'' @ backstore (omName (tMeta t)) (lsID lun)]"

lemma log_stable_lun_done: "log_stable (\<lambda>l. lun_done l t lun)"
  unfolding lun_done_def by (intro log_stable_rules)

lemma lio_lun_loop:
  assumes "log_stable S"
  shows "ensures (lio_inv rt t chap S) (lun_loop os (ttIQN (tStatus t)) (omName (tMeta t)) luns)
    (\<lambda>e l. lio_inv rt t chap S l \<and> (e = None \<longrightarrow> (\<forall>lun \<in> set luns. lun_done l t lun)))"
  using assms
proof (induction luns arbitrary: S)
  case (Cons lun luns)
  note st = log_stable_conj[OF Cons.prems log_stable_targetcli(1)]
  have "ensures (lio_inv rt t chap S) (lun_loop os (ttIQN (tStatus t)) (omName (tMeta t)) (lun # luns))
    (\<lambda>e l. lio_inv rt t chap S l \<and> (e = None \<longrightarrow>
       did l [''/backstores/block'', ''create'', ''name='' @ backstore (omName (tMeta t)) (lsID lun), ''dev='' @ lsDevice lun] \<and>
       did l [tpg (ttIQN (tStatus t)) @ ''/luns'', ''create'', ''/backstores/block/'' @ backstore (omName (tMeta t)) (lsID lun)] \<and>
       (\<forall>lun \<in> set luns. lun_done l t lun)))"
    unfolding lun_loop.simps Let_def
    by (intro jinv_andThen lio_ensure_did Cons.IH log_stable_conj[OF _ log_stable_targetcli(1)] Cons.prems)
       (simp_all add: lio_ok_def)
  then show ?case by (simp add: lun_done_def)
qed (simp add: ensures_return)


text \<open>The initiator loop, from what it has collected so far: it ends without an error only when every
  initiator that may log in has its ACL and its CHAP pair.\<close>

definition may_login :: "(string \<rightharpoonup> ChapCred) \<Rightarrow> Initiator \<Rightarrow> bool" where
  "may_login chap ini \<longleftrightarrow> iniChapSecretRef ini = '''' \<or> chap (iniIQN ini) \<noteq> None"

definition ini_done :: "log \<Rightarrow> Target \<Rightarrow> (string \<rightharpoonup> ChapCred) \<Rightarrow> Initiator \<Rightarrow> bool" where
  "ini_done l t chap ini \<longleftrightarrow>
     did l [tpg (ttIQN (tStatus t)) @ ''/acls'', ''create'', iniIQN ini] \<and>
     (\<forall>cred. chap (iniIQN ini) = Some cred \<longrightarrow>
        ran_ok l ''targetcli'' [tpg (ttIQN (tStatus t)) @ ''/acls/'' @ iniIQN ini, ''set'', ''auth'',
          ''userid='' @ ccUser cred, ''password='' @ ccPassword cred])"

definition ini_post :: "Target \<Rightarrow> (string \<rightharpoonup> ChapCred) \<Rightarrow> Initiator list \<Rightarrow> string \<Rightarrow> string list \<Rightarrow>
    go_error option \<times> string \<times> string list \<Rightarrow> log \<Rightarrow> bool" where
  "ini_post t chap inis auth granted r l \<longleftrightarrow> fst r = None \<longrightarrow>
     fst (snd r) = (if \<exists>ini \<in> set inis. iniChapSecretRef ini \<noteq> '''' then ''1'' else auth) \<and>
     set (snd (snd r)) = set granted \<union> iniIQN ` {ini \<in> set inis. may_login chap ini} \<and>
     (\<forall>ini \<in> set inis. may_login chap ini \<longrightarrow> ini_done l t chap ini)"

lemma log_stable_ini_done: "log_stable (\<lambda>l. ini_done l t chap ini)"
  unfolding ini_done_def by (intro log_stable_rules)

lemma ini_post_Cons:
  "ini_post t chap inis (if iniChapSecretRef ini \<noteq> '''' then ''1'' else auth)
     (if may_login chap ini then granted @ [iniIQN ini] else granted) r l \<Longrightarrow>
   (may_login chap ini \<Longrightarrow> ini_done l t chap ini) \<Longrightarrow> ini_post t chap (ini # inis) auth granted r l"
  unfolding ini_post_def by (cases "may_login chap ini") (auto split: if_splits)

lemma lio_ini_loop:
  assumes "log_stable S" and "set inis \<subseteq> set (tsInitiators (tSpec t))"
  shows "ensures (lio_inv rt t chap S) (ini_loop os (ttIQN (tStatus t)) chap inis auth granted)
    (\<lambda>r l. lio_inv rt t chap S l \<and> ini_post t chap inis auth granted r l)"
  using assms
proof (induction inis arbitrary: S auth granted)
  case Nil
  then show ?case by (simp add: ensures_return ini_post_def)
next
  case (Cons ini inis)
  let ?I = "lio_inv rt t chap" and ?auth = "if iniChapSecretRef ini \<noteq> '''' then ''1'' else auth"
  let ?acl = "[tpg (ttIQN (tStatus t)) @ ''/acls'', ''create'', iniIQN ini]"
  let ?pair = "\<lambda>cred. [tpg (ttIQN (tStatus t)) @ ''/acls/'' @ iniIQN ini, ''set'', ''auth'', ''userid='' @ ccUser cred, ''password='' @ ccPassword cred]"
  let ?Q = "\<lambda>r l. ?I S l \<and> ini_post t chap (ini # inis) auth granted r l"
  show ?case
  proof (cases "may_login chap ini")
    case False
    have "ensures (?I S) (ini_loop os (ttIQN (tStatus t)) chap inis ?auth granted) ?Q"
      by (rule ensures_weaken[OF Cons.IH[of S]])
         (use False Cons.prems in \<open>auto intro: ini_post_Cons simp del: if_split\<close>)
    with False show ?thesis unfolding ini_loop.simps Let_def by (simp add: may_login_def)
  next
    case True
    then have nskip: "\<not> (iniChapSecretRef ini \<noteq> '''' \<and> chap (iniIQN ini) = None)" by (auto simp: may_login_def)
    have g: "grants t chap (iniIQN ini)" using True Cons.prems(2) by (auto simp: may_login_def grants_def)
    let ?S1 = "\<lambda>l. S l \<and> did l ?acl"
    have st1: "log_stable ?S1" by (intro log_stable_rules Cons.prems)
    have acl: "ensures (?I S) (lio_ensure os ?acl) (\<lambda>e l. ?I S l \<and> (e = None \<longrightarrow> did l ?acl))"
      by (rule lio_ensure_did[OF Cons.prems(1)]) (use g in \<open>simp add: lio_ok_def\<close>)
    have pair: "ensures (?I ?S1) (Run os ''targetcli'' (?pair c)) (\<lambda>r. ?I (\<lambda>l. ?S1 l \<and> (plain ''targetcli'' (?pair c), r) \<in> set l))" for c
      by (rule jinv_Run[OF st1]) (simp add: lio_ok_def)
    have rest: "ensures (?I T) (ini_loop os (ttIQN (tStatus t)) chap inis ?auth (granted @ [iniIQN ini])) ?Q"
      if "log_stable T" "\<And>l. T l \<Longrightarrow> S l \<and> ini_done l t chap ini" for T
      by (rule ensures_weaken[OF Cons.IH[of T]])
         (use that Cons.prems True in \<open>auto simp: jinv_def intro!: ini_post_Cons\<close>)
    have none: "ensures (?I ?S1) (ini_loop os (ttIQN (tStatus t)) chap inis ?auth (granted @ [iniIQN ini])) ?Q" if "chap (iniIQN ini) = None"
      by (rule rest[OF st1]) (simp add: ini_done_def that)
    have some: "ensures (?I (\<lambda>l. ?S1 l \<and> (plain ''targetcli'' (?pair c), r) \<in> set l))
        (ini_loop os (ttIQN (tStatus t)) chap inis ?auth (granted @ [iniIQN ini])) ?Q"
      if "chap (iniIQN ini) = Some c" "snd r = None" for c r
      by (rule rest) (intro log_stable_rules Cons.prems, use that in \<open>auto simp: ini_done_def intro: ran_okI\<close>)
    show ?thesis
      unfolding ini_loop.simps Let_def if_not_P[OF nskip]
    proof (rule ensures_bind[OF acl], rule ensures_if, rule ensures_return, force simp: ini_post_def,
           rule ensures_weaken[where P = "?I ?S1" and Q = ?Q], rule ensures_case_option)
      fix cred assume "chap (iniIQN ini) = Some cred"
      then show "ensures (?I ?S1) (do {
          r \<leftarrow> Run os ''targetcli'' (?pair cred);
          case snd r of
            Some err \<Rightarrow> ret (Some (errorf (replaceAll (eText err) (ccPassword cred) ''<redacted>'')), ?auth, granted @ [iniIQN ini])
          | None \<Rightarrow> ini_loop os (ttIQN (tStatus t)) chap inis ?auth (granted @ [iniIQN ini]) }) ?Q"
        by (intro ensures_bind[OF pair] ensures_case_option some ensures_return) (auto simp: jinv_conj ini_post_def)
    qed (rule none, assumption, auto simp: jinv_conj)
  qed
qed


text \<open>Revocation: a pass over the listed ACLs without an error leaves none outside \<open>granted\<close>.\<close>

lemma lio_acl_loop:
  assumes "log_stable S"
  shows "ensures (lio_inv rt t chap S) (acl_loop os (tpg iqn @ ''/acls'') granted fs)
    (\<lambda>e l. lio_inv rt t chap S l \<and> (e = None \<longrightarrow>
       (\<forall>f \<in> set fs. hasPrefix f ''iqn.'' \<and> f \<notin> set granted \<longrightarrow> gone l [tpg iqn @ ''/acls'', ''delete'', f])))"
  using assms
proof (induction fs arbitrary: S)
  case (Cons f fs)
  let ?I = "lio_inv rt t chap" and ?del = "[tpg iqn @ ''/acls'', ''delete'', f]"
  let ?Q = "\<lambda>e l. ?I S l \<and> (e = None \<longrightarrow>
       (\<forall>f \<in> set (f # fs). hasPrefix f ''iqn.'' \<and> f \<notin> set granted \<longrightarrow> gone l [tpg iqn @ ''/acls'', ''delete'', f]))"
  have del: "ensures (?I S) (Run os ''targetcli'' ?del) (\<lambda>r. ?I (\<lambda>l. S l \<and> (plain ''targetcli'' ?del, r) \<in> set l))"
    by (rule jinv_Run[OF Cons.prems]) (simp add: lio_ok_def)
  have rest: "ensures (?I (\<lambda>l. S l \<and> (plain ''targetcli'' ?del, r) \<in> set l)) (acl_loop os (tpg iqn @ ''/acls'') granted fs) ?Q"
    if "\<And>e. snd r = Some e \<Longrightarrow> strContains (eText e @ fst r) ''No such''" for r
    by (rule ensures_weaken[OF Cons.IH[of "\<lambda>l. S l \<and> (plain ''targetcli'' ?del, r) \<in> set l"]])
       (intro log_stable_rules Cons.prems, use that in \<open>auto simp: jinv_conj intro: goneI\<close>)
  show ?case
  proof (cases "\<not> hasPrefix f ''iqn.'' \<or> f \<in> set granted")
    case True
    have "ensures (?I S) (acl_loop os (tpg iqn @ ''/acls'') granted fs) ?Q"
      by (rule ensures_weaken[OF Cons.IH[OF Cons.prems]]) (use True in auto)
    with True show ?thesis by simp
  next
    case False
    show ?thesis
      unfolding acl_loop.simps if_not_P[OF False]
      by (intro ensures_bind[OF del] ensures_case_option ensures_if rest ensures_return) (auto simp: jinv_conj)
  qed
qed (simp add: ensures_return)

definition acls_pruned :: "Target \<Rightarrow> (string \<Rightarrow> bool) \<Rightarrow> log \<Rightarrow> bool" where
  "acls_pruned t ok l \<longleftrightarrow>
     (\<exists>out. (plain ''targetcli'' [''ls'', tpg (ttIQN (tStatus t)) @ ''/acls'', ''1''], (out, None)) \<in> set l \<and>
        (\<forall>f \<in> set (strFields out). hasPrefix f ''iqn.'' \<and> \<not> ok f \<longrightarrow>
           gone l [tpg (ttIQN (tStatus t)) @ ''/acls'', ''delete'', f]))"

lemma log_stable_acls_pruned: "log_stable (acls_pruned t ok)"
  unfolding acls_pruned_def[abs_def] by (intro log_stable_rules)

lemma lio_pruneACLs:
  assumes "log_stable S"
  shows "ensures (lio_inv rt t chap S) (pruneACLs os t granted)
    (\<lambda>e l. lio_inv rt t chap S l \<and> (e = None \<longrightarrow> acls_pruned t (\<lambda>f. f \<in> set granted) l))"
proof -
  let ?ls = "[''ls'', tpg (ttIQN (tStatus t)) @ ''/acls'', ''1'']"
  let ?S = "\<lambda>r l. S l \<and> (plain ''targetcli'' ?ls, r) \<in> set l"
  have ls: "ensures (lio_inv rt t chap S) (Run os ''targetcli'' ?ls) (\<lambda>r. lio_inv rt t chap (?S r))"
    by (rule jinv_Run[OF assms]) (simp add: lio_ok_def)
  have st: "log_stable (?S r)" for r by (intro log_stable_rules assms)
  show ?thesis
    unfolding pruneACLs_def Let_def
    by (intro ensures_bind[OF ls] ensures_if ensures_return ensures_weaken[OF lio_acl_loop[OF st]])
       (auto simp: jinv_conj acls_pruned_def)
qed

text \<open>Pruning LUNs only deletes this target's unwanted backstores.\<close>

lemma lio_pruneLUNs: "log_stable S \<Longrightarrow> keeps (lio_inv rt t chap S) (pruneLUNs os t)"
proof -
  assume st: "log_stable S"
  have "keeps (lio_inv rt t chap S) (prune_lines os t ls)" for ls
  proof (induction ls)
    case (Cons line ls)
    then show ?case
      unfolding prune_lines.simps lio_remove_def
      by (intro keeps_intro jinv_snoc[OF st]) (auto simp: lio_ok_def list_ex_iff)
  qed (simp add: keeps_return)
  then show ?thesis
    unfolding pruneLUNs_def by (intro keeps_intro jinv_snoc[OF st]) (auto simp: lio_ok_def)
qed


text \<open>The address is recorded, or its record was tried, right before it is placed.\<close>

definition vip_recorded :: "string \<Rightarrow> Target \<Rightarrow> string \<Rightarrow> log \<Rightarrow> bool" where
  "vip_recorded rt t v l \<longleftrightarrow> l \<noteq> [] \<and>
     (fst (last l) = file_cmd (WriteFile (vipRecord rt (omName (tMeta t))) v) \<or>
      fst (last l) = file_cmd (MkdirAll (rt @ vipRecordDir)) \<and> snd (snd (last l)) \<noteq> None)"

lemma lio_file_ok: "lio_ok rt t chap l (file_cmd f)"
  by (cases f) (simp_all add: lio_ok_def)

lemma lio_record:
  assumes st: "log_stable S"
  shows "ensures (lio_inv rt t chap S)
    (do { e \<leftarrow> file_err fs (MkdirAll (rt @ vipRecordDir));
          (if e \<noteq> None then ret None else file_err fs (WriteFile (vipRecord rt (omName (tMeta t))) v)) })
    (\<lambda>_ l. lio_inv rt t chap S l \<and> vip_recorded rt t v l)"
proof (rule ensures_bind[where R = "\<lambda>e l. lio_inv rt t chap S l \<and> (e \<noteq> None \<longrightarrow> vip_recorded rt t v l)"])
  show "ensures (lio_inv rt t chap S) (file_err fs (MkdirAll (rt @ vipRecordDir)))
      (\<lambda>e l. lio_inv rt t chap S l \<and> (e \<noteq> None \<longrightarrow> vip_recorded rt t v l))"
    by (rule ensures_file_err) (simp add: jinv_snoc[of S "lio_ok rt t chap", OF st _ lio_file_ok] vip_recorded_def del: file_cmd.simps)
next
  fix e
  show "ensures (\<lambda>l. lio_inv rt t chap S l \<and> (e \<noteq> None \<longrightarrow> vip_recorded rt t v l))
      (if e \<noteq> None then ret None else file_err fs (WriteFile (vipRecord rt (omName (tMeta t))) v))
      (\<lambda>_ l. lio_inv rt t chap S l \<and> vip_recorded rt t v l)"
    by (intro ensures_if ensures_return ensures_file_err)
       (simp_all add: jinv_snoc[of S "lio_ok rt t chap", OF st _ lio_file_ok] vip_recorded_def del: file_cmd.simps)
qed

lemma lio_ensureVIP:
  assumes st: "log_stable S"
  shows "ensures (lio_inv rt t chap S) (ensureVIP os fs lib rt (omName (tMeta t)) (tsVIP (tSpec t)))
    (\<lambda>e l. lio_inv rt t chap S l \<and>
       (e = None \<longrightarrow> (\<exists>dev. ran_ok l ''ip'' [''addr'', ''replace'', tsVIP (tSpec t), ''dev'', dev])))"
proof -
  let ?I = "lio_inv rt t chap S" and ?vip = "tsVIP (tSpec t)"
  have quiet: "ensures ?I (Run os name args) (\<lambda>_. ?I)" if "\<And>l. lio_ok rt t chap l (plain name args)" for name args
    by (rule ensures_weaken[OF jinv_Run[of S "lio_ok rt t chap", OF st that]]) (auto simp: jinv_conj)
  have holders: "ensures ?I (vipHolders os lib ?vip) (\<lambda>_. ?I)"
    unfolding vipHolders_def
    by (rule keeps_ensures) (intro keeps_intro jinv_snoc[OF st], simp_all add: lio_ok_def)
  have place: "ensures (\<lambda>l. ?I l \<and> vip_recorded rt t ?vip l) (Run os ''ip'' [''addr'', ''replace'', ?vip, ''dev'', dev])
      (\<lambda>r l. ?I l \<and> (snd r = None \<longrightarrow> ran_ok l ''ip'' [''addr'', ''replace'', ?vip, ''dev'', dev]))" for dev
    by (rule ensures_Run) (auto intro!: jinv_snoc[OF st] ran_okI simp: lio_ok_def vip_recorded_def)
  have announce: "ensures (\<lambda>l. ?I l \<and> ran_ok l ''ip'' args) (if b then Run os ''arping'' a else ret ('''', None))
      (\<lambda>_ l. ?I l \<and> ran_ok l ''ip'' args)" for b a args
    by (intro ensures_if ensures_Run ensures_return)
       (use log_stable_ran_ok in \<open>auto simp: lio_ok_def log_stable_def intro!: jinv_snoc[OF st]\<close>)
  have tail: "ensures ?I (do {
            e \<leftarrow> file_err fs (MkdirAll (rt @ vipRecordDir));
            _ \<leftarrow> (if e \<noteq> None then ret None else file_err fs (WriteFile (vipRecord rt (omName (tMeta t))) ?vip));
            a \<leftarrow> Run os ''ip'' [''addr'', ''replace'', ?vip, ''dev'', dev];
            if snd a \<noteq> None then ret (snd a)
            else do { _ \<leftarrow> (if b then Run os ''arping'' g else ret ('''', None)); ret None } })
     (\<lambda>e l. ?I l \<and> (e = None \<longrightarrow> (\<exists>dev. ran_ok l ''ip'' [''addr'', ''replace'', ?vip, ''dev'', dev])))" for dev b g
    unfolding State_Monad.bind_assoc[symmetric, of "file_err fs (MkdirAll (rt @ vipRecordDir))"]
    by (rule ensures_bind[OF lio_record[OF st]], rule ensures_bind[OF place], rule ensures_if, rule ensures_return, force,
        rule ensures_bind[OF ensures_weaken[OF announce[of "[''addr'', ''replace'', ?vip, ''dev'', dev]"]]],
        force, assumption, rule ensures_return, blast)
  show ?thesis
    unfolding ensureVIP_def
    by (rule ensures_bind[OF quiet], simp add: lio_ok_def, rule ensures_if, rule ensures_return, force,
        rule ensures_case_sum, rule ensures_return, force, rule ensures_case_list, rule ensures_return, force,
        rule ensures_bind[OF holders], rule tail)
qed


section \<open>Claims on the manager\<close>

text \<open>All a successful pass has done: every LUN and every initiator that may log in is in place, CHAP
  is required exactly when the spec asks for it, no listed ACL outside the spec is left, the address
  is placed and the configuration saved.\<close>

definition lio_done :: "Target \<Rightarrow> (string \<rightharpoonup> ChapCred) \<Rightarrow> log \<Rightarrow> bool" where
  "lio_done t chap l \<longleftrightarrow>
     did l [''/iscsi'', ''create'', ttIQN (tStatus t)] \<and>
     (\<forall>lun \<in> set (ttLUNs (tStatus t)). lun_done l t lun) \<and>
     (\<forall>ini \<in> set (tsInitiators (tSpec t)). may_login chap ini \<longrightarrow> ini_done l t chap ini) \<and>
     ran_ok l ''targetcli'' [tpg (ttIQN (tStatus t)), ''set'', ''attribute'',
       ''authentication='' @ (if wants_chap t then ''1'' else ''0''), ''generate_node_acls=0''] \<and>
     acls_pruned t (grants t chap) l \<and>
     (tsVIP (tSpec t) \<noteq> '''' \<longrightarrow> (\<exists>dev. ran_ok l ''ip'' [''addr'', ''replace'', tsVIP (tSpec t), ''dev'', dev])) \<and>
     ran_ok l ''targetcli'' [''saveconfig'']"

lemma grants_iff: "grants t chap x \<longleftrightarrow> x \<in> iniIQN ` {ini \<in> set (tsInitiators (tSpec t)). may_login chap ini}"
  by (auto simp: grants_def may_login_def)

lemma lio_finish_export:
  assumes st: "log_stable S"
  shows "ensures (lio_inv rt t chap S) (finish_export os fs lib rt t)
    (\<lambda>e l. lio_inv rt t chap S l \<and> (e = None \<longrightarrow>
       (tsVIP (tSpec t) \<noteq> '''' \<longrightarrow> (\<exists>dev. ran_ok l ''ip'' [''addr'', ''replace'', tsVIP (tSpec t), ''dev'', dev])) \<and>
       ran_ok l ''targetcli'' [''saveconfig'']))"
  unfolding finish_export_def
  by (intro ensures_bind[OF keeps_ensures[OF lio_pruneLUNs[OF st]]] jinv_andThen jinv_run_err log_stable_rules st
        ensures_if ensures_weaken[OF lio_ensureVIP[OF st]] ensures_return)
     (auto simp: lio_ok_def)

lemma lio_finish_target:
  assumes st: "log_stable S"
  shows "ensures (lio_inv rt t chap S) (finish_target os fs lib rt t (if wants_chap t then ''1'' else ''0'') granted)
    (\<lambda>e l. lio_inv rt t chap S l \<and> (e = None \<longrightarrow>
       ran_ok l ''targetcli'' [tpg (ttIQN (tStatus t)), ''set'', ''attribute'',
         ''authentication='' @ (if wants_chap t then ''1'' else ''0''), ''generate_node_acls=0''] \<and>
       acls_pruned t (\<lambda>f. f \<in> set granted) l \<and>
       (tsVIP (tSpec t) \<noteq> '''' \<longrightarrow> (\<exists>dev. ran_ok l ''ip'' [''addr'', ''replace'', tsVIP (tSpec t), ''dev'', dev])) \<and>
       ran_ok l ''targetcli'' [''saveconfig'']))"
  unfolding finish_target_def
  by (intro jinv_andThen jinv_run_err lio_pruneACLs lio_finish_export log_stable_conj[OF _ log_stable_acls_pruned]
        log_stable_conj[OF _ log_stable_ran_ok] st)
     (simp add: lio_ok_def)

lemma lio_initiators:
  assumes st: "log_stable S"
  shows "ensures (lio_inv rt t chap S) (do {
      r \<leftarrow> ini_loop os (ttIQN (tStatus t)) chap (tsInitiators (tSpec t)) ''0'' [];
      (case r of (e, auth, granted) \<Rightarrow> if e \<noteq> None then ret e else finish_target os fs lib rt t auth granted) })
    (\<lambda>e l. lio_inv rt t chap S l \<and> (e = None \<longrightarrow>
       (\<forall>ini \<in> set (tsInitiators (tSpec t)). may_login chap ini \<longrightarrow> ini_done l t chap ini) \<and>
       ran_ok l ''targetcli'' [tpg (ttIQN (tStatus t)), ''set'', ''attribute'',
         ''authentication='' @ (if wants_chap t then ''1'' else ''0''), ''generate_node_acls=0''] \<and>
       acls_pruned t (grants t chap) l \<and>
       (tsVIP (tSpec t) \<noteq> '''' \<longrightarrow> (\<exists>dev. ran_ok l ''ip'' [''addr'', ''replace'', tsVIP (tSpec t), ''dev'', dev])) \<and>
       ran_ok l ''targetcli'' [''saveconfig'']))" (is "ensures ?P _ ?Q")
proof (rule ensures_bind[OF lio_ini_loop[OF st order_refl]], (rule ensures_case_prod)+, rule ensures_if, rule ensures_return, force)
  fix r rest and e :: "go_error option" and auth :: string and granted :: "string list"
  assume r: "r = (e, rest)" "rest = (auth, granted)" "\<not> e \<noteq> None"
  let ?inis = "\<lambda>l. \<forall>ini \<in> set (tsInitiators (tSpec t)). may_login chap ini \<longrightarrow> ini_done l t chap ini"
  have st': "log_stable (\<lambda>l. S l \<and> ?inis l)" by (intro log_stable_rules log_stable_ini_done st)
  have post: "ini_post t chap (tsInitiators (tSpec t)) ''0'' [] r l \<longleftrightarrow>
      auth = (if wants_chap t then ''1'' else ''0'') \<and> (\<lambda>f. f \<in> set granted) = grants t chap \<and> ?inis l" for l
    using r by (auto simp: ini_post_def wants_chap_def grants_iff fun_eq_iff)
  show "ensures (\<lambda>l. ?P l \<and> ini_post t chap (tsInitiators (tSpec t)) ''0'' [] r l) (finish_target os fs lib rt t auth granted) ?Q"
  proof (cases "auth = (if wants_chap t then ''1'' else ''0'') \<and> (\<lambda>f. f \<in> set granted) = grants t chap")
    case True
    then have auth: "auth = (if wants_chap t then ''1'' else ''0'')" and g: "(\<lambda>f. f \<in> set granted) = grants t chap" by blast+
    show ?thesis
      unfolding auth
      by (rule ensures_weaken[OF lio_finish_target[OF st']]) (auto simp: post jinv_conj g split del: if_split)
  next
    case False
    then show ?thesis unfolding post ensures_def by blast
  qed
qed

lemma lio_EnsureTarget:
  "ensures (lio_inv rt t chap (\<lambda>_. True)) (EnsureTarget os fs lib rt t chap)
    (\<lambda>e l. lio_inv rt t chap (\<lambda>_. True) l \<and> (e = None \<longrightarrow> lio_done t chap l))"
  unfolding EnsureTarget_def lio_done_def Let_def
  by (intro jinv_andThen lio_ensure_did lio_lun_loop lio_initiators log_stable_rules log_stable_lun_done)
     (simp add: lio_ok_def)




text \<open>A host on which every command succeeds and the ACL listing still names a revoked initiator.\<close>

definition acl_host :: "unit os" where
  "acl_host h p =
     (\<lparr>prStdout = (if last (butlast (pArgv p)) = ''/iscsi/iqn.x/tpg1/acls'' then ''o- iqn.old'' else ''''), prStderr = '''', prFailed = None\<rparr>, h)"

definition quiet_fs :: "unit fs" where
  "quiet_fs h f = (Inr '''', h)"

definition lio_lib :: golib where
  "lio_lib = \<lparr>UnmarshalLvm = \<lambda>_. Inr [], ParseFloat = \<lambda>_. None, UnmarshalLinks = \<lambda>_. Inr [], UnmarshalRoutes = \<lambda>_. Inr [''eth0''],
     UnmarshalSessions = \<lambda>_. Inr [], UnmarshalLsblk = \<lambda>_. Inr [],
     UnmarshalSmart = \<lambda>_. Inr \<lparr>srPassed = None, srTemperature = None, srHours = None\<rparr>\<rparr>"

definition acl_target :: Target where
  "acl_target = \<lparr>tMeta = meta0 ''ns'' ''x'',
     tSpec = \<lparr>tsVIP = ''10.0.0.9/24'', tsLUNs = [], tsInitiators = [\<lparr>iniIQN = ''iqn.new'', iniChapSecretRef = ''''\<rparr>]\<rparr>,
     tStatus = \<lparr>ttConditions = [], ttIQN = ''iqn.x'', ttActiveNode = ''a'', ttLUNs = [\<lparr>lsID = 0, lsDevice = ''/dev/drbd1''\<rparr>],
       ttChapSecretVersions = [], ttSessions = 0, ttState = ''''\<rparr>\<rparr>"

lemma acl_target_exported: "value_of (EnsureTarget acl_host quiet_fs lio_lib '''' acl_target Map.empty) () = None"
  by code_simp


section \<open>Removal\<close>

text \<open>The trace of dropping an address and of releasing a recorded one.\<close>

definition drops :: "golib \<Rightarrow> string \<Rightarrow> log \<Rightarrow> bool" where
  "drops lib vip l \<longleftrightarrow> (\<exists>q d. l = (plain ''ip'' [''-j'', ''addr'', ''show'', ''to'', vip_addr vip], q) # d \<and>
     map fst d = (if snd q \<noteq> None then []
                  else (case UnmarshalLinks lib (fst q) of Inl _ \<Rightarrow> []
                        | Inr links \<Rightarrow> map (\<lambda>dev. plain ''ip'' [''addr'', ''del'', vip, ''dev'', dev]) links)))"

definition releases :: "golib \<Rightarrow> string \<Rightarrow> string \<Rightarrow> log \<Rightarrow> bool" where
  "releases lib rt name l \<longleftrightarrow> (\<exists>rd more. l = (file_cmd (ReadFile (vipRecord rt name)), rd) # more \<and>
     (if snd rd \<noteq> None then more = []
      else (\<exists>d x. more = d @ [(file_cmd (RemoveFile (vipRecord rt name)), x)] \<and> drops lib (trimSpace (fst rd)) d)))"

lemma drop_devs_trace: "traces (drop_devs os vip devs) (\<lambda>_ l. map fst l = map (\<lambda>dev. plain ''ip'' [''addr'', ''del'', vip, ''dev'', dev]) devs)"
proof (induction devs)
  case (Cons dev devs)
  show ?case
    unfolding drop_devs.simps by (rule traces_weaken[OF traces_bind[OF traces_Run Cons]]) auto
qed (auto intro: traces_weaken[OF traces_return])

lemma dropVIP_trace: "traces (dropVIP os lib vip) (\<lambda>_. drops lib vip)"
  unfolding dropVIP_def vipHolders_def State_Monad.bind_assoc State_Monad.bind_left_identity
proof (rule traces_weaken[OF traces_bind[OF traces_Run drop_devs_trace]], elim exE conjE)
  fix l l1 l2 and q :: cmd_result
  assume "l = l1 @ l2" "l1 = [(plain ''ip'' [''-j'', ''addr'', ''show'', ''to'', vip_addr vip], q)]"
    "map fst l2 = map (\<lambda>dev. plain ''ip'' [''addr'', ''del'', vip, ''dev'', dev])
      (if snd q \<noteq> None then [] else case UnmarshalLinks lib (fst q) of Inl _ \<Rightarrow> [] | Inr links \<Rightarrow> links)"
  then show "drops lib vip l" unfolding drops_def by (intro exI[of _ q] exI[of _ l2]) (simp split: sum.splits)
qed

lemma releaseVIP_trace: "traces (releaseVIP os fs lib rt name) (\<lambda>_. releases lib rt name)"
proof -
  have rm: "traces (do { _ \<leftarrow> dropVIP os lib v; _ \<leftarrow> fileOp fs (RemoveFile p); ret () })
      (\<lambda>_ l. \<exists>d x. l = d @ [(file_cmd (RemoveFile p), x)] \<and> drops lib v d)" for v p
    by (rule traces_weaken[OF traces_bind[OF dropVIP_trace traces_bind[OF traces_fileOp traces_return]]]) auto
  have "traces (case b of Inl _ \<Rightarrow> ret () | Inr s \<Rightarrow> do { _ \<leftarrow> dropVIP os lib (trimSpace s); _ \<leftarrow> fileOp fs (RemoveFile p); ret () })
      (\<lambda>_ l. case b of Inl _ \<Rightarrow> l = [] | Inr s \<Rightarrow> \<exists>d x. l = d @ [(file_cmd (RemoveFile p), x)] \<and> drops lib (trimSpace s) d)" for b :: "go_error + string" and p
  proof (cases b)
    case (Inr s)
    show ?thesis unfolding Inr sum.case by (rule rm)
  qed (auto intro: traces_weaken[OF traces_return])
  from traces_bind[OF traces_fileOp this] show ?thesis
    unfolding releaseVIP_def
  proof (rule traces_weaken, elim exE conjE)
    fix l l1 l2 and b :: "go_error + string"
    assume "l = l1 @ l2"
      "l1 = [(file_cmd (ReadFile (vipRecord rt name)), (case b of Inl e \<Rightarrow> ('''', Some e) | Inr s \<Rightarrow> (s, None)))]"
      "case b of Inl _ \<Rightarrow> l2 = [] | Inr s \<Rightarrow> \<exists>d x. l2 = d @ [(file_cmd (RemoveFile (vipRecord rt name)), x)] \<and> drops lib (trimSpace s) d"
    then show "releases lib rt name l"
      unfolding releases_def
      by (intro exI[of _ "case b of Inl e \<Rightarrow> ('''', Some e) | Inr s \<Rightarrow> (s, None)"] exI[of _ l2])
         (cases b; simp del: file_cmd.simps split_paired_Ex)
  qed
qed

lemma bs_loop_trace:
  "traces (bs_loop os pre fs)
    (\<lambda>_ l. map fst l = map (\<lambda>f. plain ''targetcli'' [''/backstores/block'', ''delete'', f]) (filter (\<lambda>f. hasPrefix f pre) fs))"
proof (induction fs)
  case (Cons f fs)
  show ?case
  proof (cases "hasPrefix f pre")
    case True
    show ?thesis
      unfolding bs_loop.simps lio_remove_def if_P[OF True] State_Monad.bind_assoc State_Monad.bind_left_identity
      by (rule traces_weaken[OF traces_bind[OF traces_Run Cons]]) (use True in auto)
  next
    case False
    then show ?thesis using Cons by simp
  qed
qed (auto intro: traces_weaken[OF traces_return])

definition removes :: "golib \<Rightarrow> string \<Rightarrow> string \<Rightarrow> log \<Rightarrow> bool" where
  "removes lib rt name l \<longleftrightarrow> (\<exists>r0 ls dels rs v.
     l = (plain ''targetcli'' [''/iscsi'', ''delete'', iqnFor name], r0) #
         (plain ''targetcli'' [''ls'', ''/backstores/block'', ''1''], ls) # dels @ (plain ''targetcli'' [''saveconfig''], rs) # v \<and>
     map fst dels = (if snd ls \<noteq> None then []
       else map (\<lambda>f. plain ''targetcli'' [''/backstores/block'', ''delete'', f])
              (filter (\<lambda>f. hasPrefix f (''stornas-'' @ name @ ''-lun'')) (strFields (fst ls)))) \<and>
     releases lib rt name v)"

lemma RemoveTarget_trace: "traces (RemoveTarget os fs lib rt name) (\<lambda>_. removes lib rt name)"
proof -
  have bs: "traces (if b then bs_loop os pre xs else ret ())
      (\<lambda>_ l. map fst l = (if b then map (\<lambda>f. plain ''targetcli'' [''/backstores/block'', ''delete'', f]) (filter (\<lambda>f. hasPrefix f pre) xs) else []))" for b pre xs
    by (cases b) (auto intro: bs_loop_trace traces_weaken[OF traces_return])
  show ?thesis
    unfolding RemoveTarget_def lio_remove_def State_Monad.bind_assoc State_Monad.bind_left_identity
  proof (rule traces_weaken[OF traces_bind[OF traces_Run traces_bind[OF traces_Run traces_bind[OF bs traces_bind[OF traces_Run releaseVIP_trace]]]]],
         elim exE conjE)
    fix l l1 l2 l3 l4 l5 l6 l7 l8 and r0 ls rs :: cmd_result
    assume "l = l1 @ l2" "l1 = [(plain ''targetcli'' [''/iscsi'', ''delete'', iqnFor name], r0)]"
      "l2 = l3 @ l4" "l3 = [(plain ''targetcli'' [''ls'', ''/backstores/block'', ''1''], ls)]" "l4 = l5 @ l6" "l6 = l7 @ l8"
      "map fst l5 = (if snd ls = None then map (\<lambda>f. plain ''targetcli'' [''/backstores/block'', ''delete'', f])
         (filter (\<lambda>f. hasPrefix f (''stornas-'' @ name @ ''-lun'')) (strFields (fst ls))) else [])"
      "l7 = [(plain ''targetcli'' [''saveconfig''], rs)]" "releases lib rt name l8"
    then show "removes lib rt name l" unfolding removes_def
      by (intro exI[of _ r0] exI[of _ ls] exI[of _ l5] exI[of _ rs] exI[of _ l8]) simp
  qed
qed


text \<open>\<open>RemoveTarget\<close>, command by command, whatever the host answers: the target's IQN is deleted;
  of the backstores the host lists exactly those with the prefix \<open>stornas-<name>-lun\<close> are deleted, in
  order; the configuration is saved; then the recorded address, if any, is deleted from exactly the
  interfaces that hold it and its record removed.\<close>

theorem remove_target_exact:
  "removes lib rt name (log_of (RemoveTarget os fs lib rt name) h)"
  by (rule traces_run[OF RemoveTarget_trace])

text \<open>The prefix is not tied to one target: removing \<open>db\<close> deletes the backstore that backs LUN 0 of the
  target \<open>db-lunch\<close>.\<close>

definition bs_host :: "unit os" where
  "bs_host h p =
     (\<lparr>prStdout = (if pArgv p ! 9 = ''ls'' then ''o- block o- stornas-db-lunch-lun0'' else ''''), prStderr = '''', prFailed = None\<rparr>, h)"

theorem remove_target_collateral:
  "plain ''targetcli'' [''/backstores/block'', ''delete'', backstore ''db-lunch'' 0]
     \<in> set (map fst (log_of (RemoveTarget bs_host quiet_fs lio_lib '''' ''db'') ()))"
  by code_simp

text \<open>The trace of a teardown, for the target agent.\<close>

definition tears_down :: "golib \<Rightarrow> string \<Rightarrow> string \<Rightarrow> string \<Rightarrow> log \<Rightarrow> bool" where
  "tears_down lib rt name vip l \<longleftrightarrow> (\<exists>ls rm d v.
     l = (plain ''targetcli'' [''ls'', ''/iscsi/'' @ iqnFor name, ''1''], ls) # rm @ d @ v \<and>
     (if snd ls = None then removes lib rt name rm else rm = []) \<and>
     (if vip \<noteq> '''' then drops lib vip d else d = []) \<and> releases lib rt name v)"

lemma TeardownTarget_trace: "traces (TeardownTarget os fs lib rt name vip) (\<lambda>_. tears_down lib rt name vip)"
  unfolding TeardownTarget_def
proof (rule traces_weaken[OF traces_bind[OF traces_Run traces_bind[OF traces_if[OF RemoveTarget_trace traces_return]
         traces_bind[OF traces_if[OF dropVIP_trace traces_return] releaseVIP_trace]]]], elim exE conjE)
  fix l l1 l2 l3 l4 l5 l6 and ls :: cmd_result and u w :: unit
  assume "l = l1 @ l2" "l1 = [(plain ''targetcli'' [''ls'', ''/iscsi/'' @ iqnFor name, ''1''], ls)]" "l2 = l3 @ l4" "l4 = l5 @ l6"
    "if snd ls = None then removes lib rt name l3 else u = () \<and> l3 = []"
    "if vip \<noteq> [] then drops lib vip l5 else w = () \<and> l5 = []" "releases lib rt name l6"
  then show "tears_down lib rt name vip l"
    unfolding tears_down_def by (intro exI[of _ ls] exI[of _ l3] exI[of _ l5] exI[of _ l6]) (simp split: if_splits)
qed


text \<open>The text the object-exists test looks at includes the command line: a failed create of a target
  whose name contains \<open>exists\<close> passes as found.\<close>

definition refusing_host :: "unit os" where
  "refusing_host h p = (\<lparr>prStdout = '''', prStderr = ''Permission denied'', prFailed = Some ''exit status 1''\<rparr>, h)"

theorem target_name_gap:
  "value_of (lio_ensure refusing_host [''/iscsi'', ''create'', iqnFor ''exists-db'']) () = None \<and>
   value_of (lio_ensure refusing_host [''/iscsi'', ''create'', iqnFor ''db'']) () \<noteq> None"
  by code_simp

end
