(* ===== verification/Target_Agent.thy ===== *)
theory Target_Agent
  imports Lio Cluster
begin

text \<open>
  The target agent, \<open>internal/agent/target_reconciler.go\<close>: the pass that exports the targets placed on
  its node, tears down the others and skips the walk when nothing it depends on has changed. Its cache
  \<open>applied\<close> is passed in and returned; \<open>c\<close> answers the API calls (\<open>Secrets\<close> included), \<open>node\<close> is the
  agent's node.
\<close>

type_synonym applied_cache = "NamespacedName \<rightharpoonup> string"

datatype agent_target_write = AgentTargetStatus Target

fun lun_key :: "LUNStatus list \<Rightarrow> string" where
  "lun_key [] = ''''"
| "lun_key (lun # luns) = ''|'' @ itoa (lsID lun) @ '':'' @ lsDevice lun @ lun_key luns"

text \<open>The secrets loop: a failed read, or the key and the credentials.\<close>

fun secret_loop :: "kclient \<Rightarrow> string \<Rightarrow> Initiator list \<Rightarrow> string \<Rightarrow> (string \<rightharpoonup> ChapCred) \<Rightarrow> go_error + string \<times> (string \<rightharpoonup> ChapCred)" where
  "secret_loop c ns [] key chap = Inr (key, chap)"
| "secret_loop c ns (ini # inis) key chap =
     (if iniChapSecretRef ini = '''' then secret_loop c ns inis key chap
      else
        (case GetSecret c \<lparr>nnNamespace = ns, nnName = iniChapSecretRef ini\<rparr> of
           Inl e \<Rightarrow>
             if eReason e \<noteq> NotFound then Inl e
             else secret_loop c ns inis (key @ ''|'' @ iniChapSecretRef ini @ '':absent'') chap
         | Inr secret \<Rightarrow>
             (let key' = key @ ''|'' @ iniChapSecretRef ini @ '':'' @ omResourceVersion (secMeta secret) in
              case ChapCredentials (secData secret) of (user, password, ok) \<Rightarrow>
                if \<not> ok then secret_loop c ns inis key' chap
                else secret_loop c ns inis key' (chap(iniIQN ini \<mapsto> \<lparr>ccUser = user, ccPassword = password\<rparr>)))))"

definition ensure_inputs :: "kclient \<Rightarrow> Target \<Rightarrow> go_error + string \<times> (string \<rightharpoonup> ChapCred)" where
  "ensure_inputs c t =
     secret_loop c (omNamespace (tMeta t)) (tsInitiators (tSpec t))
       (''g'' @ itoa (omGeneration (tMeta t)) @ lun_key (ttLUNs (tStatus t))) Map.empty"

text \<open>The status of a walk that ended with \<open>ensureErr\<close>.\<close>

definition host_status :: "metalib \<Rightarrow> Target \<Rightarrow> go_error option \<Rightarrow> Target" where
  "host_status lib t ensureErr =
     (let cond = \<lparr>cType = ConditionHostReady,
                  cStatus = (if ensureErr \<noteq> None then ConditionFalse else ConditionTrue),
                  cReason = (if ensureErr \<noteq> None then ReasonHostError else ReasonReady),
                  cMessage = (case ensureErr of None \<Rightarrow> '''' | Some e \<Rightarrow> eText e),
                  cObservedGeneration = omGeneration (tMeta t)\<rparr> in
      t\<lparr>tStatus := (tStatus t)\<lparr>ttState := (if ensureErr \<noteq> None then ''Failed'' else ''Exported''),
          ttConditions := SetStatusCondition lib (ttConditions (tStatus t)) cond\<rparr>\<rparr>)"

definition agent_delete_pass :: "kclient \<Rightarrow> 'h os \<Rightarrow> 'h fs \<Rightarrow> golib \<Rightarrow> string \<Rightarrow> string \<Rightarrow> Target \<Rightarrow> ('h, agent_target_write outcome) prog" where
  "agent_delete_pass c os fs glib rt node t = do {
     _ \<leftarrow> TeardownTarget os fs glib rt (omName (tMeta t)) (tsVIP (tSpec t));
     ret (if ttActiveNode (tStatus t) = node \<and> ttState (tStatus t) \<noteq> ''Removed'' then
            let t' = t\<lparr>tStatus := (tStatus t)\<lparr>ttState := ''Removed''\<rparr>\<rparr> in
            (case UpdateTargetStatus c t' of
               Inl e \<Rightarrow> fail_with [AgentTargetStatus t'] (IgnoreNotFound (Some e))
             | Inr _ \<Rightarrow> done_with [AgentTargetStatus t'])
          else done_with []) }"

definition TargetAgentReconcile :: "metalib \<Rightarrow> kclient \<Rightarrow> 'h os \<Rightarrow> 'h fs \<Rightarrow> golib \<Rightarrow> string \<Rightarrow> string \<Rightarrow> NamespacedName \<Rightarrow>
    applied_cache \<Rightarrow> ('h, applied_cache \<times> agent_target_write outcome) prog" where
  "TargetAgentReconcile lib c os fs glib rt node req applied =
     (case GetTarget c req of
        Inl e \<Rightarrow>
          if eReason e = NotFound then do {
            _ \<leftarrow> RemoveTarget os fs glib rt (nnName req);
            ret (applied(req := None), done_with []) }
          else ret (applied, fail_with [] (Some e))
      | Inr t \<Rightarrow>
        if omDeleting (tMeta t) then do {
          o' \<leftarrow> agent_delete_pass c os fs glib rt node t;
          ret (applied(req := None), o') }
        else if ttActiveNode (tStatus t) \<noteq> node then do {
          _ \<leftarrow> TeardownTarget os fs glib rt (omName (tMeta t)) (tsVIP (tSpec t));
          ret (applied(req := None), done_with []) }
        else if ttLUNs (tStatus t) = [] then ret (applied, done_with [])
        else
          (case ensure_inputs c t of
             Inl e \<Rightarrow> ret (applied, fail_with [] (Some e))
           | Inr (key, chap) \<Rightarrow>
             if mget applied req = key then ret (applied, done_with [])
             else do {
               ensureErr \<leftarrow> EnsureTarget os fs glib rt t chap;
               let t' = host_status lib t ensureErr;
               ret (case UpdateTargetStatus c t' of
                      Inl e \<Rightarrow> (applied, fail_with [AgentTargetStatus t'] (IgnoreNotFound (Some e)))
                    | Inr _ \<Rightarrow>
                      if ensureErr \<noteq> None then (applied, fail_with [AgentTargetStatus t'] ensureErr)
                      else (applied(req \<mapsto> key), done_with [AgentTargetStatus t'])) }))"

section \<open>The skip key\<close>

text \<open>A key is read back one segment at a time: a segment ends at the next bar.\<close>

lemma bar_split:
  assumes "a @ CHR ''|'' # x = b @ CHR ''|'' # y" and "CHR ''|'' \<notin> set a" and "CHR ''|'' \<notin> set b"
  shows "a = b \<and> x = y"
  using assms by (induction a arbitrary: b) (auto simp: Cons_eq_append_conv append_eq_Cons_conv)

abbreviation bar_free :: "string \<Rightarrow> bool" where
  "bar_free s \<equiv> CHR ''|'' \<notin> set s"

lemma segments_inj:
  assumes "a @ concat (map (Cons (CHR ''|'')) xs) = b @ concat (map (Cons (CHR ''|'')) ys)"
    and "bar_free a" and "bar_free b" and "\<forall>x \<in> set xs. bar_free x" and "\<forall>y \<in> set ys. bar_free y"
  shows "a = b \<and> xs = ys"
  using assms
proof (induction xs arbitrary: a b ys)
  case Nil
  then show ?case by (cases ys) auto
next
  case (Cons x xs)
  obtain y ys' where ys: "ys = y # ys'" using Cons.prems(1,3) by (cases ys) auto
  from Cons.prems(1) have "a @ CHR ''|'' # (x @ concat (map (Cons (CHR ''|'')) xs)) = b @ CHR ''|'' # (y @ concat (map (Cons (CHR ''|'')) ys'))"
    unfolding ys by (simp only: list.map concat.simps append_Cons)
  from bar_split[OF this Cons.prems(2,3)] have "a = b" and t: "x @ concat (map (Cons (CHR ''|'')) xs) = y @ concat (map (Cons (CHR ''|'')) ys')"
    by simp_all
  with Cons.IH[OF t] Cons.prems(4,5) ys show ?case by simp
qed

text \<open>Decimal digits are between the codes 48 and 57.\<close>

lemma utoa_chars: "c \<in> set (utoa n) \<Longrightarrow> 48 \<le> (of_char c :: nat) \<and> (of_char c :: nat) \<le> 57"
proof (induction n rule: utoa.induct)
  case (1 n)
  have d: "m < 10 \<Longrightarrow> 48 \<le> (of_char (digit_char m) :: nat) \<and> (of_char (digit_char m) :: nat) \<le> 57" for m
    by (simp add: of_char_of)
  show ?case
  proof (cases "n < 10")
    case True
    then show ?thesis using "1.prems" d by (subst (asm) utoa.simps) (simp del: digit_char.simps)
  next
    case False
    then show ?thesis using 1 d[of "n mod 10"] by (subst (asm) (2) utoa.simps) (auto simp del: digit_char.simps)
  qed
qed

lemma itoa_chars: "c \<in> set (itoa i) \<Longrightarrow> c \<noteq> CHR '':'' \<and> c \<noteq> CHR ''|''"
  using utoa_chars[of c] by (auto simp: itoa_def split: if_splits)

lemma itoa_inj: "itoa i = itoa j \<Longrightarrow> i = j"
proof -
  have minus: "CHR ''-'' \<notin> set (utoa n)" for n using utoa_chars[of "CHR ''-''" n] by auto
  assume "itoa i = itoa j"
  moreover have "utoa n \<noteq> CHR ''-'' # s" "CHR ''-'' # s \<noteq> utoa n" for n s using minus[of n] by (metis list.set_intros(1))+
  ultimately show ?thesis by (auto simp: itoa_def split: if_splits)
qed

definition lun_segment :: "LUNStatus \<Rightarrow> string" where
  "lun_segment lun = itoa (lsID lun) @ '':'' @ lsDevice lun"

lemma lun_key_segments: "lun_key luns = concat (map (Cons (CHR ''|'')) (map lun_segment luns))"
  by (induction luns) (simp_all add: lun_segment_def)

lemma colon_split:
  "a @ CHR '':'' # x = b @ CHR '':'' # y \<Longrightarrow> CHR '':'' \<notin> set a \<Longrightarrow> CHR '':'' \<notin> set b \<Longrightarrow> a = b \<and> x = y"
  by (induction a arbitrary: b) (auto simp: Cons_eq_append_conv append_eq_Cons_conv)

lemma lun_segment_inj: "lun_segment l = lun_segment k \<Longrightarrow> l = k"
  using colon_split[of "itoa (lsID l)" "lsDevice l" "itoa (lsID k)" "lsDevice k"] itoa_chars itoa_inj
  by (cases l, cases k) (fastforce simp: lun_segment_def)

text \<open>The version a reference contributes.\<close>

definition secret_version :: "kclient \<Rightarrow> string \<Rightarrow> string \<Rightarrow> string" where
  "secret_version c ns ref =
     (case GetSecret c \<lparr>nnNamespace = ns, nnName = ref\<rparr> of Inl _ \<Rightarrow> ''absent'' | Inr s \<Rightarrow> omResourceVersion (secMeta s))"

definition secret_refs :: "Initiator list \<Rightarrow> string list" where
  "secret_refs inis = filter (\<lambda>r. r \<noteq> '''') (map iniChapSecretRef inis)"

lemma secret_refs_simps [simp]:
  "secret_refs [] = []"
  "secret_refs (ini # inis) = (if iniChapSecretRef ini = '''' then secret_refs inis else iniChapSecretRef ini # secret_refs inis)"
  by (simp_all add: secret_refs_def)

lemma secret_loop_key:
  "secret_loop c ns inis key chap = Inr (key', chap') \<Longrightarrow>
     key' = key @ concat (map (Cons (CHR ''|'')) (map (\<lambda>r. r @ '':'' @ secret_version c ns r) (secret_refs inis)))"
proof (induction inis arbitrary: key chap)
  case (Cons ini inis)
  have v: "GetSecret c \<lparr>nnNamespace = ns, nnName = r\<rparr> = x \<Longrightarrow>
      secret_version c ns r = (case x of Inl _ \<Rightarrow> ''absent'' | Inr s \<Rightarrow> omResourceVersion (secMeta s))" for r x
    by (simp add: secret_version_def)
  from Cons.prems show ?case
    by (auto simp: Let_def v split: if_splits sum.splits prod.splits dest!: Cons.IH)
qed simp

text \<open>Equal versions of every reference give equal credentials, when a version determines a Secret's
  data and none is spelled \<open>absent\<close>.\<close>

definition versions_determine :: "kclient \<Rightarrow> kclient \<Rightarrow> bool" where
  "versions_determine c1 c2 \<longleftrightarrow>
     (\<forall>n s1 s2. GetSecret c1 n = Inr s1 \<longrightarrow> GetSecret c2 n = Inr s2 \<longrightarrow>
        omResourceVersion (secMeta s1) = omResourceVersion (secMeta s2) \<longrightarrow> secData s1 = secData s2) \<and>
     (\<forall>c \<in> {c1, c2}. \<forall>n s. GetSecret c n = Inr s \<longrightarrow>
        omResourceVersion (secMeta s) \<noteq> ''absent'' \<and> bar_free (omResourceVersion (secMeta s)))"

lemma same_version:
  assumes d: "versions_determine c1 c2" and v: "secret_version c1 ns r = secret_version c2 ns r"
  shows "case (GetSecret c1 \<lparr>nnNamespace = ns, nnName = r\<rparr>, GetSecret c2 \<lparr>nnNamespace = ns, nnName = r\<rparr>) of
    (Inl _, Inl _) \<Rightarrow> True | (Inr s1, Inr s2) \<Rightarrow> secData s1 = secData s2 | _ \<Rightarrow> False"
proof -
  let ?n = "\<lparr>nnNamespace = ns, nnName = r\<rparr>"
  have data: "GetSecret c1 ?n = Inr s1 \<Longrightarrow> GetSecret c2 ?n = Inr s2 \<Longrightarrow>
      omResourceVersion (secMeta s1) = omResourceVersion (secMeta s2) \<Longrightarrow> secData s1 = secData s2" for s1 s2
    using d unfolding versions_determine_def by blast
  have abs: "GetSecret c1 ?n = Inr s \<or> GetSecret c2 ?n = Inr s \<Longrightarrow> omResourceVersion (secMeta s) \<noteq> ''absent''" for s
    using d unfolding versions_determine_def by blast
  show ?thesis
    using v data abs
    by (cases "GetSecret c1 ?n"; cases "GetSecret c2 ?n") (simp_all only: secret_version_def sum.case prod.case, metis+)
qed

lemma secret_loop_chap:
  assumes "versions_determine c1 c2"
  shows "secret_loop c1 ns inis k1 chap = Inr (k1', chap1) \<Longrightarrow> secret_loop c2 ns inis k2 chap = Inr (k2', chap2) \<Longrightarrow>
     \<forall>r \<in> set (secret_refs inis). secret_version c1 ns r = secret_version c2 ns r \<Longrightarrow> chap1 = chap2"
proof (induction inis arbitrary: k1 k2 chap)
  case (Cons ini inis)
  show ?case
  proof (cases "iniChapSecretRef ini = ''''")
    case True
    with Cons show ?thesis by simp
  next
    case False
    let ?n = "\<lparr>nnNamespace = ns, nnName = iniChapSecretRef ini\<rparr>"
    have v: "secret_version c1 ns (iniChapSecretRef ini) = secret_version c2 ns (iniChapSecretRef ini)"
      and rest: "\<forall>r \<in> set (secret_refs inis). secret_version c1 ns r = secret_version c2 ns r"
      using Cons.prems(3) False by simp_all
    note same = same_version[OF assms v]
    show ?thesis
    proof (cases "GetSecret c1 ?n")
      case (Inl e1)
      with same obtain e2 where "GetSecret c2 ?n = Inl e2" by (cases "GetSecret c2 ?n") simp_all
      with Inl Cons.prems(1,2) False show ?thesis by (simp split: if_splits) (rule Cons.IH[OF _ _ rest])
    next
      case (Inr s1)
      with same obtain s2 where s2: "GetSecret c2 ?n = Inr s2" "secData s1 = secData s2" by (cases "GetSecret c2 ?n") simp_all
      obtain u p ok where cred: "ChapCredentials (secData s2) = (u, p, ok)" by (cases "ChapCredentials (secData s2)")
      from Inr s2 cred Cons.prems(1,2) False show ?thesis
        by (cases ok) (simp_all add: Let_def, (rule Cons.IH[OF _ _ rest], assumption+)+)
    qed
  qed
qed simp


text \<open>\<open>EnsureTarget\<close> reads of the object only its name, IQN, spec and the LUNs of its status.\<close>

lemma EnsureTarget_cong:
  assumes "omName (tMeta t1) = omName (tMeta t2)" and "ttIQN (tStatus t1) = ttIQN (tStatus t2)"
    and "tSpec t1 = tSpec t2" and "ttLUNs (tStatus t1) = ttLUNs (tStatus t2)"
  shows "EnsureTarget os fs lib rt t1 chap = EnsureTarget os fs lib rt t2 chap"
proof -
  have lines: "prune_lines os t1 ls = prune_lines os t2 ls" for ls
    by (induction ls) (simp_all add: assms case_prod_beta cong: if_cong)
  have acls: "pruneACLs os t1 granted = pruneACLs os t2 granted" for granted
    by (simp add: pruneACLs_def assms)
  have exp: "finish_export os fs lib rt t1 = finish_export os fs lib rt t2"
    unfolding finish_export_def pruneLUNs_def lines assms ..
  have "finish_target os fs lib rt t1 auth granted = finish_target os fs lib rt t2 auth granted" for auth granted
    unfolding finish_target_def acls exp assms ..
  then show ?thesis unfolding EnsureTarget_def assms by presburger
qed

text \<open>Two snapshots of one target: same name and IQN, the generation determines the spec, and neither
  device paths nor secret names contain the separator.\<close>

definition one_target :: "Target \<Rightarrow> Target \<Rightarrow> bool" where
  "one_target t1 t2 \<longleftrightarrow>
     omName (tMeta t1) = omName (tMeta t2) \<and> omNamespace (tMeta t1) = omNamespace (tMeta t2) \<and>
     ttIQN (tStatus t1) = ttIQN (tStatus t2) \<and>
     (omGeneration (tMeta t1) = omGeneration (tMeta t2) \<longrightarrow> tSpec t1 = tSpec t2) \<and>
     (\<forall>t \<in> {t1, t2}. (\<forall>lun \<in> set (ttLUNs (tStatus t)). bar_free (lsDevice lun)) \<and>
        (\<forall>ini \<in> set (tsInitiators (tSpec t)). bar_free (iniChapSecretRef ini)))"

lemma bar_free_lun_segment: "bar_free (lsDevice lun) \<Longrightarrow> bar_free (lun_segment lun)"
  using itoa_chars by (fastforce simp: lun_segment_def)

lemma bar_free_version: "versions_determine c1 c2 \<Longrightarrow> c \<in> {c1, c2} \<Longrightarrow> bar_free (secret_version c ns r)"
  unfolding versions_determine_def secret_version_def by (fastforce split: sum.splits)

lemma secret_refs_mem: "r \<in> set (secret_refs inis) \<Longrightarrow> \<exists>ini \<in> set inis. iniChapSecretRef ini = r"
  by (auto simp: secret_refs_def)

lemma ensure_inputs_key:
  assumes "ensure_inputs c t = Inr (key, chap)"
  shows "key = (''g'' @ itoa (omGeneration (tMeta t))) @ concat (map (Cons (CHR ''|''))
    (map lun_segment (ttLUNs (tStatus t)) @
     map (\<lambda>r. r @ '':'' @ secret_version c (omNamespace (tMeta t)) r) (secret_refs (tsInitiators (tSpec t)))))"
  using secret_loop_key[OF assms[unfolded ensure_inputs_def]] by (simp add: lun_key_segments)

lemma key_segments_bar_free:
  assumes "one_target t1 t2" and "versions_determine c1 c2" and "t \<in> {t1, t2}" and "c \<in> {c1, c2}"
  shows "\<forall>x \<in> set (map lun_segment (ttLUNs (tStatus t)) @
     map (\<lambda>r. r @ '':'' @ secret_version c ns r) (secret_refs (tsInitiators (tSpec t)))). bar_free x"
proof -
  have luns: "\<forall>lun \<in> set (ttLUNs (tStatus t)). bar_free (lsDevice lun)" and refs: "\<forall>ini \<in> set (tsInitiators (tSpec t)). bar_free (iniChapSecretRef ini)"
    using assms(1,3) unfolding one_target_def by blast+
  show ?thesis
    using luns refs bar_free_version[OF assms(2,4)] by (auto dest!: secret_refs_mem dest: bar_free_lun_segment)
qed

text \<open>\<^bold>\<open>C21\<close>. The skip is sound: when two passes over one target compute the same key, what the second one
  skips is the very program the first one ran. Assumed: the generation determines the spec, a
  Secret's resource version determines its data and is never the word \<open>absent\<close>, and no device path,
  secret name or version contains a bar.\<close>

theorem target_skip_sound:
  assumes one: "one_target t1 t2" and det: "versions_determine c1 c2"
    and k1: "ensure_inputs c1 t1 = Inr (key, chap1)" and k2: "ensure_inputs c2 t2 = Inr (key, chap2)"
  shows "EnsureTarget os fs lib rt t1 chap1 = EnsureTarget os fs lib rt t2 chap2"
proof -
  let ?ns = "omNamespace (tMeta t1)"
  have id: "omName (tMeta t1) = omName (tMeta t2)" "omNamespace (tMeta t2) = ?ns" "ttIQN (tStatus t1) = ttIQN (tStatus t2)"
    and gen: "omGeneration (tMeta t1) = omGeneration (tMeta t2) \<Longrightarrow> tSpec t1 = tSpec t2"
    using one by (simp_all add: one_target_def)
  have gfree: "bar_free (''g'' @ itoa i)" for i using itoa_chars[of "CHR ''|''" i] by auto
  from segments_inj[OF ensure_inputs_key[OF k1, symmetric, unfolded ensure_inputs_key[OF k2]] gfree gfree
      key_segments_bar_free[OF one det] key_segments_bar_free[OF one det]]
  have g: "omGeneration (tMeta t1) = omGeneration (tMeta t2)"
    and segs: "map lun_segment (ttLUNs (tStatus t2)) @ map (\<lambda>r. r @ '':'' @ secret_version c2 ?ns r) (secret_refs (tsInitiators (tSpec t2))) =
      map lun_segment (ttLUNs (tStatus t1)) @ map (\<lambda>r. r @ '':'' @ secret_version c1 ?ns r) (secret_refs (tsInitiators (tSpec t1)))"
    by (auto simp: id dest: itoa_inj)
  note spec = gen[OF g]
  from segs have "map lun_segment (ttLUNs (tStatus t2)) = map lun_segment (ttLUNs (tStatus t1)) \<and>
      map (\<lambda>r. r @ '':'' @ secret_version c2 ?ns r) (secret_refs (tsInitiators (tSpec t1))) =
      map (\<lambda>r. r @ '':'' @ secret_version c1 ?ns r) (secret_refs (tsInitiators (tSpec t1)))"
    unfolding spec by (simp add: append_eq_append_conv)
  then have luns: "ttLUNs (tStatus t1) = ttLUNs (tStatus t2)"
    and vers: "\<forall>r \<in> set (secret_refs (tsInitiators (tSpec t1))). secret_version c1 ?ns r = secret_version c2 ?ns r"
    by (auto dest: map_injective[OF _ injI[OF lun_segment_inj]])
  have "chap1 = chap2"
    using secret_loop_chap[OF det k1[unfolded ensure_inputs_def] k2[unfolded ensure_inputs_def id(2) spec[symmetric]] vers] .
  with EnsureTarget_cong[OF id(1,3) spec luns] show ?thesis by simp
qed


text \<open>Two snapshots that differ only in what the agent itself writes.\<close>

definition skip_target :: "string \<Rightarrow> Target" where
  "skip_target st = \<lparr>tMeta = meta0 ''ns'' ''x'',
     tSpec = \<lparr>tsVIP = '''', tsLUNs = [], tsInitiators = [\<lparr>iniIQN = ''iqn.new'', iniChapSecretRef = ''chap''\<rparr>]\<rparr>,
     tStatus = \<lparr>ttConditions = [], ttIQN = ''iqn.x'', ttActiveNode = ''a'', ttLUNs = [\<lparr>lsID = 0, lsDevice = ''/dev/drbd1''\<rparr>],
       ttChapSecretVersions = [], ttSessions = 0, ttState = st\<rparr>\<rparr>"

definition skip_cluster :: kclient where
  "skip_cluster = client0\<lparr>GetSecret := \<lambda>_. Inr \<lparr>secMeta = (meta0 ''ns'' ''chap'')\<lparr>omResourceVersion := ''7''\<rparr>,
     secData = [''username'' \<mapsto> ''u'', ''password'' \<mapsto> ''p'']\<rparr>\<rparr>"

lemma skip_inputs: "ensure_inputs skip_cluster (skip_target st) = Inr (''g0|0:/dev/drbd1|chap:7'', [''iqn.new'' \<mapsto> \<lparr>ccUser = ''u'', ccPassword = ''p''\<rparr>])"
proof -
  have "itoa 0 = ''0''" by code_simp
  then show ?thesis by (simp add: ensure_inputs_def skip_cluster_def skip_target_def meta0_def ChapCredentials_def mget_def Let_def)
qed

theorem target_skip_sound_witness:
  "EnsureTarget acl_host quiet_fs lio_lib '''' (skip_target '''') [''iqn.new'' \<mapsto> \<lparr>ccUser = ''u'', ccPassword = ''p''\<rparr>] =
   EnsureTarget acl_host quiet_fs lio_lib '''' (skip_target ''Exported'') [''iqn.new'' \<mapsto> \<lparr>ccUser = ''u'', ccPassword = ''p''\<rparr>]"
proof (rule target_skip_sound[OF _ _ skip_inputs skip_inputs])
  show "one_target (skip_target '''') (skip_target ''Exported'')" by (simp add: one_target_def skip_target_def)
  show "versions_determine skip_cluster skip_cluster" by (simp add: versions_determine_def skip_cluster_def)
qed

section \<open>What a pass does\<close>

text \<open>A target that is being deleted, or is placed on another node, is torn down by the pass: the
  export if the host has one, the spec's address and the recorded one; the cache entry goes, so a
  return to this node is a full walk. \<open>Removed\<close> is reported exactly by the node that served a deleted
  target, after the teardown ran, and nothing else of the object is written.\<close>

theorem target_agent_teardown:
  assumes "GetTarget c req = Inr t" and "omDeleting (tMeta t) \<or> ttActiveNode (tStatus t) \<noteq> node"
  shows "let m = TargetAgentReconcile lib c os fs glib rt node req applied in
    tears_down glib rt (omName (tMeta t)) (tsVIP (tSpec t)) (log_of m h) \<and>
    fst (value_of m h) = applied(req := None) \<and>
    fst (snd (value_of m h)) =
      (if omDeleting (tMeta t) \<and> ttActiveNode (tStatus t) = node \<and> ttState (tStatus t) \<noteq> ''Removed''
       then [AgentTargetStatus (t\<lparr>tStatus := (tStatus t)\<lparr>ttState := ''Removed''\<rparr>\<rparr>)] else [])"
proof -
  have "traces (TargetAgentReconcile lib c os fs glib rt node req applied)
    (\<lambda>v l. tears_down glib rt (omName (tMeta t)) (tsVIP (tSpec t)) l \<and> fst v = applied(req := None) \<and>
      fst (snd v) = (if omDeleting (tMeta t) \<and> ttActiveNode (tStatus t) = node \<and> ttState (tStatus t) \<noteq> ''Removed''
       then [AgentTargetStatus (t\<lparr>tStatus := (tStatus t)\<lparr>ttState := ''Removed''\<rparr>\<rparr>)] else []))"
  proof (cases "omDeleting (tMeta t)")
    case True
    show ?thesis
      unfolding TargetAgentReconcile_def assms(1) agent_delete_pass_def sum.case if_P[OF True] State_Monad.bind_assoc State_Monad.bind_left_identity
      by (rule traces_weaken[OF traces_bind[OF TeardownTarget_trace traces_return]])
         (auto simp: True Let_def split: sum.splits)
  next
    case False
    with assms(2) have n: "ttActiveNode (tStatus t) \<noteq> node" by simp
    show ?thesis
      unfolding TargetAgentReconcile_def assms(1) sum.case if_not_P[OF False] if_P[OF n]
      by (rule traces_weaken[OF traces_bind[OF TeardownTarget_trace traces_return]]) (auto simp: False)
  qed
  from traces_run[OF this] show ?thesis by (simp add: Let_def)
qed

definition gone_target :: Target where
  "gone_target = (skip_target ''Exported'')\<lparr>tMeta := (meta0 ''ns'' ''x'')\<lparr>omDeleting := True\<rparr>\<rparr>"

theorem target_agent_teardown_witness:
  "fst (snd (value_of (TargetAgentReconcile std_metalib (skip_cluster\<lparr>GetTarget := \<lambda>_. Inr gone_target\<rparr>) acl_host quiet_fs lio_lib '''' ''a''
     \<lparr>nnNamespace = ''ns'', nnName = ''x''\<rparr> Map.empty) ())) =
   [AgentTargetStatus (gone_target\<lparr>tStatus := (tStatus gone_target)\<lparr>ttState := ''Removed''\<rparr>\<rparr>)]"
  using target_agent_teardown[of "skip_cluster\<lparr>GetTarget := \<lambda>_. Inr gone_target\<rparr>" "\<lparr>nnNamespace = ''ns'', nnName = ''x''\<rparr>" gone_target "''a''"
      std_metalib acl_host quiet_fs lio_lib "''''" Map.empty "()"]
  by (simp add: gone_target_def skip_target_def Let_def)

text \<open>The live pass: what is written and cached after a walk.\<close>

lemma live_pass:
  assumes t: "GetTarget c req = Inr t" "\<not> omDeleting (tMeta t)" "ttActiveNode (tStatus t) = node"
  shows "ensures (\<lambda>l. l = []) (TargetAgentReconcile lib c os fs glib rt node req applied)
    (\<lambda>v l. (\<forall>t' \<in> set (fst (snd v)). \<exists>key chap e. ensure_inputs c t = Inr (key, chap) \<and> t' = AgentTargetStatus (host_status lib t e) \<and>
               (e = None \<longrightarrow> lio_done t chap l)) \<and>
           (fst v = applied \<or> (\<exists>key chap. ensure_inputs c t = Inr (key, chap) \<and> fst v = applied(req \<mapsto> key) \<and> lio_done t chap l)))"
proof -
  have walk: "ensures (\<lambda>l. l = []) (EnsureTarget os fs glib rt t chap) (\<lambda>e l. e = None \<longrightarrow> lio_done t chap l)" for chap
    by (rule ensures_weaken[OF lio_EnsureTarget]) (auto simp: jinv_def)
  show ?thesis
    unfolding TargetAgentReconcile_def t(1) sum.case if_not_P[OF t(2)] t(3)
    by (rule ensures_if, simp, rule ensures_if, rule ensures_return, simp, rule ensures_case_sum, rule ensures_return, simp,
        rule ensures_case_prod, rule ensures_if, rule ensures_return, simp, rule ensures_bind[OF walk])
       (auto simp: Let_def intro!: ensures_return split: sum.splits)
qed

text \<open>\<^bold>\<open>C22\<close>. The agent's report is honest: a pass over a target placed here writes \<open>HostReady\<close> true, and
  remembers the pass as converged, only when the walk of this very pass exported the whole target with
  the credentials read in it. A walk that failed is never remembered.\<close>

theorem target_agent_honest:
  assumes laws: "metalib_laws lib"
    and t: "GetTarget c req = Inr t" "\<not> omDeleting (tMeta t)" "ttActiveNode (tStatus t) = node"
    and m: "m = TargetAgentReconcile lib c os fs glib rt node req applied"
    and ready: "(\<exists>t'. AgentTargetStatus t' \<in> set (fst (snd (value_of m h))) \<and>
                  IsStatusConditionTrue lib (ttConditions (tStatus t')) ConditionHostReady) \<or> fst (value_of m h) \<noteq> applied"
  shows "\<exists>key chap. ensure_inputs c t = Inr (key, chap) \<and> lio_done t chap (log_of m h)"
proof -
  have hs: "IsStatusConditionTrue lib (ttConditions (tStatus (host_status lib t e))) ConditionHostReady \<Longrightarrow> e = None" for e
    by (auto simp: host_status_def Let_def metalib_laws.is_true_set[OF laws] split: if_splits)
  note post = ensures_run[OF live_pass[OF t], of lib os fs glib rt applied h, folded m]
  from ready show ?thesis
  proof
    assume "\<exists>t'. AgentTargetStatus t' \<in> set (fst (snd (value_of m h))) \<and> IsStatusConditionTrue lib (ttConditions (tStatus t')) ConditionHostReady"
    then obtain t' where t': "AgentTargetStatus t' \<in> set (fst (snd (value_of m h)))"
      and r: "IsStatusConditionTrue lib (ttConditions (tStatus t')) ConditionHostReady" by blast
    from bspec[OF conjunct1[OF post] t'] obtain key chap e where "ensure_inputs c t = Inr (key, chap)" "t' = host_status lib t e"
      "e = None \<longrightarrow> lio_done t chap (log_of m h)" by blast
    with hs r show ?thesis by blast
  next
    assume "fst (value_of m h) \<noteq> applied"
    with conjunct2[OF post] show ?thesis by blast
  qed
qed


definition live_cluster :: kclient where
  "live_cluster = skip_cluster\<lparr>GetTarget := \<lambda>_. Inr (skip_target '''')\<rparr>"

lemma live_cached:
  "fst (value_of (TargetAgentReconcile std_metalib live_cluster acl_host quiet_fs lio_lib '''' ''a'' \<lparr>nnNamespace = ''ns'', nnName = ''x''\<rparr> Map.empty) ())
     \<lparr>nnNamespace = ''ns'', nnName = ''x''\<rparr> \<noteq> None"
  by code_simp

theorem target_agent_honest_witness:
  "\<exists>key chap. ensure_inputs live_cluster (skip_target '''') = Inr (key, chap) \<and>
     lio_done (skip_target '''') chap (log_of (TargetAgentReconcile std_metalib live_cluster acl_host quiet_fs lio_lib '''' ''a''
       \<lparr>nnNamespace = ''ns'', nnName = ''x''\<rparr> Map.empty) ())"
proof (rule target_agent_honest[OF std.metalib_laws_axioms _ _ _ refl])
  show "GetTarget live_cluster \<lparr>nnNamespace = ''ns'', nnName = ''x''\<rparr> = Inr (skip_target '''')" by (simp add: live_cluster_def)
  show "\<not> omDeleting (tMeta (skip_target ''''))" by (simp add: skip_target_def meta0_def)
  show "ttActiveNode (tStatus (skip_target '''')) = ''a''" by (simp add: skip_target_def)
qed (use live_cached in auto)

end
