(* ===== verification/Share_Host.thy ===== *)
theory Share_Host
  imports Host Api_Types "HOL-Library.Multiset"
begin

text \<open>
  File shares and SMB users on a node, \<open>internal/agent/share.go\<close>: mount and format of the placed
  device, the NFS export, the teardown, the samba include and the samba users with their sessions.
  \<open>rt\<close> is the manager's path prefix, \<open>node\<close> its node.
\<close>

abbreviation shareRoot :: string where
  "shareRoot \<equiv> ''/var/lib/stornas/shares''"

abbreviation exportsDir :: string where
  "exportsDir \<equiv> ''/etc/exports.d''"

abbreviation sambaShares :: string where
  "sambaShares \<equiv> ''/etc/samba/stornas-shares.conf''"

definition mountPoint :: "string \<Rightarrow> string \<Rightarrow> string" where
  "mountPoint ns name = pathJoin shareRoot (ns @ ''-'' @ name)"

definition exportsFile :: "string \<Rightarrow> string \<Rightarrow> string" where
  "exportsFile ns name = pathJoin exportsDir (''stornas-'' @ ns @ ''-'' @ name @ ''.exports'')"

section \<open>Mount and export\<close>

text \<open>The error of unmounting a stale device, and whether the share is mounted.\<close>

definition share_unpin :: "'h os \<Rightarrow> string \<Rightarrow> string \<Rightarrow> ('h, go_error option \<times> bool) prog" where
  "share_unpin os dev mnt = do {
     src \<leftarrow> Run os ''findmnt'' [''-n'', ''-o'', ''SOURCE'', mnt];
     if snd src = None \<and> trimSpace (fst src) \<noteq> dev then do {
       e \<leftarrow> run_err os ''umount'' [mnt];
       ret (e, False) }
     else ret (None, snd src = None) }"

definition share_mount :: "'h os \<Rightarrow> 'h fs \<Rightarrow> string \<Rightarrow> string \<Rightarrow> string \<Rightarrow> ('h, go_error option) prog" where
  "share_mount os fs rt dev mnt = do {
     fsout \<leftarrow> Run os ''blkid'' [''-o'', ''value'', ''-s'', ''TYPE'', dev];
     let fstype = trimSpace (fst fsout);
     andThen
       (if fstype = '''' then run_err os ''mkfs.xfs'' [dev]
        else if fstype = ''xfs'' then ret None
        else ret (Some (errorf (''device '' @ dev @ '' carries '' @ fstype @ '', refusing to mount as xfs''))))
       (andThen (file_err fs (MkdirAll (rt @ mnt)))
         (andThen (run_err os ''mount'' [''-t'', ''xfs'', dev, mnt])
           (do { _ \<leftarrow> Run os ''restorecon'' [''-RF'', mnt]; ret None }))) }"

definition exports_line :: "string \<Rightarrow> NFSExport \<Rightarrow> string" where
  "exports_line mnt nfs = mnt @ '' '' @ joinWith '' '' (nfsClients nfs) @ [CHR 0x0A]"

definition IsNotExist :: "go_error option \<Rightarrow> bool" where
  "IsNotExist e \<longleftrightarrow> IsReason NotFound e"

definition reexport :: "'h os \<Rightarrow> ('h, go_error option) prog" where
  "reexport os = andThen (run_err os ''exportfs'' [''-ra'']) (run_err os ''exportfs'' [''-f''])"

definition share_export :: "'h os \<Rightarrow> 'h fs \<Rightarrow> string \<Rightarrow> Share \<Rightarrow> ('h, go_error option) prog" where
  "share_export os fs rt share =
     (let ns = omNamespace (shMeta share); name = omName (shMeta share); path = rt @ exportsFile ns name in
      andThen
        (case ssNFS (shSpec share) of
           Some nfs \<Rightarrow> file_err fs (WriteFile path (exports_line (mountPoint ns name) nfs))
         | None \<Rightarrow> do { e \<leftarrow> file_err fs (RemoveFile path); ret (if IsNotExist e then None else e) })
        (reexport os))"

definition EnsureShare :: "'h os \<Rightarrow> 'h fs \<Rightarrow> string \<Rightarrow> Share \<Rightarrow> ('h, go_error option) prog" where
  "EnsureShare os fs rt share =
     (let mnt = mountPoint (omNamespace (shMeta share)) (omName (shMeta share)); dev = shDevice (shStatus share) in
      do {
        r \<leftarrow> share_unpin os dev mnt;
        if fst r \<noteq> None then ret (fst r)
        else andThen (if \<not> snd r then share_mount os fs rt dev mnt else ret None) (share_export os fs rt share) })"

definition Present :: "'h fs \<Rightarrow> string \<Rightarrow> string \<Rightarrow> string \<Rightarrow> ('h, bool) prog" where
  "Present fs rt ns name = do {
     e \<leftarrow> file_err fs (Stat (rt @ mountPoint ns name));
     if e = None then ret True
     else do { e' \<leftarrow> file_err fs (Stat (rt @ exportsFile ns name)); ret (e' = None) } }"

definition RemoveShare :: "'h os \<Rightarrow> 'h fs \<Rightarrow> string \<Rightarrow> string \<Rightarrow> string \<Rightarrow> ('h, unit) prog" where
  "RemoveShare os fs rt ns name = do {
     _ \<leftarrow> file_err fs (RemoveFile (rt @ exportsFile ns name));
     _ \<leftarrow> reexport os;
     _ \<leftarrow> Run os ''umount'' [mountPoint ns name];
     _ \<leftarrow> file_err fs (RemoveFile (rt @ mountPoint ns name));
     ret () }"

section \<open>The samba include\<close>

text \<open>Shares have distinct keys, so any sort by the key gives the same list.\<close>

definition share_key :: "Share \<Rightarrow> string" where
  "share_key s = omNamespace (shMeta s) @ ''/'' @ omName (shMeta s)"

definition smb_served :: "string \<Rightarrow> Share \<Rightarrow> bool" where
  "smb_served node s \<longleftrightarrow> ssSMB (shSpec s) \<noteq> None \<and> shNode (shStatus s) = node \<and> \<not> omDeleting (shMeta s)"

definition smb_section :: "Share \<Rightarrow> string" where
  "smb_section s =
     (case ssSMB (shSpec s) of
        None \<Rightarrow> ''''
      | Some smb \<Rightarrow>
        let name = (if smbName smb = '''' then omName (shMeta s) else smbName smb);
            nl = [CHR 0x0A]; tab = [CHR 0x09] in
        ''['' @ name @ '']'' @ nl @
        tab @ ''path = '' @ mountPoint (omNamespace (shMeta s)) (omName (shMeta s)) @ nl @
        tab @ ''read only = no'' @ nl @ tab @ ''force user = root'' @ nl @
        (if smbValidUsers smb \<noteq> [] then tab @ ''valid users = '' @ joinWith '' '' (smbValidUsers smb) @ nl else '''') @ nl)"

definition samba_conf :: "string \<Rightarrow> Share list \<Rightarrow> string" where
  "samba_conf node shares =
     concat (map smb_section (filter (smb_served node) (sort_by (\<lambda>a b. share_key a < share_key b) shares)))"

definition ApplySamba :: "'h os \<Rightarrow> 'h fs \<Rightarrow> string \<Rightarrow> string \<Rightarrow> Share list \<Rightarrow> ('h, go_error option) prog" where
  "ApplySamba os fs rt node shares =
     andThen (file_err fs (WriteFile (rt @ sambaShares) (samba_conf node shares)))
       (run_err os ''smbcontrol'' [''all'', ''reload-config''])"

section \<open>SMB users\<close>

definition EnsureSMBUser :: "'h os \<Rightarrow> string \<Rightarrow> string \<Rightarrow> ('h, go_error option) prog" where
  "EnsureSMBUser os user password = do {
     u \<leftarrow> run_err os ''id'' [''-u'', user];
     andThen (if u \<noteq> None then run_err os ''useradd'' [''--no-create-home'', ''--shell'', ''/sbin/nologin'', user] else ret None)
       (do { r \<leftarrow> RunInput os (password @ [CHR 0x0A] @ password @ [CHR 0x0A]) ''smbpasswd'' [''-s'', ''-a'', user]; ret (snd r) }) }"

text \<open>The pids of the listed sessions, in the order of the range over the decoded map.\<close>

fun pid_loop :: "string \<Rightarrow> (string \<times> string) list \<Rightarrow> string list \<Rightarrow> string list" where
  "pid_loop user [] pids = pids"
| "pid_loop user ((name, pid) # sess) pids =
     (if name \<noteq> user \<or> pid \<in> set pids then pid_loop user sess pids else pid_loop user sess (pids @ [pid]))"

definition smbSessionPIDs :: "'h os \<Rightarrow> golib \<Rightarrow> string \<Rightarrow> ('h, go_error + string list) prog" where
  "smbSessionPIDs os lib user = do {
     out \<leftarrow> Run os ''smbstatus'' [''--processes'', ''--user'', user, ''--json''];
     ret (case snd out of
            Some e \<Rightarrow> Inl e
          | None \<Rightarrow>
            (case UnmarshalSessions lib (fst out) of
               Inl e \<Rightarrow> Inl (wrap ''smbstatus: '' e)
             | Inr sess \<Rightarrow> Inr (sort_by (<) (pid_loop user sess [])))) }"

text \<open>The shutdown loop returns \<open>failed\<close>.\<close>

fun shutdown_loop :: "'h os \<Rightarrow> string list \<Rightarrow> bool \<Rightarrow> ('h, bool) prog" where
  "shutdown_loop os [] failed = ret failed"
| "shutdown_loop os (pid # pids) failed = do {
     e \<leftarrow> run_err os ''smbcontrol'' [pid, ''shutdown''];
     shutdown_loop os pids (failed \<or> e \<noteq> None) }"

definition endSMBSessions :: "'h os \<Rightarrow> golib \<Rightarrow> string \<Rightarrow> ('h, go_error option) prog" where
  "endSMBSessions os lib user = do {
     pids \<leftarrow> smbSessionPIDs os lib user;
     (case pids of
        Inl e \<Rightarrow> ret (Some e)
      | Inr ps \<Rightarrow> do {
          failed \<leftarrow> shutdown_loop os ps False;
          if \<not> failed then ret None
          else do {
            left \<leftarrow> smbSessionPIDs os lib user;
            ret (case left of
                   Inl e \<Rightarrow> Some e
                 | Inr ls \<Rightarrow>
                   if ls \<noteq> [] then Some (errorf (''smb sessions of '' @ user @ '' still served by smbd '' @ joinWith '' '' ls))
                   else None) } }) }"

definition RemoveSMBUser :: "'h os \<Rightarrow> golib \<Rightarrow> string \<Rightarrow> ('h, go_error option) prog" where
  "RemoveSMBUser os lib user = do {
     r \<leftarrow> Run os ''smbpasswd'' [''-x'', user];
     (case snd r of
        Some e \<Rightarrow> if \<not> strContains (eText e @ fst r) ''find'' then ret (Some e) else endSMBSessions os lib user
      | None \<Rightarrow> endSMBSessions os lib user) }"

section \<open>Foreign data is never touched\<close>

abbreviation findmnt_cmd :: "string \<Rightarrow> cmd" where
  "findmnt_cmd mnt \<equiv> plain ''findmnt'' [''-n'', ''-o'', ''SOURCE'', mnt]"

abbreviation blkid_cmd :: "string \<Rightarrow> cmd" where
  "blkid_cmd dev \<equiv> plain ''blkid'' [''-o'', ''value'', ''-s'', ''TYPE'', dev]"

text \<open>What the log shows of a device: it was found not mounted (or the stale mount was undone), it was
  probed as xfs, or as blank and then formatted.\<close>

definition unpinned :: "string \<Rightarrow> log \<Rightarrow> bool" where
  "unpinned mnt l \<longleftrightarrow> (\<exists>r. (findmnt_cmd mnt, r) \<in> set l \<and> snd r \<noteq> None) \<or> ran_ok l ''umount'' [mnt]"

definition formatted :: "string \<Rightarrow> log \<Rightarrow> bool" where
  "formatted dev l \<longleftrightarrow> (\<exists>r. (blkid_cmd dev, r) \<in> set l \<and>
     (trimSpace (fst r) = ''xfs'' \<or> trimSpace (fst r) = '''' \<and> ran_ok l ''mkfs.xfs'' [dev]))"

definition share_ok :: "string \<Rightarrow> string \<Rightarrow> log \<Rightarrow> cmd \<Rightarrow> bool" where
  "share_ok dev mnt l c \<longleftrightarrow>
     (cName c = ''mkfs.xfs'' \<longrightarrow>
        c = plain ''mkfs.xfs'' [dev] \<and> (\<exists>r. last l = (blkid_cmd dev, r) \<and> l \<noteq> [] \<and> trimSpace (fst r) = '''')) \<and>
     (cName c = ''mount'' \<longrightarrow>
        c = plain ''mount'' [''-t'', ''xfs'', dev, mnt] \<and> formatted dev l \<and> unpinned mnt l) \<and>
     (cName c = ''umount'' \<longrightarrow>
        c = plain ''umount'' [mnt] \<and> (\<exists>r. last l = (findmnt_cmd mnt, r) \<and> l \<noteq> [] \<and> snd r = None \<and> trimSpace (fst r) \<noteq> dev))"

lemma log_stable_unpinned [log_stable_intro]: "log_stable (unpinned mnt)"
  unfolding unpinned_def[abs_def] by (intro log_stable_intro)

lemma log_stable_formatted [log_stable_intro]: "log_stable (formatted dev)"
  unfolding formatted_def[abs_def] by (intro log_stable_intro)

lemma share_ok_other: "cName c \<notin> {''mkfs.xfs'', ''mount'', ''umount''} \<Longrightarrow> share_ok dev mnt l c"
  by (simp add: share_ok_def)

lemma share_ok_file: "share_ok dev mnt l (file_cmd f)"
  by (cases f) (simp_all add: share_ok_def)

lemma share_file_err:
  assumes st: "log_stable S"
  shows "ensures (jinv (share_ok dev mnt) S) (file_err fs f) (\<lambda>e l. jinv (share_ok dev mnt) S l \<and> (\<exists>r. (file_cmd f, r) \<in> set l \<and> snd r = e))"
  by (rule ensures_file_err) (use jinv_snoc[of S "share_ok dev mnt", OF st _ share_ok_file] in auto)

lemma share_mount_step:
  "ensures (jinv (share_ok dev mnt) (unpinned mnt)) (share_mount os fs rt dev mnt)
    (\<lambda>e l. jinv (share_ok dev mnt) (unpinned mnt) l \<and> (e = None \<longrightarrow> ran_ok l ''mount'' [''-t'', ''xfs'', dev, mnt]))"
proof -
  let ?J = "jinv (share_ok dev mnt)" and ?S = "\<lambda>l. unpinned mnt l \<and> formatted dev l" and ?M = "\<lambda>l. ran_ok l ''mount'' [''-t'', ''xfs'', dev, mnt]"
  let ?Q = "\<lambda>e l. ?J (unpinned mnt) l \<and> (e = None \<longrightarrow> ?M l)"
  have probe: "ensures (?J (unpinned mnt)) (Run os ''blkid'' [''-o'', ''value'', ''-s'', ''TYPE'', dev])
      (\<lambda>r l. ?J (unpinned mnt) l \<and> l \<noteq> [] \<and> last l = (blkid_cmd dev, r))"
    by (rule ensures_Run) (simp add: jinv_snoc[OF log_stable_unpinned] share_ok_other)
  have mkfs: "ensures (\<lambda>l. ?J (unpinned mnt) l \<and> l \<noteq> [] \<and> last l = (blkid_cmd dev, r))
      (if trimSpace (fst r) = '''' then run_err os ''mkfs.xfs'' [dev]
        else if trimSpace (fst r) = ''xfs'' then ret None
        else ret (Some err)) (\<lambda>e l. if e = None then ?J ?S l else ?J (unpinned mnt) l)" for r err
  proof (intro ensures_if ensures_run_err ensures_return)
    fix l r'
    assume l: "?J (unpinned mnt) l \<and> l \<noteq> [] \<and> last l = (blkid_cmd dev, r)" and blank: "trimSpace (fst r) = ''''"
    then have "?J (unpinned mnt) (l @ [(plain ''mkfs.xfs'' [dev], r')])"
      by (intro jinv_snoc[OF log_stable_unpinned]) (simp_all add: share_ok_def)
    moreover have "formatted dev (l @ [(plain ''mkfs.xfs'' [dev], r')])" if "snd r' = None"
    proof -
      have "(blkid_cmd dev, r) \<in> set l" using l by (metis last_in_set)
      then show ?thesis
        unfolding formatted_def using blank that by (intro exI[of _ r]) (auto intro!: ran_okI[of _ _ r'])
    qed
    ultimately show "if snd r' = None then ?J ?S (l @ [(plain ''mkfs.xfs'' [dev], r')]) else ?J (unpinned mnt) (l @ [(plain ''mkfs.xfs'' [dev], r')])"
      by (simp add: jinv_conj)
  next
    fix l
    assume l: "?J (unpinned mnt) l \<and> l \<noteq> [] \<and> last l = (blkid_cmd dev, r)" and xfs: "trimSpace (fst r) = ''xfs''"
    then have "(blkid_cmd dev, r) \<in> set l" by (metis last_in_set)
    with xfs have "formatted dev l" unfolding formatted_def by blast
    with l show "if None = None then ?J ?S l else ?J (unpinned mnt) l" by (simp add: jinv_conj)
  qed auto
  have st: "log_stable ?S" by (intro log_stable_intro)
  have mk: "ensures (?J ?S) (file_err fs (MkdirAll p)) (\<lambda>_. ?J ?S)" for p
    by (rule ensures_weaken[OF share_file_err[OF st]]) auto
  have mount: "ensures (?J ?S) (run_err os ''mount'' [''-t'', ''xfs'', dev, mnt]) (\<lambda>e l. ?J ?S l \<and> (e = None \<longrightarrow> ran_ok l ''mount'' [''-t'', ''xfs'', dev, mnt]))"
    by (rule jinv_run_err[OF st]) (simp add: share_ok_def jinv_def)
  have label: "ensures (?J (\<lambda>l. ?S l \<and> ran_ok l n a)) (do { _ \<leftarrow> Run os ''restorecon'' [''-RF'', mnt]; ret None }) (\<lambda>e l. ?J ?S l \<and> ran_ok l n a)" for n a
    by (rule ensures_bind[OF keeps_ensures[OF keeps_Run]], rule jinv_snoc) (auto intro!: log_stable_intro ensures_return simp: share_ok_other jinv_conj)
  show ?thesis
    unfolding share_mount_def Let_def
    by (rule ensures_bind[OF probe], rule ensures_andThen[OF ensures_weaken[OF mkfs, where Q' = "\<lambda>e l. if e = None then ?J ?S l else ?Q e l"]],
        assumption, (auto split: if_splits)[1], rule ensures_andThen[OF ensures_weaken[OF mk, where Q' = "\<lambda>e l. if e = None then ?J ?S l else ?Q e l"]],
        assumption, (auto simp: jinv_conj)[1], rule ensures_andThen[OF ensures_weaken[OF mount, where Q' = "\<lambda>e l. if e = None then ?J (\<lambda>l. ?S l \<and> ?M l) l else ?Q e l"]],
        assumption, (auto simp: jinv_conj)[1], rule ensures_weaken[OF label], assumption, simp add: jinv_conj)
qed


text \<open>What a successful pass leaves: the placed device is mounted, the export file says what the spec
  says, and the export table was synced and the kernel's caches flushed after it.\<close>

definition served :: "string \<Rightarrow> string \<Rightarrow> log \<Rightarrow> bool" where
  "served dev mnt l \<longleftrightarrow> ran_ok l ''mount'' [''-t'', ''xfs'', dev, mnt] \<or>
     (\<exists>r. (findmnt_cmd mnt, r) \<in> set l \<and> snd r = None \<and> trimSpace (fst r) = dev)"

definition exported :: "string \<Rightarrow> Share \<Rightarrow> log \<Rightarrow> bool" where
  "exported rt share l \<longleftrightarrow>
     (let ns = omNamespace (shMeta share); name = omName (shMeta share); path = rt @ exportsFile ns name in
      \<exists>pre r s t. l = pre @ [r, (plain ''exportfs'' [''-ra''], s), (plain ''exportfs'' [''-f''], t)] \<and> snd s = None \<and> snd t = None \<and>
        (case ssNFS (shSpec share) of
           Some nfs \<Rightarrow> fst r = file_cmd (WriteFile path (exports_line (mountPoint ns name) nfs)) \<and> snd (snd r) = None
         | None \<Rightarrow> fst r = file_cmd (RemoveFile path) \<and> (snd (snd r) = None \<or> IsNotExist (snd (snd r)))))"

lemma log_stable_served [log_stable_intro]: "log_stable (served dev mnt)"
  unfolding served_def[abs_def] by (intro log_stable_intro)

lemma reexport_trace:
  "traces (reexport os) (\<lambda>e l. e = None \<longrightarrow> (\<exists>s t. l = [(plain ''exportfs'' [''-ra''], s), (plain ''exportfs'' [''-f''], t)] \<and> snd s = None \<and> snd t = None))"
  unfolding reexport_def by (rule traces_weaken[OF traces_andThen[OF traces_run_err traces_run_err]]) force

lemma share_export_trace: "traces (share_export os fs rt share) (\<lambda>e l. e = None \<longrightarrow> exported rt share l)"
proof (cases "ssNFS (shSpec share)")
  case None
  let ?path = "rt @ exportsFile (omNamespace (shMeta share)) (omName (shMeta share))"
  have rm: "traces (do { e \<leftarrow> file_err fs (RemoveFile ?path); ret (if IsNotExist e then None else e) })
      (\<lambda>e l. e = None \<longrightarrow> (\<exists>r. l = [(file_cmd (RemoveFile ?path), r)] \<and> (snd r = None \<or> IsNotExist (snd r))))"
    by (rule traces_weaken[OF traces_bind[OF traces_file_err traces_return]]) (force simp del: file_cmd.simps split: if_splits)
  show ?thesis
    unfolding share_export_def Let_def None option.case
    by (rule traces_weaken[OF traces_andThen[OF rm reexport_trace]]) (force simp: exported_def None simp del: file_cmd.simps)
next
  case (Some nfs)
  show ?thesis
    unfolding share_export_def Let_def Some option.case
    by (rule traces_weaken[OF traces_andThen[OF traces_file_err reexport_trace]]) (force simp: exported_def Some simp del: file_cmd.simps)
qed

lemma exported_suffix: "exported rt share post \<Longrightarrow> exported rt share (pre @ post)"
  unfolding exported_def Let_def by (metis append_assoc)

lemma share_export_step:
  assumes st: "log_stable S"
  shows "ensures (jinv (share_ok dev mnt) S) (share_export os fs rt share)
    (\<lambda>e l. jinv (share_ok dev mnt) S l \<and> (e = None \<longrightarrow> exported rt share l))"
proof -
  have "keeps (jinv (share_ok dev mnt) S) (share_export os fs rt share)"
    unfolding share_export_def reexport_def
    by (intro keeps_intro jinv_snoc[OF st] share_ok_file) (simp_all add: share_ok_other)
  from ensures_keeps_traces[OF this share_export_trace] show ?thesis
    by (rule ensures_weaken) (auto intro: exported_suffix)
qed

lemma share_unpin_step:
  "ensures (\<lambda>l. l = []) (share_unpin os dev mnt)
    (\<lambda>r l. jinv (share_ok dev mnt) (\<lambda>_. True) l \<and> (fst r = None \<longrightarrow> (if snd r then served dev mnt l else unpinned mnt l)))"
proof -
  have find: "ensures (\<lambda>l. l = []) (Run os ''findmnt'' [''-n'', ''-o'', ''SOURCE'', mnt]) (\<lambda>r l. l = [(findmnt_cmd mnt, r)])"
    by (rule ensures_Run) simp
  have one: "justified J [e] \<longleftrightarrow> J [] (fst e)" for J e using justified_snoc[of J "[]" e] by simp
  have two: "justified J [e, f] \<longleftrightarrow> J [] (fst e) \<and> J [e] (fst f)" for J e f using justified_snoc[of J "[e]" f] one by simp
  have um: "ensures (\<lambda>l. l = [(findmnt_cmd mnt, r)]) (run_err os ''umount'' [mnt])
      (\<lambda>e l. \<exists>s. l = [(findmnt_cmd mnt, r), (plain ''umount'' [mnt], s)] \<and> e = snd s)" for r
    by (rule ensures_run_err) auto
  show ?thesis
    unfolding share_unpin_def
    by (rule ensures_bind[OF find], rule ensures_if, rule ensures_bind[OF um], rule ensures_return)
       (auto simp: jinv_def one two share_ok_def unpinned_def served_def intro!: ensures_return ran_okI)
qed

lemma EnsureShare_step:
  fixes share rt
  defines "dev \<equiv> shDevice (shStatus share)" and "mnt \<equiv> mountPoint (omNamespace (shMeta share)) (omName (shMeta share))"
  shows "ensures (\<lambda>l. l = []) (EnsureShare os fs rt share)
    (\<lambda>e l. jinv (share_ok dev mnt) (\<lambda>_. True) l \<and> (e = None \<longrightarrow> served dev mnt l \<and> exported rt share l))"
proof -
  let ?J = "jinv (share_ok dev mnt)"
  have exp: "ensures (?J (served dev mnt)) (share_export os fs rt share)
      (\<lambda>e l. ?J (\<lambda>_. True) l \<and> (e = None \<longrightarrow> served dev mnt l \<and> exported rt share l))"
    by (rule ensures_weaken[OF share_export_step[OF log_stable_served]]) (auto simp: jinv_def)
  have mnt: "ensures (?J (unpinned mnt)) (share_mount os fs rt dev mnt)
      (\<lambda>e l. if e = None then ?J (served dev mnt) l else ?J (\<lambda>_. True) l \<and> (e = None \<longrightarrow> served dev mnt l \<and> exported rt share l))"
    by (rule ensures_weaken[OF share_mount_step]) (auto simp: jinv_def served_def)
  have go: "ensures (\<lambda>l. ?J (\<lambda>_. True) l \<and> (if m then served dev mnt l else unpinned mnt l))
      (andThen (if \<not> m then share_mount os fs rt dev mnt else ret None) (share_export os fs rt share))
      (\<lambda>e l. ?J (\<lambda>_. True) l \<and> (e = None \<longrightarrow> served dev mnt l \<and> exported rt share l))" for m
    by (rule ensures_andThen[OF _ exp], cases m)
       (auto simp: jinv_def intro!: ensures_return ensures_weaken[OF mnt])
  show ?thesis
    unfolding EnsureShare_def Let_def dev_def[symmetric] mnt_def[symmetric]
  proof (rule ensures_bind[OF share_unpin_step], rule ensures_if)
    fix r :: "go_error option \<times> bool"
    let ?P = "\<lambda>l. ?J (\<lambda>_. True) l \<and> (fst r = None \<longrightarrow> (if snd r then served dev mnt l else unpinned mnt l))"
    show "fst r \<noteq> None \<Longrightarrow> ensures ?P (ret (fst r)) (\<lambda>e l. ?J (\<lambda>_. True) l \<and> (e = None \<longrightarrow> served dev mnt l \<and> exported rt share l))"
      by (rule ensures_return) blast
    show "\<not> fst r \<noteq> None \<Longrightarrow> ensures ?P (andThen (if \<not> snd r then share_mount os fs rt dev mnt else ret None) (share_export os fs rt share))
        (\<lambda>e l. ?J (\<lambda>_. True) l \<and> (e = None \<longrightarrow> served dev mnt l \<and> exported rt share l))"
      by (rule ensures_weaken[OF go[of "snd r"]]) auto
  qed
qed

text \<open>\<^bold>\<open>C23\<close>. A pass over a share never destroys data and never mounts what it should not, whatever the host
  answers: \<open>mkfs.xfs\<close> runs only on the placed device and only right after \<open>blkid\<close> found nothing on it;
  the device is mounted only after it was probed as xfs or freshly formatted, and only when nothing was
  mounted or the stale mount was undone; a mount is undone only when it pins another device.\<close>

theorem ensure_share_safe:
  "justified (share_ok (shDevice (shStatus share)) (mountPoint (omNamespace (shMeta share)) (omName (shMeta share))))
     (log_of (EnsureShare os fs rt share) h)"
proof -
  have "ensures (\<lambda>l. l = []) (EnsureShare os fs rt share)
    (\<lambda>_. jinv (share_ok (shDevice (shStatus share)) (mountPoint (omNamespace (shMeta share)) (omName (shMeta share)))) (\<lambda>_. True))"
    by (rule ensures_weaken[OF EnsureShare_step]) auto
  from ensures_run[OF this] show ?thesis by (simp add: jinv_def)
qed

text \<open>A pass that reports success has the placed device mounted at the share's mount point and ends
  with the export: the exports file written with exactly the spec's clients (or removed when the spec
  has no NFS), then the export table synced and the kernel's caches flushed, so that a client dropped
  from the spec loses access at once.\<close>

theorem ensure_share_complete:
  assumes "value_of (EnsureShare os fs rt share) h = None"
  shows "served (shDevice (shStatus share)) (mountPoint (omNamespace (shMeta share)) (omName (shMeta share))) (log_of (EnsureShare os fs rt share) h) \<and>
    exported rt share (log_of (EnsureShare os fs rt share) h)"
proof -
  have "ensures (\<lambda>l. l = []) (EnsureShare os fs rt share)
    (\<lambda>e l. e = None \<longrightarrow> served (shDevice (shStatus share)) (mountPoint (omNamespace (shMeta share)) (omName (shMeta share))) l \<and> exported rt share l)"
    by (rule ensures_weaken[OF EnsureShare_step]) auto
  from ensures_run[OF this] assms show ?thesis by simp
qed

definition blank_host :: "unit os" where
  "blank_host h p =
     (\<lparr>prStdout = '''', prStderr = '''',
       prFailed = (if pArgv p ! 8 \<in> {''findmnt'', ''blkid''} then Some ''exit status 1'' else None)\<rparr>, h)"

definition share_fs :: "unit fs" where
  "share_fs h f = (Inr '''', h)"

definition blank_share :: Share where
  "blank_share = \<lparr>shMeta = meta0 ''ns'' ''media'',
     shSpec = \<lparr>ssClaimName = ''c'', ssNFS = Some \<lparr>nfsClients = [''10.0.0.0/24(rw)'']\<rparr>, ssSMB = None\<rparr>,
     shStatus = \<lparr>shConditions = [], shNode = ''a'', shDevice = ''/dev/drbd7'', shState = ''''\<rparr>\<rparr>"

lemma blank_share_exported: "value_of (EnsureShare blank_host share_fs '''' blank_share) () = None"
  by code_simp

theorem ensure_share_complete_witness:
  "served ''/dev/drbd7'' ''/var/lib/stornas/shares/ns-media'' (log_of (EnsureShare blank_host share_fs '''' blank_share) ()) \<and>
   exported '''' blank_share (log_of (EnsureShare blank_host share_fs '''' blank_share) ())"
  using ensure_share_complete[OF blank_share_exported] by (simp add: blank_share_def mountPoint_def pathJoin_def meta0_def)

text \<open>The mount point does not identify a share: the namespace and the name are joined by a dash, which
  both may contain.\<close>

theorem mount_point_collision:
  "mountPoint ''a-b'' ''c'' = mountPoint ''a'' ''b-c'' \<and> exportsFile ''a-b'' ''c'' = exportsFile ''a'' ''b-c''"
  by (simp add: mountPoint_def exportsFile_def pathJoin_def)


section \<open>The samba include is canonical\<close>

lemma sort_by_key: "sort_by (\<lambda>a b. k a < k b) xs = sort_key k xs" for k :: "'a \<Rightarrow> string"
proof -
  have "insert_by (\<lambda>a b. k a < k b) x ys = insort_key k x ys" for x ys
    by (induction ys) auto
  then show ?thesis unfolding sort_by_def sort_key_def by presburger
qed

lemma sorted_keys_unique:
  fixes k :: "'a \<Rightarrow> string"
  assumes "sorted_wrt (\<lambda>a b. k a < k b) xs" and "sorted_wrt (\<lambda>a b. k a < k b) ys" and "set xs = set ys"
  shows "xs = ys"
proof -
  have s: "sorted_wrt (<) (map k xs)" "sorted_wrt (<) (map k ys)"
    using assms(1,2) by (simp_all add: sorted_wrt_map)
  then have keys: "map k xs = map k ys"
    using assms(3) by (intro strict_sorted_equal) simp_all
  have "inj_on k (set xs)"
    using s(1) by (simp add: strict_sorted_iff distinct_map)
  with keys assms(3) show ?thesis by (metis inj_on_map_eq_map inj_on_Un sup.idem)
qed



definition smb_share :: "string \<Rightarrow> bool \<Rightarrow> Share" where
  "smb_share name del = \<lparr>shMeta = (meta0 ''ns'' name)\<lparr>omDeleting := del\<rparr>,
     shSpec = \<lparr>ssClaimName = ''c'', ssNFS = None, ssSMB = Some \<lparr>smbName = '''', smbValidUsers = [''ann'']\<rparr>\<rparr>,
     shStatus = \<lparr>shConditions = [], shNode = ''a'', shDevice = ''/dev/drbd7'', shState = ''''\<rparr>\<rparr>"

lemma smb_shares_sorted: "share_key (smb_share ''x'' False) < share_key (smb_share ''y'' False)"
  by code_simp


section \<open>Revoking a user\<close>

lemma sort_by_less: "sort_by (<) xs = sort xs" for xs :: "string list"
  using sort_by_key[of "\<lambda>x. x"] by simp

text \<open>The pids of a user's sessions.\<close>

definition user_pids :: "string \<Rightarrow> (string \<times> string) list \<Rightarrow> string list" where
  "user_pids user sess = sorted_list_of_set {pid. (user, pid) \<in> set sess}"

lemma pid_loop_set:
  "distinct pids \<Longrightarrow> distinct (pid_loop user sess pids) \<and> set (pid_loop user sess pids) = set pids \<union> {pid. (user, pid) \<in> set sess}"
  by (induction user sess pids rule: pid_loop.induct) auto

lemma pid_loop_sorted: "sort_by (<) (pid_loop user sess []) = user_pids user sess"
  unfolding sort_by_less user_pids_def
  using pid_loop_set[of "[]" user sess] by (metis distinct.simps(1) empty_set sorted_list_of_set_sort_remdups distinct_remdups_id sup_bot_left)

abbreviation smbstatus_cmd :: "string \<Rightarrow> cmd" where
  "smbstatus_cmd user \<equiv> plain ''smbstatus'' [''--processes'', ''--user'', user, ''--json'']"

lemma smbSessionPIDs_trace:
  "traces (smbSessionPIDs os lib user)
    (\<lambda>r l. \<exists>s. l = [(smbstatus_cmd user, s)] \<and>
       (\<forall>ps. r = Inr ps \<longrightarrow> snd s = None \<and> (\<exists>sess. UnmarshalSessions lib (fst s) = Inr sess \<and> ps = user_pids user sess)))"
  unfolding smbSessionPIDs_def
  by (rule traces_weaken[OF traces_bind[OF traces_Run traces_return]]) (auto simp: pid_loop_sorted split: option.splits sum.splits)

lemma shutdown_loop_trace:
  "traces (shutdown_loop os pids failed)
    (\<lambda>f l. map fst l = map (\<lambda>p. plain ''smbcontrol'' [p, ''shutdown'']) pids \<and> (f \<longleftrightarrow> failed \<or> (\<exists>e \<in> set l. snd (snd e) \<noteq> None)))"
proof (induction pids arbitrary: failed)
  case (Cons pid pids)
  show ?case
    unfolding shutdown_loop.simps by (rule traces_weaken[OF traces_bind[OF traces_run_err Cons]]) auto
qed (auto intro: traces_weaken[OF traces_return])


text \<open>What a log that revoked a user shows: the passdb entry was deleted or reported missing, the
  sessions of exactly that user were listed, every process serving one was told to shut down, and
  either each obeyed or a second listing showed none left.\<close>

definition ended :: "golib \<Rightarrow> string \<Rightarrow> log \<Rightarrow> bool" where
  "ended lib user l \<longleftrightarrow> (\<exists>s sess downs rest.
     l = (smbstatus_cmd user, s) # downs @ rest \<and> snd s = None \<and> UnmarshalSessions lib (fst s) = Inr sess \<and>
     map fst downs = map (\<lambda>p. plain ''smbcontrol'' [p, ''shutdown'']) (user_pids user sess) \<and>
     ((\<forall>d \<in> set downs. snd (snd d) = None) \<and> rest = [] \<or>
      (\<exists>s' sess'. rest = [(smbstatus_cmd user, s')] \<and> snd s' = None \<and>
         UnmarshalSessions lib (fst s') = Inr sess' \<and> user_pids user sess' = [])))"

definition revoked :: "golib \<Rightarrow> string \<Rightarrow> log \<Rightarrow> bool" where
  "revoked lib user l \<longleftrightarrow> (\<exists>x l'. l = (plain ''smbpasswd'' [''-x'', user], x) # l' \<and>
     (\<forall>e. snd x = Some e \<longrightarrow> strContains (eText e @ fst x) ''find'') \<and> ended lib user l')"

lemma left_trace:
  "traces (do { left \<leftarrow> smbSessionPIDs os lib user;
      ret (case left of Inl e \<Rightarrow> Some e | Inr ls \<Rightarrow> if ls \<noteq> [] then Some (f ls) else None) })
    (\<lambda>e l. e = None \<longrightarrow> (\<exists>s' sess'. l = [(smbstatus_cmd user, s')] \<and> snd s' = None \<and>
         UnmarshalSessions lib (fst s') = Inr sess' \<and> user_pids user sess' = []))"
  by (rule traces_weaken[OF traces_bind[OF smbSessionPIDs_trace traces_return]]) (fastforce split: sum.splits if_splits)

lemma shut_trace:
  "traces (do { failed \<leftarrow> shutdown_loop os ps False; if \<not> failed then ret None else k })
    (\<lambda>e l. \<exists>downs rest. l = downs @ rest \<and> map fst downs = map (\<lambda>p. plain ''smbcontrol'' [p, ''shutdown'']) ps \<and>
       ((\<forall>d \<in> set downs. snd (snd d) = None) \<and> rest = [] \<or> T e rest))"
  if "traces k T"
proof (rule traces_weaken[OF traces_bind[OF shutdown_loop_trace traces_if[OF traces_return that]]], elim exE conjE)
  fix e l f l1 l2
  assume "l = l1 @ l2" "map fst l1 = map (\<lambda>p. plain ''smbcontrol'' [p, ''shutdown'']) ps"
    "f \<longleftrightarrow> False \<or> (\<exists>e \<in> set l1. snd (snd e) \<noteq> None)" "if \<not> f then e = None \<and> l2 = [] else T e l2"
  then show "\<exists>downs rest. l = downs @ rest \<and> map fst downs = map (\<lambda>p. plain ''smbcontrol'' [p, ''shutdown'']) ps \<and>
       ((\<forall>d \<in> set downs. snd (snd d) = None) \<and> rest = [] \<or> T e rest)"
    by (intro exI[of _ l1] exI[of _ l2]) (cases f; simp)
qed

lemma endSMBSessions_trace: "traces (endSMBSessions os lib user) (\<lambda>e l. e = None \<longrightarrow> ended lib user l)"
proof -
  let ?T = "\<lambda>e l. e = None \<longrightarrow> (\<exists>s' sess'. l = [(smbstatus_cmd user, s')] \<and> snd s' = None \<and>
         UnmarshalSessions lib (fst s') = Inr sess' \<and> user_pids user sess' = [])"
  let ?k = "\<lambda>ps. do { failed \<leftarrow> shutdown_loop os ps False; if \<not> failed then ret None else do {
      left \<leftarrow> smbSessionPIDs os lib user;
      ret (case left of Inl e \<Rightarrow> Some e | Inr ls \<Rightarrow>
        if ls \<noteq> [] then Some (errorf (''smb sessions of '' @ user @ '' still served by smbd '' @ joinWith '' '' ls)) else None) } }"
  let ?U = "\<lambda>ps e l. \<exists>downs rest. l = downs @ rest \<and> map fst downs = map (\<lambda>p. plain ''smbcontrol'' [p, ''shutdown'']) ps \<and>
       ((\<forall>d \<in> set downs. snd (snd d) = None) \<and> rest = [] \<or> ?T e rest)"
  have "traces (case pids of Inl e \<Rightarrow> ret (Some e) | Inr ps \<Rightarrow> ?k ps)
      (\<lambda>e l. case pids of Inl _ \<Rightarrow> e \<noteq> None | Inr ps \<Rightarrow> ?U ps e l)" for pids :: "go_error + string list"
  proof (cases pids)
    case (Inl a)
    show ?thesis unfolding Inl sum.case by (rule traces_weaken[OF traces_return]) simp
  next
    case (Inr ps)
    show ?thesis unfolding Inr sum.case by (rule shut_trace[OF left_trace])
  qed
  from traces_bind[OF smbSessionPIDs_trace this] show ?thesis
    unfolding endSMBSessions_def
  proof (rule traces_weaken, intro impI, elim exE conjE)
    fix e r l1 l2 and l :: log and s :: cmd_result
    assume "e = None" and l: "l = l1 @ l2" "l1 = [(smbstatus_cmd user, s)]"
      and r: "\<forall>ps. r = Inr ps \<longrightarrow> snd s = None \<and> (\<exists>sess. UnmarshalSessions lib (fst s) = Inr sess \<and> ps = user_pids user sess)"
      and c: "case r of Inl _ \<Rightarrow> e \<noteq> None | Inr ps \<Rightarrow> ?U ps e l2"
    then obtain ps where ps: "r = Inr ps" by (cases r) auto
    with r obtain sess where s: "snd s = None" "UnmarshalSessions lib (fst s) = Inr sess" "ps = user_pids user sess" by blast
    from c[unfolded ps sum.case] obtain downs rest where
      "l2 = downs @ rest" "map fst downs = map (\<lambda>p. plain ''smbcontrol'' [p, ''shutdown'']) ps"
      "(\<forall>d \<in> set downs. snd (snd d) = None) \<and> rest = [] \<or> ?T e rest" by blast
    with l s \<open>e = None\<close> show "ended lib user l"
      unfolding ended_def by (intro exI[of _ s] exI[of _ sess] exI[of _ downs] exI[of _ rest]) simp
  qed
qed


lemma RemoveSMBUser_trace: "traces (RemoveSMBUser os lib user) (\<lambda>e l. e = None \<longrightarrow> revoked lib user l)"
proof -
  let ?T = "\<lambda>e l. e = None \<longrightarrow> ended lib user l"
  have err: "traces (ret (Some e)) ?T" for e :: go_error by (rule traces_weaken[OF traces_return]) simp
  have k: "traces (case snd r of Some e \<Rightarrow> if \<not> strContains (eText e @ fst r) ''find'' then ret (Some e) else endSMBSessions os lib user
      | None \<Rightarrow> endSMBSessions os lib user)
      (\<lambda>e l. e = None \<longrightarrow> (\<forall>x. snd r = Some x \<longrightarrow> strContains (eText x @ fst r) ''find'') \<and> ended lib user l)" for r :: cmd_result
    using endSMBSessions_trace[of os lib user]
    by (cases "snd r") (auto intro: traces_weaken[OF traces_return])
  show ?thesis
    unfolding RemoveSMBUser_def by (rule traces_weaken[OF traces_bind[OF traces_Run k]]) (fastforce simp: revoked_def)
qed


text \<open>Two sessions of the user on one process and one of somebody else.\<close>

definition smb_lib :: golib where
  "smb_lib = \<lparr>UnmarshalLvm = \<lambda>_. Inr [], ParseFloat = \<lambda>_. None, UnmarshalLinks = \<lambda>_. Inr [], UnmarshalRoutes = \<lambda>_. Inr [],
     UnmarshalSessions = \<lambda>_. Inr [(''ann'', ''7''), (''bob'', ''8''), (''ann'', ''7'')], UnmarshalLsblk = \<lambda>_. Inr [],
     UnmarshalSmart = \<lambda>_. Inr \<lparr>srPassed = None, srTemperature = None, srHours = None\<rparr>\<rparr>"

lemma smb_host_revokes: "value_of (RemoveSMBUser blank_host smb_lib ''ann'') () = None"
  by code_simp


text \<open>The text the missing-entry test looks at includes the command line: for a user whose name
  contains \<open>find\<close> every failure to delete the passdb entry passes as a missing entry.\<close>

definition denied_host :: "unit os" where
  "denied_host h p =
     (\<lparr>prStdout = '''', prStderr = ''Permission denied'',
       prFailed = (if pArgv p ! 8 = ''smbpasswd'' then Some ''exit status 1'' else None)\<rparr>, h)"

theorem smb_user_name_gap:
  "value_of (RemoveSMBUser denied_host smb_lib ''finder'') () = None \<and> value_of (RemoveSMBUser denied_host smb_lib ''ann'') () \<noteq> None"
  by code_simp

end
