(* ===== verification/Share_Agent.thy ===== *)
theory Share_Agent
  imports Share_Host Cluster
begin

text \<open>
  The share agent, \<open>internal/agent/share_reconciler.go\<close>: the pass that mounts and exports the shares
  placed on its node, and takes the others down.
\<close>

datatype agent_share_write = AgentShareStatus Share

definition agent_applySamba :: "kclient \<Rightarrow> 'h os \<Rightarrow> 'h fs \<Rightarrow> string \<Rightarrow> string \<Rightarrow> ('h, go_error option) prog" where
  "agent_applySamba c os fs rt node =
     (case ListShares c None of Inl e \<Rightarrow> ret (Some e) | Inr shares \<Rightarrow> ApplySamba os fs rt node shares)"

definition agent_remove_share :: "kclient \<Rightarrow> 'h os \<Rightarrow> 'h fs \<Rightarrow> string \<Rightarrow> string \<Rightarrow> string \<Rightarrow> string \<Rightarrow> ('h, unit) prog" where
  "agent_remove_share c os fs rt node ns name = do {
     _ \<leftarrow> RemoveShare os fs rt ns name;
     _ \<leftarrow> agent_applySamba c os fs rt node;
     ret () }"

definition remove_if_present :: "kclient \<Rightarrow> 'h os \<Rightarrow> 'h fs \<Rightarrow> string \<Rightarrow> string \<Rightarrow> Share \<Rightarrow> ('h, unit) prog" where
  "remove_if_present c os fs rt node share = do {
     p \<leftarrow> Present fs rt (omNamespace (shMeta share)) (omName (shMeta share));
     if p then agent_remove_share c os fs rt node (omNamespace (shMeta share)) (omName (shMeta share)) else ret () }"

definition share_host_status :: "metalib \<Rightarrow> Share \<Rightarrow> go_error option \<Rightarrow> Share" where
  "share_host_status lib share ensureErr =
     (let cond = \<lparr>cType = ConditionHostReady,
                  cStatus = (if ensureErr \<noteq> None then ConditionFalse else ConditionTrue),
                  cReason = (if ensureErr \<noteq> None then ReasonHostError else ReasonReady),
                  cMessage = (case ensureErr of None \<Rightarrow> '''' | Some e \<Rightarrow> eText e),
                  cObservedGeneration = omGeneration (shMeta share)\<rparr> in
      share\<lparr>shStatus := (shStatus share)\<lparr>shState := (if ensureErr \<noteq> None then ''Failed'' else ''Exported''),
          shConditions := SetStatusCondition lib (shConditions (shStatus share)) cond\<rparr>\<rparr>)"

definition share_removed_pass :: "kclient \<Rightarrow> string \<Rightarrow> Share \<Rightarrow> agent_share_write outcome" where
  "share_removed_pass c node share =
     (if shNode (shStatus share) \<noteq> node \<or> shState (shStatus share) = ''Removed'' then done_with []
      else
        let share' = share\<lparr>shStatus := (shStatus share)\<lparr>shState := ''Removed''\<rparr>\<rparr> in
        (case UpdateShareStatus c share' of
           Inl e \<Rightarrow> fail_with [AgentShareStatus share'] (IgnoreNotFound (Some e))
         | Inr _ \<Rightarrow> done_with [AgentShareStatus share']))"

definition ShareAgentReconcile :: "metalib \<Rightarrow> kclient \<Rightarrow> 'h os \<Rightarrow> 'h fs \<Rightarrow> string \<Rightarrow> string \<Rightarrow> NamespacedName \<Rightarrow>
    ('h, agent_share_write outcome) prog" where
  "ShareAgentReconcile lib c os fs rt node req =
     (case GetShare c req of
        Inl e \<Rightarrow>
          if eReason e = NotFound then do {
            _ \<leftarrow> agent_remove_share c os fs rt node (nnNamespace req) (nnName req);
            ret (done_with []) }
          else ret (fail_with [] (Some e))
      | Inr share \<Rightarrow>
        if omDeleting (shMeta share) then do {
          _ \<leftarrow> remove_if_present c os fs rt node share;
          ret (share_removed_pass c node share) }
        else if shNode (shStatus share) \<noteq> node \<or> shDevice (shStatus share) = '''' then do {
          _ \<leftarrow> remove_if_present c os fs rt node share;
          ret (done_with []) }
        else do {
          ensureErr \<leftarrow> andThen (EnsureShare os fs rt share) (agent_applySamba c os fs rt node);
          let share' = share_host_status lib share ensureErr;
          ret (case UpdateShareStatus c share' of
                 Inl e \<Rightarrow> fail_with [AgentShareStatus share'] (IgnoreNotFound (Some e))
               | Inr _ \<Rightarrow> fail_with [AgentShareStatus share'] ensureErr) })"

section \<open>Teardown\<close>

text \<open>The trace of removing a share: the export goes and the table is synced before the unmount that
  frees the device; then the samba include is written from the shares that remain.\<close>

definition unshares :: "string \<Rightarrow> string \<Rightarrow> string \<Rightarrow> log \<Rightarrow> bool" where
  "unshares rt ns name l \<longleftrightarrow> (\<exists>a b f u m.
     l = (file_cmd (RemoveFile (rt @ exportsFile ns name)), a) # (plain ''exportfs'' [''-ra''], b) # f @
         [(plain ''umount'' [mountPoint ns name], u), (file_cmd (RemoveFile (rt @ mountPoint ns name)), m)] \<and>
     map fst f = (if snd b = None then [plain ''exportfs'' [''-f'']] else []))"

definition rewrites_samba :: "kclient \<Rightarrow> string \<Rightarrow> string \<Rightarrow> log \<Rightarrow> bool" where
  "rewrites_samba c rt node l \<longleftrightarrow>
     (case ListShares c None of
        Inl _ \<Rightarrow> l = []
      | Inr shares \<Rightarrow> \<exists>w. hd l = (file_cmd (WriteFile (rt @ sambaShares) (samba_conf node shares)), w) \<and>
          map fst l = file_cmd (WriteFile (rt @ sambaShares) (samba_conf node shares)) #
            (if snd w = None then [plain ''smbcontrol'' [''all'', ''reload-config'']] else []))"

lemma reexport_exact:
  "traces (reexport os) (\<lambda>e l. \<exists>b f. l = (plain ''exportfs'' [''-ra''], b) # f \<and> map fst f = (if snd b = None then [plain ''exportfs'' [''-f'']] else []))"
  unfolding reexport_def by (rule traces_weaken[OF traces_andThen[OF traces_run_err traces_run_err]]) force

lemma RemoveShare_trace: "traces (RemoveShare os fs rt ns name) (\<lambda>_. unshares rt ns name)"
  unfolding RemoveShare_def
proof (rule traces_weaken[OF traces_bind[OF traces_file_err traces_bind[OF reexport_exact traces_bind[OF traces_Run
         traces_bind[OF traces_file_err traces_return]]]]], elim exE conjE)
  fix l l1 l2 l3 l4 l5 l6 l7 l8 f and a b u m :: cmd_result
  assume "l = l1 @ l2" "l1 = [(file_cmd (RemoveFile (rt @ exportsFile ns name)), a)]" "l2 = l3 @ l4" "l4 = l5 @ l6" "l6 = l7 @ l8"
    "l3 = (plain ''exportfs'' [''-ra''], b) # f" and f: "map fst f = (if snd b = None then [plain ''exportfs'' [''-f'']] else [])"
    and "l5 = [(plain ''umount'' [mountPoint ns name], u)]" "l7 = [(file_cmd (RemoveFile (rt @ mountPoint ns name)), m)]" "l8 = []"
  then have "l = (file_cmd (RemoveFile (rt @ exportsFile ns name)), a) # (plain ''exportfs'' [''-ra''], b) # f @
         [(plain ''umount'' [mountPoint ns name], u), (file_cmd (RemoveFile (rt @ mountPoint ns name)), m)]" by simp
  with f show "unshares rt ns name l" unfolding unshares_def by blast
qed

lemma applySamba_trace: "traces (agent_applySamba c os fs rt node) (\<lambda>_. rewrites_samba c rt node)"
proof (cases "ListShares c None")
  case (Inl e)
  show ?thesis unfolding agent_applySamba_def Inl sum.case by (rule traces_weaken[OF traces_return]) (simp add: rewrites_samba_def Inl)
next
  case (Inr shares)
  show ?thesis
    unfolding agent_applySamba_def Inr sum.case ApplySamba_def
    by (rule traces_weaken[OF traces_andThen[OF traces_file_err traces_run_err]]) (force simp: rewrites_samba_def Inr simp del: file_cmd.simps)
qed

text \<open>Stale state of a share is looked for before anything is torn down.\<close>

definition unserves :: "kclient \<Rightarrow> string \<Rightarrow> string \<Rightarrow> Share \<Rightarrow> log \<Rightarrow> bool" where
  "unserves c rt node share l \<longleftrightarrow>
     (let ns = omNamespace (shMeta share); name = omName (shMeta share) in
      \<exists>stats rest. l = stats @ rest \<and>
        (if \<exists>s \<in> set stats. snd (snd s) = None then \<exists>u w. rest = u @ w \<and> unshares rt ns name u \<and> rewrites_samba c rt node w
         else rest = [] \<and> map fst stats = [file_cmd (Stat (rt @ mountPoint ns name)), file_cmd (Stat (rt @ exportsFile ns name))]))"

lemma Present_trace:
  "traces (Present fs rt ns name) (\<lambda>p l. (p \<longleftrightarrow> (\<exists>s \<in> set l. snd (snd s) = None)) \<and>
     (\<not> p \<longrightarrow> map fst l = [file_cmd (Stat (rt @ mountPoint ns name)), file_cmd (Stat (rt @ exportsFile ns name))]))"
  unfolding Present_def
proof (rule traces_weaken[OF traces_bind[OF traces_file_err traces_if[OF traces_return traces_bind[OF traces_file_err traces_return]]]], elim exE conjE)
  fix p e and l l1 l2 :: log and r :: cmd_result
  assume "l = l1 @ l2" "l1 = [(file_cmd (Stat (rt @ mountPoint ns name)), r)]" "e = snd r"
    "if e = None then p = True \<and> l2 = [] else \<exists>x l1 l2'. l2 = l1 @ l2' \<and> (\<exists>r. l1 = [(file_cmd (Stat (rt @ exportsFile ns name)), r)] \<and> x = snd r) \<and> p = (x = None) \<and> l2' = []"
  then show "(p \<longleftrightarrow> (\<exists>s \<in> set l. snd (snd s) = None)) \<and>
     (\<not> p \<longrightarrow> map fst l = [file_cmd (Stat (rt @ mountPoint ns name)), file_cmd (Stat (rt @ exportsFile ns name))])"
    by (cases "e = None") (auto simp del: file_cmd.simps)
qed

lemma agent_remove_share_trace:
  "traces (agent_remove_share c os fs rt node ns name) (\<lambda>_ l. \<exists>u w. l = u @ w \<and> unshares rt ns name u \<and> rewrites_samba c rt node w)"
  unfolding agent_remove_share_def
  by (rule traces_weaken[OF traces_bind[OF RemoveShare_trace traces_bind[OF applySamba_trace traces_return]]]) auto

lemma remove_if_present_trace: "traces (remove_if_present c os fs rt node share) (\<lambda>_. unserves c rt node share)"
  unfolding remove_if_present_def
proof (rule traces_weaken[OF traces_bind[OF Present_trace traces_if[OF agent_remove_share_trace traces_return]]], elim exE conjE)
  let ?ns = "omNamespace (shMeta share)" and ?name = "omName (shMeta share)"
  fix p and l l1 l2 :: log and y :: unit
  assume "l = l1 @ l2" "p = (\<exists>s \<in> set l1. snd (snd s) = None)"
    "\<not> p \<longrightarrow> map fst l1 = [file_cmd (Stat (rt @ mountPoint ?ns ?name)), file_cmd (Stat (rt @ exportsFile ?ns ?name))]"
    "if p then \<exists>u w. l2 = u @ w \<and> unshares rt ?ns ?name u \<and> rewrites_samba c rt node w else y = () \<and> l2 = []"
  then show "unserves c rt node share l"
    unfolding unserves_def Let_def by - (rule exI[of _ l1], rule exI[of _ l2], cases p; force simp del: file_cmd.simps)
qed

text \<open>A share that is being deleted, or is placed elsewhere or nowhere, is taken down by the pass if
  the node holds any state of it: unexported and the table synced, then unmounted and its mount point
  removed, then the samba include rewritten from what remains. \<open>Removed\<close> is written exactly by the
  node that served a deleted share, after that; nothing else is written.\<close>

theorem share_agent_teardown:
  assumes "GetShare c req = Inr share"
    and "omDeleting (shMeta share) \<or> shNode (shStatus share) \<noteq> node \<or> shDevice (shStatus share) = ''''"
  shows "let m = ShareAgentReconcile lib c os fs rt node req in
    unserves c rt node share (log_of m h) \<and>
    fst (value_of m h) =
      (if omDeleting (shMeta share) \<and> shNode (shStatus share) = node \<and> shState (shStatus share) \<noteq> ''Removed''
       then [AgentShareStatus (share\<lparr>shStatus := (shStatus share)\<lparr>shState := ''Removed''\<rparr>\<rparr>)] else [])"
proof -
  let ?W = "if omDeleting (shMeta share) \<and> shNode (shStatus share) = node \<and> shState (shStatus share) \<noteq> ''Removed''
       then [AgentShareStatus (share\<lparr>shStatus := (shStatus share)\<lparr>shState := ''Removed''\<rparr>\<rparr>)] else []"
  have "traces (ShareAgentReconcile lib c os fs rt node req) (\<lambda>v l. unserves c rt node share l \<and> fst v = ?W)"
  proof (cases "omDeleting (shMeta share)")
    case True
    show ?thesis
      unfolding ShareAgentReconcile_def assms(1) sum.case if_P[OF True]
      by (rule traces_weaken[OF traces_bind[OF remove_if_present_trace traces_return]])
         (auto simp: True share_removed_pass_def Let_def split: sum.splits)
  next
    case False
    with assms(2) have n: "shNode (shStatus share) \<noteq> node \<or> shDevice (shStatus share) = ''''" by simp
    show ?thesis
      unfolding ShareAgentReconcile_def assms(1) sum.case if_not_P[OF False] if_P[OF n]
      by (rule traces_weaken[OF traces_bind[OF remove_if_present_trace traces_return]]) (auto simp: False)
  qed
  from traces_run[OF this, of h] show ?thesis unfolding Let_def .
qed


text \<open>A busy mount: the unmount fails, \<open>Removed\<close> is reported all the same, and no retry is asked for.\<close>

definition busy_host :: "unit os" where
  "busy_host h p =
     (\<lparr>prStdout = '''', prStderr = ''target is busy'',
       prFailed = (if pArgv p ! 8 = ''umount'' then Some ''exit status 32'' else None)\<rparr>, h)"

definition busy_share :: Share where
  "busy_share = blank_share\<lparr>shMeta := (meta0 ''ns'' ''media'')\<lparr>omDeleting := True\<rparr>\<rparr>"

definition busy_cluster :: kclient where
  "busy_cluster = client0\<lparr>GetShare := \<lambda>_. Inr busy_share, ListShares := \<lambda>_. Inr [busy_share]\<rparr>"

abbreviation busy_pass :: "(unit, agent_share_write outcome) prog" where
  "busy_pass \<equiv> ShareAgentReconcile std_metalib busy_cluster busy_host share_fs '''' ''a'' \<lparr>nnNamespace = ''ns'', nnName = ''media''\<rparr>"

theorem share_agent_teardown_witness:
  "unserves busy_cluster '''' ''a'' busy_share (log_of busy_pass ()) \<and>
   fst (value_of busy_pass ()) = [AgentShareStatus (busy_share\<lparr>shStatus := (shStatus busy_share)\<lparr>shState := ''Removed''\<rparr>\<rparr>)]"
proof -
  have s: "GetShare busy_cluster \<lparr>nnNamespace = ''ns'', nnName = ''media''\<rparr> = Inr busy_share" by (simp add: busy_cluster_def)
  have d: "omDeleting (shMeta busy_share)" "shNode (shStatus busy_share) = ''a''" "shState (shStatus busy_share) = ''''"
    by (simp_all add: busy_share_def blank_share_def)
  show ?thesis
    using share_agent_teardown[OF s, of "''a''" std_metalib busy_host share_fs "''''" "()"] by (simp add: Let_def d)
qed

theorem share_removed_while_mounted:
  "(case value_of busy_pass () of (ws, res, err) \<Rightarrow> map (\<lambda>w. case w of AgentShareStatus s \<Rightarrow> shState (shStatus s)) ws = [''Removed''] \<and>
      RequeueAfter res = 0 \<and> err = None) \<and>
   list_all (\<lambda>e. cName (fst e) = ''umount'' \<longrightarrow> snd (snd e) \<noteq> None) (log_of busy_pass ()) \<and>
   list_ex (\<lambda>e. cName (fst e) = ''umount'') (log_of busy_pass ())"
  by code_simp

section \<open>Serving\<close>

lemma applySamba_ok_trace:
  "traces (agent_applySamba c os fs rt node) (\<lambda>e l. e = None \<longrightarrow> (\<exists>shares. ListShares c None = Inr shares \<and>
      map fst l = [file_cmd (WriteFile (rt @ sambaShares) (samba_conf node shares)), plain ''smbcontrol'' [''all'', ''reload-config'']] \<and>
      (\<forall>e \<in> set l. snd (snd e) = None)))"
proof (cases "ListShares c None")
  case (Inl e)
  show ?thesis unfolding agent_applySamba_def Inl sum.case by (rule traces_weaken[OF traces_return]) simp
next
  case (Inr shares)
  show ?thesis
    unfolding agent_applySamba_def Inr sum.case ApplySamba_def
    by (rule traces_weaken[OF traces_andThen[OF traces_file_err traces_run_err]]) (force simp del: file_cmd.simps)
qed

text \<open>What the log of a successful walk shows.\<close>

definition share_live :: "kclient \<Rightarrow> string \<Rightarrow> string \<Rightarrow> Share \<Rightarrow> log \<Rightarrow> bool" where
  "share_live c rt node share l \<longleftrightarrow> (\<exists>l1 l2 shares. l = l1 @ l2 \<and>
    served (shDevice (shStatus share)) (mountPoint (omNamespace (shMeta share)) (omName (shMeta share))) l1 \<and> exported rt share l1 \<and>
    ListShares c None = Inr shares \<and>
    map fst l2 = [file_cmd (WriteFile (rt @ sambaShares) (samba_conf node shares)), plain ''smbcontrol'' [''all'', ''reload-config'']] \<and>
    (\<forall>e \<in> set l2. snd (snd e) = None))"

text \<open>\<^bold>\<open>C26\<close>. The agent's report on a share is honest: over a share placed here, \<open>HostReady\<close> is written true
  exactly when the walk succeeded, and then, in the log, the device is mounted and the export synced,
  and after that the samba include was written from the listed shares and samba reloaded.\<close>

theorem share_agent_honest:
  assumes laws: "metalib_laws lib"
    and share: "GetShare c req = Inr share" "\<not> omDeleting (shMeta share)" "shNode (shStatus share) = node" "shDevice (shStatus share) \<noteq> ''''"
    and m: "m = ShareAgentReconcile lib c os fs rt node req"
    and w: "AgentShareStatus s \<in> set (fst (value_of m h))" and ready: "IsStatusConditionTrue lib (shConditions (shStatus s)) ConditionHostReady"
  shows "share_live c rt node share (log_of m h)"
proof -
  let ?mnt = "mountPoint (omNamespace (shMeta share)) (omName (shMeta share))"
  have hs: "IsStatusConditionTrue lib (shConditions (shStatus (share_host_status lib share e))) ConditionHostReady \<Longrightarrow> e = None" for e
    by (auto simp: share_host_status_def Let_def metalib_laws.is_true_set[OF laws] split: if_splits)
  have smb: "traces (agent_applySamba c os fs rt node) (\<lambda>e l. e = None \<longrightarrow> (\<exists>shares. ListShares c None = Inr shares \<and>
      map fst l = [file_cmd (WriteFile (rt @ sambaShares) (samba_conf node shares)), plain ''smbcontrol'' [''all'', ''reload-config'']] \<and>
      (\<forall>e \<in> set l. snd (snd e) = None)))"
    by (rule applySamba_ok_trace)
  have walk: "ensures (\<lambda>l. l = []) (andThen (EnsureShare os fs rt share) (agent_applySamba c os fs rt node)) (\<lambda>e l. e = None \<longrightarrow> share_live c rt node share l)"
  proof (rule ensures_then_traces[OF EnsureShare_step smb], elim conjE)
    fix l1 l2 :: log and e :: "go_error option"
    assume l1: "served (shDevice (shStatus share)) ?mnt l1" "exported rt share l1" and l2: "e = None \<longrightarrow> (\<exists>shares. ListShares c None = Inr shares \<and>
      map fst l2 = [file_cmd (WriteFile (rt @ sambaShares) (samba_conf node shares)), plain ''smbcontrol'' [''all'', ''reload-config'']] \<and>
      (\<forall>e \<in> set l2. snd (snd e) = None))" "e = None"
    obtain shares where "ListShares c None = Inr shares"
      "map fst l2 = [file_cmd (WriteFile (rt @ sambaShares) (samba_conf node shares)), plain ''smbcontrol'' [''all'', ''reload-config'']]"
      "\<forall>e \<in> set l2. snd (snd e) = None" using mp[OF l2] by (elim exE conjE)
    with l1 show "share_live c rt node share (l1 @ l2)" unfolding share_live_def by - (rule exI[of _ l1], rule exI[of _ l2], rule exI[of _ shares], simp only: simp_thms)
  qed
  have n: "\<not> (shNode (shStatus share) \<noteq> node \<or> shDevice (shStatus share) = '''')" using share by simp
  have "ensures (\<lambda>l. l = []) m (\<lambda>v l. \<forall>s. AgentShareStatus s \<in> set (fst v) \<longrightarrow> (\<exists>e. s = share_host_status lib share e \<and> (e = None \<longrightarrow> share_live c rt node share l)))"
    unfolding m ShareAgentReconcile_def share(1) sum.case if_not_P[OF share(2)] if_not_P[OF n]
    by (rule ensures_bind[OF walk]) (auto simp: Let_def intro!: ensures_return split: sum.splits)
  from ensures_run[OF this, of h] w hs ready show ?thesis by blast
qed


definition live_share_cluster :: kclient where
  "live_share_cluster = client0\<lparr>GetShare := \<lambda>_. Inr blank_share, ListShares := \<lambda>_. Inr [blank_share]\<rparr>"

abbreviation live_share_pass :: "(unit, agent_share_write outcome) prog" where
  "live_share_pass \<equiv> ShareAgentReconcile std_metalib live_share_cluster blank_host share_fs '''' ''a'' \<lparr>nnNamespace = ''ns'', nnName = ''media''\<rparr>"

lemma live_share_ready:
  "case fst (value_of live_share_pass ()) of AgentShareStatus s # _ \<Rightarrow> IsStatusConditionTrue std_metalib (shConditions (shStatus s)) ConditionHostReady | [] \<Rightarrow> False"
  by code_simp

theorem share_agent_honest_witness: "share_live live_share_cluster '''' ''a'' blank_share (log_of live_share_pass ())"
proof -
  from live_share_ready obtain s ws where s: "fst (value_of live_share_pass ()) = AgentShareStatus s # ws"
    and r: "IsStatusConditionTrue std_metalib (shConditions (shStatus s)) ConditionHostReady"
    by (auto split: list.splits agent_share_write.splits)
  show ?thesis
  proof (rule share_agent_honest[OF std.metalib_laws_axioms _ _ _ _ refl _ r])
    show "AgentShareStatus s \<in> set (fst (value_of live_share_pass ()))" by (simp add: s)
  qed (simp_all add: live_share_cluster_def blank_share_def meta0_def)
qed

end
