(* ===== verification/User_Agent.thy ===== *)
theory User_Agent
  imports Share_Host Cluster
begin

text \<open>
  The user agent, \<open>internal/agent/user_reconciler.go\<close>: the pass that keeps the host's samba passdb in
  step with a LocalUser and its Secret, skipping what this node last applied. The cache \<open>applied\<close> is
  passed in and returned.
\<close>

abbreviation revoked_key :: string where
  "revoked_key \<equiv> ''revoked''"

text \<open>The key and the password a live user asks for, or the error of the Secret read; a missing Secret
  reads as one without data.\<close>

definition user_key :: "kclient \<Rightarrow> LocalUser \<Rightarrow> go_error + string \<times> string" where
  "user_key c user =
     (if \<not> luSMB (luSpec user) then Inr (revoked_key, '''')
      else
        (case GetSecret c \<lparr>nnNamespace = omNamespace (luMeta user), nnName = luPasswordSecretRef (luSpec user)\<rparr> of
           Inl e \<Rightarrow> if eReason e \<noteq> NotFound then Inl e else Inr (revoked_key, '''')
         | Inr secret \<Rightarrow>
             (case LocalUserPassword (secData secret) of (pw, ok) \<Rightarrow>
                if ok then Inr (omResourceVersion (secMeta secret), pw) else Inr (revoked_key, ''''))))"

definition UserAgentReconcile :: "kclient \<Rightarrow> 'h os \<Rightarrow> golib \<Rightarrow> NamespacedName \<Rightarrow> (string \<rightharpoonup> string) \<Rightarrow>
    ('h, (string \<rightharpoonup> string) \<times> go_error option) prog" where
  "UserAgentReconcile c os lib req applied =
     (case GetLocalUser c req of
        Inl e \<Rightarrow>
          if eReason e \<noteq> NotFound then ret (applied, Some e)
          else do {
            err \<leftarrow> RemoveSMBUser os lib (nnName req);
            ret (applied(nnName req := None), err) }
      | Inr user \<Rightarrow>
          (case user_key c user of
             Inl e \<Rightarrow> ret (applied, Some e)
           | Inr (key, password) \<Rightarrow>
             if mget applied (omName (luMeta user)) = key then ret (applied, None)
             else do {
               err \<leftarrow> (if key = revoked_key then RemoveSMBUser os lib (omName (luMeta user))
                       else EnsureSMBUser os (omName (luMeta user)) password);
               ret (if err \<noteq> None then (applied, err) else (applied(omName (luMeta user) \<mapsto> key), None)) }))"

section \<open>What a pass does\<close>

text \<open>The trace of provisioning: the account is created without a shell when it is missing, and the
  password goes to \<open>smbpasswd\<close>'s standard input only.\<close>

definition provisioned :: "string \<Rightarrow> string \<Rightarrow> log \<Rightarrow> bool" where
  "provisioned user password l \<longleftrightarrow> (\<exists>pre r. l = pre @ [(\<lparr>cName = ''smbpasswd'', cArgs = [''-s'', ''-a'', user],
       cStdin = password @ [CHR 0x0A] @ password @ [CHR 0x0A]\<rparr>, r)] \<and> snd r = None \<and>
     (\<exists>i. pre = [(plain ''id'' [''-u'', user], i)] \<and> snd i = None \<or>
        (\<exists>a. pre = [(plain ''id'' [''-u'', user], i), (plain ''useradd'' [''--no-create-home'', ''--shell'', ''/sbin/nologin'', user], a)] \<and>
             snd i \<noteq> None \<and> snd a = None)))"

lemma traces_RunInput:
  "traces (RunInput os inp name args) (\<lambda>r l. l = [(\<lparr>cName = name, cArgs = args, cStdin = inp\<rparr>, r)])"
  unfolding traces_def RunInput_def by (simp add: ensures_hostExec)

lemma EnsureSMBUser_trace: "traces (EnsureSMBUser os user password) (\<lambda>e l. e = None \<longrightarrow> provisioned user password l)"
proof -
  let ?pw = "password @ [CHR 0x0A] @ password @ [CHR 0x0A]"
  have set: "traces (do { r \<leftarrow> RunInput os ?pw ''smbpasswd'' [''-s'', ''-a'', user]; ret (snd r) })
      (\<lambda>e l. \<exists>r. l = [(\<lparr>cName = ''smbpasswd'', cArgs = [''-s'', ''-a'', user], cStdin = ?pw\<rparr>, r)] \<and> e = snd r)"
    by (rule traces_weaken[OF traces_bind[OF traces_RunInput traces_return]]) auto
  let ?T = "\<lambda>u e l. if u \<noteq> None then \<exists>a. l = [(plain ''useradd'' [''--no-create-home'', ''--shell'', ''/sbin/nologin'', user], a)] \<and> e = snd a
      else e = None \<and> l = []"
  show ?thesis
    unfolding EnsureSMBUser_def
  proof (rule traces_weaken[OF traces_bind[OF traces_run_err traces_andThen[OF traces_if[OF traces_run_err traces_return] set]]],
         intro impI, elim exE conjE disjE)
    fix e l u l1 l2 i assume "e = None" "e \<noteq> (None :: go_error option)"
    then show "provisioned user password l" by simp
  next
    fix e u l1 l2 l3 l4 and l :: log and i r :: cmd_result
    assume e: "e = None" "e = snd r" and l: "l = l1 @ l2" "l1 = [(plain ''id'' [''-u'', user], i)]" "l2 = l3 @ l4"
      "l4 = [(\<lparr>cName = ''smbpasswd'', cArgs = [''-s'', ''-a'', user], cStdin = ?pw\<rparr>, r)]"
      and u: "u = snd i" and add: "?T u None l3"
    have ex: "\<exists>i. l1 @ l3 = [(plain ''id'' [''-u'', user], i)] \<and> snd i = None \<or>
        (\<exists>a. l1 @ l3 = [(plain ''id'' [''-u'', user], i), (plain ''useradd'' [''--no-create-home'', ''--shell'', ''/sbin/nologin'', user], a)] \<and>
             snd i \<noteq> None \<and> snd a = None)"
    proof (cases "u = None")
      case True
      with add l u show ?thesis by (intro exI[of _ i] disjI1) simp
    next
      case False
      with add obtain a where "l3 = [(plain ''useradd'' [''--no-create-home'', ''--shell'', ''/sbin/nologin'', user], a)]" "None = snd a" by auto
      with False l u show ?thesis by (intro exI[of _ i] disjI2 exI[of _ a]) simp
    qed
    show "provisioned user password l"
      unfolding provisioned_def
      by (rule exI[of _ "l1 @ l3"], rule exI[of _ r], intro conjI ex) (use e l in simp_all)
  qed
qed

text \<open>The passdb follows the user, and fails closed. A pass that ends without an error either skips,
  because the key of the user's current wish is the one it last applied, or has done what the user
  asks for: with a usable Secret and SMB on, the account exists without a shell and the Secret's
  password was set, passed on standard input only; otherwise (SMB off, Secret missing or without a
  password, user deleted) the access was revoked. Only then is the key remembered.\<close>

theorem user_agent_follows:
  assumes "value_of (UserAgentReconcile c os lib req applied) h = (applied', None)"
  shows "let l = log_of (UserAgentReconcile c os lib req applied) h in
    case GetLocalUser c req of
      Inl _ \<Rightarrow> revoked lib (nnName req) l \<and> applied' = applied(nnName req := None)
    | Inr user \<Rightarrow> \<exists>key pw. user_key c user = Inr (key, pw) \<and>
        (mget applied (omName (luMeta user)) = key \<and> l = [] \<and> applied' = applied \<or>
         (if key = revoked_key then revoked lib (omName (luMeta user)) l else provisioned (omName (luMeta user)) pw l) \<and>
         applied' = applied(omName (luMeta user) \<mapsto> key))"
proof -
  let ?P = "\<lambda>v l. snd v = None \<longrightarrow>
    (case GetLocalUser c req of
      Inl _ \<Rightarrow> revoked lib (nnName req) l \<and> fst v = applied(nnName req := None)
    | Inr user \<Rightarrow> \<exists>key pw. user_key c user = Inr (key, pw) \<and>
        (mget applied (omName (luMeta user)) = key \<and> l = [] \<and> fst v = applied \<or>
         (if key = revoked_key then revoked lib (omName (luMeta user)) l else provisioned (omName (luMeta user)) pw l) \<and>
         fst v = applied(omName (luMeta user) \<mapsto> key)))"
  have "traces (UserAgentReconcile c os lib req applied) ?P"
  proof (cases "GetLocalUser c req")
    case (Inl e)
    show ?thesis
      unfolding UserAgentReconcile_def Inl sum.case
      by (rule traces_weaken[OF traces_if[OF traces_return traces_bind[OF RemoveSMBUser_trace traces_return]]]) (auto split: if_splits)
  next
    case (Inr user)
    show ?thesis
    proof (cases "user_key c user")
      case (Inl e)
      show ?thesis unfolding UserAgentReconcile_def Inr Inl sum.case by (rule traces_weaken[OF traces_return]) simp
    next
      case k: (Inr kp)
      obtain key pw where kp: "kp = (key, pw)" by fastforce
      show ?thesis
        unfolding UserAgentReconcile_def Inr k kp sum.case prod.case
        by (rule traces_weaken[OF traces_if[OF traces_return traces_bind[OF traces_if[OF RemoveSMBUser_trace EnsureSMBUser_trace] traces_return]]])
           (auto simp: k kp split: if_splits)
    qed
  qed
  from traces_run[OF this, of h, unfolded assms fst_conv snd_conv] show ?thesis unfolding Let_def by blast
qed


definition smb_user :: "bool \<Rightarrow> LocalUser" where
  "smb_user smb = \<lparr>luMeta = meta0 ''ns'' ''ann'', luSpec = \<lparr>luRole = '''', luSMB = smb, luPasswordSecretRef = ''pw''\<rparr>,
     luStatus = \<lparr>luConditions = [], luPasswordSecretVersion = ''''\<rparr>\<rparr>"

definition smb_cluster :: "bool \<Rightarrow> kclient" where
  "smb_cluster smb = client0\<lparr>GetLocalUser := \<lambda>_. Inr (smb_user smb),
     GetSecret := \<lambda>_. Inr \<lparr>secMeta = (meta0 ''ns'' ''pw'')\<lparr>omResourceVersion := ''6''\<rparr>, secData = [''password'' \<mapsto> ''s3cret'']\<rparr>\<rparr>"

definition smb_req :: NamespacedName where
  "smb_req = \<lparr>nnNamespace = ''ns'', nnName = ''ann''\<rparr>"

lemma smb_pass_ok: "snd (value_of (UserAgentReconcile (smb_cluster True) blank_host smb_lib smb_req Map.empty) ()) = None"
  by code_simp

theorem user_agent_follows_witness:
  "provisioned ''ann'' ''s3cret'' (log_of (UserAgentReconcile (smb_cluster True) blank_host smb_lib smb_req Map.empty) ())"
proof -
  have k: "user_key (smb_cluster True) (smb_user True) = Inr (''6'', ''s3cret'')"
    by (simp add: user_key_def smb_cluster_def smb_user_def LocalUserPassword_def mget_def meta0_def Let_def)
  have g: "GetLocalUser (smb_cluster True) smb_req = Inr (smb_user True)" by (simp add: smb_cluster_def)
  have n: "omName (luMeta (smb_user True)) = ''ann''" by (simp add: smb_user_def meta0_def)
  have "value_of (UserAgentReconcile (smb_cluster True) blank_host smb_lib smb_req Map.empty) () =
      (fst (value_of (UserAgentReconcile (smb_cluster True) blank_host smb_lib smb_req Map.empty) ()), None)"
    using smb_pass_ok by (metis prod.collapse)
  from user_agent_follows[OF this] show ?thesis by (simp add: Let_def g k n)
qed

section \<open>A cache entry outlives a failed pass\<close>

text \<open>A host with a passdb (whether it holds the user) on which \<open>smbstatus\<close> fails.\<close>

definition passdb_host :: "bool os" where
  "passdb_host held p =
     (let cmd = pArgv p ! 8; failed = (cmd = ''smbstatus'') in
      (\<lparr>prStdout = '''', prStderr = '''', prFailed = (if failed then Some ''exit status 1'' else None)\<rparr>,
       if cmd = ''smbpasswd'' then pArgv p ! 9 \<noteq> ''-x'' else held))"

text \<open>SMB on, off, on again, with the same Secret.\<close>

definition smb_toggle :: "(bool, go_error option list \<times> (string \<rightharpoonup> string)) prog" where
  "smb_toggle = do {
     v1 \<leftarrow> UserAgentReconcile (smb_cluster True) passdb_host smb_lib smb_req Map.empty;
     v2 \<leftarrow> UserAgentReconcile (smb_cluster False) passdb_host smb_lib smb_req (fst v1);
     v3 \<leftarrow> UserAgentReconcile (smb_cluster True) passdb_host smb_lib smb_req (fst v2);
     ret ([snd v1, snd v2, snd v3], fst v3) }"

text \<open>The cache can say more than the passdb holds: when a revocation deletes the entry and then
  fails to list the sessions, the old key stays remembered; if SMB is switched back on before a retry
  succeeds, the pass skips and reports no error although the passdb no longer holds the user.\<close>

theorem user_agent_stale_cache:
  "map (\<lambda>e. e = None) (fst (value_of smb_toggle False)) = [True, False, True] \<and>
   snd (value_of smb_toggle False) ''ann'' = Some ''6'' \<and>
   fst (snd (run_state smb_toggle (False, []))) = False"
  by code_simp

end
