(* ===== verification/Lvm.thy ===== *)
theory Lvm
  imports Host
begin

text \<open>
  The LVM tools, \<open>internal/lvm/lvm.go\<close>: one program per method, each running the command line the
  source builds and reading its output the way the source does.
\<close>

definition IsPV :: "'h os \<Rightarrow> string \<Rightarrow> ('h, bool) prog" where
  "IsPV os dev = run_ok os ''pvs'' [dev]"

definition CreatePV :: "'h os \<Rightarrow> string \<Rightarrow> ('h, go_error option) prog" where
  "CreatePV os dev = run_err os ''pvcreate'' [dev]"

definition VGExists :: "'h os \<Rightarrow> string \<Rightarrow> ('h, bool) prog" where
  "VGExists os vg = run_ok os ''vgs'' [vg]"

definition CreateVG :: "'h os \<Rightarrow> string \<Rightarrow> string list \<Rightarrow> ('h, go_error option) prog" where
  "CreateVG os vg devices = run_err os ''vgcreate'' (vg # devices)"

definition IsThinPool :: "'h os \<Rightarrow> string \<Rightarrow> string \<Rightarrow> ('h, bool) prog" where
  "IsThinPool os vg lv = do {
     r \<leftarrow> Run os ''lvs'' [''--noheadings'', ''--options'', ''lv_attr'', vg @ ''/'' @ lv];
     ret (snd r = None \<and> hasPrefix (trimSpace (fst r)) ''t'') }"

definition CreateThinPool :: "'h os \<Rightarrow> string \<Rightarrow> string \<Rightarrow> ('h, go_error option) prog" where
  "CreateThinPool os vg lv =
     run_err os ''lvcreate'' [''--type'', ''thin-pool'', ''--extents'', ''90%VG'', ''--name'', lv, vg]"

definition IsBlockDev :: "'h os \<Rightarrow> string \<Rightarrow> ('h, bool) prog" where
  "IsBlockDev os dev = run_ok os ''test'' [''-b'', dev]"

definition ResolvePath :: "'h os \<Rightarrow> string \<Rightarrow> ('h, string) prog" where
  "ResolvePath os dev = do {
     r \<leftarrow> Run os ''readlink'' [''-f'', dev];
     ret (if snd r \<noteq> None then dev
          else if trimSpace (fst r) \<noteq> '''' then trimSpace (fst r) else dev) }"

text \<open>The resolved map: every device to itself, then the printed lines laid over the devices in order.\<close>

fun resolve_lines :: "string list \<Rightarrow> string list \<Rightarrow> (string \<rightharpoonup> string) \<Rightarrow> (string \<rightharpoonup> string)" where
  "resolve_lines (d # ds) (l # ls) m =
     resolve_lines ds ls (if trimSpace l \<noteq> '''' then m(d \<mapsto> trimSpace l) else m)"
| "resolve_lines _ _ m = m"

definition ResolvePaths :: "'h os \<Rightarrow> string list \<Rightarrow> ('h, string \<rightharpoonup> string) prog" where
  "ResolvePaths os devs =
     (let self = foldl (\<lambda>m d. m(d \<mapsto> d)) Map.empty devs in
      if devs = [] then ret self
      else do {
        r \<leftarrow> Run os ''readlink'' (''-m'' # devs);
        ret (if snd r \<noteq> None then self
             else
               let lines = splitNL (trimRightNL (fst r)) in
               if length lines \<noteq> length devs then self else resolve_lines devs lines self) })"

definition VGExtend :: "'h os \<Rightarrow> string \<Rightarrow> string \<Rightarrow> ('h, go_error option) prog" where
  "VGExtend os vg dev = run_err os ''vgextend'' [vg, dev]"

definition VGReduce :: "'h os \<Rightarrow> string \<Rightarrow> string \<Rightarrow> ('h, go_error option) prog" where
  "VGReduce os vg dev = run_err os ''vgreduce'' [vg, dev]"

definition PVRemove :: "'h os \<Rightarrow> string \<Rightarrow> ('h, go_error option) prog" where
  "PVRemove os dev = run_err os ''pvremove'' [dev]"

definition VGRemove :: "'h os \<Rightarrow> string \<Rightarrow> ('h, go_error option) prog" where
  "VGRemove os vg = do {
     r \<leftarrow> Run os ''vgremove'' [''-ff'', ''-y'', vg];
     ret (if snd r \<noteq> None \<and> strContains (fst r) ''not found'' then None else snd r) }"

definition PVWipe :: "'h os \<Rightarrow> string \<Rightarrow> ('h, go_error option) prog" where
  "PVWipe os dev = do {
     r \<leftarrow> Run os ''pvremove'' [''-ff'', ''-y'', dev];
     ret (if snd r \<noteq> None \<and> (strContains (fst r) ''o PV label'' \<or> strContains (fst r) ''not found'')
          then None else snd r) }"

definition PVVG :: "'h os \<Rightarrow> string \<Rightarrow> ('h, string \<times> bool) prog" where
  "PVVG os dev = do {
     r \<leftarrow> Run os ''pvs'' [''--noheadings'', ''--options'', ''vg_name'', dev];
     ret (if snd r \<noteq> None then ('''', False) else (trimSpace (fst r), True)) }"

definition PVMove :: "'h os \<Rightarrow> string \<Rightarrow> string \<Rightarrow> ('h, go_error option) prog" where
  "PVMove os dev dst = do {
     r \<leftarrow> Run os ''pvmove'' ([''--background'', dev] @ (if dst \<noteq> '''' then [dst] else []));
     ret (if snd r \<noteq> None \<and> strContains (fst r) ''in progress'' then None else snd r) }"

record VGInfo =
  viSizeBytes :: int
  viFreeBytes :: int

record PV =
  pvName :: string
  pvMissing :: bool
  pvUsedBytes :: int

definition vg_rows :: "string \<Rightarrow> (string \<rightharpoonup> string) list \<Rightarrow> VGInfo \<times> go_error option" where
  "vg_rows vg rows =
     (let z = \<lparr>viSizeBytes = 0, viFreeBytes = 0\<rparr> in
      case rows of
        [] \<Rightarrow> (z, Some (errorf (''vg '' @ vg @ '' not in vgs report'')))
      | row # _ \<Rightarrow>
        (case parseInt64 (mget row ''vg_size'') of
           None \<Rightarrow> (z, Some (errorf (''parse vg_size '' @ quoted (mget row ''vg_size'') @ '': '' @ parseInt_error (mget row ''vg_size''))))
         | Some sz \<Rightarrow>
           (case parseInt64 (mget row ''vg_free'') of
              None \<Rightarrow> (z, Some (errorf (''parse vg_free '' @ quoted (mget row ''vg_free'') @ '': '' @ parseInt_error (mget row ''vg_free''))))
            | Some free \<Rightarrow> (\<lparr>viSizeBytes = sz, viFreeBytes = free\<rparr>, None))))"

definition getVGInfo :: "'h os \<Rightarrow> golib \<Rightarrow> string \<Rightarrow> ('h, VGInfo \<times> go_error option) prog" where
  "getVGInfo os lib vg = do {
     r \<leftarrow> Run os ''vgs'' [''--reportformat'', ''json'', ''--units'', ''b'', ''--nosuffix'', ''--options'', ''vg_size,vg_free'', vg];
     ret (if snd r \<noteq> None then (\<lparr>viSizeBytes = 0, viFreeBytes = 0\<rparr>, snd r)
          else
            (case UnmarshalLvm lib (fst r) of
               Inl e \<Rightarrow> (\<lparr>viSizeBytes = 0, viFreeBytes = 0\<rparr>, Some (wrap (''parse vgs report for '' @ vg @ '': '') e))
             | Inr rep \<Rightarrow> vg_rows vg (concat (map leVG rep)))) }"

text \<open>\<open>strconv.ParseInt\<close> with its error dropped: 0 for a syntax error, the nearest int64 when out of
  range.\<close>

definition parseInt64_lax :: "string \<Rightarrow> int" where
  "parseInt64_lax s =
     (case parseInt64 s of
        Some i \<Rightarrow> i
      | None \<Rightarrow>
        (case s of
           [] \<Rightarrow> 0
         | c # t \<Rightarrow>
           (case parse_unsigned (if c = CHR ''-'' \<or> c = CHR ''+'' then t else s) of
              None \<Rightarrow> 0
            | Some _ \<Rightarrow> if c = CHR ''-'' then - (2 ^ 63) else 2 ^ 63 - 1)))"

definition PVs :: "'h os \<Rightarrow> golib \<Rightarrow> string \<Rightarrow> ('h, PV list \<times> go_error option) prog" where
  "PVs os lib vg = do {
     r \<leftarrow> Run os ''pvs'' [''--reportformat'', ''json'', ''--units'', ''b'', ''--nosuffix'',
            ''--options'', ''pv_name,pv_missing,pv_used'', ''--select'', ''vg_name='' @ vg];
     ret (if snd r \<noteq> None then ([], snd r)
          else
            (case UnmarshalLvm lib (fst r) of
               Inl e \<Rightarrow> ([], Some (wrap (''parse pvs report for '' @ vg @ '': '') e))
             | Inr rep \<Rightarrow>
               (map (\<lambda>row. \<lparr>pvName = mget row ''pv_name'', pvMissing = mget row ''pv_missing'' \<noteq> '''',
                           pvUsedBytes = parseInt64_lax (mget row ''pv_used'')\<rparr>) (concat (map lePV rep)), None))) }"

definition consider_pct :: "golib \<Rightarrow> string \<Rightarrow> int option \<Rightarrow> int option" where
  "consider_pct lib s lowest =
     (case ParseFloat lib s of
        None \<Rightarrow> lowest
      | Some f \<Rightarrow>
        if f \<ge> 100 then lowest
        else (case lowest of
                None \<Rightarrow> Some (truncInt f)
              | Some l \<Rightarrow> if truncInt f < l then Some (truncInt f) else lowest))"

definition SyncPercent :: "'h os \<Rightarrow> golib \<Rightarrow> string \<Rightarrow> ('h, int option \<times> go_error option) prog" where
  "SyncPercent os lib vg = do {
     r \<leftarrow> Run os ''lvs'' [''--reportformat'', ''json'', ''-a'', ''--options'', ''lv_name,sync_percent,copy_percent'', vg];
     ret (if snd r \<noteq> None then (None, snd r)
          else
            (case UnmarshalLvm lib (fst r) of
               Inl e \<Rightarrow> (None, Some (wrap (''parse lvs report for '' @ vg @ '': '') e))
             | Inr rep \<Rightarrow>
               (foldl (\<lambda>low row. consider_pct lib (mget row ''copy_percent'') (consider_pct lib (mget row ''sync_percent'') low))
                  None (concat (map leLV rep)), None))) }"

section \<open>Resolved paths\<close>

text \<open>Every device of the spec is a key of the resolved map: a path that cannot be resolved stands
  for itself.\<close>

lemma resolve_lines_dom: "dom m \<subseteq> dom (resolve_lines ds ls m)"
  by (induction ds ls m rule: resolve_lines.induct) (auto split: if_splits)

lemma self_dom: "dom (foldl (\<lambda>m d. m(d \<mapsto> d)) m0 devs) = dom m0 \<union> set devs"
  by (induction devs arbitrary: m0) auto

lemma resolve_lines_covers:
  "set devs \<subseteq> dom (foldl (\<lambda>m d. m(d \<mapsto> d)) Map.empty devs)"
  "set devs \<subseteq> dom (resolve_lines devs ls (foldl (\<lambda>m d. m(d \<mapsto> d)) Map.empty devs))"
  using resolve_lines_dom[of "foldl (\<lambda>m d. m(d \<mapsto> d)) Map.empty devs" devs ls] self_dom[of Map.empty devs]
  by (simp, blast)

lemma ResolvePaths_total: "ensures P (ResolvePaths os devs) (\<lambda>m l. set devs \<subseteq> dom m)"
  unfolding ResolvePaths_def Let_def
  by (intro ensures_if ensures_bind[OF ensures_Run[where Q = "\<lambda>_ _. True"]] ensures_return)
     (simp_all add: resolve_lines_covers)

text \<open>The lowest completion considered is below 100 and never rises.\<close>

lemma consider_pct_lower: "consider_pct lib s (Some l) = Some l' \<Longrightarrow> l' \<le> l"
  by (auto simp: consider_pct_def split: option.splits if_splits)

end
