(* ===== verification/Mdraid.thy ===== *)
theory Mdraid
  imports Host
begin

text \<open>
  The md arrays, \<open>internal/mdraid/mdraid.go\<close>: the mdadm command lines and the parsers of
  \<open>mdadm --detail\<close>, \<open>mdadm --examine\<close> and \<open>/proc/mdstat\<close>.
\<close>

definition DevPath :: "string \<Rightarrow> string" where
  "DevPath pool = ''/dev/md/stornas-'' @ pool"

definition md_Exists :: "'h os \<Rightarrow> string \<Rightarrow> ('h, bool) prog" where
  "md_Exists os dev = run_ok os ''mdadm'' [''--detail'', dev]"

definition md_Create :: "'h os \<Rightarrow> string \<Rightarrow> string \<Rightarrow> string \<Rightarrow> string list \<Rightarrow> ('h, go_error option) prog" where
  "md_Create os dev name level devices =
     run_err os ''mdadm''
       ([''--create'', dev, ''--run'', ''--force'', ''--name='' @ name, ''--homehost=stornas'',
         ''--level='' @ level, ''--raid-devices='' @ itoa (int (length devices))] @ devices)"

record Member =
  mbPath :: string
  mbState :: string

record Detail =
  dtDegraded :: bool
  dtSyncPercent :: "int option"
  dtMembers :: "Member list"

definition detail0 :: Detail where
  "detail0 = \<lparr>dtDegraded = False, dtSyncPercent = None, dtMembers = []\<rparr>"

definition parseMember :: "string \<Rightarrow> Member" where
  "parseMember line =
     \<lparr>mbPath = foldl (\<lambda>p f. if hasPrefix f ''/dev/'' then f else p) '''' (strFields line),
      mbState =
        (if strContains line ''removed'' then ''Missing''
         else if strContains line ''faulty'' then ''Failed''
         else if strContains line ''rebuilding'' \<or> strContains line ''spare'' then ''Rebuilding''
         else ''InSync'')\<rparr>"

text \<open>One line of \<open>mdadm --detail\<close>; the flag is \<open>inTable\<close>.\<close>

definition detail_line :: "golib \<Rightarrow> Detail \<times> bool \<Rightarrow> string \<Rightarrow> Detail \<times> bool" where
  "detail_line lib acc line =
     (case acc of (d, inTable) \<Rightarrow>
        let t = trimSpace line in
        if hasPrefix t ''State :'' then (d\<lparr>dtDegraded := strContains t ''degraded''\<rparr>, inTable)
        else if hasPrefix t ''Rebuild Status :'' \<or> hasPrefix t ''Resync Status :'' then
          (case indexOf t '':'' of
             None \<Rightarrow> (d, inTable)
           | Some i \<Rightarrow>
             (case ParseFloat lib (fst (cut (trimSpace (drop (i + 1) t)) ''%'')) of
                None \<Rightarrow> (d, inTable)
              | Some pct \<Rightarrow> (d\<lparr>dtSyncPercent := Some (truncInt pct)\<rparr>, inTable)))
        else if hasPrefix t ''Number'' \<and> strContains t ''RaidDevice'' then (d, True)
        else if inTable \<and> t \<noteq> '''' then (d\<lparr>dtMembers := dtMembers d @ [parseMember t]\<rparr>, inTable)
        else (d, inTable))"

definition parseDetail :: "golib \<Rightarrow> string \<Rightarrow> Detail" where
  "parseDetail lib out = fst (foldl (detail_line lib) (detail0, False) (splitNL out))"

definition md_Detail :: "'h os \<Rightarrow> golib \<Rightarrow> string \<Rightarrow> ('h, Detail \<times> go_error option) prog" where
  "md_Detail os lib dev = do {
     r \<leftarrow> Run os ''mdadm'' [''--detail'', dev];
     ret (case snd r of
            Some e \<Rightarrow> (detail0, Some (wrap (''mdadm detail '' @ dev @ '': '') e))
          | None \<Rightarrow> (parseDetail lib (fst r), None)) }"

definition md_Replace :: "'h os \<Rightarrow> string \<Rightarrow> string \<Rightarrow> string \<Rightarrow> ('h, go_error option) prog" where
  "md_Replace os dev old new =
     andThen (run_err os ''mdadm'' [dev, ''--add-spare'', new])
       (run_err os ''mdadm'' [dev, ''--replace'', old, ''--with'', new])"

definition md_Add :: "'h os \<Rightarrow> string \<Rightarrow> string \<Rightarrow> ('h, go_error option) prog" where
  "md_Add os dev member = run_err os ''mdadm'' [dev, ''--add'', member]"

definition md_FailDetached :: "'h os \<Rightarrow> string \<Rightarrow> ('h, go_error option) prog" where
  "md_FailDetached os dev = run_err os ''mdadm'' [dev, ''--fail'', ''detached'']"

definition md_RemoveFailed :: "'h os \<Rightarrow> string \<Rightarrow> ('h, go_error option) prog" where
  "md_RemoveFailed os dev =
     andThen (run_err os ''mdadm'' [dev, ''--remove'', ''failed''])
       (run_err os ''mdadm'' [dev, ''--remove'', ''detached''])"

definition md_Fail :: "'h os \<Rightarrow> string \<Rightarrow> string \<Rightarrow> ('h, go_error option) prog" where
  "md_Fail os dev member = run_err os ''mdadm'' [dev, ''--fail'', member]"

definition md_Stop :: "'h os \<Rightarrow> string \<Rightarrow> ('h, go_error option) prog" where
  "md_Stop os dev = do {
     r \<leftarrow> Run os ''mdadm'' [''--stop'', dev];
     ret (case snd r of
            None \<Rightarrow> None
          | Some e \<Rightarrow> if strContains (fst r) ''No such file'' \<or> strContains (eText e) ''No such file''
                      then None else Some e) }"

definition ZeroSuperblock :: "'h os \<Rightarrow> string \<Rightarrow> ('h, go_error option) prog" where
  "ZeroSuperblock os member = do {
     r \<leftarrow> Run os ''mdadm'' [''--zero-superblock'', member];
     ret (if snd r \<noteq> None \<and> (strContains (fst r) ''Unrecognised'' \<or> strContains (fst r) ''No such file'' \<or>
               strContains (fst r) (''Couldn'' @ [CHR 0x27] @ ''t open''))
          then None else snd r) }"

text \<open>The array name in \<open>mdadm --examine\<close> output.\<close>

fun examine_lines :: "string list \<Rightarrow> string" where
  "examine_lines [] = ''''"
| "examine_lines (line # ls) =
     (case cut line '':'' of (k, v, ok) \<Rightarrow>
        if \<not> ok \<or> trimSpace k \<noteq> ''Name'' then examine_lines ls
        else
          (case strFields (trimSpace v) of
             [] \<Rightarrow> ''''
           | name # _ \<Rightarrow>
             (case lastIndexChar name (CHR '':'') of None \<Rightarrow> name | Some i \<Rightarrow> drop (i + 1) name)))"

definition ExamineName :: "'h os \<Rightarrow> string \<Rightarrow> ('h, string) prog" where
  "ExamineName os member = do {
     r \<leftarrow> Run os ''mdadm'' [''--examine'', member];
     ret (if snd r \<noteq> None then '''' else examine_lines (splitNL (fst r))) }"

text \<open>The members in \<open>/proc/mdstat\<close>, as the list of keys set to true (\<open>nil\<close> when unreadable).\<close>

definition mdstat_members :: "string \<Rightarrow> string list" where
  "mdstat_members out =
     concat (map (\<lambda>line.
       if \<not> strContains line '' : '' then []
       else concat (map (\<lambda>f. case indexByte f (CHR ''['') of
              None \<Rightarrow> [] | Some i \<Rightarrow> if i > 0 then [''/dev/'' @ take i f] else []) (strFields line)))
       (splitNL out))"

definition Members :: "'h os \<Rightarrow> ('h, string list) prog" where
  "Members os = do {
     r \<leftarrow> Run os ''cat'' [''/proc/mdstat''];
     ret (if snd r \<noteq> None then [] else mdstat_members (fst r)) }"

section \<open>The parsers on mdadm's output\<close>

text \<open>A member state is one of the four the CRD allows, and a vanished slot is never read as healthy.\<close>

lemma parseMember_state:
  "mbState (parseMember line) \<in> {''InSync'', ''Rebuilding'', ''Failed'', ''Missing''}"
  by (simp add: parseMember_def)

lemma parseMember_InSync:
  "mbState (parseMember line) = ''InSync'' \<longleftrightarrow>
     \<not> strContains line ''removed'' \<and> \<not> strContains line ''faulty'' \<and>
     \<not> strContains line ''rebuilding'' \<and> \<not> strContains line ''spare''"
  by (simp add: parseMember_def)

lemma member_path_cases:
  fixes fs :: "string list"
  shows "foldl (\<lambda>p f. if Q f then f else p) p0 fs = p0 \<or>
     foldl (\<lambda>p f. if Q f then f else p) p0 fs \<in> set fs \<and> Q (foldl (\<lambda>p f. if Q f then f else p) p0 fs)"
proof (induction fs arbitrary: p0)
  case (Cons f fs)
  from Cons.IH[of "if Q f then f else p0"] show ?case by (cases "Q f") auto
qed simp

lemma parseMember_path:
  "mbPath (parseMember line) = '''' \<or>
     mbPath (parseMember line) \<in> set (strFields line) \<and> hasPrefix (mbPath (parseMember line)) ''/dev/''"
  using member_path_cases[of "\<lambda>f. hasPrefix f ''/dev/''" "''''" "strFields line"] by (auto simp: parseMember_def)

lemma mdstat_member_form:
  assumes "m \<in> set (mdstat_members out)"
  shows "\<exists>f. f \<noteq> '''' \<and> CHR ''['' \<notin> set f \<and> m = ''/dev/'' @ f"
proof -
  from assms obtain f i where i: "indexByte f (CHR ''['') = Some i" "i > 0" "m = ''/dev/'' @ take i f"
    by (auto simp: mdstat_members_def split: if_splits option.splits) metis
  then have "take i f = takeWhile (\<lambda>x. x \<noteq> CHR ''['') f"
    by (auto simp: indexByte_def takeWhile_eq_take[symmetric] split: if_splits)
  with i show ?thesis
    by (intro exI[of _ "take i f"]) (auto simp: indexByte_def dest: set_takeWhileD split: if_splits)
qed

end
