(* ===== verification/Pool_Agent.thy ===== *)
theory Pool_Agent
  imports Lvm Mdraid Cluster
begin

text \<open>
  The node agent's pools: \<open>internal/agent/pool.go\<close> and \<open>internal/agent/replace.go\<close>. Host commands
  run through the log of theory Host. The range order of the \<open>resolved\<close> map is the argument
  \<open>order\<close>.
\<close>

section \<open>Membership plan (replace.go)\<close>

record devicePlan =
  dpAdd :: "string list"
  dpEvacuate :: "string list"
  dpDrop :: "string list"
  dpMissing :: bool

definition plan_empty :: "devicePlan \<Rightarrow> bool" where
  "plan_empty p \<longleftrightarrow> dpAdd p = [] \<and> dpEvacuate p = [] \<and> dpDrop p = [] \<and> \<not> dpMissing p"

definition resolved_or :: "(string \<rightharpoonup> string) \<Rightarrow> string \<Rightarrow> string" where
  "resolved_or resolved dev = (if mget resolved dev = '''' then dev else mget resolved dev)"

fun plan_pvs :: "(string \<Rightarrow> bool) \<Rightarrow> PV list \<Rightarrow> devicePlan \<times> (string \<Rightarrow> bool) \<Rightarrow> devicePlan \<times> (string \<Rightarrow> bool)" where
  "plan_pvs want [] acc = acc"
| "plan_pvs want (pv # pvs) (plan, present) =
     (if pvMissing pv then plan_pvs want pvs (plan\<lparr>dpMissing := True\<rparr>, present)
      else
        let present' = present(pvName pv := True) in
        if want (pvName pv) then plan_pvs want pvs (plan, present')
        else if pvUsedBytes pv > 0 then
          plan_pvs want pvs (plan\<lparr>dpEvacuate := dpEvacuate plan @ [pvName pv]\<rparr>, present')
        else plan_pvs want pvs (plan\<lparr>dpDrop := dpDrop plan @ [pvName pv]\<rparr>, present'))"

definition planDevices :: "string list \<Rightarrow> (string \<rightharpoonup> string) \<Rightarrow> PV list \<Rightarrow> devicePlan" where
  "planDevices spec resolved pvs =
     (let want = foldl (\<lambda>w dev. w(resolved_or resolved dev := True)) (\<lambda>_. False) spec in
      case plan_pvs want pvs (\<lparr>dpAdd = [], dpEvacuate = [], dpDrop = [], dpMissing = False\<rparr>, \<lambda>_. False) of
        (plan, present) \<Rightarrow>
          plan\<lparr>dpAdd := dpAdd plan @ filter (\<lambda>dev. \<not> present (resolved_or resolved dev)) spec\<rparr>)"

fun add_loop :: "'h os \<Rightarrow> string \<Rightarrow> string list \<Rightarrow> ('h, go_error option) prog" where
  "add_loop os vg [] = ret None"
| "add_loop os vg (dev # devs) = do {
     isPV \<leftarrow> IsPV os dev;
     andThen (if \<not> isPV then CreatePV os dev else ret None)
       (andThen (VGExtend os vg dev) (add_loop os vg devs)) }"

fun evacuate_loop :: "'h os \<Rightarrow> string \<Rightarrow> string list \<Rightarrow> ('h, go_error option) prog" where
  "evacuate_loop os dst [] = ret None"
| "evacuate_loop os dst (dev # devs) = andThen (PVMove os dev dst) (evacuate_loop os dst devs)"

fun drop_loop :: "'h os \<Rightarrow> string \<Rightarrow> string list \<Rightarrow> ('h, go_error option) prog" where
  "drop_loop os vg [] = ret None"
| "drop_loop os vg (dev # devs) =
     andThen (VGReduce os vg dev) (andThen (PVRemove os dev) (drop_loop os vg devs))"

definition convergeDevices :: "'h os \<Rightarrow> StoragePool \<Rightarrow> devicePlan \<Rightarrow> ('h, go_error option) prog" where
  "convergeDevices os pool plan =
     (let vg = VGName pool; dst = (case dpAdd plan of [d] \<Rightarrow> d | _ \<Rightarrow> '''') in
      andThen (add_loop os vg (dpAdd plan))
        (andThen (evacuate_loop os dst (dpEvacuate plan)) (drop_loop os vg (dpDrop plan))))"

section \<open>Convergence (pool.go)\<close>

record Report =
  rVG :: string
  rCapacity :: int
  rFree :: int
  rHealth :: string
  rDevices :: "DeviceStatus list"
  rRebuild :: "int option"

definition report0 :: "string \<Rightarrow> Report" where
  "report0 vg = \<lparr>rVG = vg, rCapacity = 0, rFree = 0, rHealth = ''Failed'', rDevices = [], rRebuild = None\<rparr>"

definition device_status :: "string \<Rightarrow> string \<Rightarrow> DeviceStatus" where
  "device_status path state = \<lparr>dsPath = path, dsSerial = '''', dsSmart = '''', dsState = state\<rparr>"

text \<open>The inverse of the resolved map, built in range order, and the spec devices no live member
  stands for.\<close>

definition spec_path :: "(string \<rightharpoonup> string) \<Rightarrow> string list \<Rightarrow> (string \<rightharpoonup> string)" where
  "spec_path resolved ks = foldl (\<lambda>m dev. m(mget resolved dev \<mapsto> dev)) Map.empty ks"

fun linear_devices :: "(string \<rightharpoonup> string) \<Rightarrow> int option \<Rightarrow> (string \<Rightarrow> bool) \<Rightarrow> PV list \<Rightarrow> string list \<Rightarrow> string \<Rightarrow>
    DeviceStatus list \<Rightarrow> string \<times> DeviceStatus list" where
  "linear_devices sp rebuild added [] orphaned health devs = (health, devs)"
| "linear_devices sp rebuild added (pv # pvs) orphaned health devs =
     (let state = (if pvMissing pv then ''Missing''
                   else if rebuild \<noteq> None \<and> added (pvName pv) then ''Rebuilding'' else ''InSync'');
          health' = (if pvMissing pv then ''Degraded'' else health) in
      case sp (pvName pv) of
        Some dev \<Rightarrow> linear_devices sp rebuild added pvs orphaned health' (devs @ [device_status dev state])
      | None \<Rightarrow>
        (case (pvMissing pv, orphaned) of
           (True, o1 # os) \<Rightarrow> linear_devices sp rebuild added pvs os health' (devs @ [device_status o1 state])
         | _ \<Rightarrow> linear_devices sp rebuild added pvs orphaned health' (devs @ [device_status (pvName pv) state])))"

text \<open>The report of a linear pool from what was read.\<close>

definition linear_report :: "string \<Rightarrow> string list \<Rightarrow> (string \<rightharpoonup> string) \<Rightarrow> string list \<Rightarrow> (string \<Rightarrow> bool) \<Rightarrow> PV list \<Rightarrow> VGInfo \<Rightarrow>
    int option \<Rightarrow> Report" where
  "linear_report vg spec resolved ks added pvs info rebuild =
     (let sp = spec_path resolved ks;
          presentSpec = (\<lambda>dev. list_ex (\<lambda>pv. sp (pvName pv) = Some dev \<and> \<not> pvMissing pv) pvs);
          orphaned = filter (\<lambda>dev. \<not> presentSpec dev) spec in
      case linear_devices sp rebuild added pvs orphaned ''Online'' [] of
        (health, devs) \<Rightarrow>
          \<lparr>rVG = vg, rCapacity = viSizeBytes info, rFree = viFreeBytes info, rHealth = health, rDevices = devs,
           rRebuild = rebuild\<rparr>)"

text \<open>Building a PV on each device, the loop over the devices of the spec.\<close>

fun pv_loop :: "'h os \<Rightarrow> string list \<Rightarrow> ('h, go_error option) prog" where
  "pv_loop os [] = ret None"
| "pv_loop os (dev # devs) = do {
     isPV \<leftarrow> IsPV os dev;
     andThen (if \<not> isPV then CreatePV os dev else ret None) (pv_loop os devs) }"

definition ensure_vg :: "'h os \<Rightarrow> string \<Rightarrow> string list \<Rightarrow> ('h, go_error option) prog" where
  "ensure_vg os vg devices = do {
     exists \<leftarrow> VGExists os vg;
     if \<not> exists then andThen (pv_loop os devices) (CreateVG os vg devices) else ret None }"

definition ensure_thin :: "'h os \<Rightarrow> string \<Rightarrow> ('h, go_error option) prog" where
  "ensure_thin os vg = do {
     thin \<leftarrow> IsThinPool os vg ThinLV;
     if \<not> thin then CreateThinPool os vg ThinLV else ret None }"

fun live_loop :: "'h os \<Rightarrow> string list \<Rightarrow> ('h, string list) prog" where
  "live_loop os [] = ret []"
| "live_loop os (dev # devs) = do {
     b \<leftarrow> IsBlockDev os dev;
     rest \<leftarrow> live_loop os devs;
     ret (if b then dev # rest else rest) }"

definition linear_observe :: "'h os \<Rightarrow> golib \<Rightarrow> string \<Rightarrow> string list \<Rightarrow> (string \<rightharpoonup> string) \<Rightarrow> string list \<Rightarrow> (string \<Rightarrow> bool) \<Rightarrow>
    PV list \<Rightarrow> ('h, Report \<times> go_error option) prog" where
  "linear_observe os lib vg spec resolved ks added pvs = do {
     i \<leftarrow> getVGInfo os lib vg;
     if snd i \<noteq> None then ret (report0 vg, snd i)
     else do {
       s \<leftarrow> SyncPercent os lib vg;
       if snd s \<noteq> None then ret ((report0 vg)\<lparr>rRebuild := fst s\<rparr>, snd s)
       else ret (linear_report vg spec resolved ks added pvs (fst i) (fst s), None) } }"

text \<open>Acting on the plan (when there is anything to do) and reporting what is then seen.\<close>

definition linear_settle :: "'h os \<Rightarrow> golib \<Rightarrow> string list \<Rightarrow> StoragePool \<Rightarrow> (string \<rightharpoonup> string) \<Rightarrow> devicePlan \<Rightarrow> PV list \<Rightarrow>
    ('h, Report \<times> go_error option) prog" where
  "linear_settle os lib ks pool resolved plan pvs =
     (let vg = VGName pool; spec = spsDevices (spSpec pool) in
      if plan_empty plan then linear_observe os lib vg spec resolved ks (\<lambda>_. False) pvs
      else
        checked (report0 vg) (convergeDevices os pool plan)
          (do {
             p2 \<leftarrow> PVs os lib vg;
             if snd p2 \<noteq> None then ret (report0 vg, snd p2)
             else linear_observe os lib vg spec resolved ks
                    (\<lambda>x. list_ex (\<lambda>dev. mget resolved dev = x) (dpAdd plan)) (fst p2) }))"

definition linear_members :: "'h os \<Rightarrow> golib \<Rightarrow> ((string \<rightharpoonup> string) \<Rightarrow> string list) \<Rightarrow> StoragePool \<Rightarrow> PV list \<Rightarrow>
    ('h, Report \<times> go_error option) prog" where
  "linear_members os lib order pool pvs = do {
     resolved \<leftarrow> ResolvePaths os (spsDevices (spSpec pool));
     let plan = planDevices (spsDevices (spSpec pool)) resolved pvs;
     live \<leftarrow> live_loop os (dpAdd plan);
     linear_settle os lib (order resolved) pool resolved (plan\<lparr>dpAdd := live\<rparr>) pvs }"

definition ensureLinearPool :: "'h os \<Rightarrow> golib \<Rightarrow> ((string \<rightharpoonup> string) \<Rightarrow> string list) \<Rightarrow> StoragePool \<Rightarrow>
    ('h, Report \<times> go_error option) prog" where
  "ensureLinearPool os lib order pool =
     (let vg = VGName pool; rep = report0 vg in
      checked rep (ensure_vg os vg (spsDevices (spSpec pool)))
        (checked rep (ensure_thin os vg)
          (do {
             p \<leftarrow> PVs os lib vg;
             if snd p \<noteq> None then ret (rep, snd p) else linear_members os lib order pool (fst p) })))"

section \<open>Raid pools (pool.go)\<close>

text \<open>The loop that adds spec devices to the array: \<open>members\<close> and \<open>inSpec\<close> are fixed before it, the
  detail is re-read after every change.\<close>

definition healthy_stranger :: "(string \<Rightarrow> bool) \<Rightarrow> Detail \<Rightarrow> string" where
  "healthy_stranger inSpec d =
     (case find (\<lambda>mb. mbPath mb \<noteq> '''' \<and> mbState mb = ''InSync'' \<and> \<not> inSpec (mbPath mb)) (dtMembers d) of
        None \<Rightarrow> '''' | Some mb \<Rightarrow> mbPath mb)"

fun member_loop :: "'h os \<Rightarrow> golib \<Rightarrow> string \<Rightarrow> (string \<rightharpoonup> string) \<Rightarrow> (string \<Rightarrow> bool) \<Rightarrow> (string \<Rightarrow> bool) \<Rightarrow> string list \<Rightarrow>
    Detail \<Rightarrow> ('h, Detail \<times> go_error option) prog" where
  "member_loop os lib dev resolved members inSpec [] detail = ret (detail, None)"
| "member_loop os lib dev resolved members inSpec (d # ds) detail =
     (if members (mget resolved d) then member_loop os lib dev resolved members inSpec ds detail
      else do {
        b \<leftarrow> IsBlockDev os d;
        if \<not> b then member_loop os lib dev resolved members inSpec ds detail
        else
          (let old = healthy_stranger inSpec detail in
           checked detail (if old \<noteq> '''' then md_Replace os dev old d else md_Add os dev d)
             (do {
                r \<leftarrow> md_Detail os lib dev;
                if snd r \<noteq> None then ret r
                else member_loop os lib dev resolved members inSpec ds (fst r) })) })"

fun raid_devices :: "(string \<rightharpoonup> string) \<Rightarrow> Member list \<Rightarrow> string list \<Rightarrow> DeviceStatus list" where
  "raid_devices sp [] orphaned = []"
| "raid_devices sp (mb # mbs) orphaned =
     (case (if mbPath mb \<noteq> '''' then sp (mbPath mb) else None) of
        Some dev \<Rightarrow> device_status dev (mbState mb) # raid_devices sp mbs orphaned
      | None \<Rightarrow>
        (case (mbState mb \<noteq> ''InSync'', orphaned) of
           (True, o1 # os) \<Rightarrow> device_status o1 (mbState mb) # raid_devices sp mbs os
         | _ \<Rightarrow> device_status (mbPath mb) (mbState mb) # raid_devices sp mbs orphaned))"

definition raid_report :: "string \<Rightarrow> string list \<Rightarrow> (string \<rightharpoonup> string) \<Rightarrow> string list \<Rightarrow> Detail \<Rightarrow> VGInfo \<Rightarrow> Report" where
  "raid_report vg spec resolved ks detail info =
     (let sp = spec_path resolved ks;
          presentSpec = (\<lambda>dev. list_ex (\<lambda>mb. mbPath mb \<noteq> '''' \<and> sp (mbPath mb) = Some dev) (dtMembers detail));
          orphaned = filter (\<lambda>dev. \<not> presentSpec dev) spec in
      \<lparr>rVG = vg, rCapacity = viSizeBytes info, rFree = viFreeBytes info,
       rHealth = (if dtDegraded detail then ''Degraded'' else ''Online''),
       rDevices = raid_devices sp (dtMembers detail) orphaned, rRebuild = dtSyncPercent detail\<rparr>)"

text \<open>Reading the array: failed members leave, and the detail is read again when one did.\<close>

definition settled_detail :: "'h os \<Rightarrow> golib \<Rightarrow> string \<Rightarrow> ('h, Detail \<times> go_error option) prog" where
  "settled_detail os lib dev = do {
     r \<leftarrow> md_Detail os lib dev;
     if snd r \<noteq> None then ret r
     else if list_ex (\<lambda>mb. mbState mb = ''Failed'') (dtMembers (fst r)) then
       checked (fst r) (md_RemoveFailed os dev) (md_Detail os lib dev)
     else ret r }"

definition ensureRaidPool :: "'h os \<Rightarrow> golib \<Rightarrow> ((string \<rightharpoonup> string) \<Rightarrow> string list) \<Rightarrow> StoragePool \<Rightarrow>
    ('h, Report \<times> go_error option) prog" where
  "ensureRaidPool os lib order pool =
     (let vg = VGName pool; rep = report0 vg; spec = spsDevices (spSpec pool); name = omName (spMeta pool);
          dev = DevPath name in
      checked rep
        (do { exists \<leftarrow> md_Exists os dev;
              if \<not> exists then md_Create os dev (''stornas-'' @ name) (spsRaid (spSpec pool)) spec else ret None })
        (checked rep (ensure_vg os vg [dev])
          (checked rep (ensure_thin os vg)
            (do {
               _ \<leftarrow> md_FailDetached os dev;
               d1 \<leftarrow> settled_detail os lib dev;
               if snd d1 \<noteq> None then ret (rep, snd d1)
               else do {
                 resolved \<leftarrow> ResolvePaths os spec;
                 let members = (\<lambda>p. list_ex (\<lambda>mb. mbPath mb \<noteq> '''' \<and> mbPath mb = p) (dtMembers (fst d1)));
                 let inSpec = (\<lambda>p. list_ex (\<lambda>d. mget resolved d = p) spec);
                 d2 \<leftarrow> member_loop os lib dev resolved members inSpec spec (fst d1);
                 if snd d2 \<noteq> None then ret (rep, snd d2)
                 else do {
                   i \<leftarrow> getVGInfo os lib vg;
                   if snd i \<noteq> None then ret (rep, snd i)
                   else ret (raid_report vg spec resolved (order resolved) (fst d2) (fst i), None) } } }))))"

section \<open>Dispatch and teardown\<close>

definition raid_pool :: "StoragePool \<Rightarrow> bool" where
  "raid_pool pool \<longleftrightarrow> \<not> (spsRaid (spSpec pool) = '''' \<or> spsRaid (spSpec pool) = ''none'')"

definition EnsureHostPool :: "'h os \<Rightarrow> golib \<Rightarrow> ((string \<rightharpoonup> string) \<Rightarrow> string list) \<Rightarrow> StoragePool \<Rightarrow>
    ('h, Report \<times> go_error option) prog" where
  "EnsureHostPool os lib order pool =
     (if \<not> raid_pool pool then ensureLinearPool os lib order pool else ensureRaidPool os lib order pool)"

fun zero_loop :: "'h os \<Rightarrow> string \<Rightarrow> string list \<Rightarrow> ('h, go_error option) prog" where
  "zero_loop os name [] = ret None"
| "zero_loop os name (dev # devs) = do {
     path \<leftarrow> ResolvePath os dev;
     b \<leftarrow> IsBlockDev os path;
     if \<not> b then zero_loop os name devs
     else do {
       n \<leftarrow> ExamineName os path;
       if n \<noteq> ''stornas-'' @ name then zero_loop os name devs
       else andThen (ZeroSuperblock os path) (zero_loop os name devs) } }"

fun wipe_loop :: "'h os \<Rightarrow> string \<Rightarrow> string list \<Rightarrow> ('h, go_error option) prog" where
  "wipe_loop os vgname [] = ret None"
| "wipe_loop os vgname (dev # devs) = do {
     b \<leftarrow> IsBlockDev os dev;
     if \<not> b then wipe_loop os vgname devs
     else do {
       r \<leftarrow> PVVG os dev;
       if \<not> snd r \<or> (fst r \<noteq> '''' \<and> fst r \<noteq> vgname) then wipe_loop os vgname devs
       else andThen (PVWipe os dev) (wipe_loop os vgname devs) } }"

definition TeardownPool :: "'h os \<Rightarrow> StoragePool \<Rightarrow> ('h, go_error option) prog" where
  "TeardownPool os pool =
     andThen (VGRemove os (VGName pool))
       (if raid_pool pool then
          andThen (md_Stop os (DevPath (omName (spMeta pool))))
            (zero_loop os (omName (spMeta pool)) (spsDevices (spSpec pool)))
        else wipe_loop os (VGName pool) (spsDevices (spSpec pool)))"

section \<open>The reconciler\<close>

record SmartInfo =
  siVerdict :: string
  siTempCelsius :: "int option"
  siPowerOnHours :: "int option"

definition refreshInterval :: int where
  "refreshInterval = 60 * second"

definition rebuildInterval :: int where
  "rebuildInterval = 10 * second"

definition set_agent_cond :: "metalib \<Rightarrow> StoragePool \<Rightarrow> Condition \<Rightarrow> StoragePool" where
  "set_agent_cond lib p cond =
     p\<lparr>spStatus := (spStatus p)\<lparr>spConditions := SetStatusCondition lib (spConditions (spStatus p)) cond\<rparr>\<rparr>"

text \<open>The SMART verdicts joined onto the devices, and the report laid over the status.\<close>

definition join_smart :: "(string \<rightharpoonup> SmartInfo) option \<Rightarrow> DeviceStatus list \<Rightarrow> DeviceStatus list" where
  "join_smart smart devs =
     (case smart of
        None \<Rightarrow> devs
      | Some m \<Rightarrow> map (\<lambda>d. case m (dsPath d) of None \<Rightarrow> d | Some info \<Rightarrow> d\<lparr>dsSmart := siVerdict info\<rparr>) devs)"

definition apply_report :: "metalib \<Rightarrow> (string \<rightharpoonup> SmartInfo) option \<Rightarrow> Report \<Rightarrow> go_error option \<Rightarrow> StoragePool \<Rightarrow> StoragePool" where
  "apply_report lib smart rep ensureErr pool =
     (let st = spStatus pool; devs = join_smart smart (rDevices rep);
          st1 = st\<lparr>spVG := rVG rep, spHealth := rHealth rep\<rparr>;
          st2 = (if length devs > 0 then st1\<lparr>spDevices := devs, spRebuildPercent := rRebuild rep\<rparr> else st1);
          st3 = (if rCapacity rep > 0 then st2\<lparr>spCapacity := Some (rCapacity rep), spFree := Some (rFree rep)\<rparr> else st2);
          cond = \<lparr>cType = ConditionHostReady,
                  cStatus = (if ensureErr \<noteq> None then ConditionFalse else ConditionTrue),
                  cReason = (if ensureErr \<noteq> None then ReasonHostError else ReasonReady),
                  cMessage = (case ensureErr of None \<Rightarrow> '''' | Some e \<Rightarrow> eText e),
                  cObservedGeneration = omGeneration (spMeta pool)\<rparr> in
      set_agent_cond lib (pool\<lparr>spStatus := st3\<rparr>) cond)"

datatype agent_pool_write = AgentPoolStatus StoragePool

definition torn_down :: "StoragePool \<Rightarrow> Condition" where
  "torn_down pool = \<lparr>cType = ConditionTornDown, cStatus = ConditionTrue, cReason = ReasonReady, cMessage = '''',
     cObservedGeneration = omGeneration (spMeta pool)\<rparr>"

definition PoolAgentReconcile :: "metalib \<Rightarrow> kclient \<Rightarrow> 'h os \<Rightarrow> golib \<Rightarrow> ((string \<rightharpoonup> string) \<Rightarrow> string list) \<Rightarrow>
    (string \<rightharpoonup> SmartInfo) option \<Rightarrow> string \<Rightarrow> string \<Rightarrow> ('h, agent_pool_write outcome) prog" where
  "PoolAgentReconcile lib c os glib order smart node name =
     (case GetStoragePool c name of
        Inl e \<Rightarrow> ret (fail_with [] (IgnoreNotFound (Some e)))
      | Inr pool \<Rightarrow>
        if spsNode (spSpec pool) \<noteq> node then ret (done_with [])
        else if omDeleting (spMeta pool) then
          if IsStatusConditionTrue lib (spConditions (spStatus pool)) ConditionTornDown then ret (done_with [])
          else if \<not> IsStatusConditionTrue lib (spConditions (spStatus pool)) ConditionDeregistered then ret (done_with [])
          else do {
            err \<leftarrow> TeardownPool os pool;
            ret (case err of
                   Some e \<Rightarrow> fail_with [] (Some e)
                 | None \<Rightarrow>
                   let pool' = set_agent_cond lib pool (torn_down pool) in
                   (case UpdateStoragePoolStatus c pool' of
                      Inl e \<Rightarrow> fail_with [AgentPoolStatus pool'] (IgnoreNotFound (Some e))
                    | Inr _ \<Rightarrow> done_with [AgentPoolStatus pool'])) }
        else do {
          r \<leftarrow> EnsureHostPool os glib order pool;
          let pool' = apply_report lib smart (fst r) (snd r) pool;
          ret (case UpdateStoragePoolStatus c pool' of
                 Inl e \<Rightarrow> if eReason e = Conflict then done_with [AgentPoolStatus pool']
                          else fail_with [AgentPoolStatus pool'] (Some e)
               | Inr _ \<Rightarrow>
                 if snd r \<noteq> None then fail_with [AgentPoolStatus pool'] (snd r)
                 else ([AgentPoolStatus pool'],
                       requeue (if rRebuild (fst r) \<noteq> None then rebuildInterval else refreshInterval), None)) })"

section \<open>The plan\<close>

lemma plan_pvs_char:
  assumes "plan_pvs want pvs (plan0, present0) = (plan, present)"
  shows "dpAdd plan = dpAdd plan0"
    and "dpEvacuate plan = dpEvacuate plan0 @
           map pvName (filter (\<lambda>pv. \<not> pvMissing pv \<and> \<not> want (pvName pv) \<and> pvUsedBytes pv > 0) pvs)"
    and "dpDrop plan = dpDrop plan0 @
           map pvName (filter (\<lambda>pv. \<not> pvMissing pv \<and> \<not> want (pvName pv) \<and> \<not> pvUsedBytes pv > 0) pvs)"
    and "dpMissing plan \<longleftrightarrow> dpMissing plan0 \<or> (\<exists>pv \<in> set pvs. pvMissing pv)"
    and "present n \<longleftrightarrow> present0 n \<or> (\<exists>pv \<in> set pvs. \<not> pvMissing pv \<and> pvName pv = n)"
  using assms by (induction want pvs "(plan0, present0)" arbitrary: plan0 present0 rule: plan_pvs.induct)
    (auto simp: Let_def split: if_splits)

lemma want_iff:
  "foldl (\<lambda>w dev. w(resolved_or r dev := True)) w0 spec n \<longleftrightarrow> w0 n \<or> (\<exists>dev \<in> set spec. resolved_or r dev = n)"
  by (induction spec arbitrary: w0) auto

lemma planDevices_char:
  fixes spec r pvs
  defines "want \<equiv> \<lambda>n. \<exists>dev \<in> set spec. resolved_or r dev = n"
  shows "planDevices spec r pvs =
    \<lparr>dpAdd = filter (\<lambda>dev. \<not> (\<exists>pv \<in> set pvs. \<not> pvMissing pv \<and> pvName pv = resolved_or r dev)) spec,
     dpEvacuate = map pvName (filter (\<lambda>pv. \<not> pvMissing pv \<and> \<not> want (pvName pv) \<and> pvUsedBytes pv > 0) pvs),
     dpDrop = map pvName (filter (\<lambda>pv. \<not> pvMissing pv \<and> \<not> want (pvName pv) \<and> \<not> pvUsedBytes pv > 0) pvs),
     dpMissing = (\<exists>pv \<in> set pvs. pvMissing pv)\<rparr>"
proof -
  have w: "foldl (\<lambda>w dev. w(resolved_or r dev := True)) (\<lambda>_. False) spec = want"
    by (auto simp: want_iff want_def fun_eq_iff)
  obtain plan present where run:
    "plan_pvs want pvs (\<lparr>dpAdd = [], dpEvacuate = [], dpDrop = [], dpMissing = False\<rparr>, \<lambda>_. False) = (plan, present)"
    by fastforce
  note c = plan_pvs_char[OF run]
  show ?thesis using run c by (simp add: planDevices_def w)
qed

section \<open>Teardown: what may be destroyed\<close>

abbreviation vg_query :: "string \<Rightarrow> cmd" where
  "vg_query dev \<equiv> plain ''pvs'' [''--noheadings'', ''--options'', ''vg_name'', dev]"

text \<open>The commands teardown may run, given the log so far: remove this pool's VG, stop this pool's
  array, clear the label of a spec device whose PV the command just before reported to belong to no
  VG or to this pool's, clear the superblock of a device the command just before reported to be a
  member of this pool's array; and reads.\<close>

definition teardown_ok :: "StoragePool \<Rightarrow> log \<Rightarrow> cmd \<Rightarrow> bool" where
  "teardown_ok pool l c \<longleftrightarrow>
     c = plain ''vgremove'' [''-ff'', ''-y'', VGName pool] \<or>
     c = plain ''mdadm'' [''--stop'', DevPath (omName (spMeta pool))] \<and> raid_pool pool \<or>
     (\<exists>dev \<in> set (spsDevices (spSpec pool)). \<exists>out. c = plain ''pvremove'' [''-ff'', ''-y'', dev] \<and> \<not> raid_pool pool \<and>
        l \<noteq> [] \<and> last l = (vg_query dev, (out, None)) \<and> trimSpace out \<in> {'''', VGName pool}) \<or>
     (\<exists>path out. c = plain ''mdadm'' [''--zero-superblock'', path] \<and> raid_pool pool \<and>
        l \<noteq> [] \<and> last l = (plain ''mdadm'' [''--examine'', path], (out, None)) \<and>
        examine_lines (splitNL out) = ''stornas-'' @ omName (spMeta pool)) \<or>
     (\<exists>path. c = plain ''readlink'' [''-f'', path]) \<or> (\<exists>path. c = plain ''test'' [''-b'', path]) \<or>
     (\<exists>dev. c = vg_query dev) \<or> (\<exists>path. c = plain ''mdadm'' [''--examine'', path])"

lemma PVVG_ensures:
  assumes "\<And>l. J l (vg_query dev)"
  shows "ensures (justified J) (PVVG os dev) (\<lambda>r l. justified J l \<and>
     (snd r \<longrightarrow> (\<exists>out. l \<noteq> [] \<and> last l = (vg_query dev, (out, None)) \<and> fst r = trimSpace out)))"
  unfolding PVVG_def
proof (rule ensures_bind[OF ensures_Run[where Q = "\<lambda>r l. justified J l \<and> l \<noteq> [] \<and> last l = (vg_query dev, r)"]])
  fix r :: cmd_result
  show "ensures (\<lambda>l. justified J l \<and> l \<noteq> [] \<and> last l = (vg_query dev, r))
     (ret (if snd r \<noteq> None then ('''', False) else (trimSpace (fst r), True)))
     (\<lambda>r l. justified J l \<and> (snd r \<longrightarrow> (\<exists>out. l \<noteq> [] \<and> last l = (vg_query dev, (out, None)) \<and> fst r = trimSpace out)))"
    by (cases r) (auto intro!: ensures_return split: if_splits)
qed (use assms in simp)

lemma ExamineName_ensures:
  assumes "\<And>l. J l (plain ''mdadm'' [''--examine'', path])"
  shows "ensures (justified J) (ExamineName os path) (\<lambda>n l. justified J l \<and>
     (n \<noteq> '''' \<longrightarrow> (\<exists>out. l \<noteq> [] \<and> last l = (plain ''mdadm'' [''--examine'', path], (out, None)) \<and>
        n = examine_lines (splitNL out))))"
  unfolding ExamineName_def
proof (rule ensures_bind[OF ensures_Run[where Q = "\<lambda>r l. justified J l \<and> l \<noteq> [] \<and> last l = (plain ''mdadm'' [''--examine'', path], r)"]])
  fix r :: cmd_result
  show "ensures (\<lambda>l. justified J l \<and> l \<noteq> [] \<and> last l = (plain ''mdadm'' [''--examine'', path], r))
     (ret (if snd r \<noteq> None then '''' else examine_lines (splitNL (fst r))))
     (\<lambda>n l. justified J l \<and> (n \<noteq> '''' \<longrightarrow> (\<exists>out. l \<noteq> [] \<and>
        last l = (plain ''mdadm'' [''--examine'', path], (out, None)) \<and> n = examine_lines (splitNL out))))"
    by (cases r) (auto intro!: ensures_return split: if_splits)
qed (use assms in simp)

lemma wipe_loop_keeps:
  assumes "set devs \<subseteq> set (spsDevices (spSpec pool))" and "\<not> raid_pool pool"
  shows "keeps (justified (teardown_ok pool)) (wipe_loop os (VGName pool) devs)"
  using assms(1)
proof (induction devs)
  case Nil
  then show ?case by (simp add: keeps_return)
next
  case (Cons dev devs)
  let ?J = "teardown_ok pool"
  have IH: "keeps (justified ?J) (wipe_loop os (VGName pool) devs)" using Cons by simp
  have test: "keeps (justified ?J) (IsBlockDev os dev)"
    unfolding IsBlockDev_def by (intro keeps_intro) (simp add: teardown_ok_def)
  have wipe: "ensures (\<lambda>l. justified ?J l \<and>
      (snd r \<longrightarrow> (\<exists>out. l \<noteq> [] \<and> last l = (vg_query dev, (out, None)) \<and> fst r = trimSpace out)))
     (if \<not> snd r \<or> (fst r \<noteq> '''' \<and> fst r \<noteq> VGName pool) then wipe_loop os (VGName pool) devs
      else andThen (PVWipe os dev) (wipe_loop os (VGName pool) devs)) (\<lambda>_. justified ?J)" for r :: "string \<times> bool"
  proof (rule ensures_if)
    assume "\<not> (\<not> snd r \<or> (fst r \<noteq> '''' \<and> fst r \<noteq> VGName pool))"
    then have r: "snd r" "fst r \<in> {'''', VGName pool}" by auto
    show "ensures (\<lambda>l. justified ?J l \<and>
       (snd r \<longrightarrow> (\<exists>out. l \<noteq> [] \<and> last l = (vg_query dev, (out, None)) \<and> fst r = trimSpace out)))
       (andThen (PVWipe os dev) (wipe_loop os (VGName pool) devs)) (\<lambda>_. justified ?J)"
    proof (rule ensures_andThen[OF _ keeps_ensures[OF IH]])
      show "ensures (\<lambda>l. justified ?J l \<and>
         (snd r \<longrightarrow> (\<exists>out. l \<noteq> [] \<and> last l = (vg_query dev, (out, None)) \<and> fst r = trimSpace out)))
         (PVWipe os dev) (\<lambda>e l. if e = None then justified ?J l else justified ?J l)"
        unfolding PVWipe_def
        by (rule ensures_bind[OF ensures_Run[where Q = "\<lambda>_. justified ?J"]])
           (use r Cons.prems assms(2) in \<open>auto simp: teardown_ok_def intro!: ensures_return\<close>)
    qed
  qed (use IH in \<open>auto intro: ensures_keeps\<close>)
  have q: "ensures (justified ?J) (PVVG os dev) (\<lambda>r l. justified ?J l \<and>
     (snd r \<longrightarrow> (\<exists>out. l \<noteq> [] \<and> last l = (vg_query dev, (out, None)) \<and> fst r = trimSpace out)))"
    by (rule PVVG_ensures) (simp add: teardown_ok_def)
  show ?case
    unfolding wipe_loop.simps
    by (intro keeps_bind[OF test] keeps_if IH) (simp only: keeps_def, rule ensures_bind[OF q wipe])
qed

lemma zero_loop_keeps:
  assumes "raid_pool pool"
  shows "keeps (justified (teardown_ok pool)) (zero_loop os (omName (spMeta pool)) devs)"
proof (induction devs)
  case Nil
  then show ?case by (simp add: keeps_return)
next
  case (Cons dev devs)
  let ?J = "teardown_ok pool" and ?n = "omName (spMeta pool)"
  let ?R = "\<lambda>path n l. justified ?J l \<and> (n \<noteq> '''' \<longrightarrow> (\<exists>out. l \<noteq> [] \<and>
      last l = (plain ''mdadm'' [''--examine'', path], (out, None)) \<and> n = examine_lines (splitNL out)))"
  have reads: "keeps (justified ?J) (ResolvePath os dev)" "keeps (justified ?J) (IsBlockDev os path)" for path
    unfolding IsBlockDev_def ResolvePath_def by (intro keeps_intro; simp add: teardown_ok_def)+
  have zero: "ensures (?R path n)
     (if n \<noteq> ''stornas-'' @ ?n then zero_loop os ?n devs else andThen (ZeroSuperblock os path) (zero_loop os ?n devs))
     (\<lambda>_. justified ?J)" for path n
  proof (rule ensures_if)
    assume n: "\<not> n \<noteq> ''stornas-'' @ ?n"
    show "ensures (?R path n) (andThen (ZeroSuperblock os path) (zero_loop os ?n devs)) (\<lambda>_. justified ?J)"
    proof (rule ensures_andThen[OF _ keeps_ensures[OF Cons.IH]])
      show "ensures (?R path n) (ZeroSuperblock os path) (\<lambda>e l. if e = None then justified ?J l else justified ?J l)"
        unfolding ZeroSuperblock_def
        by (rule ensures_bind[OF ensures_Run[where Q = "\<lambda>_. justified ?J"]])
           (use n assms in \<open>auto simp: teardown_ok_def intro!: ensures_return\<close>)
    qed
  qed (use Cons.IH in \<open>auto intro: ensures_keeps\<close>)
  have q: "ensures (justified ?J) (ExamineName os path) (?R path)" for path
    by (rule ExamineName_ensures) (simp add: teardown_ok_def)
  show ?case
    unfolding zero_loop.simps
    by (intro keeps_bind[OF reads(1)] keeps_bind[OF reads(2)] keeps_if Cons.IH)
       (simp only: keeps_def, rule ensures_bind[OF q zero])
qed

lemma TeardownPool_keeps: "keeps (justified (teardown_ok pool)) (TeardownPool os pool)"
proof -
  have "keeps (justified (teardown_ok pool)) (VGRemove os (VGName pool))"
    unfolding VGRemove_def by (intro keeps_intro) (simp add: teardown_ok_def)
  moreover have "raid_pool pool \<Longrightarrow> keeps (justified (teardown_ok pool)) (md_Stop os (DevPath (omName (spMeta pool))))"
    unfolding md_Stop_def by (intro keeps_intro) (simp add: teardown_ok_def)
  ultimately show ?thesis
    unfolding TeardownPool_def
    by (intro keeps_andThen keeps_if zero_loop_keeps wipe_loop_keeps) simp_all
qed

section \<open>Convergence: what a live pass may do\<close>

abbreviation pvs_report :: "string \<Rightarrow> cmd" where
  "pvs_report vg \<equiv> plain ''pvs'' [''--reportformat'', ''json'', ''--units'', ''b'', ''--nosuffix'',
     ''--options'', ''pv_name,pv_missing,pv_used'', ''--select'', ''vg_name='' @ vg]"

text \<open>A report in the log lists the device as a present member of the VG with nothing allocated.\<close>

definition idle_member :: "golib \<Rightarrow> string \<Rightarrow> string \<Rightarrow> log \<Rightarrow> bool" where
  "idle_member lib vg dev l \<longleftrightarrow>
     (\<exists>out rep row. (pvs_report vg, (out, None)) \<in> set l \<and> UnmarshalLvm lib out = Inr rep \<and>
        row \<in> set (concat (map lePV rep)) \<and> mget row ''pv_name'' = dev \<and> mget row ''pv_missing'' = '''' \<and>
        parseInt64_lax (mget row ''pv_used'') \<le> 0)"

text \<open>A converging pass never removes a VG or an LV, never stops an array and never clears a
  superblock; it labels a device only right after finding it is not a PV, takes a device out of
  the VG only when a report showed it empty, and clears its label only right after the VG let go
  of it.\<close>

definition live_ok :: "golib \<Rightarrow> StoragePool \<Rightarrow> log \<Rightarrow> cmd \<Rightarrow> bool" where
  "live_ok lib pool l c \<longleftrightarrow>
     cName c \<in> {''pvs'', ''vgs'', ''lvs'', ''test'', ''readlink'', ''vgcreate'', ''lvcreate'', ''vgextend'', ''pvmove'',
       ''pvcreate'', ''vgreduce'', ''pvremove'', ''mdadm''} \<and>
     (cName c = ''pvcreate'' \<longrightarrow>
        (\<exists>dev out e. cArgs c = [dev] \<and> dev \<in> insert (DevPath (omName (spMeta pool))) (set (spsDevices (spSpec pool))) \<and>
           l \<noteq> [] \<and> last l = (plain ''pvs'' [dev], (out, Some e)))) \<and>
     (cName c = ''vgreduce'' \<longrightarrow> (\<exists>dev. cArgs c = [VGName pool, dev] \<and> idle_member lib (VGName pool) dev l)) \<and>
     (cName c = ''pvremove'' \<longrightarrow>
        (\<exists>dev out. cArgs c = [dev] \<and> l \<noteq> [] \<and> last l = (plain ''vgreduce'' [VGName pool, dev], (out, None)))) \<and>
     (cName c = ''mdadm'' \<longrightarrow> cArgs c \<noteq> [] \<and> hd (cArgs c) \<in> {''--detail'', ''--create'', DevPath (omName (spMeta pool))})"

definition live_inv :: "golib \<Rightarrow> StoragePool \<Rightarrow> string list \<Rightarrow> log \<Rightarrow> bool" where
  "live_inv lib pool idle l \<longleftrightarrow> justified (live_ok lib pool) l \<and> (\<forall>d \<in> set idle. idle_member lib (VGName pool) d l)"

lemma idle_member_append: "idle_member lib vg d l \<Longrightarrow> idle_member lib vg d (l @ [e])"
  unfolding idle_member_def by auto

lemma live_inv_snoc: "live_inv lib pool idle l \<Longrightarrow> live_ok lib pool l c \<Longrightarrow> live_inv lib pool idle (l @ [(c, r)])"
  by (auto simp: live_inv_def intro: idle_member_append)

lemma live_inv_justified: "live_inv lib pool idle l \<Longrightarrow> justified (live_ok lib pool) l"
  by (simp add: live_inv_def)

lemma live_reads:
  "keeps (live_inv lib pool idle) (IsPV os dev)" "keeps (live_inv lib pool idle) (VGExists os vg)"
  "keeps (live_inv lib pool idle) (IsThinPool os vg lv)" "keeps (live_inv lib pool idle) (IsBlockDev os dev)"
  "keeps (live_inv lib pool idle) (ResolvePaths os devs)" "keeps (live_inv lib pool idle) (getVGInfo os lib' vg)"
  "keeps (live_inv lib pool idle) (PVs os lib' vg)" "keeps (live_inv lib pool idle) (SyncPercent os lib' vg)"
  "keeps (live_inv lib pool idle) (md_Exists os dev)" "keeps (live_inv lib pool idle) (md_Detail os lib' dev)"
  unfolding IsPV_def VGExists_def IsThinPool_def IsBlockDev_def ResolvePaths_def getVGInfo_def PVs_def SyncPercent_def
    md_Exists_def md_Detail_def Let_def
  by (intro keeps_intro; erule live_inv_snoc; simp add: live_ok_def)+

lemma live_writes:
  "keeps (live_inv lib pool idle) (CreateVG os vg devices)" "keeps (live_inv lib pool idle) (CreateThinPool os vg lv)"
  "keeps (live_inv lib pool idle) (VGExtend os vg dev)" "keeps (live_inv lib pool idle) (PVMove os dev dst)"
  "keeps (live_inv lib pool idle) (md_Create os dev name level devices)"
  unfolding CreateVG_def CreateThinPool_def VGExtend_def PVMove_def md_Create_def
  by (intro keeps_intro; erule live_inv_snoc; simp add: live_ok_def)+

lemma live_md_writes:
  fixes pool :: StoragePool
  defines "D \<equiv> DevPath (omName (spMeta pool))"
  shows "keeps (live_inv lib pool idle) (md_Replace os D old new)" "keeps (live_inv lib pool idle) (md_Add os D m)"
    "keeps (live_inv lib pool idle) (md_FailDetached os D)" "keeps (live_inv lib pool idle) (md_RemoveFailed os D)"
  unfolding D_def md_Replace_def md_Add_def md_FailDetached_def md_RemoveFailed_def
  by (intro keeps_intro; erule live_inv_snoc; simp add: live_ok_def)+

lemma live_pv_step:
  assumes "dev \<in> insert (DevPath (omName (spMeta pool))) (set (spsDevices (spSpec pool)))"
    and k: "keeps (live_inv lib pool idle) k"
  shows "keeps (live_inv lib pool idle)
           (do { isPV \<leftarrow> IsPV os dev; andThen (if \<not> isPV then CreatePV os dev else ret None) k })"
proof -
  let ?I = "live_inv lib pool idle"
  let ?R = "\<lambda>b l. ?I l \<and> (\<not> b \<longrightarrow> l \<noteq> [] \<and> (\<exists>out e. last l = (plain ''pvs'' [dev], (out, Some e))))"
  have "ensures ?I (IsPV os dev) ?R"
    unfolding IsPV_def by (rule ensures_run_ok) (auto intro!: live_inv_snoc simp: live_ok_def)
  moreover have "ensures (?R b) (andThen (if \<not> b then CreatePV os dev else ret None) k) (\<lambda>_. ?I)" for b
  proof (rule ensures_andThen[OF _ keeps_ensures[OF k]])
    show "ensures (?R b) (if \<not> b then CreatePV os dev else ret None) (\<lambda>e l. if e = None then ?I l else ?I l)"
      unfolding CreatePV_def
      by (intro ensures_if ensures_run_err ensures_return)
         (use assms(1) in \<open>auto intro!: live_inv_snoc simp: live_ok_def\<close>)
  qed
  ultimately show ?thesis unfolding keeps_def by (rule ensures_bind)
qed

lemma live_pv_loop:
  "set devs \<subseteq> insert (DevPath (omName (spMeta pool))) (set (spsDevices (spSpec pool))) \<Longrightarrow>
     keeps (live_inv lib pool idle) (pv_loop os devs)"
  by (induction devs) (simp_all add: keeps_return live_pv_step)

lemma live_ensure_vg:
  "set devs \<subseteq> insert (DevPath (omName (spMeta pool))) (set (spsDevices (spSpec pool))) \<Longrightarrow>
     keeps (live_inv lib pool idle) (ensure_vg os vg devs)"
  unfolding ensure_vg_def by (intro keeps_intro live_reads live_writes live_pv_loop)

lemma live_ensure_thin: "keeps (live_inv lib pool idle) (ensure_thin os vg)"
  unfolding ensure_thin_def by (intro keeps_intro live_reads live_writes)

lemma live_add_loop:
  "set devs \<subseteq> set (spsDevices (spSpec pool)) \<Longrightarrow> keeps (live_inv lib pool idle) (add_loop os vg devs)"
  by (induction devs) (auto intro!: keeps_return live_pv_step keeps_andThen live_writes)

lemma live_evacuate_loop: "keeps (live_inv lib pool idle) (evacuate_loop os dst devs)"
  by (induction devs) (simp_all add: keeps_return keeps_andThen live_writes)

lemma live_drop_step:
  assumes "dev \<in> set idle" and k: "keeps (live_inv lib pool idle) k"
  shows "keeps (live_inv lib pool idle) (andThen (VGReduce os (VGName pool) dev) (andThen (PVRemove os dev) k))"
proof -
  let ?I = "live_inv lib pool idle"
  let ?R = "\<lambda>l. ?I l \<and> l \<noteq> [] \<and> (\<exists>out. last l = (plain ''vgreduce'' [VGName pool, dev], (out, None)))"
  have "ensures ?I (VGReduce os (VGName pool) dev) (\<lambda>e l. if e = None then ?R l else ?I l)"
    unfolding VGReduce_def
    by (rule ensures_run_err) (use assms(1) in \<open>auto intro!: idle_member_append simp: live_ok_def live_inv_def prod_eq_iff\<close>)
  moreover have "ensures ?R (andThen (PVRemove os dev) k) (\<lambda>_. ?I)"
  proof (rule ensures_andThen[OF _ keeps_ensures[OF k]])
    show "ensures ?R (PVRemove os dev) (\<lambda>e l. if e = None then ?I l else ?I l)"
      unfolding PVRemove_def by (rule ensures_run_err) (auto intro!: live_inv_snoc simp: live_ok_def)
  qed
  ultimately show ?thesis unfolding keeps_def by (rule ensures_andThen)
qed

lemma live_drop_loop: "set devs \<subseteq> set idle \<Longrightarrow> keeps (live_inv lib pool idle) (drop_loop os (VGName pool) devs)"
  by (induction devs) (simp_all add: keeps_return live_drop_step)

lemma live_converge:
  "set (dpAdd plan) \<subseteq> set (spsDevices (spSpec pool)) \<Longrightarrow> set (dpDrop plan) \<subseteq> set idle \<Longrightarrow>
     keeps (live_inv lib pool idle) (convergeDevices os pool plan)"
  unfolding convergeDevices_def Let_def
  by (intro keeps_andThen live_add_loop live_evacuate_loop live_drop_loop)

lemma live_PVs:
  "ensures (live_inv lib pool []) (PVs os lib (VGName pool)) (\<lambda>p l. live_inv lib pool [] l \<and>
     (\<forall>pv \<in> set (fst p). \<not> pvMissing pv \<and> pvUsedBytes pv \<le> 0 \<longrightarrow> idle_member lib (VGName pool) (pvName pv) l))"
  unfolding PVs_def
proof (rule ensures_bind[OF ensures_Run[where Q = "\<lambda>r l. live_inv lib pool [] l \<and> (pvs_report (VGName pool), r) \<in> set l"]])
  fix r :: cmd_result
  let ?row = "\<lambda>row. \<lparr>pvName = mget row ''pv_name'', pvMissing = mget row ''pv_missing'' \<noteq> '''',
     pvUsedBytes = parseInt64_lax (mget row ''pv_used'')\<rparr>"
  show "ensures (\<lambda>l. live_inv lib pool [] l \<and> (pvs_report (VGName pool), r) \<in> set l)
     (ret (if snd r \<noteq> None then ([], snd r)
           else (case UnmarshalLvm lib (fst r) of
                   Inl e \<Rightarrow> ([], Some (wrap (''parse pvs report for '' @ VGName pool @ '': '') e))
                 | Inr rep \<Rightarrow> (map ?row (concat (map lePV rep)), None))))
     (\<lambda>p l. live_inv lib pool [] l \<and>
       (\<forall>pv \<in> set (fst p). \<not> pvMissing pv \<and> pvUsedBytes pv \<le> 0 \<longrightarrow> idle_member lib (VGName pool) (pvName pv) l))"
    by (rule ensures_return, cases r) (auto simp: idle_member_def split: sum.splits)
qed (auto intro!: live_inv_snoc simp: live_ok_def)

lemma live_loop_sub:
  assumes "\<And>d. keeps I (IsBlockDev os d)"
  shows "ensures I (live_loop os devs) (\<lambda>ys l. I l \<and> set ys \<subseteq> set devs)"
proof (induction devs)
  case (Cons d devs)
  have "ensures I (do { rest \<leftarrow> live_loop os devs; ret (if b then d # rest else rest) })
      (\<lambda>ys l. I l \<and> set ys \<subseteq> set (d # devs))" for b
    by (rule ensures_bind[OF Cons.IH]) (auto intro!: ensures_return)
  then show ?case unfolding live_loop.simps by (rule ensures_bind[OF keeps_ensures[OF assms]])
qed (simp add: ensures_return)

lemma live_observe: "keeps (live_inv lib pool idle) (linear_observe os lib vg spec resolved ks added pvs)"
  unfolding linear_observe_def by (intro keeps_intro live_reads)

lemma live_settle:
  "set (dpAdd plan) \<subseteq> set (spsDevices (spSpec pool)) \<Longrightarrow> set (dpDrop plan) \<subseteq> set idle \<Longrightarrow>
     keeps (live_inv lib pool idle) (linear_settle os lib ks pool resolved plan pvs)"
  unfolding linear_settle_def Let_def by (intro keeps_intro live_observe live_reads live_converge)

definition idle_names :: "PV list \<Rightarrow> string list" where
  "idle_names pvs = map pvName (filter (\<lambda>pv. \<not> pvMissing pv \<and> pvUsedBytes pv \<le> 0) pvs)"

lemma plan_sets:
  "set (dpAdd (planDevices spec r pvs)) \<subseteq> set spec" "set (dpDrop (planDevices spec r pvs)) \<subseteq> set (idle_names pvs)"
  by (auto simp: planDevices_char idle_names_def)

lemma live_members: "keeps (live_inv lib pool (idle_names pvs)) (linear_members os lib order pool pvs)"
  unfolding linear_members_def Let_def
proof (rule keeps_bind[OF live_reads(5)])
  fix resolved
  let ?I = "live_inv lib pool (idle_names pvs)" and ?plan = "planDevices (spsDevices (spSpec pool)) resolved pvs"
  have "ensures (\<lambda>l. ?I l \<and> set live \<subseteq> set (dpAdd ?plan))
      (linear_settle os lib (order resolved) pool resolved (?plan\<lparr>dpAdd := live\<rparr>) pvs) (\<lambda>_. ?I)" for live
  proof (cases "set live \<subseteq> set (dpAdd ?plan)")
    case True
    with plan_sets have "keeps ?I (linear_settle os lib (order resolved) pool resolved (?plan\<lparr>dpAdd := live\<rparr>) pvs)"
      by (intro live_settle) (simp_all, meson order_trans)
    then show ?thesis by (rule ensures_keeps[rotated]) simp
  qed (simp add: ensures_def)
  then show "keeps ?I (do { live \<leftarrow> live_loop os (dpAdd ?plan);
      linear_settle os lib (order resolved) pool resolved (?plan\<lparr>dpAdd := live\<rparr>) pvs })"
    unfolding keeps_def by (rule ensures_bind[OF live_loop_sub[OF live_reads(4)]])
qed

lemma live_linear: "ensures (live_inv lib pool []) (ensureLinearPool os lib order pool) (\<lambda>_. justified (live_ok lib pool))"
proof -
  let ?I = "live_inv lib pool []"
  have step: "ensures ?I m (\<lambda>e l. if e = None then ?I l else justified (live_ok lib pool) l)"
    if "keeps ?I m" for m :: "('a, go_error option) prog"
    using that unfolding keeps_def by (rule ensures_weaken) (auto simp: live_inv_def)
  have tail: "ensures (\<lambda>l. ?I l \<and> (\<forall>pv \<in> set (fst p). \<not> pvMissing pv \<and> pvUsedBytes pv \<le> 0 \<longrightarrow>
        idle_member lib (VGName pool) (pvName pv) l))
     (if snd p \<noteq> None then ret (report0 (VGName pool), snd p) else linear_members os lib order pool (fst p))
     (\<lambda>_. justified (live_ok lib pool))" for p :: "PV list \<times> go_error option"
    using live_members[of lib pool "fst p" os order] unfolding keeps_def
    by (intro ensures_if ensures_return) (auto simp: live_inv_def idle_names_def elim!: ensures_weaken)
  show ?thesis
    unfolding ensureLinearPool_def Let_def
    by (intro ensures_checked[OF step[OF live_ensure_vg]] ensures_checked[OF step[OF live_ensure_thin]]
        ensures_bind[OF live_PVs] tail) auto
qed

lemma live_member_loop:
  "keeps (live_inv lib pool idle)
     (member_loop os lib (DevPath (omName (spMeta pool))) resolved members inSpec ds detail)"
proof (induction ds arbitrary: detail)
  case (Cons d ds)
  then show ?case
    unfolding member_loop.simps by (intro keeps_intro live_reads live_md_writes)
qed (simp add: keeps_return)

lemma live_raid: "keeps (live_inv lib pool idle) (ensureRaidPool os lib order pool)"
  unfolding ensureRaidPool_def settled_detail_def Let_def
  by (intro keeps_intro live_reads live_writes live_md_writes live_ensure_vg live_ensure_thin live_member_loop) simp_all

lemma EnsureHostPool_justified: "justified (live_ok lib pool) (log_of (EnsureHostPool os lib order pool) h)"
proof (cases "raid_pool pool")
  case True
  have "live_inv lib pool [] (log_of (ensureRaidPool os lib order pool) h)"
    by (rule keeps_log[OF live_raid]) (simp add: live_inv_def)
  with True show ?thesis by (simp add: EnsureHostPool_def live_inv_def)
next
  case False
  have "ensures (\<lambda>l. l = []) (ensureLinearPool os lib order pool) (\<lambda>_. justified (live_ok lib pool))"
    by (rule ensures_weaken[OF live_linear]) (simp_all add: live_inv_def)
  from ensures_run[OF this] False show ?thesis by (simp add: EnsureHostPool_def)
qed

section \<open>Reports\<close>

lemma linear_devices_char:
  "linear_devices sp rebuild added pvs orphaned health devs = (h, ds) \<Longrightarrow>
     h = (if \<exists>pv \<in> set pvs. pvMissing pv then ''Degraded'' else health) \<and>
     map dsState ds = map dsState devs @
       map (\<lambda>pv. if pvMissing pv then ''Missing'' else if rebuild \<noteq> None \<and> added (pvName pv) then ''Rebuilding'' else ''InSync'') pvs"
proof (induction pvs arbitrary: orphaned health devs)
  case (Cons pv pvs)
  let ?state = "if pvMissing pv then ''Missing'' else if rebuild \<noteq> None \<and> added (pvName pv) then ''Rebuilding'' else ''InSync''"
  have "\<exists>path os. linear_devices sp rebuild added pvs os (if pvMissing pv then ''Degraded'' else health)
      (devs @ [device_status path ?state]) = (h, ds)"
    using Cons.prems
    by (cases "sp (pvName pv)"; cases "pvMissing pv"; cases orphaned) (auto simp: Let_def split: if_splits)
  then obtain path os where "linear_devices sp rebuild added pvs os (if pvMissing pv then ''Degraded'' else health)
      (devs @ [device_status path ?state]) = (h, ds)" by blast
  from Cons.IH[OF this] show ?case by (auto simp: device_status_def)
qed simp

lemma raid_devices_states: "map dsState (raid_devices sp mbs orphaned) = map mbState mbs"
proof (induction mbs arbitrary: orphaned)
  case (Cons mb mbs)
  then show ?case
    by (cases "if mbPath mb \<noteq> '''' then sp (mbPath mb) else None"; cases "mbState mb = ''InSync''"; cases orphaned)
       (simp_all add: device_status_def split: if_splits)
qed simp

section \<open>Properties\<close>

text \<open>The membership plan moves the volume group to the spec and is empty exactly when it is
  there: the devices to add are the spec devices no present member stands for; the members to
  evacuate or drop are the present ones no spec device resolves to, evacuated when they hold
  extents and dropped only when they hold none; and there is nothing to do exactly when no member is
  missing and the members are the resolved spec devices.\<close>

theorem plan_exact:
  "set (dpAdd (planDevices spec r pvs)) =
     {dev \<in> set spec. resolved_or r dev \<notin> {pvName pv | pv. pv \<in> set pvs \<and> \<not> pvMissing pv}} \<and>
   set (dpEvacuate (planDevices spec r pvs)) =
     {pvName pv | pv. pv \<in> set pvs \<and> \<not> pvMissing pv \<and> pvName pv \<notin> resolved_or r ` set spec \<and> pvUsedBytes pv > 0} \<and>
   set (dpDrop (planDevices spec r pvs)) =
     {pvName pv | pv. pv \<in> set pvs \<and> \<not> pvMissing pv \<and> pvName pv \<notin> resolved_or r ` set spec \<and> pvUsedBytes pv \<le> 0} \<and>
   (plan_empty (planDevices spec r pvs) \<longleftrightarrow>
      {pv \<in> set pvs. pvMissing pv} = {} \<and> pvName ` set pvs = resolved_or r ` set spec)"
proof (intro conjI)
  show "plan_empty (planDevices spec r pvs) \<longleftrightarrow>
      {pv \<in> set pvs. pvMissing pv} = {} \<and> pvName ` set pvs = resolved_or r ` set spec"
    unfolding planDevices_char plan_empty_def by (force simp: filter_empty_conv)
  have "n \<notin> resolved_or r ` set spec \<longleftrightarrow> (\<forall>dev \<in> set spec. resolved_or r dev \<noteq> n)" for n by auto
  then show
    "set (dpEvacuate (planDevices spec r pvs)) =
       {pvName pv | pv. pv \<in> set pvs \<and> \<not> pvMissing pv \<and> pvName pv \<notin> resolved_or r ` set spec \<and> pvUsedBytes pv > 0}"
    "set (dpDrop (planDevices spec r pvs)) =
       {pvName pv | pv. pv \<in> set pvs \<and> \<not> pvMissing pv \<and> pvName pv \<notin> resolved_or r ` set spec \<and> pvUsedBytes pv \<le> 0}"
    by (auto simp: planDevices_char not_less setcompr_eq_image)
qed (auto simp: planDevices_char)

text \<open>\<^bold>\<open>C17\<close>. Teardown destroys nothing that is not the pool's, whatever the host answers: each command
  it runs is the removal of the pool's own volume group, the stop of the pool's own array, a read,
  the wipe of a spec device right after the host reported its PV in no volume group or in the
  pool's, or the wipe of a superblock right after the host reported that device a member of the
  pool's array.\<close>

theorem teardown_wipes_only_own:
  assumes "log_of (TeardownPool os pool) h = pre @ e # post"
  shows "teardown_ok pool pre (fst e)"
  by (rule justifiedD[OF keeps_log[OF TeardownPool_keeps justified_Nil] assms])

text \<open>A host with two block devices: \<open>/dev/b\<close> is a PV of another volume group.\<close>

definition foreign_host :: "unit os" where
  "foreign_host h p =
     (\<lparr>prStdout = (if last (pArgv p) = ''/dev/b'' then ''  other'' else ''''), prStderr = '''', prFailed = None\<rparr>, h)"

definition wipe_pool :: StoragePool where
  "wipe_pool = (pool0 ''p'')\<lparr>spSpec := (spSpec (pool0 ''p''))\<lparr>spsDevices := [''/dev/a'', ''/dev/b'']\<rparr>\<rparr>"

lemma foreign_log:
  "map fst (log_of (TeardownPool foreign_host wipe_pool) ()) =
     [plain ''vgremove'' [''-ff'', ''-y'', ''stornas-p''], plain ''test'' [''-b'', ''/dev/a''], vg_query ''/dev/a'',
      plain ''pvremove'' [''-ff'', ''-y'', ''/dev/a''], plain ''test'' [''-b'', ''/dev/b''], vg_query ''/dev/b'']"
  by code_simp

theorem teardown_wipes_only_own_witness:
  "\<exists>pre e post. log_of (TeardownPool foreign_host wipe_pool) () = pre @ e # post \<and>
     fst e = plain ''pvremove'' [''-ff'', ''-y'', ''/dev/a''] \<and> teardown_ok wipe_pool pre (fst e)"
proof -
  let ?l = "log_of (TeardownPool foreign_host wipe_pool) ()"
  have len: "length ?l = 6" using arg_cong[OF foreign_log, of length] by simp
  have split: "?l = take 3 ?l @ ?l ! 3 # drop (Suc 3) ?l" by (rule id_take_nth_drop) (simp add: len)
  have "fst (?l ! 3) = map fst ?l ! 3" using len by simp
  then have "fst (?l ! 3) = plain ''pvremove'' [''-ff'', ''-y'', ''/dev/a'']" by (simp add: foreign_log)
  with teardown_wipes_only_own[OF split] split show ?thesis by metis
qed


text \<open>A fresh host: nothing exists yet, every create succeeds.\<close>

definition fresh_host :: "unit os" where
  "fresh_host h p =
     (\<lparr>prStdout = '''', prStderr = '''',
       prFailed = (if pArgv p ! 8 \<in> {''pvs'', ''vgs'', ''lvs''} \<and> length (pArgv p) = 10 then Some ''exit status 5'' else None)\<rparr>, h)"

definition lib0 :: golib where
  "lib0 = \<lparr>UnmarshalLvm = \<lambda>_. Inr [], ParseFloat = \<lambda>_. None, UnmarshalLinks = \<lambda>_. Inr [], UnmarshalRoutes = \<lambda>_. Inr [],
     UnmarshalSessions = \<lambda>_. Inr [], UnmarshalLsblk = \<lambda>_. Inr [],
     UnmarshalSmart = \<lambda>_. Inr \<lparr>srPassed = None, srTemperature = None, srHours = None\<rparr>\<rparr>"

lemma fresh_log:
  "take 4 (map fst (log_of (EnsureHostPool fresh_host lib0 (\<lambda>_. []) wipe_pool) ())) =
     [plain ''vgs'' [''stornas-p''], plain ''pvs'' [''/dev/a''], plain ''pvcreate'' [''/dev/a''], plain ''pvs'' [''/dev/b'']]"
  by code_simp


text \<open>The agent wipes only on the operator's clearance: over a deleting pool a pass runs a host
  command only when the pool is this node's, the operator's Deregistered is true and TornDown not
  yet; and it reports TornDown only when that teardown ended without an error. A pool of another
  node is never touched.\<close>

theorem agent_wipes_on_clearance:
  fixes h :: 'h
  assumes "GetStoragePool c name = Inr pool" and "omDeleting (spMeta pool)" and "metalib_laws lib"
    and m_def: "m = PoolAgentReconcile lib c os glib order smart node name"
  shows "(log_of m h \<noteq> [] \<longrightarrow>
            spsNode (spSpec pool) = node \<and>
            IsStatusConditionTrue lib (spConditions (spStatus pool)) ConditionDeregistered \<and>
            \<not> IsStatusConditionTrue lib (spConditions (spStatus pool)) ConditionTornDown) \<and>
         (\<forall>p. AgentPoolStatus p \<in> set (fst (value_of m h)) \<longrightarrow>
            value_of (TeardownPool os pool) h = None \<and> log_of m h = log_of (TeardownPool os pool) h \<and>
            IsStatusConditionTrue lib (spConditions (spStatus p)) ConditionTornDown \<and>
            IsStatusConditionTrue lib (spConditions (spStatus pool)) ConditionDeregistered)"
proof -
  have set: "IsStatusConditionTrue lib (spConditions (spStatus (set_agent_cond lib pool (torn_down pool)))) ConditionTornDown"
    by (simp add: set_agent_cond_def torn_down_def metalib_laws.is_true_set[OF assms(3)])
  show ?thesis
  proof (cases "spsNode (spSpec pool) = node \<and>
      IsStatusConditionTrue lib (spConditions (spStatus pool)) ConditionDeregistered \<and>
      \<not> IsStatusConditionTrue lib (spConditions (spStatus pool)) ConditionTornDown")
    case True
    obtain err h' l' where run: "run_state (TeardownPool os pool) (h, []) = (err, (h', l'))" by (metis prod_cases3)
    with True assms(1,2) set show ?thesis
      by (auto simp: m_def PoolAgentReconcile_def log_of_def value_of_def State_Monad.bind_def State_Monad.return_def
          Let_def split: option.splits sum.splits if_splits)
  next
    case False
    with assms(1,2) show ?thesis
      by (auto simp: m_def PoolAgentReconcile_def log_of_def value_of_def State_Monad.return_def split: if_splits)
  qed
qed

definition cleared_pool :: StoragePool where
  "cleared_pool = wipe_pool\<lparr>spMeta := (meta0 '''' ''p'')\<lparr>omDeleting := True\<rparr>,
     spStatus := (spStatus wipe_pool)\<lparr>spConditions := [\<lparr>cType = ConditionDeregistered, cStatus = ConditionTrue,
       cReason = ReasonReady, cMessage = '''', cObservedGeneration = 0\<rparr>]\<rparr>\<rparr>"

definition agent_run :: "agent_pool_write outcome" where
  "agent_run = value_of (PoolAgentReconcile std_metalib (client0\<lparr>GetStoragePool := \<lambda>_. Inr cleared_pool\<rparr>)
     foreign_host lib0 (\<lambda>_. []) None '''' ''p'') ()"

theorem agent_wipes_on_clearance_witness:
  "\<exists>p. AgentPoolStatus p \<in> set (fst agent_run) \<and>
     IsStatusConditionTrue std_metalib (spConditions (spStatus p)) ConditionTornDown"
proof -
  let ?c = "client0\<lparr>GetStoragePool := \<lambda>_. Inr cleared_pool\<rparr>"
  have "case fst agent_run of [AgentPoolStatus p] \<Rightarrow> True | _ \<Rightarrow> False" by code_simp
  then obtain p where p: "AgentPoolStatus p \<in> set (fst agent_run)"
    by (auto split: list.splits agent_pool_write.splits)
  have "GetStoragePool ?c ''p'' = Inr cleared_pool" "omDeleting (spMeta cleared_pool)"
    by (simp_all add: cleared_pool_def)
  from agent_wipes_on_clearance[OF this std.metalib_laws_axioms refl, of foreign_host lib0 "\<lambda>_. []" None "''''" "()"] p
  show ?thesis unfolding agent_run_def by blast
qed

text \<open>What a converging pass reports: HostReady is true exactly when convergence ended without an
  error; the recorded devices and rebuild progress are replaced only by a report that names
  devices, and the capacity only by a positive one; every condition but HostReady is kept.\<close>

theorem agent_report_honest:
  assumes "metalib_laws lib" and "GetStoragePool c name = Inr pool" and "\<not> omDeleting (spMeta pool)"
    and "spsNode (spSpec pool) = node"
    and "AgentPoolStatus p \<in> set (fst (value_of (PoolAgentReconcile lib c os glib order smart node name) h))"
    and "value_of (EnsureHostPool os glib order pool) h = (rep, err)"
  shows "(IsStatusConditionTrue lib (spConditions (spStatus p)) ConditionHostReady \<longleftrightarrow> err = None) \<and>
         (rDevices rep = [] \<longrightarrow> spDevices (spStatus p) = spDevices (spStatus pool) \<and>
            spRebuildPercent (spStatus p) = spRebuildPercent (spStatus pool)) \<and>
         (\<not> rCapacity rep > 0 \<longrightarrow> spCapacity (spStatus p) = spCapacity (spStatus pool) \<and>
            spFree (spStatus p) = spFree (spStatus pool)) \<and>
         (\<forall>ty. ty \<noteq> ConditionHostReady \<longrightarrow>
            FindStatusCondition lib (spConditions (spStatus p)) ty = FindStatusCondition lib (spConditions (spStatus pool)) ty)"
proof -
  obtain h' l' where run: "run_state (EnsureHostPool os glib order pool) (h, []) = ((rep, err), (h', l'))"
    using assms(6) by (metis prod.collapse value_of_def)
  have p: "p = apply_report lib smart rep err pool"
    using assms(2-5) run
    by (auto simp: PoolAgentReconcile_def value_of_def State_Monad.bind_def State_Monad.return_def Let_def
        split: sum.splits if_splits)
  show ?thesis
    unfolding p
    by (auto simp: apply_report_def set_agent_cond_def Let_def join_smart_def
        metalib_laws.is_true_set[OF assms(1)] metalib_laws.find_set[OF assms(1)] split: option.splits)
qed

definition broken_host :: "unit os" where
  "broken_host h p = (\<lparr>prStdout = '''', prStderr = '''', prFailed = Some ''exit status 5''\<rparr>, h)"

theorem agent_report_honest_witness:
  "\<exists>p. AgentPoolStatus p \<in> set (fst (value_of (PoolAgentReconcile std_metalib (client0\<lparr>GetStoragePool := \<lambda>_. Inr wipe_pool\<rparr>)
        broken_host lib0 (\<lambda>_. []) None '''' ''p'') ())) \<and>
     \<not> IsStatusConditionTrue std_metalib (spConditions (spStatus p)) ConditionHostReady"
proof -
  let ?c = "client0\<lparr>GetStoragePool := \<lambda>_. Inr wipe_pool\<rparr>"
  let ?m = "PoolAgentReconcile std_metalib ?c broken_host lib0 (\<lambda>_. []) None '''' ''p''"
  have "case fst (value_of ?m ()) of [AgentPoolStatus p] \<Rightarrow> True | _ \<Rightarrow> False" by code_simp
  then obtain p where p: "AgentPoolStatus p \<in> set (fst (value_of ?m ()))"
    by (auto split: list.splits agent_pool_write.splits)
  obtain rep err where e: "value_of (EnsureHostPool broken_host lib0 (\<lambda>_. []) wipe_pool) () = (rep, err)" by fastforce
  have "snd (value_of (EnsureHostPool broken_host lib0 (\<lambda>_. []) wipe_pool) ()) \<noteq> None" by code_simp
  with e have "err \<noteq> None" by simp
  have "GetStoragePool ?c ''p'' = Inr wipe_pool" "\<not> omDeleting (spMeta wipe_pool)" "spsNode (spSpec wipe_pool) = ''''"
    by (simp_all add: wipe_pool_def zero_defs)
  from agent_report_honest[OF std.metalib_laws_axioms this p e] \<open>err \<noteq> None\<close> p show ?thesis by blast
qed

end
