(* ===== verification/Inventory.thy ===== *)
theory Inventory
  imports Pool_Agent
begin

text \<open>
  Disk discovery on a node, \<open>internal/agent/inventory.go\<close> and \<open>internal/agent/smart.go\<close>: the stable
  aliases, the sweep that lists the disks and marks the claimed ones, the SMART cache and the gated
  status write. The clock is an argument and its reads within one tick agree; \<open>None\<close> is Go's zero time,
  further back than any interval. The ticker loop of \<open>Start\<close> is left out.
\<close>

section \<open>The client\<close>

record inv_client =
  GetNodeInventory :: "string \<Rightarrow> go_error + NodeInventory"
  CreateNodeInventory :: "NodeInventory \<Rightarrow> go_error + NodeInventory"
  UpdateNodeInventoryStatus :: "NodeInventory \<Rightarrow> go_error + NodeInventory"

section \<open>SMART (smart.go)\<close>

type_synonym smart_store = "string \<rightharpoonup> SmartInfo"

fun smart_Put :: "smart_store \<Rightarrow> SmartInfo \<Rightarrow> string list \<Rightarrow> smart_store" where
  "smart_Put m info [] = m"
| "smart_Put m info (p # ps) = smart_Put (if p \<noteq> '''' then m(p \<mapsto> info) else m) info ps"

definition smart_Get :: "smart_store \<Rightarrow> string \<Rightarrow> SmartInfo option" where
  "smart_Get m path = m path"

definition smart_unknown :: SmartInfo where
  "smart_unknown = \<lparr>siVerdict = ''Unknown'', siTempCelsius = None, siPowerOnHours = None\<rparr>"

text \<open>The output is parsed whatever the exit code.\<close>

definition CheckSmart :: "'h os \<Rightarrow> golib \<Rightarrow> string \<Rightarrow> ('h, SmartInfo) prog" where
  "CheckSmart os lib dev = do {
     out \<leftarrow> Run os ''smartctl'' [''--json=c'', ''-H'', ''-A'', ''-n'', ''standby'', dev];
     ret (case UnmarshalSmart lib (fst out) of
            Inl _ \<Rightarrow> smart_unknown
          | Inr rep \<Rightarrow>
            (case srPassed rep of
               None \<Rightarrow> smart_unknown
             | Some passed \<Rightarrow> \<lparr>siVerdict = (if passed then ''Passed'' else ''Failed''),
                 siTempCelsius = srTemperature rep, siPowerOnHours = srHours rep\<rparr>)) }"

section \<open>Aliases\<close>

definition splitLines :: "string \<Rightarrow> string list" where
  "splitLines s = filter (\<lambda>t. t \<noteq> '''') (map trimSpace (splitNL s))"

definition better_alias :: "string \<Rightarrow> string \<Rightarrow> bool" where
  "better_alias name cur =
     (if cur = '''' then True
      else
        let nw = hasPrefix name ''wwn-''; cw = hasPrefix cur ''wwn-'' in
        if nw \<noteq> cw then nw else name < cur)"

text \<open>The kernel path and the alias a line of \<open>find\<close> names, if the alias qualifies.\<close>

definition alias_line :: "string \<Rightarrow> (string \<times> string) option" where
  "alias_line line =
     (case cut line '' '' of (name, tgt, ok) \<Rightarrow>
        if \<not> ok \<or> hasPrefix name ''lvm-pv-uuid-'' then None
        else Some (''/dev/'' @ (case lastIndexChar tgt (CHR ''/'') of None \<Rightarrow> tgt | Some i \<Rightarrow> drop (i + 1) tgt), name))"

fun alias_loop :: "string list \<Rightarrow> (string \<rightharpoonup> string) \<Rightarrow> (string \<rightharpoonup> string)" where
  "alias_loop [] best = best"
| "alias_loop (line # ls) best =
     (case alias_line line of
        None \<Rightarrow> alias_loop ls best
      | Some (kdev, name) \<Rightarrow>
        alias_loop ls (if better_alias name (mget best kdev) then best(kdev \<mapsto> name) else best))"

definition byIDAliases :: "'h os \<Rightarrow> ('h, string \<rightharpoonup> string) prog" where
  "byIDAliases os = do {
     r \<leftarrow> Run os ''find'' [''/dev/disk/by-id'', ''-maxdepth'', ''1'', ''-type'', ''l'', ''-printf'', ''%f %l'' @ [CHR 0x0A]];
     ret (if snd r \<noteq> None then Map.empty
          else map_option (\<lambda>name. ''/dev/disk/by-id/'' @ name) \<circ> alias_loop (splitLines (fst r)) Map.empty) }"

section \<open>The sweep\<close>

record inv_state =
  ivSmart :: "smart_store option" \<comment> \<open>\<open>None\<close>: no store was given\<close>
  ivLastSweep :: "int option"
  ivLastDisks :: "Disk list"
  ivLastWrite :: "int option"

definition minute :: int where
  "minute = 60 * second"

definition smartInterval :: int where
  "smartInterval = 5 * minute"

definition inventoryHeartbeat :: int where
  "inventoryHeartbeat = 5 * minute"

definition elapsed :: "int \<Rightarrow> int option \<Rightarrow> int \<Rightarrow> bool" where
  "elapsed now since d \<longleftrightarrow> (case since of None \<Rightarrow> True | Some t \<Rightarrow> now - t \<ge> d)"

definition new_disk :: "lsblk_dev \<Rightarrow> string \<Rightarrow> bool \<Rightarrow> Disk" where
  "new_disk d path claimed = \<lparr>dkPath = path, dkModel = lbModel d, dkSerial = lbSerial d, dkSize = lbSize d,
     dkRotational = lbRota d, dkClaimed = claimed, dkSmart = '''', dkTempCelsius = None, dkPowerOnHours = None\<rparr>"

definition with_smart :: "SmartInfo option \<Rightarrow> Disk \<Rightarrow> Disk" where
  "with_smart info disk =
     (case info of None \<Rightarrow> disk
      | Some i \<Rightarrow> disk\<lparr>dkSmart := siVerdict i, dkTempCelsius := siTempCelsius i, dkPowerOnHours := siPowerOnHours i\<rparr>)"

text \<open>One disk's share of a SMART sweep: an unknown verdict never replaces a cached one.\<close>

definition sweep_disk :: "'h os \<Rightarrow> golib \<Rightarrow> string \<Rightarrow> string \<Rightarrow> smart_store \<Rightarrow> ('h, smart_store) prog" where
  "sweep_disk os lib dev path m = do {
     info \<leftarrow> CheckSmart os lib dev;
     ret (if siVerdict info \<noteq> ''Unknown'' then smart_Put m info [dev, path]
          else if smart_Get m dev = None then smart_Put m info [dev, path] else m) }"

fun disk_loop :: "'h os \<Rightarrow> golib \<Rightarrow> bool \<Rightarrow> string list \<Rightarrow> (string \<rightharpoonup> string) \<Rightarrow> lsblk_dev list \<Rightarrow> smart_store option \<Rightarrow> Disk list \<Rightarrow>
    ('h, smart_store option \<times> Disk list) prog" where
  "disk_loop os lib sweep claimed aliases [] smart disks = ret (smart, disks)"
| "disk_loop os lib sweep claimed aliases (d # ds) smart disks =
     (if lbType d \<noteq> ''disk'' then disk_loop os lib sweep claimed aliases ds smart disks
      else
        let path = (if mget aliases (lbPath d) \<noteq> '''' then mget aliases (lbPath d) else lbPath d);
            disk = new_disk d path (lbPath d \<in> set claimed) in
        (case smart of
           None \<Rightarrow> disk_loop os lib sweep claimed aliases ds smart (disks @ [disk])
         | Some m \<Rightarrow> do {
             m' \<leftarrow> (if sweep then sweep_disk os lib (lbPath d) path m else ret m);
             disk_loop os lib sweep claimed aliases ds (Some m') (disks @ [with_smart (smart_Get m' (lbPath d)) disk]) }))"

text \<open>From the claims on, and from the listing on.\<close>

definition collect_rest :: "'h os \<Rightarrow> golib \<Rightarrow> bool \<Rightarrow> int \<Rightarrow> inv_state \<Rightarrow> lsblk_dev list \<Rightarrow> string \<Rightarrow> ('h, inv_state \<times> (go_error + Disk list)) prog" where
  "collect_rest os lib md now p devs pvout = do {
     members \<leftarrow> (if md then Members os else ret []);
     let sweep = ivSmart p \<noteq> None \<and> elapsed now (ivLastSweep p) smartInterval;
     let p' = (if sweep then p\<lparr>ivLastSweep := Some now\<rparr> else p);
     aliases \<leftarrow> byIDAliases os;
     r \<leftarrow> disk_loop os lib sweep (splitLines pvout @ members) aliases devs (ivSmart p') [];
     ret (p'\<lparr>ivSmart := fst r\<rparr>, Inr (snd r)) }"

definition collect_claims :: "'h os \<Rightarrow> golib \<Rightarrow> bool \<Rightarrow> int \<Rightarrow> inv_state \<Rightarrow> lsblk_dev list \<Rightarrow> ('h, inv_state \<times> (go_error + Disk list)) prog" where
  "collect_claims os lib md now p devs = do {
     pvout \<leftarrow> Run os ''pvs'' [''--noheadings'', ''-o'', ''pv_name''];
     (case snd pvout of Some e \<Rightarrow> ret (p, Inl e) | None \<Rightarrow> collect_rest os lib md now p devs (fst pvout)) }"

definition Collect_disks :: "'h os \<Rightarrow> golib \<Rightarrow> bool \<Rightarrow> int \<Rightarrow> inv_state \<Rightarrow> ('h, inv_state \<times> (go_error + Disk list)) prog" where
  "Collect_disks os lib md now p = do {
     out \<leftarrow> Run os ''lsblk'' [''--json'', ''-b'', ''-d'', ''-o'', ''PATH,MODEL,SERIAL,SIZE,ROTA,TYPE''];
     (case snd out of
        Some e \<Rightarrow> ret (p, Inl e)
      | None \<Rightarrow>
        (case UnmarshalLsblk lib (fst out) of
           Inl e \<Rightarrow> ret (p, Inl (wrap ''parse lsblk: '' e))
         | Inr devs \<Rightarrow> collect_claims os lib md now p devs)) }"

datatype inv_write = InvCreate NodeInventory | InvStatus NodeInventory

definition inventory0 :: "string \<Rightarrow> NodeInventory" where
  "inventory0 node = \<lparr>niMeta = meta0 '''' node, niDisks = [], niObservedAt = None\<rparr>"

definition publish_status :: "inv_client \<Rightarrow> int \<Rightarrow> inv_state \<Rightarrow> Disk list \<Rightarrow> inv_write list \<Rightarrow> NodeInventory \<Rightarrow>
    inv_state \<times> inv_write list \<times> go_error option" where
  "publish_status c now p disks ws ni =
     (let ni' = ni\<lparr>niDisks := disks, niObservedAt := Some now\<rparr> in
      case UpdateNodeInventoryStatus c ni' of
        Inl e \<Rightarrow> (p, ws @ [InvStatus ni'], Some e)
      | Inr _ \<Rightarrow> (p\<lparr>ivLastDisks := disks, ivLastWrite := Some now\<rparr>, ws @ [InvStatus ni'], None))"

definition publish :: "inv_client \<Rightarrow> 'h os \<Rightarrow> golib \<Rightarrow> bool \<Rightarrow> string \<Rightarrow> int \<Rightarrow> inv_state \<Rightarrow>
    ('h, inv_state \<times> inv_write list \<times> go_error option) prog" where
  "publish c os lib md node now p = do {
     r \<leftarrow> Collect_disks os lib md now p;
     ret (case r of (p', d) \<Rightarrow>
       (case d of
          Inl e \<Rightarrow> (p', [], Some e)
        | Inr disks \<Rightarrow>
          if disks = ivLastDisks p' \<and> \<not> elapsed now (ivLastWrite p') inventoryHeartbeat then (p', [], None)
          else
            (case GetNodeInventory c node of
               Inl e \<Rightarrow>
                 if eReason e \<noteq> NotFound then (p', [], Some e)
                 else
                   (case CreateNodeInventory c (inventory0 node) of
                      Inl e' \<Rightarrow> (p', [InvCreate (inventory0 node)], Some e')
                    | Inr ni \<Rightarrow> publish_status c now p' disks [InvCreate (inventory0 node)] ni)
             | Inr ni \<Rightarrow> publish_status c now p' disks [] ni))) }"

section \<open>The alias chosen\<close>

definition alias_cand :: "string list \<Rightarrow> string \<Rightarrow> string \<Rightarrow> bool" where
  "alias_cand ls k n \<longleftrightarrow> (\<exists>line \<in> set ls. alias_line line = Some (k, n))"

text \<open>On non-empty names the preference is a strict total order.\<close>

lemma better_alias_order:
  "a \<noteq> '''' \<Longrightarrow> \<not> better_alias a a"
  "b \<noteq> '''' \<Longrightarrow> c \<noteq> '''' \<Longrightarrow> better_alias a b \<Longrightarrow> better_alias b c \<Longrightarrow> better_alias a c"
  "a \<noteq> '''' \<Longrightarrow> b \<noteq> '''' \<Longrightarrow> a = b \<or> better_alias a b \<or> better_alias b a"
  by (auto simp: better_alias_def Let_def split: if_splits)

lemma merge_best:
  assumes ne: "\<And>n. C n \<Longrightarrow> n \<noteq> ''''" and w: "w \<noteq> ''''" and l: "l \<noteq> ''''" and wl: "w = l \<or> better_alias w l"
  shows "(C b \<or> b = w) \<and> (\<forall>n. C n \<or> n = w \<longrightarrow> n = b \<or> better_alias b n) \<longleftrightarrow>
    (C b \<or> b = w \<or> b = l) \<and> (\<forall>n. C n \<or> n = w \<or> n = l \<longrightarrow> n = b \<or> better_alias b n)" (is "?A \<longleftrightarrow> ?B")
proof
  assume A: ?A
  then have "w = b \<or> better_alias b w" by blast
  with wl better_alias_order(2)[OF w l, of b] have "l = b \<or> better_alias b l" by blast
  with A show ?B by blast
next
  assume B: ?B
  show ?A
  proof (cases "b = l \<and> b \<noteq> w")
    case True
    with wl B have "better_alias w b" "better_alias b w" by blast+
    with better_alias_order(1)[OF w] better_alias_order(2)[of b w w] True l w have False by blast
    then show ?thesis ..
  qed (use B in blast)
qed

lemma alias_loop_best:
  assumes "\<forall>line \<in> set ls. \<forall>k n. alias_line line = Some (k, n) \<longrightarrow> n \<noteq> ''''" and "\<forall>k. best k \<noteq> Some ''''"
  shows "alias_loop ls best k = Some b \<longleftrightarrow>
    (alias_cand ls k b \<or> best k = Some b) \<and> (\<forall>n. alias_cand ls k n \<or> best k = Some n \<longrightarrow> n = b \<or> better_alias b n)"
  using assms
proof (induction ls arbitrary: best)
  case Nil
  then show ?case by (auto simp: alias_cand_def)
next
  case (Cons line ls)
  show ?case
  proof (cases "alias_line line")
    case None
    then have "alias_cand (line # ls) = alias_cand ls" by (auto simp: alias_cand_def fun_eq_iff)
    with None Cons show ?thesis by simp
  next
    case (Some kn)
    obtain k' n' where kn: "kn = (k', n')" by fastforce
    let ?best = "if better_alias n' (mget best k') then best(k' \<mapsto> n') else best"
    have n': "n' \<noteq> ''''" using Cons.prems(1) Some kn by simp
    have cand: "alias_cand (line # ls) k n \<longleftrightarrow> alias_cand ls k n \<or> k = k' \<and> n = n'" for n
      using Some kn by (auto simp: alias_cand_def)
    have ne: "\<forall>k. ?best k \<noteq> Some ''''" using Cons.prems(2) n' by simp
    have ih: "alias_loop (line # ls) best k = Some b \<longleftrightarrow>
      (alias_cand ls k b \<or> ?best k = Some b) \<and> (\<forall>n. alias_cand ls k n \<or> ?best k = Some n \<longrightarrow> n = b \<or> better_alias b n)"
      using Cons.IH[OF _ ne] Cons.prems(1) Some kn by simp
    have nonempty: "alias_cand ls k n \<or> best k = Some n \<Longrightarrow> n \<noteq> ''''" for n
      using Cons.prems by (auto simp: alias_cand_def)
    show ?thesis
    proof (cases "k = k'")
      case False
      then show ?thesis unfolding ih cand by simp
    next
      case True
      show ?thesis
      proof (cases "best k'")
        case None
        then have "?best k = Some n'" using True by (simp add: mget_def better_alias_def)
        with None True show ?thesis unfolding ih cand by auto
      next
        case c: (Some cur)
        then have cur: "cur \<noteq> ''''" using Cons.prems(2) by auto
        have best: "?best k = Some (if better_alias n' cur then n' else cur)" using c True by (simp add: mget_def)
        define w where "w = (if better_alias n' cur then n' else cur)"
        define ls' where "ls' = (if better_alias n' cur then cur else n')"
        have "w \<noteq> ''''" "ls' \<noteq> ''''" "w = ls' \<or> better_alias w ls'"
          using cur n' better_alias_order(3)[OF n' cur] by (auto simp: w_def ls'_def)
        from merge_best[OF _ this, of "alias_cand ls k" b] nonempty
        have "(alias_cand ls k b \<or> b = w) \<and> (\<forall>n. alias_cand ls k n \<or> n = w \<longrightarrow> n = b \<or> better_alias b n) \<longleftrightarrow>
            (alias_cand ls k b \<or> b = w \<or> b = ls') \<and> (\<forall>n. alias_cand ls k n \<or> n = w \<or> n = ls' \<longrightarrow> n = b \<or> better_alias b n)" by blast
        moreover have "?best k = Some n \<longleftrightarrow> n = w" "k = k' \<and> n = n' \<or> best k = Some n \<longleftrightarrow> n = w \<or> n = ls'" for n
          using best c True by (auto simp: w_def ls'_def)
        ultimately show ?thesis unfolding ih cand by (simp only: disj_assoc)
      qed
    qed
  qed
qed


lemma trimSpace_last: "trimSpace s \<noteq> [] \<Longrightarrow> \<not> isSpace (hd (trimSpace s))"
proof -
  assume ne: "trimSpace s \<noteq> []"
  let ?d = "dropWhile isSpace s"
  have "prefix (trimSpace s) ?d"
    unfolding trimSpace_def by (metis rev_rev_ident suffix_dropWhile suffix_to_prefix)
  then obtain zs where zs: "?d = trimSpace s @ zs" by (auto simp: prefix_def)
  with ne have "?d \<noteq> []" and "hd (trimSpace s) = hd ?d" by (simp_all del: dropWhile_eq_Nil_conv)
  then show ?thesis by (metis hd_dropWhile)
qed

text \<open>A line of the listing never starts with a space, so the alias it names is never empty.\<close>

lemma alias_line_nonempty: "line \<in> set (splitLines out) \<Longrightarrow> alias_line line = Some (k, n) \<Longrightarrow> n \<noteq> ''''"
proof -
  assume "line \<in> set (splitLines out)" and a: "alias_line line = Some (k, n)"
  then obtain s where "line = trimSpace s" "trimSpace s \<noteq> []" by (auto simp: splitLines_def)
  then have hd: "line \<noteq> []" "hd line \<noteq> CHR '' ''" using trimSpace_last[of s] by (auto simp: isSpace_def)
  from a obtain tgt where c: "cut line '' '' = (n, tgt, True)" by (auto simp: alias_line_def split: prod.splits if_splits)
  then obtain i where i: "indexOf line '' '' = Some i" "n = take i line" by (auto simp: cut_def split: option.splits)
  have "i \<noteq> 0" using i(1) hd by (cases line) (auto simp: hasPrefix_def split: if_splits)
  with i hd show ?thesis by (cases line) auto
qed

text \<open>The stable name offered for a disk is the best one the host lists, in whatever order it lists
  them: among the links to that device that are not \<open>lvm-pv-uuid\<close> ones, a \<open>wwn-\<close> name before any
  other, then the alphabetically first; a device without such a link has no alias.\<close>

theorem alias_choice:
  "alias_loop (splitLines out) Map.empty k = Some b \<longleftrightarrow>
    alias_cand (splitLines out) k b \<and> (\<forall>n. alias_cand (splitLines out) k n \<longrightarrow> n = b \<or> better_alias b n)"
  using alias_loop_best[of "splitLines out" Map.empty k b] alias_line_nonempty by auto

definition link_listing :: string where
  "link_listing = ''ata-X ../../sda'' @ [CHR 0x0A] @ ''wwn-1 ../../sda'' @ [CHR 0x0A] @ ''lvm-pv-uuid-z ../../sda''"

lemma link_choice: "alias_loop (splitLines link_listing) Map.empty ''/dev/sda'' = Some ''wwn-1''"
  by code_simp

theorem alias_choice_witness:
  "alias_cand (splitLines link_listing) ''/dev/sda'' ''wwn-1'' \<and> \<not> alias_cand (splitLines link_listing) ''/dev/sda'' ''nvme-0''"
proof -
  have "alias_cand (splitLines link_listing) ''/dev/sda'' ''wwn-1''" using alias_choice[of link_listing "''/dev/sda''"] link_choice by blast
  moreover have "\<not> alias_cand (splitLines link_listing) ''/dev/sda'' ''nvme-0''" by code_simp
  ultimately show ?thesis ..
qed

section \<open>What is published\<close>

text \<open>A disk without its SMART fields.\<close>

definition bare :: "Disk \<Rightarrow> Disk" where
  "bare d = d\<lparr>dkSmart := '''', dkTempCelsius := None, dkPowerOnHours := None\<rparr>"

definition listed_disk :: "string list \<Rightarrow> (string \<rightharpoonup> string) \<Rightarrow> lsblk_dev \<Rightarrow> Disk" where
  "listed_disk claimed aliases d =
     new_disk d (if mget aliases (lbPath d) \<noteq> '''' then mget aliases (lbPath d) else lbPath d) (lbPath d \<in> set claimed)"

lemma bare_with_smart [simp]: "bare (with_smart i k) = bare k" "bare (new_disk d p c) = new_disk d p c"
  by (simp_all add: bare_def with_smart_def new_disk_def split: option.splits)

lemma sweep_disk_trace: "traces (sweep_disk os lib dev path m) (\<lambda>_ _. True)"
  unfolding sweep_disk_def CheckSmart_def
  by (rule traces_weaken[OF traces_bind[OF traces_bind[OF traces_Run traces_return] traces_return]]) simp

lemma disk_loop_trace:
  "traces (disk_loop os lib sweep claimed aliases devs smart disks)
    (\<lambda>v _. map bare (snd v) = map bare disks @ map (listed_disk claimed aliases) (filter (\<lambda>d. lbType d = ''disk'') devs))"
proof (induction devs arbitrary: smart disks)
  case Nil
  show ?case unfolding disk_loop.simps by (rule traces_weaken[OF traces_return]) simp
next
  case (Cons d devs)
  show ?case
  proof (cases "lbType d = ''disk''")
    case False
    with Cons show ?thesis by simp
  next
    case True
    then have nt: "\<not> lbType d \<noteq> ''disk''" by simp
    have next': "traces (disk_loop os lib sweep claimed aliases devs sm (disks @ [k]))
        (\<lambda>v _. map bare (snd v) = map bare disks @ map (listed_disk claimed aliases) (filter (\<lambda>d. lbType d = ''disk'') (d # devs)))"
      if "bare k = listed_disk claimed aliases d" for sm k
      by (rule traces_weaken[OF Cons]) (use that True in auto)
    have any: "traces (if b then sweep_disk os lib dev path m else ret m) (\<lambda>_ _. True)" for b dev path m
      by (cases b) (auto intro: sweep_disk_trace traces_weaken[OF traces_return])
    show ?thesis
    proof (cases smart)
      case None
      show ?thesis
        unfolding disk_loop.simps Let_def if_not_P[OF nt] None option.case by (rule next') (simp add: listed_disk_def)
    next
      case (Some m)
      show ?thesis
        unfolding disk_loop.simps Let_def if_not_P[OF nt] Some option.case
        by (rule traces_weaken[OF traces_bind[OF any next']]) (auto simp: listed_disk_def)
    qed
  qed
qed

abbreviation lsblk_cmd :: cmd where
  "lsblk_cmd \<equiv> plain ''lsblk'' [''--json'', ''-b'', ''-d'', ''-o'', ''PATH,MODEL,SERIAL,SIZE,ROTA,TYPE'']"

abbreviation pvs_cmd :: cmd where
  "pvs_cmd \<equiv> plain ''pvs'' [''--noheadings'', ''-o'', ''pv_name'']"

abbreviation find_cmd :: cmd where
  "find_cmd \<equiv> plain ''find'' [''/dev/disk/by-id'', ''-maxdepth'', ''1'', ''-type'', ''l'', ''-printf'', ''%f %l'' @ [CHR 0x0A]]"

text \<open>The readings a sweep rests on: the disks listed, the physical volumes, the array members when
  arrays are managed, the links; and the disks it gives.\<close>

definition members_read :: "bool \<Rightarrow> string list \<Rightarrow> log \<Rightarrow> bool" where
  "members_read md members ms \<longleftrightarrow>
     (if md then \<exists>x. ms = [(plain ''cat'' [''/proc/mdstat''], x)] \<and> members = (if snd x \<noteq> None then [] else mdstat_members (fst x))
      else ms = [] \<and> members = [])"

definition aliases_read :: "cmd_result \<Rightarrow> (string \<rightharpoonup> string)" where
  "aliases_read fd =
     (if snd fd \<noteq> None then Map.empty else map_option (\<lambda>name. ''/dev/disk/by-id/'' @ name) \<circ> alias_loop (splitLines (fst fd)) Map.empty)"

definition rest_collected :: "bool \<Rightarrow> lsblk_dev list \<Rightarrow> string \<Rightarrow> Disk list \<Rightarrow> log \<Rightarrow> bool" where
  "rest_collected md devs pvout disks l \<longleftrightarrow> (\<exists>ms members fd rest. l = ms @ (find_cmd, fd) # rest \<and> members_read md members ms \<and>
     map bare disks = map (listed_disk (splitLines pvout @ members) (aliases_read fd)) (filter (\<lambda>d. lbType d = ''disk'') devs))"

definition collected :: "golib \<Rightarrow> bool \<Rightarrow> Disk list \<Rightarrow> log \<Rightarrow> bool" where
  "collected lib md disks l \<longleftrightarrow> (\<exists>ls pv devs rest. l = (lsblk_cmd, (ls, None)) # (pvs_cmd, (pv, None)) # rest \<and>
     UnmarshalLsblk lib ls = Inr devs \<and> rest_collected md devs pv disks rest)"

lemma Members_trace: "traces (if md then Members os else ret []) (members_read md)"
proof (cases md)
  case True
  show ?thesis
    unfolding if_P[OF True] Members_def
    by (rule traces_weaken[OF traces_bind[OF traces_Run traces_return]]) (auto simp: members_read_def True)
next
  case False
  show ?thesis unfolding if_not_P[OF False] by (rule traces_weaken[OF traces_return]) (simp add: members_read_def False)
qed

lemma byIDAliases_trace: "traces (byIDAliases os) (\<lambda>al l. \<exists>fd. l = [(find_cmd, fd)] \<and> al = aliases_read fd)"
  unfolding byIDAliases_def aliases_read_def by (rule traces_weaken[OF traces_bind[OF traces_Run traces_return]]) auto

abbreviation gives :: "(Disk list \<Rightarrow> log \<Rightarrow> bool) \<Rightarrow> inv_state \<times> (go_error + Disk list) \<Rightarrow> log \<Rightarrow> bool" where
  "gives U v l \<equiv> \<forall>disks. snd v = Inr disks \<longrightarrow> U disks l"

lemma gives_err: "traces (ret (q, Inl e)) (gives U)"
  by (rule traces_weaken[OF traces_return]) simp

lemma collect_rest_trace: "traces (collect_rest os lib md now p devs pvout) (gives (rest_collected md devs pvout))"
  unfolding collect_rest_def Let_def
proof (rule traces_weaken[OF traces_bind[OF Members_trace traces_bind[OF byIDAliases_trace traces_bind[OF disk_loop_trace traces_return]]]], elim exE conjE,
       intro allI impI)
  fix v l members l1 l2 al l3 l4 r l5 l6 and fd :: cmd_result and disks :: "Disk list"
  assume l: "l = l1 @ l2" "l2 = l3 @ l4" "l3 = [(find_cmd, fd)]" "members_read md members l1" "al = aliases_read fd"
    and r: "map bare (snd r) = map bare [] @ map (listed_disk (splitLines pvout @ members) al) (filter (\<lambda>d. lbType d = ''disk'') devs)"
    and v: "v = ((if ivSmart p \<noteq> None \<and> elapsed now (ivLastSweep p) smartInterval then p\<lparr>ivLastSweep := Some now\<rparr> else p)\<lparr>ivSmart := fst r\<rparr>, Inr (snd r))"
      "snd v = Inr disks"
  show "rest_collected md devs pvout disks l"
    unfolding rest_collected_def
    by (rule exI[of _ l1], rule exI[of _ members], rule exI[of _ fd], rule exI[of _ l4]) (use l r v in simp)
qed

lemma collect_claims_trace:
  "traces (collect_claims os lib md now p devs)
    (gives (\<lambda>disks l. \<exists>pv rest. l = (pvs_cmd, (pv, None)) # rest \<and> rest_collected md devs pv disks rest))"
proof -
  have k: "traces (case snd r of None \<Rightarrow> collect_rest os lib md now p devs (fst r) | Some e \<Rightarrow> ret (p, Inl e))
      (gives (\<lambda>disks l. snd r = None \<and> rest_collected md devs (fst r) disks l))" for r :: cmd_result
  proof (cases "snd r")
    case None
    show ?thesis unfolding None option.case by (rule traces_weaken[OF collect_rest_trace]) simp
  next
    case (Some e)
    show ?thesis unfolding Some option.case by (rule gives_err)
  qed
  show ?thesis
    unfolding collect_claims_def by (rule traces_weaken[OF traces_bind[OF traces_Run k]]) force
qed

lemma Collect_trace: "traces (Collect_disks os lib md now p) (gives (collected lib md))"
proof -
  let ?U = "\<lambda>devs disks l. \<exists>pv rest. l = (pvs_cmd, (pv, None)) # rest \<and> rest_collected md devs pv disks rest"
  have k: "traces (case snd r of None \<Rightarrow> (case UnmarshalLsblk lib (fst r) of Inl e \<Rightarrow> ret (p, Inl (wrap ''parse lsblk: '' e))
         | Inr devs \<Rightarrow> collect_claims os lib md now p devs) | Some e \<Rightarrow> ret (p, Inl e))
      (gives (\<lambda>disks l. snd r = None \<and> (\<exists>devs. UnmarshalLsblk lib (fst r) = Inr devs \<and> ?U devs disks l)))" for r :: cmd_result
  proof (cases "snd r")
    case None
    show ?thesis
    proof (cases "UnmarshalLsblk lib (fst r)")
      case (Inl e)
      show ?thesis unfolding None Inl option.case sum.case by (rule gives_err)
    next
      case (Inr devs)
      show ?thesis unfolding None Inr option.case sum.case by (rule traces_weaken[OF collect_claims_trace]) simp
    qed
  next
    case (Some e)
    show ?thesis unfolding Some option.case by (rule gives_err)
  qed
  show ?thesis
    unfolding Collect_disks_def by (rule traces_weaken[OF traces_bind[OF traces_Run k]]) (force simp: collected_def)
qed


lemma Collect_keeps:
  "ivLastDisks (fst (value_of (Collect_disks os lib md now p) h)) = ivLastDisks p \<and>
   ivLastWrite (fst (value_of (Collect_disks os lib md now p) h)) = ivLastWrite p"
proof -
  have any: "ensures P m (\<lambda>_ _. True)" for P and m :: "('h, 'b) prog"
    by (simp add: ensures_def split: prod.splits)
  have "ensures (\<lambda>l. l = []) (Collect_disks os lib md now p) (\<lambda>v _. ivLastDisks (fst v) = ivLastDisks p \<and> ivLastWrite (fst v) = ivLastWrite p)"
    unfolding Collect_disks_def collect_claims_def collect_rest_def Let_def
    by (intro ensures_bind[OF any] ensures_case_option ensures_case_sum ensures_return) simp_all
  from ensures_run[OF this] show ?thesis .
qed

text \<open>\<^bold>\<open>C27\<close>. A tick publishes only what it read: a status write carries the whole disks of a successful
  listing, each under its alias and marked claimed exactly when the physical volumes listed in the same
  tick, or the array members read, name it. A tick whose listing of disks or of physical volumes failed
  writes nothing and keeps what was published last. Otherwise a status is written whenever the disks
  changed or the heartbeat ran out, and what a successful write published is what the next tick
  compares with.\<close>

theorem inventory_publishes_readings:
  assumes "value_of (publish c os lib md node now p) h = (p', ws, err)"
  shows "(\<exists>e. snd (value_of (Collect_disks os lib md now p) h) = Inl e \<and> ws = [] \<and> err = Some e \<and> ivLastDisks p' = ivLastDisks p) \<or>
    (\<exists>disks. snd (value_of (Collect_disks os lib md now p) h) = Inr disks \<and> collected lib md disks (log_of (publish c os lib md node now p) h) \<and>
       (\<forall>ni. InvStatus ni \<in> set ws \<longrightarrow> niDisks ni = disks) \<and>
       (ws = [] \<and> err = None \<longrightarrow> disks = ivLastDisks p \<and> \<not> elapsed now (ivLastWrite p) inventoryHeartbeat) \<and>
       (err = None \<longrightarrow> ivLastDisks p' = disks))"
proof -
  let ?cd = "Collect_disks os lib md now p"
  obtain q d where v: "value_of ?cd h = (q, d)" by fastforce
  have log: "log_of (publish c os lib md node now p) h = log_of ?cd h"
    by (simp add: publish_def log_of_def State_Monad.bind_def State_Monad.return_def split: prod.splits)
  have val: "value_of (publish c os lib md node now p) h = fst (run_state (ret (case (q, d) of (p', d) \<Rightarrow>
       (case d of
          Inl e \<Rightarrow> (p', [], Some e)
        | Inr disks \<Rightarrow>
          if disks = ivLastDisks p' \<and> \<not> elapsed now (ivLastWrite p') inventoryHeartbeat then (p', [], None)
          else
            (case GetNodeInventory c node of
               Inl e \<Rightarrow>
                 if eReason e \<noteq> NotFound then (p', [], Some e)
                 else
                   (case CreateNodeInventory c (inventory0 node) of
                      Inl e' \<Rightarrow> (p', [InvCreate (inventory0 node)], Some e')
                    | Inr ni \<Rightarrow> publish_status c now p' disks [InvCreate (inventory0 node)] ni)
             | Inr ni \<Rightarrow> publish_status c now p' disks [] ni)))) ((), []))"
    using v by (auto simp: publish_def value_of_def State_Monad.bind_def State_Monad.return_def split: prod.splits)
  have keep: "ivLastDisks q = ivLastDisks p \<and> ivLastWrite q = ivLastWrite p"
    using Collect_keeps[of os lib md now p h] v by simp
  show ?thesis
  proof (cases d)
    case (Inl e)
    with assms val v keep show ?thesis by auto
  next
    case (Inr disks)
    have "collected lib md disks (log_of ?cd h)"
      using traces_run[OF Collect_trace, of os lib md now p h] v Inr by simp
    with assms val v keep Inr log show ?thesis
      by (auto simp: publish_status_def Let_def split: if_splits sum.splits)
  qed
qed


definition inv_host :: "unit os" where
  "inv_host h p =
     (\<lparr>prStdout = (if pArgv p ! 8 = ''pvs'' then ''  /dev/sda'' else ''''), prStderr = '''',
       prFailed = (if pArgv p ! 8 = ''cat'' then Some ''exit status 1'' else None)\<rparr>, h)"

definition inv_lib :: golib where
  "inv_lib = \<lparr>UnmarshalLvm = \<lambda>_. Inr [], ParseFloat = \<lambda>_. None, UnmarshalLinks = \<lambda>_. Inr [], UnmarshalRoutes = \<lambda>_. Inr [],
     UnmarshalSessions = \<lambda>_. Inr [],
     UnmarshalLsblk = \<lambda>_. Inr (map (\<lambda>n. \<lparr>lbPath = n, lbModel = '''', lbSerial = '''', lbSize = 10, lbRota = False, lbType = ''disk''\<rparr>) [''/dev/sda'', ''/dev/sdb'']),
     UnmarshalSmart = \<lambda>_. Inr \<lparr>srPassed = Some True, srTemperature = None, srHours = None\<rparr>\<rparr>"

definition inv_client0 :: inv_client where
  "inv_client0 = \<lparr>GetNodeInventory = \<lambda>_. Inl not_found, CreateNodeInventory = Inr, UpdateNodeInventoryStatus = Inr\<rparr>"

definition inv_state0 :: inv_state where
  "inv_state0 = \<lparr>ivSmart = Some Map.empty, ivLastSweep = None, ivLastDisks = [], ivLastWrite = None\<rparr>"

abbreviation first_tick :: "(unit, inv_state \<times> inv_write list \<times> go_error option) prog" where
  "first_tick \<equiv> publish inv_client0 inv_host inv_lib True ''a'' 0 inv_state0"

lemma first_tick_published:
  "case value_of first_tick () of (p', ws, err) \<Rightarrow> err = None \<and> length ws = 2 \<and> map (\<lambda>d. (dkPath d, dkClaimed d)) (ivLastDisks p') = [(''/dev/sda'', True), (''/dev/sdb'', False)]"
  by code_simp

theorem inventory_publishes_readings_witness:
  "\<exists>disks. collected inv_lib True disks (log_of first_tick ()) \<and> map dkClaimed disks = [True, False]"
proof -
  obtain p' ws err where v: "value_of first_tick () = (p', ws, err)" by (metis prod_cases3)
  with first_tick_published have e: "err = None" "map (\<lambda>d. (dkPath d, dkClaimed d)) (ivLastDisks p') = [(''/dev/sda'', True), (''/dev/sdb'', False)]" by simp_all
  from arg_cong[OF e(2), of "map snd"] have c: "map dkClaimed (ivLastDisks p') = [True, False]" by (simp add: comp_def)
  from inventory_publishes_readings[OF v] e(1) c show ?thesis by auto
qed

text \<open>An unreadable \<open>/proc/mdstat\<close> does not stop the tick: with arrays managed, a disk that is not a
  physical volume is then published unclaimed, a member of an array included.\<close>

theorem inventory_md_gap:
  "case value_of first_tick () of (p', ws, err) \<Rightarrow> err = None \<and>
     list_ex (\<lambda>e. fst e = plain ''cat'' [''/proc/mdstat''] \<and> snd (snd e) \<noteq> None) (log_of first_tick ()) \<and>
     list_ex (\<lambda>w. case w of InvStatus ni \<Rightarrow> list_ex (\<lambda>d. dkPath d = ''/dev/sdb'' \<and> \<not> dkClaimed d) (niDisks ni) | _ \<Rightarrow> False) ws"
  by code_simp

end
