(* ===== verification/Ttlcache.thy ===== *)
theory Ttlcache
  imports Prelude
begin

text \<open>
  The TTL-bounded memo table of \<open>internal/ttlcache\<close>. The clock is an argument: one
  reading per call, in nanoseconds, the value \<open>time.Now\<close> and \<open>time.Since\<close> give inside the
  critical section. The mutex makes each operation atomic, so a use of the cache is a sequence of
  calls; Go's monotonic clock makes the readings of successive calls non-decreasing.
\<close>

type_synonym time = int

section \<open>The cache\<close>

record 'v entry =
  val :: 'v
  at :: time

record 'v Cache =
  cttl :: time
  cm :: "string \<rightharpoonup> 'v entry"

definition Cache_New :: "time \<Rightarrow> 'v Cache" where
  "Cache_New ttl = \<lparr>cttl = ttl, cm = Map.empty\<rparr>"

definition Cache_Get :: "time \<Rightarrow> 'v Cache \<Rightarrow> string \<Rightarrow> 'v option" where
  "Cache_Get now c key =
     (case cm c key of
        Some e \<Rightarrow> if now - at e < cttl c then Some (val e) else None
      | None \<Rightarrow> None)"

text \<open>The eviction loop deletes while ranging; every entry is examined once and the order does not
  matter.\<close>

definition evict :: "time \<Rightarrow> time \<Rightarrow> (string \<rightharpoonup> 'v entry) \<Rightarrow> (string \<rightharpoonup> 'v entry)" where
  "evict now ttl m = (\<lambda>k. case m k of
        Some e \<Rightarrow> if now - at e \<ge> ttl then None else Some e
      | None \<Rightarrow> None)"

definition Cache_Put :: "time \<Rightarrow> string \<Rightarrow> 'v \<Rightarrow> 'v Cache \<Rightarrow> 'v Cache" where
  "Cache_Put now key v c =
     c\<lparr>cm := (evict now (cttl c) (cm c))(key \<mapsto> \<lparr>val = v, at = now\<rparr>)\<rparr>"

section \<open>The interface\<close>

text \<open>What a client of a memo table relies on: a value it is given was stored under that key less
  than a window ago, and storing a value leaves no other value under its key.\<close>

locale memo =
  fixes get :: "time \<Rightarrow> 's \<Rightarrow> string \<Rightarrow> 'v option"
    and put :: "time \<Rightarrow> string \<Rightarrow> 'v \<Rightarrow> 's \<Rightarrow> 's"
    and held :: "'s \<Rightarrow> string \<Rightarrow> 'v \<Rightarrow> time \<Rightarrow> bool"
    and window :: "'s \<Rightarrow> time"
  assumes get_held: "get now s k = Some v \<Longrightarrow> \<exists>t. held s k v t \<and> now - t < window s"
    and put_held: "held (put now k v s) k' v' t \<Longrightarrow>
       (if k' = k then v' = v \<and> t = now else held s k' v' t)"
    and put_window: "window (put now k v s) = window s"
begin

text \<open>A call that answers from the table, and otherwise computes, stores and answers; the clock moves
  between the read and the store.\<close>

definition memoized :: "time \<Rightarrow> time \<Rightarrow> 's \<Rightarrow> string \<Rightarrow> ('e + 'v) \<Rightarrow> ('e + 'v) \<times> 's" where
  "memoized now now' s k fresh =
     (case get now s k of
        Some v \<Rightarrow> (Inr v, s)
      | None \<Rightarrow> (case fresh of Inl e \<Rightarrow> (Inl e, s) | Inr v \<Rightarrow> (Inr v, put now' k v s)))"

definition all_held :: "(string \<Rightarrow> 'v \<Rightarrow> time \<Rightarrow> bool) \<Rightarrow> 's \<Rightarrow> bool" where
  "all_held P s \<longleftrightarrow> (\<forall>k v t. held s k v t \<longrightarrow> P k v t)"

lemma memoized_keeps:
  assumes "all_held P s" and "\<And>v. fresh = Inr v \<Longrightarrow> P k v now'"
  shows "all_held P (snd (memoized now now' s k fresh))"
  using assms unfolding all_held_def memoized_def
  by (auto split: option.splits sum.splits dest!: put_held split: if_splits)

lemma memoized_window: "window (snd (memoized now now' s k fresh)) = window s"
  by (simp add: memoized_def put_window split: option.split sum.split)

lemma memoized_answer:
  assumes "all_held P s" and "fst (memoized now now' s k fresh) = Inr v"
  shows "fresh = Inr v \<or> (\<exists>t. P k v t \<and> now - t < window s)"
  using assms unfolding all_held_def memoized_def
  by (auto split: option.splits sum.splits dest!: get_held)

end

interpretation ttl: memo Cache_Get Cache_Put
  "\<lambda>c k v t. cm c k = Some \<lparr>val = v, at = t\<rparr>" cttl
proof
  show "\<exists>t. cm s k = Some \<lparr>val = v, at = t\<rparr> \<and> now - t < cttl s"
    if "Cache_Get now s k = Some v" for now s k and v :: 'a
  proof -
    from that obtain e where e: "cm s k = Some e" "now - at e < cttl s" "val e = v"
      by (auto simp: Cache_Get_def split: option.splits if_splits)
    then have "e = \<lparr>val = v, at = at e\<rparr>" by (cases e) simp
    with e show ?thesis by metis
  qed
  show "if k' = k then v' = v \<and> t = now else cm s k' = Some \<lparr>val = v', at = t\<rparr>"
    if "cm (Cache_Put now k v s) k' = Some \<lparr>val = v', at = t\<rparr>" for now k s k' t and v v' :: 'a
    using that by (auto simp: Cache_Put_def evict_def split: if_splits option.splits)
  show "cttl (Cache_Put now k v s) = cttl s" for now k s and v :: 'a
    by (simp add: Cache_Put_def)
qed

section \<open>Runs of the cache\<close>

type_synonym 'v cwrite = "time \<times> string \<times> 'v"

fun put_all :: "'v cwrite list \<Rightarrow> 'v Cache \<Rightarrow> 'v Cache" where
  "put_all [] c = c"
| "put_all ((t, k, v) # ws) c = put_all ws (Cache_Put t k v c)"

definition clocked :: "'v cwrite list \<Rightarrow> bool" where
  "clocked ws \<longleftrightarrow> sorted (map fst ws)"

text \<open>The reference: the most recent write of the key, forgotten once it is a window old.\<close>

fun last_write :: "'v cwrite list \<Rightarrow> string \<Rightarrow> (time \<times> 'v) option" where
  "last_write [] key = None"
| "last_write ((t, k, v) # ws) key =
     (case last_write ws key of
        Some w \<Rightarrow> Some w
      | None \<Rightarrow> if k = key then Some (t, v) else None)"

definition recent :: "time \<Rightarrow> time \<Rightarrow> 'v cwrite list \<Rightarrow> string \<Rightarrow> 'v option" where
  "recent now ttl ws key =
     (case last_write ws key of
        Some (t, v) \<Rightarrow> if now - t < ttl then Some v else None
      | None \<Rightarrow> None)"

lemma put_all_snoc: "put_all (ws @ [(t, k, v)]) c = Cache_Put t k v (put_all ws c)"
  by (induction ws arbitrary: c) auto

lemma cttl_put_all [simp]: "cttl (put_all ws c) = cttl c"
  by (induction ws c rule: put_all.induct) (simp_all add: Cache_Put_def)

lemma last_write_snoc:
  "last_write (ws @ [(t, k, v)]) key = (if k = key then Some (t, v) else last_write ws key)"
  by (induction ws) (auto split: option.splits)

lemma last_write_mem: "last_write ws key = Some (t, v) \<Longrightarrow> (t, key, v) \<in> set ws"
  by (induction ws) (auto split: option.splits if_splits)

lemma clocked_snoc:
  "clocked (ws @ [(t, k, v)]) \<longleftrightarrow> clocked ws \<and> (\<forall>w \<in> set ws. fst w \<le> t)"
  by (auto simp: clocked_def sorted_append)

text \<open>Every stored entry is the last write of its key, and a last write that is missing is at least
  a window old.\<close>

definition tracks :: "time \<Rightarrow> 'v cwrite list \<Rightarrow> (string \<rightharpoonup> 'v entry) \<Rightarrow> time \<Rightarrow> bool" where
  "tracks ttl ws m now \<longleftrightarrow>
     (\<forall>k. case m k of
        Some e \<Rightarrow> last_write ws k = Some (at e, val e)
      | None \<Rightarrow> (case last_write ws k of None \<Rightarrow> True | Some (t, v) \<Rightarrow> ttl \<le> now - t))"

lemma tracks_later:
  assumes "tracks ttl ws m now" and "now \<le> later"
  shows "tracks ttl ws m later"
  unfolding tracks_def
proof
  fix k
  have "case m k of Some e \<Rightarrow> last_write ws k = Some (at e, val e)
    | None \<Rightarrow> (case last_write ws k of None \<Rightarrow> True | Some (t, v) \<Rightarrow> ttl \<le> now - t)"
    using assms(1) by (simp add: tracks_def)
  with assms(2) show "case m k of Some e \<Rightarrow> last_write ws k = Some (at e, val e)
    | None \<Rightarrow> (case last_write ws k of None \<Rightarrow> True | Some (t, v) \<Rightarrow> ttl \<le> later - t)"
    by (auto split: option.splits)
qed

lemma tracks_put:
  assumes "tracks ttl ws m t"
  shows "tracks ttl (ws @ [(t, k, v)]) ((evict t ttl m)(k \<mapsto> \<lparr>val = v, at = t\<rparr>)) t"
  unfolding tracks_def
proof
  fix key
  have "case m key of Some e \<Rightarrow> last_write ws key = Some (at e, val e)
    | None \<Rightarrow> (case last_write ws key of None \<Rightarrow> True | Some (s, v) \<Rightarrow> ttl \<le> t - s)"
    using assms by (simp add: tracks_def)
  then show "case ((evict t ttl m)(k \<mapsto> \<lparr>val = v, at = t\<rparr>)) key of
      Some e \<Rightarrow> last_write (ws @ [(t, k, v)]) key = Some (at e, val e)
    | None \<Rightarrow> (case last_write (ws @ [(t, k, v)]) key of None \<Rightarrow> True
        | Some (s, v) \<Rightarrow> ttl \<le> t - s)"
    by (auto simp: last_write_snoc evict_def split: option.splits if_splits)
qed

lemma tracks_put_all:
  assumes "clocked ws" and "\<forall>w \<in> set ws. fst w \<le> now"
  shows "tracks ttl ws (cm (put_all ws (Cache_New ttl))) now"
  using assms
proof (induction ws arbitrary: now rule: rev_induct)
  case Nil
  then show ?case by (simp add: tracks_def Cache_New_def)
next
  case (snoc w ws)
  obtain t k v where w: "w = (t, k, v)" by (cases w)
  from snoc.prems w have "clocked ws" "\<forall>w \<in> set ws. fst w \<le> t" and "t \<le> now"
    by (auto simp: clocked_snoc)
  with snoc.IH[of t] have "tracks ttl (ws @ [w]) (cm (put_all (ws @ [w]) (Cache_New ttl))) t"
    by (simp add: w put_all_snoc Cache_Put_def tracks_put Cache_New_def)
  then show ?case using \<open>t \<le> now\<close> by (rule tracks_later)
qed

text \<open>\<^bold>\<open>C28\<close>. Round trip through the cache: after any sequence of \<open>Put\<close> calls on a non-decreasing
  clock, \<open>Get\<close> returns exactly the value of the last \<open>Put\<close> under that key if it is less than one
  TTL old, and nothing otherwise. Evicting on writes is never observable.\<close>

theorem cache_roundtrip:
  assumes "clocked ws" and "\<forall>w \<in> set ws. fst w \<le> now"
  shows "Cache_Get now (put_all ws (Cache_New ttl)) key = recent now ttl ws key"
proof -
  have "case cm (put_all ws (Cache_New ttl)) key of
      Some e \<Rightarrow> last_write ws key = Some (at e, val e)
    | None \<Rightarrow> (case last_write ws key of None \<Rightarrow> True | Some (t, v) \<Rightarrow> ttl \<le> now - t)"
    using tracks_put_all[OF assms, of ttl] by (simp add: tracks_def)
  then show ?thesis
    by (auto simp: Cache_Get_def recent_def Cache_New_def split: option.splits)
qed

theorem cache_roundtrip_witness:
  "Cache_Get 12 (put_all [(0, ''a'', 1 :: int), (9, ''b'', 2), (11, ''a'', 3)] (Cache_New 10)) ''a''
     = Some 3"
  using cache_roundtrip[of "[(0, ''a'', 1 :: int), (9, ''b'', 2), (11, ''a'', 3)]" 12 10 "''a''"]
  by (simp add: clocked_def recent_def)

text \<open>The cache is bounded by one window of traffic: after a \<open>Put\<close> at \<open>now\<close> it holds at
  most one entry more than the number of earlier writes that are less than one TTL old, however
  long the process has been running.\<close>

theorem cache_bounded:
  assumes "clocked ws" and "\<forall>w \<in> set ws. fst w \<le> now"
  shows "card (dom (cm (put_all (ws @ [(now, k, v)]) (Cache_New ttl)))) \<le>
    Suc (length (filter (\<lambda>w. now - fst w < ttl) ws))"
proof -
  let ?m = "cm (put_all ws (Cache_New ttl))"
  let ?keys = "(\<lambda>w. fst (snd w)) ` set (filter (\<lambda>w. now - fst w < ttl) ws)"
  have live: "key \<in> ?keys" if "evict now ttl ?m key = Some e" for key e
  proof -
    from that have e: "?m key = Some e" "now - at e < ttl"
      by (auto simp: evict_def split: option.splits if_splits)
    have "case ?m key of Some e \<Rightarrow> last_write ws key = Some (at e, val e)
      | None \<Rightarrow> (case last_write ws key of None \<Rightarrow> True | Some (t, v) \<Rightarrow> ttl \<le> now - t)"
      using tracks_put_all[OF assms, of ttl] by (simp add: tracks_def)
    with e have "(at e, key, val e) \<in> set (filter (\<lambda>w. now - fst w < ttl) ws)"
      by (auto dest: last_write_mem)
    then show ?thesis by force
  qed
  have "dom (cm (put_all (ws @ [(now, k, v)]) (Cache_New ttl))) \<subseteq> insert k ?keys"
  proof
    fix key assume "key \<in> dom (cm (put_all (ws @ [(now, k, v)]) (Cache_New ttl)))"
    then have "key = k \<or> (\<exists>e. evict now ttl ?m key = Some e)"
      by (auto simp: put_all_snoc Cache_Put_def Cache_New_def split: if_splits)
    with live show "key \<in> insert k ?keys" by blast
  qed
  then have "card (dom (cm (put_all (ws @ [(now, k, v)]) (Cache_New ttl)))) \<le> card (insert k ?keys)"
    by (rule card_mono[rotated]) simp
  also have "\<dots> \<le> Suc (card ?keys)" by (simp add: card_insert_if)
  also have "card ?keys \<le> length (filter (\<lambda>w. now - fst w < ttl) ws)"
    by (meson card_image_le card_length finite_set le_trans)
  finally show ?thesis by simp
qed

theorem cache_bounded_witness:
  "card (dom (cm (put_all [(0, ''a'', 1 :: int), (5, ''b'', 2), (12, ''c'', 3)] (Cache_New 10)))) \<le> 2"
  using cache_bounded[of "[(0, ''a'', 1 :: int), (5, ''b'', 2)]" 12 "''c''" 3 10]
  by (simp add: clocked_def)

end
