(* ===== verification/Eventbus.thy ===== *)
theory Eventbus
  imports Prelude "HOL-Library.Word"
begin

text \<open>
  The change bus of \<open>internal/eventbus\<close>: a version counter per kind and one 1-buffered wake
  channel per subscriber. A counter is a \<open>uint64\<close> and wraps; a channel with capacity one
  is the flag "a wake is pending". A subscription pointer is its number. A nil \<open>*Bus\<close> is
  \<^const>\<open>None\<close>. The micro steps of \<open>Publish\<close> (the atomic add, then one send per
  subscriber under the read lock) are separate definitions: \<open>Stream_Hub\<close> interleaves them with
  the subscribers.
\<close>

section \<open>The bus\<close>

datatype Kind =
    PoolChanged | NodeChanged | VolumeChanged | TargetChanged
  | ShareChanged | SnapshotChanged | AlertChanged | TaskChanged

record subscription =
  skinds :: "Kind set"
  sch :: bool \<comment> \<open>the buffered wake\<close>

record Bus =
  versions :: "Kind \<Rightarrow> 64 word"
  subs :: "nat \<rightharpoonup> subscription"

definition Bus_New :: Bus where
  "Bus_New = \<lparr>versions = (\<lambda>_. 0), subs = Map.empty\<rparr>"

definition bump :: "Kind \<Rightarrow> Bus \<Rightarrow> Bus" where
  "bump k b = b\<lparr>versions := (versions b)(k := versions b k + 1)\<rparr>"

text \<open>One turn of the wake loop: skip a subscriber of other kinds, otherwise a send that leaves a
  wake that is already pending as it is.\<close>

definition wake_sub :: "Kind \<Rightarrow> subscription \<Rightarrow> subscription" where
  "wake_sub k s = (if k \<in> skinds s then s\<lparr>sch := True\<rparr> else s)"

definition wake_one :: "Kind \<Rightarrow> nat \<Rightarrow> Bus \<Rightarrow> Bus" where
  "wake_one k i b = b\<lparr>subs := (subs b)(i := map_option (wake_sub k) (subs b i))\<rparr>"

definition wake_all :: "Kind \<Rightarrow> Bus \<Rightarrow> Bus" where
  "wake_all k b = b\<lparr>subs := (\<lambda>i. map_option (wake_sub k) (subs b i))\<rparr>"

definition Publish :: "Kind \<Rightarrow> Bus option \<Rightarrow> Bus option" where
  "Publish k nb = (case nb of None \<Rightarrow> None | Some b \<Rightarrow> Some (wake_all k (bump k b)))"

definition Version :: "Bus option \<Rightarrow> Kind list \<Rightarrow> 64 word" where
  "Version nb kinds =
     (case nb of None \<Rightarrow> 0 | Some b \<Rightarrow> foldl (\<lambda>v k. v + versions b k) 0 kinds)"

definition Subscribe :: "nat \<Rightarrow> Kind list \<Rightarrow> Bus option \<Rightarrow> nat option \<times> Bus option" where
  "Subscribe i kinds nb =
     (case nb of
        None \<Rightarrow> (None, None)
      | Some b \<Rightarrow> (Some i, Some (b\<lparr>subs := (subs b)(i \<mapsto> \<lparr>skinds = set kinds, sch = False\<rparr>)\<rparr>)))"

definition cancel :: "nat \<Rightarrow> Bus option \<Rightarrow> Bus option" where
  "cancel i nb = map_option (\<lambda>b. b\<lparr>subs := (subs b)(i := None)\<rparr>) nb"

text \<open>A receive on the subscriber's channel, enabled when a wake is pending.\<close>

definition pending :: "nat \<Rightarrow> Bus \<Rightarrow> bool" where
  "pending i b \<longleftrightarrow> (case subs b i of None \<Rightarrow> False | Some s \<Rightarrow> sch s)"

definition drain :: "nat \<Rightarrow> Bus \<Rightarrow> Bus" where
  "drain i b = b\<lparr>subs := (subs b)(i := map_option (\<lambda>s. s\<lparr>sch := False\<rparr>) (subs b i))\<rparr>"

section \<open>Wakes\<close>

lemma versions_simps [simp]:
  "versions (wake_one k i b) = versions b"
  "versions (wake_all k b) = versions b"
  "versions (drain i b) = versions b"
  "versions (bump k b) = (versions b)(k := versions b k + 1)"
  by (simp_all add: wake_one_def wake_all_def drain_def bump_def)

lemma subs_bump [simp]: "subs (bump k b) = subs b"
  by (simp add: bump_def)

lemma dom_subs [simp]:
  "dom (subs (wake_one k i b)) = dom (subs b)"
  "dom (subs (drain i b)) = dom (subs b)"
  by (auto simp: wake_one_def drain_def dom_def split: if_splits)

lemma wake_sub_simps [simp]:
  "skinds (wake_sub k s) = skinds s"
  "sch (wake_sub k s) \<longleftrightarrow> sch s \<or> k \<in> skinds s"
  "wake_sub k (wake_sub k s) = wake_sub k s"
  by (simp_all add: wake_sub_def)

text \<open>What a subscriber is registered for.\<close>

definition listens :: "nat \<Rightarrow> Kind \<Rightarrow> Bus \<Rightarrow> bool" where
  "listens i k b \<longleftrightarrow> (\<exists>s. subs b i = Some s \<and> k \<in> skinds s)"

lemma listens_simps [simp]:
  "listens i k (bump k' b) = listens i k b"
  "listens i k (wake_one k' j b) = listens i k b"
  "listens i k (wake_all k' b) = listens i k b"
  "listens i k (drain j b) = listens i k b"
  by (auto simp: listens_def wake_one_def wake_all_def drain_def)

lemma pending_simps [simp]:
  "pending i (bump k b) = pending i b"
  "pending i (wake_one k j b) \<longleftrightarrow> pending i b \<or> (i = j \<and> listens i k b)"
  "pending i (wake_all k b) \<longleftrightarrow> pending i b \<or> listens i k b"
  "pending i (drain j b) \<longleftrightarrow> pending i b \<and> i \<noteq> j"
  by (auto simp: pending_def wake_one_def wake_all_def listens_def drain_def split: option.splits)

text \<open>The wake loop visits the subscribers in the order the map happens to range over; every order
  does what \<^const>\<open>wake_all\<close> does.\<close>

lemma subs_fold_wake:
  "subs (fold (wake_one k) is b) =
     (\<lambda>i. if i \<in> set is then map_option (wake_sub k) (subs b i) else subs b i)"
proof (induction "is" arbitrary: b)
  case (Cons j js)
  have wake: "subs (wake_one k j b) i = (if i = j then map_option (wake_sub k) (subs b j) else subs b i)" for i
    by (simp add: wake_one_def)
  show ?case
    by (rule ext) (simp add: Cons.IH wake option.map_comp comp_def)
qed simp

lemma versions_fold_wake [simp]: "versions (fold (wake_one k) is b) = versions b"
  by (induction "is" arbitrary: b) simp_all

lemma Publish_micro_steps:
  assumes "set is = dom (subs b)"
  shows "Publish k (Some b) = Some (fold (wake_one k) is (bump k b))"
proof -
  have "map_option (wake_sub k) (subs b i) = subs (fold (wake_one k) is (bump k b)) i" for i
    using assms by (cases "subs b i") (auto simp: subs_fold_wake domIff)
  then have "wake_all k (bump k b) = fold (wake_one k) is (bump k b)"
    by (intro Bus.equality ext) (simp_all add: wake_all_def bump_def)
  then show ?thesis by (simp add: Publish_def)
qed

section \<open>Versions\<close>

lemma Version_Some: "Version (Some b) kinds = (\<Sum>k\<leftarrow>kinds. versions b k)"
proof -
  have "foldl (\<lambda>v k. v + versions b k) a kinds = a + (\<Sum>k\<leftarrow>kinds. versions b k)" for a
    by (induction kinds arbitrary: a) (simp_all add: add.assoc)
  from this[of 0] show ?thesis by (simp add: Version_def)
qed

fun publish_all :: "Kind list \<Rightarrow> Bus option \<Rightarrow> Bus option" where
  "publish_all [] nb = nb"
| "publish_all (k # ks) nb = publish_all ks (Publish k nb)"

text \<open>How often the publications \<open>ps\<close> move the sum over \<open>kinds\<close>.\<close>

definition moves :: "Kind list \<Rightarrow> Kind list \<Rightarrow> nat" where
  "moves kinds ps = (\<Sum>p\<leftarrow>ps. count_list kinds p)"

lemma sum_versions_upd:
  "(\<Sum>k\<leftarrow>kinds. (f(p := f p + 1)) k) = (\<Sum>k\<leftarrow>kinds. f k) + of_nat (count_list kinds p)"
  for f :: "Kind \<Rightarrow> 64 word"
  by (induction kinds) (auto simp: algebra_simps)

lemma Version_publish_all:
  "Version (publish_all ps (Some b)) kinds = Version (Some b) kinds + of_nat (moves kinds ps)"
proof (induction ps arbitrary: b)
  case (Cons p ps)
  have "Version (Publish p (Some b)) kinds = Version (Some b) kinds + of_nat (count_list kinds p)"
    using sum_versions_upd[of "versions b" p kinds] by (simp add: Publish_def Version_Some)
  with Cons.IH[of "wake_all p (bump p b)"] show ?case
    by (simp add: Publish_def moves_def algebra_simps)
qed (simp add: moves_def)

lemma moves_0_iff: "moves kinds ps = 0 \<longleftrightarrow> set kinds \<inter> set ps = {}"
  by (auto simp: moves_def count_list_0_iff)

lemma moves_distinct:
  assumes "distinct kinds"
  shows "moves kinds ps = length (filter (\<lambda>p. p \<in> set kinds) ps)"
proof -
  have "count_list kinds p = (if p \<in> set kinds then 1 else 0)" for p
    using assms by (induction kinds) (auto simp: count_list_0_iff)
  then show ?thesis by (induction ps) (auto simp: moves_def)
qed

text \<open>\<^bold>\<open>C29\<close>. The watermark contract of the bus, with the counters at their 64-bit width: if fewer than
  \<open>2^64\<close> of the publications made between two reads of \<open>Version(kinds...)\<close> name one of those
  (distinct) kinds, then the two reads are equal exactly when none of them did.\<close>

theorem version_watermark:
  assumes "distinct kinds" and "length (filter (\<lambda>p. p \<in> set kinds) ps) < 2 ^ 64"
  shows "Version (publish_all ps (Some b)) kinds = Version (Some b) kinds
     \<longleftrightarrow> set kinds \<inter> set ps = {}"
proof -
  have "moves kinds ps < 2 ^ LENGTH(64)" using assms by (simp add: moves_distinct)
  then have "(of_nat (moves kinds ps) :: 64 word) = 0 \<longleftrightarrow> moves kinds ps = 0"
    by (auto simp: word_of_nat_eq_0_iff dest: nat_dvd_not_less)
  then show ?thesis by (simp add: Version_publish_all moves_0_iff)
qed

theorem version_watermark_witness:
  "Version (publish_all [PoolChanged, TaskChanged] (Some Bus_New)) [TaskChanged, NodeChanged]
     \<noteq> Version (Some Bus_New) [TaskChanged, NodeChanged]"
  using version_watermark[of "[TaskChanged, NodeChanged]" "[PoolChanged, TaskChanged]" Bus_New]
  by simp

text \<open>At the width limit the reads do agree again: \<open>2^64\<close> publications of one kind are invisible.\<close>

lemma version_wraps:
  "Version (publish_all (replicate (2 ^ 64) k) (Some b)) [k] = Version (Some b) [k]"
proof -
  have "moves [k] (replicate (2 ^ 64) k) = 2 ^ 64"
    by (simp add: moves_def sum_list_replicate)
  then show ?thesis by (simp add: Version_publish_all)
qed

end
