(* ===== verification/Go_Time.thy ===== *)
theory Go_Time
  imports Prelude
begin

text \<open>
  The part of Go's \<open>time\<close> package the sources print: \<open>t.UTC().Format(time.RFC3339)\<close>. An instant
  is the number of nanoseconds since Go's zero time, 1 January of year 1 UTC, so \<open>IsZero\<close> is
  equality with 0. The civil date follows the package's own cycle arithmetic (400, 100, 4 and 1
  years). Instants before the zero time do not occur in the sources.
\<close>

type_synonym instant = nat

definition second :: nat where "second = 1000000000"

definition isLeap :: "nat \<Rightarrow> bool" where
  "isLeap y \<longleftrightarrow> y mod 4 = 0 \<and> (y mod 100 \<noteq> 0 \<or> y mod 400 = 0)"

text \<open>The year and the day within it, from the days since the zero time.\<close>

definition civil_year :: "nat \<Rightarrow> nat \<times> nat" where
  "civil_year d =
     (let n400 = d div 146097; d1 = d mod 146097;
          n100 = min 3 (d1 div 36524); d2 = d1 - 36524 * n100;
          n4 = d2 div 1461; d3 = d2 mod 1461;
          n1 = min 3 (d3 div 365)
      in (400 * n400 + 100 * n100 + 4 * n4 + n1 + 1, d3 - 365 * n1))"

definition month_lengths :: "nat \<Rightarrow> nat list" where
  "month_lengths y = [31, if isLeap y then 29 else 28, 31, 30, 31, 30, 31, 31, 30, 31, 30, 31]"

fun month_day :: "nat list \<Rightarrow> nat \<Rightarrow> nat \<Rightarrow> nat \<times> nat" where
  "month_day [] m d = (m, d + 1)"
| "month_day (n # ns) m d = (if d < n then (m, d + 1) else month_day ns (m + 1) (d - n))"

text \<open>\<open>%02d\<close> and \<open>%04d\<close> below 100 and 10000.\<close>

definition two :: "nat \<Rightarrow> string" where
  "two n = [digit_char (n div 10 mod 10), digit_char (n mod 10)]"

definition four :: "nat \<Rightarrow> string" where
  "four n = two (n div 100) @ two n"

definition rfc3339_fields :: "nat \<Rightarrow> nat \<times> nat \<times> nat \<times> nat \<times> nat \<times> nat" where
  "rfc3339_fields secs =
     (let (y, yd) = civil_year (secs div 86400);
          (m, d) = month_day (month_lengths y) 1 yd;
          r = secs mod 86400
      in (y, m, d, r div 3600, r div 60 mod 60, r mod 60))"

definition RFC3339 :: "instant \<Rightarrow> string" where
  "RFC3339 t =
     (case rfc3339_fields (t div second) of (y, mo, d, h, mi, s) \<Rightarrow>
        four y @ ''-'' @ two mo @ ''-'' @ two d @ ''T'' @ two h @ '':'' @ two mi @ '':'' @ two s @ ''Z'')"

section \<open>The civil date is the calendar\<close>

text \<open>Days before the first of January of a year.\<close>

definition days_before :: "nat \<Rightarrow> nat" where
  "days_before y = 365 * (y - 1) + (y - 1) div 4 + (y - 1) div 400 - (y - 1) div 100"

definition year_length :: "nat \<Rightarrow> nat" where
  "year_length y = (if isLeap y then 366 else 365)"

lemma cycle_digits:
  fixes a b c e :: nat
  assumes "b < 4" "c < 25" "e < 4"
  defines "n \<equiv> 400 * a + 100 * b + 4 * c + e"
  shows "n div 4 = 100 * a + 25 * b + c" "n div 100 = 4 * a + b" "n div 400 = a"
  using assms by simp_all

lemma days_before_cycle:
  fixes a b c e :: nat
  assumes "b < 4" "c < 25" "e < 4"
  shows "days_before (400 * a + 100 * b + 4 * c + e + 1) = 146097 * a + 36524 * b + 1461 * c + 365 * e"
  using cycle_digits[OF assms] by (simp add: days_before_def)

lemma isLeap_cycle:
  fixes a b c e :: nat
  assumes "b < 4" "c < 25" "e < 4"
  shows "isLeap (400 * a + 100 * b + 4 * c + e + 1) \<longleftrightarrow> e = 3 \<and> (c = 24 \<longrightarrow> b = 3)"
proof -
  let ?y = "400 * a + 100 * b + 4 * c + e + 1"
  have top: "k mod n = 0 \<longleftrightarrow> k = n" if "0 < k" "k \<le> n" for k n :: nat
    using that by (cases "k = n") auto
  have edge100: "4 * c + e + 1 = 100 \<longleftrightarrow> e = 3 \<and> c = 24" using assms by linarith
  have edge400: "100 * b + 4 * c + e + 1 = 400 \<longleftrightarrow> e = 3 \<and> c = 24 \<and> b = 3"
    using assms by linarith
  have "?y = (e + 1) + (100 * a + 25 * b + c) * 4" by simp
  then have "?y mod 4 = (e + 1) mod 4" by (metis mod_mult_self1)
  then have m4: "?y mod 4 = 0 \<longleftrightarrow> e = 3" using top[of "e + 1" 4] assms(3) by auto
  have "?y = (4 * c + e + 1) + (4 * a + b) * 100" by simp
  then have "?y mod 100 = (4 * c + e + 1) mod 100" by (metis mod_mult_self1)
  then have m100: "?y mod 100 = 0 \<longleftrightarrow> e = 3 \<and> c = 24"
    using top[of "4 * c + e + 1" 100] edge100 assms by simp
  have "?y = (100 * b + 4 * c + e + 1) + a * 400" by simp
  then have "?y mod 400 = (100 * b + 4 * c + e + 1) mod 400" by (metis mod_mult_self1)
  then have m400: "?y mod 400 = 0 \<longleftrightarrow> e = 3 \<and> c = 24 \<and> b = 3"
    using top[of "100 * b + 4 * c + e + 1" 400] edge400 assms by simp
  show ?thesis unfolding isLeap_def m4 m100 m400 by auto
qed

lemma civil_year_calendar:
  assumes "civil_year d = (y, yd)"
  shows "1 \<le> y" "d = days_before y + yd" "yd < year_length y"
proof -
  define a where "a = d div 146097"
  define d1 where "d1 = d mod 146097"
  define b where "b = min 3 (d1 div 36524)"
  define d2 where "d2 = d1 - 36524 * b"
  define c where "c = d2 div 1461"
  define d3 where "d3 = d2 mod 1461"
  define e where "e = min 3 (d3 div 365)"
  have y: "y = 400 * a + 100 * b + 4 * c + e + 1" and yd: "yd = d3 - 365 * e"
    using assms by (simp_all add: civil_year_def Let_def a_def b_def c_def d1_def d2_def d3_def e_def)
  have d: "d = 146097 * a + d1" and "d1 < 146097" by (simp_all add: a_def d1_def)
  have b: "b < 4" "36524 * b \<le> d1" by (auto simp: b_def min_def)
  have d1: "d1 = 36524 * b + d2" using b by (simp add: d2_def)
  have d2: "d2 < 36524 \<or> (b = 3 \<and> d2 = 36524)"
    using \<open>d1 < 146097\<close> by (auto simp: d2_def b_def min_def split: if_splits)
  have d2c: "d2 = 1461 * c + d3" "d3 < 1461" by (simp_all add: c_def d3_def)
  then have c: "c < 25" using d2 by auto
  have e: "e < 4" "365 * e \<le> d3" by (auto simp: e_def min_def)
  have d3: "d3 = 365 * e + yd" using e by (simp add: yd)
  have yd365: "yd < 365 \<or> (e = 3 \<and> yd = 365)"
    using \<open>d3 < 1461\<close> by (auto simp: yd e_def min_def split: if_splits)
  show "1 \<le> y" by (simp add: y)
  show "d = days_before y + yd"
    using days_before_cycle[OF b(1) c e(1), of a] d d1 d2c d3 by (simp add: y)
  have "c \<noteq> 24 \<or> b = 3" if "yd = 365" "e = 3"
    using d2 d2c d3 that by auto
  with yd365 show "yd < year_length y"
    using isLeap_cycle[OF b(1) c e(1), of a] by (auto simp: year_length_def y)
qed

lemma days_before_Suc:
  assumes "1 \<le> y"
  shows "days_before (Suc y) = days_before y + year_length y"
proof -
  define a r where "a = (y - 1) div 400" and "r = (y - 1) mod 400"
  define b s where "b = r div 100" and "s = r mod 100"
  define c e where "c = s div 4" and "e = s mod 4"
  have parts: "y - 1 = 400 * a + r" "r < 400" "r = 100 * b + s" "s < 100" "s = 4 * c + e" "e < 4"
    by (simp_all add: a_def r_def b_def s_def c_def e_def)
  then have y: "y = 400 * a + 100 * b + 4 * c + e + 1" using assms by linarith
  have bce: "b < 4" "c < 25" "e < 4" using parts by linarith+
  have len: "year_length y = (if e = 3 \<and> (c = 24 \<longrightarrow> b = 3) then 366 else 365)"
    using isLeap_cycle[OF bce, of a] by (simp add: year_length_def y)
  have dy: "days_before y = 146097 * a + 36524 * b + 1461 * c + 365 * e"
    using days_before_cycle[OF bce, of a] by (simp add: y)
  consider "e < 3" | "e = 3" "c < 24" | "e = 3" "c = 24" "b < 3" | "e = 3" "c = 24" "b = 3"
    using bce by linarith
  then show ?thesis
  proof cases
    case 1
    then show ?thesis using days_before_cycle[of b c "e + 1" a] bce dy len by (simp add: y)
  next
    case 2
    then show ?thesis using days_before_cycle[of b "c + 1" 0 a] bce dy len by (simp add: y)
  next
    case 3
    then show ?thesis using days_before_cycle[of "b + 1" 0 0 a] bce dy len by (simp add: y)
  next
    case 4
    then show ?thesis using days_before_cycle[of 0 0 0 "a + 1"] bce dy len by (simp add: y)
  qed
qed

lemma days_before_mono: "1 \<le> y \<Longrightarrow> y \<le> y' \<Longrightarrow> days_before y \<le> days_before y'"
proof (induction "y' - y" arbitrary: y')
  case (Suc n)
  then obtain y'' where y'': "y' = Suc y''" by (cases y') auto
  with Suc have "days_before y \<le> days_before y''" "1 \<le> y''" by auto
  then show ?case using days_before_Suc[of y''] by (simp add: y'')
qed simp

lemma civil_year_strict:
  assumes "civil_year d = (y, yd)" and "civil_year d' = (y', yd')" and "d < d'"
  shows "y < y' \<or> (y = y' \<and> yd < yd')"
proof (cases "y' < y")
  case True
  note c = civil_year_calendar[OF assms(1)] and c' = civil_year_calendar[OF assms(2)]
  have "days_before (Suc y') \<le> days_before y" using c' True by (intro days_before_mono) auto
  then have "days_before y' + year_length y' \<le> days_before y" using days_before_Suc c'(1) by simp
  then have False using c c' assms(3) by linarith
  then show ?thesis ..
next
  case False
  then show ?thesis
    using civil_year_calendar[OF assms(1)] civil_year_calendar[OF assms(2)] assms(3) by auto
qed

lemma month_day_ge: "month_day ns m d = (m', d') \<Longrightarrow> m \<le> m'"
  by (induction ns m d rule: month_day.induct) (auto split: if_splits)

lemma month_day_strict:
  "month_day ns m d = (a, x) \<Longrightarrow> month_day ns m e = (b, y) \<Longrightarrow> d < e \<Longrightarrow> a < b \<or> (a = b \<and> x < y)"
proof (induction ns arbitrary: m d e)
  case (Cons n ns)
  show ?case
  proof (cases "d < n")
    case True
    then show ?thesis using Cons.prems month_day_ge[of ns "m + 1" "e - n" b y]
      by (cases "e < n") auto
  next
    case False
    then show ?thesis using Cons.prems Cons.IH[of "m + 1" "d - n" "e - n"] by auto
  qed
qed auto

section \<open>Printed instants compare as instants\<close>

lemma append_less:
  fixes a b u v :: "'a :: order list"
  assumes "length a = length b"
  shows "a @ u < b @ v \<longleftrightarrow> a < b \<or> (a = b \<and> u < v)"
  using assms by (induction a b rule: list_induct2) auto

lemma digit_char_less:
  assumes "a < 10" "b < 10"
  shows "digit_char a < digit_char b \<longleftrightarrow> a < b"
proof -
  have "of_char (char_of (48 + a) :: char) = 48 + a" "of_char (char_of (48 + b) :: char) = 48 + b"
    using assms by (simp_all add: of_char_of)
  then show ?thesis by (simp add: less_char_def)
qed

lemma digit_char_eq: "a < 10 \<Longrightarrow> b < 10 \<Longrightarrow> digit_char a = digit_char b \<longleftrightarrow> a = b"
  using digit_char_inj by blast

declare digit_char.simps [simp del]

lemma length_two [simp]: "length (two n) = 2" "length (four n) = 4"
  by (simp_all add: two_def four_def)

lemma less_div_mod:
  "m < n \<longleftrightarrow> m div k < n div k \<or> (m div k = n div k \<and> m mod k < n mod k)" for m n k :: nat
  by (metis div_le_mono div_mult_mod_eq linorder_not_less nat_add_left_cancel_less nat_less_le)

lemma two_less_eq:
  assumes "m < 100" "n < 100"
  shows "two m < two n \<longleftrightarrow> m < n" "two m = two n \<longleftrightarrow> m = n"
proof -
  have q: "m div 10 < 10" "n div 10 < 10" "m mod 10 < 10" "n mod 10 < 10" using assms by auto
  note split = less_div_mod[of m n 10]
  show "two m < two n \<longleftrightarrow> m < n"
    using q unfolding two_def split by (simp add: digit_char_less digit_char_eq)
  show "two m = two n \<longleftrightarrow> m = n"
    using q unfolding two_def by (simp add: digit_char_eq) (metis div_mult_mod_eq)
qed

lemma two_mod: "two (n mod 100) = two n"
  using mod_mult2_eq[of n 10 10] by (simp add: two_def)

lemma four_less_eq:
  assumes "m < 10000" "n < 10000"
  shows "four m < four n \<longleftrightarrow> m < n" "four m = four n \<longleftrightarrow> m = n"
proof -
  have q: "m div 100 < 100" "n div 100 < 100" "m mod 100 < 100" "n mod 100 < 100" using assms by auto
  have four: "four k = two (k div 100) @ two (k mod 100)" for k by (simp add: four_def two_mod)
  note split = less_div_mod[of m n 100]
  show "four m < four n \<longleftrightarrow> m < n"
    using q unfolding four split by (simp add: append_less two_less_eq)
  show "four m = four n \<longleftrightarrow> m = n"
    using q unfolding four by (simp add: two_less_eq) (metis div_mult_mod_eq)
qed

text \<open>Instants RFC 3339 can print: a four-digit year.\<close>

definition formattable :: "instant \<Rightarrow> bool" where
  "formattable t \<longleftrightarrow> fst (civil_year (t div second div 86400)) < 10000"

type_synonym civil = "nat \<times> nat \<times> nat \<times> nat \<times> nat \<times> nat"

fun civil_less :: "civil \<Rightarrow> civil \<Rightarrow> bool" where
  "civil_less (y, mo, d, h, mi, s) (y', mo', d', h', mi', s') \<longleftrightarrow>
     y < y' \<or> (y = y' \<and> (mo < mo' \<or> (mo = mo' \<and> (d < d' \<or> (d = d' \<and>
     (h < h' \<or> (h = h' \<and> (mi < mi' \<or> (mi = mi' \<and> s < s')))))))))"

fun civil_print :: "civil \<Rightarrow> string" where
  "civil_print (y, mo, d, h, mi, s) =
     four y @ ''-'' @ two mo @ ''-'' @ two d @ ''T'' @ two h @ '':'' @ two mi @ '':'' @ two s @ ''Z''"

fun civil_ok :: "civil \<Rightarrow> bool" where
  "civil_ok (y, mo, d, h, mi, s) \<longleftrightarrow> y < 10000 \<and> mo < 100 \<and> d < 100 \<and> h < 100 \<and> mi < 100 \<and> s < 100"

lemma civil_print_less:
  assumes "civil_ok a" "civil_ok b"
  shows "civil_print a < civil_print b \<longleftrightarrow> civil_less a b"
  using assms by (cases a; cases b) (simp add: append_less two_less_eq four_less_eq)

lemma month_day_bounds:
  assumes "month_day ns m d = (m', d')" and "d < sum_list ns" and "\<forall>n \<in> set ns. n \<le> most"
  shows "m' < m + length ns" "d' \<le> most"
  using assms by (induction ns m d rule: month_day.induct) (auto split: if_splits)

lemma sum_month_lengths: "sum_list (month_lengths y) = year_length y"
  by (simp add: month_lengths_def year_length_def)

lemma fields_ok:
  assumes "fst (civil_year (secs div 86400)) < 10000"
  shows "civil_ok (rfc3339_fields secs)"
proof -
  obtain y yd where y: "civil_year (secs div 86400) = (y, yd)" by fastforce
  obtain m d where md: "month_day (month_lengths y) 1 yd = (m, d)" by fastforce
  have "\<forall>n \<in> set (month_lengths y). n \<le> 31" "length (month_lengths y) = 12"
    by (auto simp: month_lengths_def)
  with month_day_bounds[OF md, of 31] have "m < 100 \<and> d < 100"
    using civil_year_calendar(3)[OF y] by (simp add: sum_month_lengths)
  moreover have "secs mod 86400 div 3600 < 24" by auto
  ultimately show ?thesis
    using assms by (auto simp: rfc3339_fields_def y md[simplified] Let_def intro: order.strict_trans)
qed

lemma fields_strict:
  assumes "s < t"
  shows "civil_less (rfc3339_fields s) (rfc3339_fields t)"
proof -
  obtain y yd where y: "civil_year (s div 86400) = (y, yd)" by fastforce
  obtain y' yd' where y': "civil_year (t div 86400) = (y', yd')" by fastforce
  obtain m d where md: "month_day (month_lengths y) 1 yd = (m, d)" by fastforce
  obtain m' d' where md': "month_day (month_lengths y') 1 yd' = (m', d')" by fastforce
  have day: "y < y' \<or> y = y' \<and> (m < m' \<or> m = m' \<and> d < d')" if "s div 86400 < t div 86400"
    using civil_year_strict[OF y y' that] month_day_strict[OF md, of yd' m' d'] md' by auto
  have clock: "a div 3600 < b div 3600 \<or> (a div 3600 = b div 3600 \<and>
      (a div 60 mod 60 < b div 60 mod 60 \<or> (a div 60 mod 60 = b div 60 mod 60 \<and> a mod 60 < b mod 60)))"
    if "a < b" for a b :: nat
    using that less_div_mod[of a b 60] less_div_mod[of "a div 60" "b div 60" 60]
    by (auto simp flip: div_mult2_eq)
  from assms less_div_mod[of s t 86400]
  consider "s div 86400 < t div 86400" | "s div 86400 = t div 86400" "s mod 86400 < t mod 86400" by blast
  then show ?thesis
  proof cases
    case 1
    with day show ?thesis by (auto simp: rfc3339_fields_def y y' md[simplified] md'[simplified] Let_def)
  next
    case 2
    then have "(y', yd') = (y, yd)" "(m', d') = (m, d)" using y y' md md' by auto
    with clock[OF 2(2)] show ?thesis by (auto simp: rfc3339_fields_def y y' md[simplified] md'[simplified] Let_def)
  qed
qed

lemma civil_less_irrefl: "\<not> civil_less a a"
  by (cases a) simp

lemma civil_less_asym: "civil_less a b \<Longrightarrow> \<not> civil_less b a"
  by (cases a; cases b) auto

text \<open>The printed form sorts as time does, to the second: comparing two RFC 3339 strings bytewise is
  comparing the instants.\<close>

theorem RFC3339_less:
  assumes "formattable s" "formattable t"
  shows "RFC3339 s < RFC3339 t \<longleftrightarrow> s div second < t div second"
proof -
  have print: "RFC3339 u = civil_print (rfc3339_fields (u div second))" for u
    by (cases "rfc3339_fields (u div second)") (simp add: RFC3339_def)
  have "RFC3339 s < RFC3339 t \<longleftrightarrow>
      civil_less (rfc3339_fields (s div second)) (rfc3339_fields (t div second))"
    using assms by (simp add: print civil_print_less fields_ok formattable_def)
  also have "\<dots> \<longleftrightarrow> s div second < t div second"
    by (metis fields_strict civil_less_asym civil_less_irrefl linorder_neqE_nat)
  finally show ?thesis .
qed


end
