(* ===== verification/Tasks.thy ===== *)
theory Tasks
  imports Eventbus Go_Strings Go_Time "HOL-Library.AList"
begin

text \<open>
  The recent-activity feed of \<open>internal/tasks\<close> and its wire form in \<open>cmd/stornas\<close>. The two
  lanes are a ring of the last 100 operations and a table of merged pull requests. The mutex makes
  every method atomic; the bus is the shared \<open>Eventbus\<close> value, passed and returned. The merge
  table is an association list: Go ranges over it in no particular order, and no theorem below
  depends on one.
\<close>

section \<open>The feed\<close>

definition opsCap :: nat where "opsCap = 100"

definition MergeRetention :: instant where "MergeRetention = 3600 * second"

record Op =
  opVerb :: string
  opNamespace :: string
  opName :: string
  opBy :: string
  opOK :: bool
  opAt :: instant

record Merge =
  mRepoURL :: string
  mNumber :: int
  mURL :: string
  mTitle :: string
  mBy :: string
  mAt :: instant

record Feed =
  fops :: "Op list"
  fmerges :: "(string \<times> (int \<times> Merge) list) list"

definition Feed_New :: Feed where
  "Feed_New = \<lparr>fops = [], fmerges = []\<rparr>"

definition RecordOp :: "Op \<Rightarrow> Feed \<times> Bus option \<Rightarrow> Feed \<times> Bus option" where
  "RecordOp op = (\<lambda>(f, bus).
     let ops = op # fops f;
         ops = (if length ops > opsCap then take opsCap ops else ops)
     in (f\<lparr>fops := ops\<rparr>, Publish TaskChanged bus))"

definition pruneLocked :: "instant \<Rightarrow> Feed \<Rightarrow> Feed" where
  "pruneLocked cutoff f =
     f\<lparr>fmerges := filter (\<lambda>(repo, byNum). byNum \<noteq> [])
         (map (\<lambda>(repo, byNum). (repo, filter (\<lambda>(n, m). \<not> mAt m < cutoff) byNum)) (fmerges f))\<rparr>"

definition RecordMerge :: "instant \<Rightarrow> Merge \<Rightarrow> Feed \<times> Bus option \<Rightarrow> Feed \<times> Bus option" where
  "RecordMerge now m = (\<lambda>(f, bus).
     let byNum = (case map_of (fmerges f) (mRepoURL m) of None \<Rightarrow> [] | Some b \<Rightarrow> b);
         changed = (case map_of byNum (mNumber m) of None \<Rightarrow> True | Some prev \<Rightarrow> prev \<noteq> m);
         f = f\<lparr>fmerges := AList.update (mRepoURL m) (AList.update (mNumber m) m byNum) (fmerges f)\<rparr>;
         f = pruneLocked (now - MergeRetention) f
     in (f, if changed then Publish TaskChanged bus else bus))"

definition Ops :: "Feed \<Rightarrow> Op list" where
  "Ops f = fops f"

text \<open>Merges recorded at the same instant may come out in any order.\<close>

definition Merges :: "Feed \<Rightarrow> Merge list" where
  "Merges f = sort_by (\<lambda>a b. mAt b < mAt a) (concat (map (\<lambda>(repo, byNum). map snd byNum) (fmerges f)))"

definition cutPrefix :: "string \<Rightarrow> string \<Rightarrow> string \<times> bool" where
  "cutPrefix s p = (if hasPrefix s p then (drop (length p) s, True) else (s, False))"

definition MergeAuthor :: "string \<Rightarrow> string \<Rightarrow> string \<Rightarrow> string" where
  "MergeAuthor headRef proposedPrefix poster =
     (if proposedPrefix \<noteq> '''' then
        (case cutPrefix headRef (proposedPrefix @ ''/'') of (rest, ok) \<Rightarrow>
           if ok then
             (case cut rest ''/'' of (user, _, found) \<Rightarrow>
                if found \<and> user \<noteq> '''' then user else poster)
           else poster)
      else poster)"

text \<open>The wire form (\<open>model.Task\<close>, filled by \<open>taskModels\<close>).\<close>

record Task =
  tVerb :: string
  tObject :: string
  tBy :: string
  tOK :: bool
  tAt :: string

definition taskModels :: "Feed \<Rightarrow> Task list" where
  "taskModels f = map (\<lambda>op. \<lparr>tVerb = opVerb op, tObject = opName op, tBy = opBy op,
      tOK = opOK op, tAt = RFC3339 (opAt op)\<rparr>) (Ops f)"

section \<open>The operations ring\<close>

fun record_all :: "Op list \<Rightarrow> Feed \<times> Bus option \<Rightarrow> Feed \<times> Bus option" where
  "record_all [] s = s"
| "record_all (op # ops) s = record_all ops (RecordOp op s)"

lemma RecordOp_ops: "fops (fst (RecordOp op s)) = take opsCap (op # fops (fst s))"
  by (cases s) (simp add: RecordOp_def Let_def)

lemma record_all_ops:
  "length (fops (fst s)) \<le> opsCap \<Longrightarrow>
     fops (fst (record_all ops s)) = take opsCap (rev ops @ fops (fst s))"
proof (induction ops s rule: record_all.induct)
  case (2 op ops s)
  have "fops (fst (record_all ops (RecordOp op s))) = take opsCap (rev ops @ take opsCap (op # fops (fst s)))"
    using 2 by (simp add: RecordOp_ops)
  also have "\<dots> = take opsCap (rev ops @ op # fops (fst s))"
    by (simp add: take_append min_def)
  finally show ?case by simp
qed simp

lemma record_all_bus:
  "snd (record_all ops (f, bus)) = publish_all (replicate (length ops) TaskChanged) bus"
proof (induction ops arbitrary: f bus)
  case (Cons op ops)
  obtain f' where "RecordOp op (f, bus) = (f', Publish TaskChanged bus)"
    by (simp add: RecordOp_def Let_def)
  with Cons show ?case by simp
qed simp

text \<open>The audit ring: after any history of recorded operations the feed holds exactly the last
  100 of them, newest first, so it never exceeds its cap and never drops a newer act for an older
  one, and the frame's task rows are those operations in that order, refused ones included. Each
  recording published \<open>TaskChanged\<close> once.\<close>

theorem ops_ring:
  "Ops (fst (record_all hist (Feed_New, bus))) = take opsCap (rev hist)
   \<and> length (taskModels (fst (record_all hist (Feed_New, bus)))) \<le> 100
   \<and> map tVerb (taskModels (fst (record_all hist (Feed_New, bus)))) = take opsCap (rev (map opVerb hist))
   \<and> map tOK (taskModels (fst (record_all hist (Feed_New, bus)))) = take opsCap (rev (map opOK hist))
   \<and> snd (record_all hist (Feed_New, bus)) = publish_all (replicate (length hist) TaskChanged) bus"
proof -
  have ops: "fops (fst (record_all hist (Feed_New, bus))) = take opsCap (rev hist)"
    using record_all_ops[of "(Feed_New, bus)" hist] by (simp add: Feed_New_def)
  then show ?thesis
    by (simp add: Ops_def taskModels_def record_all_bus comp_def take_map rev_map opsCap_def)
qed

section \<open>The merge lane\<close>

definition merge_at :: "Feed \<Rightarrow> string \<Rightarrow> int \<Rightarrow> Merge option" where
  "merge_at f repo n = (case map_of (fmerges f) repo of None \<Rightarrow> None | Some byNum \<Rightarrow> map_of byNum n)"

definition feed_wf :: "Feed \<Rightarrow> bool" where
  "feed_wf f \<longleftrightarrow> distinct (map fst (fmerges f)) \<and>
     (\<forall>(repo, byNum) \<in> set (fmerges f). distinct (map fst byNum))"

lemma feed_wf_New: "feed_wf Feed_New"
  by (simp add: feed_wf_def Feed_New_def)

lemma map_of_filter_snd:
  assumes "distinct (map fst xs)"
  shows "map_of (filter (\<lambda>(k, v). P v) xs) k =
    (case map_of xs k of None \<Rightarrow> None | Some v \<Rightarrow> if P v then Some v else None)"
  using assms
proof (induction xs)
  case (Cons kv xs)
  obtain k' v' where kv: "kv = (k', v')" by fastforce
  have none: "map_of xs k' = None" using Cons.prems by (simp add: kv map_of_eq_None_iff)
  show ?case using Cons none by (auto simp: kv split: option.splits)
qed simp

lemma prune_wf: "feed_wf f \<Longrightarrow> feed_wf (pruneLocked c f)"
proof -
  assume wf: "feed_wf f"
  have "distinct (map fst (map (\<lambda>(repo, byNum). (repo, filter (\<lambda>(n, m). \<not> mAt m < c) byNum)) (fmerges f)))"
    using wf by (simp add: feed_wf_def comp_def case_prod_beta)
  then have "distinct (map fst (fmerges (pruneLocked c f)))"
    by (simp add: pruneLocked_def distinct_map_filter)
  moreover have "\<forall>(repo, byNum) \<in> set (fmerges (pruneLocked c f)). distinct (map fst byNum)"
    using wf by (force simp: feed_wf_def pruneLocked_def intro: distinct_map_filter)
  ultimately show ?thesis by (simp add: feed_wf_def)
qed

lemma merge_at_prune:
  assumes "feed_wf f"
  shows "merge_at (pruneLocked c f) repo n =
    (case merge_at f repo n of None \<Rightarrow> None | Some m \<Rightarrow> if mAt m < c then None else Some m)"
proof -
  let ?keep = "\<lambda>byNum. filter (\<lambda>(n, m). \<not> mAt m < c) byNum"
  let ?kept = "map (\<lambda>(repo, byNum). (repo, ?keep byNum)) (fmerges f)"
  have dist: "distinct (map fst ?kept)"
    using assms by (simp add: feed_wf_def comp_def case_prod_beta)
  have kept: "map_of ?kept repo = map_option ?keep (map_of (fmerges f) repo)"
    by (simp add: map_of_map)
  have "map_of (fmerges (pruneLocked c f)) repo =
      (case map_of ?kept repo of None \<Rightarrow> None | Some b \<Rightarrow> if b \<noteq> [] then Some b else None)"
    using map_of_filter_snd[OF dist, of "\<lambda>b. b \<noteq> []" repo] by (simp add: pruneLocked_def)
  moreover have "distinct (map fst byNum)" if "map_of (fmerges f) repo = Some byNum" for byNum
    using assms that by (auto simp: feed_wf_def dest!: map_of_SomeD)
  ultimately show ?thesis
    using map_of_filter_snd[of _ "\<lambda>m. \<not> mAt m < c" n]
    by (fastforce simp: merge_at_def kept split: option.splits if_splits)
qed

definition upsert :: "Merge \<Rightarrow> Feed \<Rightarrow> Feed" where
  "upsert m f = f\<lparr>fmerges := AList.update (mRepoURL m) (AList.update (mNumber m) m
     (case map_of (fmerges f) (mRepoURL m) of None \<Rightarrow> [] | Some b \<Rightarrow> b)) (fmerges f)\<rparr>"

lemma RecordMerge_eq:
  "RecordMerge now m (f, bus) =
     (pruneLocked (now - MergeRetention) (upsert m f),
      if merge_at f (mRepoURL m) (mNumber m) = Some m then bus else Publish TaskChanged bus)"
  by (auto simp: RecordMerge_def upsert_def merge_at_def Let_def split: option.splits)

lemma set_alist_update: "x \<in> set (AList.update k v al) \<Longrightarrow> x = (k, v) \<or> x \<in> set al"
  by (induction al) (auto split: if_splits)

lemma upsert_wf:
  assumes "feed_wf f"
  shows "feed_wf (upsert m f)"
proof -
  let ?old = "case map_of (fmerges f) (mRepoURL m) of None \<Rightarrow> [] | Some b \<Rightarrow> b"
  have "distinct (map fst ?old)"
    using assms by (auto simp: feed_wf_def dest!: map_of_SomeD split: option.splits)
  then have "distinct (map fst (AList.update (mNumber m) m ?old))" by (rule AList.distinct_update)
  then show ?thesis
    using assms by (auto simp: feed_wf_def upsert_def AList.distinct_update dest!: set_alist_update)
qed

lemma merge_at_upsert:
  "merge_at (upsert m f) repo n =
     (if repo = mRepoURL m \<and> n = mNumber m then Some m else merge_at f repo n)"
  by (auto simp: merge_at_def upsert_def AList.update_conv split: option.splits)

text \<open>Recording a merge upserts the row of its repository and number, keeps every other row, and drops
  exactly the rows older than the retention; the bus moves only when the row is new or different.\<close>

theorem merge_lane:
  assumes "feed_wf f" and "RecordMerge now m (f, bus) = (f', bus')"
  shows "feed_wf f'"
    and "merge_at f' repo n =
      (case if repo = mRepoURL m \<and> n = mNumber m then Some m else merge_at f repo n of
         None \<Rightarrow> None
       | Some x \<Rightarrow> if mAt x < now - MergeRetention then None else Some x)"
    and "bus' = (if merge_at f (mRepoURL m) (mNumber m) = Some m then bus else Publish TaskChanged bus)"
proof -
  have f': "f' = pruneLocked (now - MergeRetention) (upsert m f)"
    and bus': "bus' = (if merge_at f (mRepoURL m) (mNumber m) = Some m then bus else Publish TaskChanged bus)"
    using assms(2) by (simp_all add: RecordMerge_eq)
  show "feed_wf f'" using assms(1) by (simp add: f' prune_wf upsert_wf)
  show "merge_at f' repo n =
      (case if repo = mRepoURL m \<and> n = mNumber m then Some m else merge_at f repo n of
         None \<Rightarrow> None
       | Some x \<Rightarrow> if mAt x < now - MergeRetention then None else Some x)"
    using assms(1) by (simp add: f' merge_at_prune upsert_wf merge_at_upsert)
  show "bus' = (if merge_at f (mRepoURL m) (mNumber m) = Some m then bus else Publish TaskChanged bus)"
    by (rule bus')
qed

text \<open>The steady state is silent for a merge inside the retention: recording it again changes nothing
  and publishes nothing.\<close>

lemma merge_idempotent:
  assumes "feed_wf f" and "\<not> mAt m < now - MergeRetention" and "RecordMerge now m (f, bus) = (f', bus')"
  shows "snd (RecordMerge now' m (f', bus')) = bus'"
proof -
  have "merge_at f' (mRepoURL m) (mNumber m) = Some m"
    using merge_lane(2)[OF assms(1,3), of "mRepoURL m" "mNumber m"] assms(2) by simp
  then show ?thesis by (simp add: RecordMerge_eq)
qed

text \<open>A merge beyond the retention is pruned by its own write, so it counts as new every time.\<close>

lemma old_merge_republishes:
  assumes "feed_wf f" and "mAt m < now - MergeRetention" and "RecordMerge now m (f, bus) = (f', bus')"
  shows "snd (RecordMerge now' m (f', bus')) = Publish TaskChanged bus'"
proof -
  have "merge_at f' (mRepoURL m) (mNumber m) = None"
    using merge_lane(2)[OF assms(1,3), of "mRepoURL m" "mNumber m"] assms(2) by simp
  then show ?thesis by (simp add: RecordMerge_eq)
qed

text \<open>A proposal branch \<open>prefix/user/rest\<close> is attributed to its user.\<close>

lemma cut_slash:
  assumes "CHR ''/'' \<notin> set a"
  shows "cut (a @ ''/'' @ b) ''/'' = (a, b, True)"
proof -
  have "indexOf (a @ ''/'' @ b) ''/'' = Some (length a)"
    using assms by (induction a) (auto simp: hasPrefix_def)
  then show ?thesis by (simp add: cut_def)
qed

lemma MergeAuthor_proposal:
  assumes "pre \<noteq> ''''" "user \<noteq> ''''" "CHR ''/'' \<notin> set user"
  shows "MergeAuthor (pre @ ''/'' @ user @ ''/'' @ rest) pre poster = user"
  using assms cut_slash[of user rest] hasPrefix_append[of "pre @ ''/''" "user @ ''/'' @ rest"]
  by (simp add: MergeAuthor_def cutPrefix_def)


end
