(* ===== verification/Reflect_Store.thy ===== *)
theory Reflect_Store
  imports Eventbus K8s
begin

text \<open>
  The reflector plumbing of \<open>internal/reflect\<close>. client-go's \<open>cache.Indexer\<close> and the list and watch
  calls are parameters: an indexer is a value with the operations of the record \<open>indexer\<close>, a
  call's answer is an argument. The callbacks \<open>onChange\<close> and \<open>onSynced\<close> are functions on
  the state they act on (a nil \<open>onSynced\<close> is \<^const>\<open>None\<close>).
\<close>

section \<open>Health of a list-watch\<close>

text \<open>What a call returns, and the shared \<open>atomic.Bool\<close> it leaves.\<close>

definition tracked_List :: "'o option \<times> go_error option \<Rightarrow> bool \<Rightarrow> ('o option \<times> go_error option) \<times> bool" where
  "tracked_List answer healthy =
     (case answer of (obj, err) \<Rightarrow> ((obj, err), if err \<noteq> None then False else healthy))"

definition tracked_Watch :: "'o option \<times> go_error option \<Rightarrow> bool \<Rightarrow> ('o option \<times> go_error option) \<times> bool" where
  "tracked_Watch answer healthy = (case answer of (w, err) \<Rightarrow> ((w, err), err = None))"

section \<open>Stores\<close>

record ('i, 'o) indexer =
  ixAdd :: "'o \<Rightarrow> 'i \<Rightarrow> go_error option \<times> 'i"
  ixUpdate :: "'o \<Rightarrow> 'i \<Rightarrow> go_error option \<times> 'i"
  ixDelete :: "'o \<Rightarrow> 'i \<Rightarrow> go_error option \<times> 'i"
  ixReplace :: "'o list \<Rightarrow> string \<Rightarrow> 'i \<Rightarrow> go_error option \<times> 'i"
  ixList :: "'i \<Rightarrow> 'o list"
  ixGetByKey :: "'i \<Rightarrow> string \<Rightarrow> 'o option \<times> go_error option"

record 'w callbacks =
  onChange :: "'w \<Rightarrow> 'w"
  onSynced :: "('w \<Rightarrow> 'w) option"

record 'i countingStore =
  csIndexer :: 'i
  didSync :: bool

definition NewStore :: "'i \<Rightarrow> 'i countingStore" where
  "NewStore idx = \<lparr>csIndexer = idx, didSync = False\<rparr>"

text \<open>The shape \<open>Add\<close>, \<open>Update\<close> and \<open>Delete\<close> share.\<close>

definition delegate :: "'w callbacks \<Rightarrow> ('i \<Rightarrow> go_error option \<times> 'i) \<Rightarrow>
    'i countingStore \<times> 'w \<Rightarrow> go_error option \<times> 'i countingStore \<times> 'w" where
  "delegate cb f = (\<lambda>(c, w).
     case f (csIndexer c) of (err, idx) \<Rightarrow>
       (case err of
          Some e \<Rightarrow> (Some e, c\<lparr>csIndexer := idx\<rparr>, w)
        | None \<Rightarrow> (None, c\<lparr>csIndexer := idx\<rparr>, onChange cb w)))"

definition store_Add :: "('i, 'o) indexer \<Rightarrow> 'w callbacks \<Rightarrow> 'o \<Rightarrow>
    'i countingStore \<times> 'w \<Rightarrow> go_error option \<times> 'i countingStore \<times> 'w" where
  "store_Add lib cb obj = delegate cb (ixAdd lib obj)"

definition store_Update :: "('i, 'o) indexer \<Rightarrow> 'w callbacks \<Rightarrow> 'o \<Rightarrow>
    'i countingStore \<times> 'w \<Rightarrow> go_error option \<times> 'i countingStore \<times> 'w" where
  "store_Update lib cb obj = delegate cb (ixUpdate lib obj)"

definition store_Delete :: "('i, 'o) indexer \<Rightarrow> 'w callbacks \<Rightarrow> 'o \<Rightarrow>
    'i countingStore \<times> 'w \<Rightarrow> go_error option \<times> 'i countingStore \<times> 'w" where
  "store_Delete lib cb obj = delegate cb (ixDelete lib obj)"

definition fire_synced :: "'w callbacks \<Rightarrow> bool \<Rightarrow> 'w \<Rightarrow> 'w" where
  "fire_synced cb done w = (if \<not> done then (case onSynced cb of Some f \<Rightarrow> f w | None \<Rightarrow> w) else w)"

definition store_Replace :: "('i, 'o) indexer \<Rightarrow> 'w callbacks \<Rightarrow> 'o list \<Rightarrow> string \<Rightarrow>
    'i countingStore \<times> 'w \<Rightarrow> go_error option \<times> 'i countingStore \<times> 'w" where
  "store_Replace lib cb objs rv = (\<lambda>(c, w).
     case ixReplace lib objs rv (csIndexer c) of (err, idx) \<Rightarrow>
       (case err of
          Some e \<Rightarrow> (Some e, c\<lparr>csIndexer := idx\<rparr>, w)
        | None \<Rightarrow>
           (None, c\<lparr>csIndexer := idx, didSync := True\<rparr>,
            onChange cb (fire_synced cb (didSync c) w))))"

text \<open>The retain-nothing store: its state is \<open>didSync\<close> alone.\<close>

definition signal_Add :: "'w callbacks \<Rightarrow> bool \<times> 'w \<Rightarrow> bool \<times> 'w" where
  "signal_Add cb = (\<lambda>(d, w). (d, onChange cb w))"

definition signal_Update :: "'w callbacks \<Rightarrow> bool \<times> 'w \<Rightarrow> bool \<times> 'w" where
  "signal_Update cb = (\<lambda>(d, w). (d, onChange cb w))"

definition signal_Delete :: "'w callbacks \<Rightarrow> bool \<times> 'w \<Rightarrow> bool \<times> 'w" where
  "signal_Delete cb = (\<lambda>(d, w). (d, onChange cb w))"

definition signal_Replace :: "'w callbacks \<Rightarrow> bool \<times> 'w \<Rightarrow> bool \<times> 'w" where
  "signal_Replace cb = (\<lambda>(d, w). (True, onChange cb (fire_synced cb d w)))"

section \<open>Reads\<close>

text \<open>A stored object is an unstructured object or anything else; the readers keep the former.\<close>

datatype 'u stored = Unstructured 'u | Foreign

definition as_unstructured :: "'u stored \<Rightarrow> 'u option" where
  "as_unstructured obj = (case obj of Unstructured u \<Rightarrow> Some u | Foreign \<Rightarrow> None)"

definition reflect_List :: "('i, 'u stored) indexer \<Rightarrow> 'i \<Rightarrow> 'u list" where
  "reflect_List lib idx = List.map_filter as_unstructured (ixList lib idx)"

definition reflect_Get :: "('i, 'u stored) indexer \<Rightarrow> 'i \<Rightarrow> string \<Rightarrow> 'u option" where
  "reflect_Get lib idx key =
     (case ixGetByKey lib idx key of (obj, err) \<Rightarrow>
        if err \<noteq> None then None
        else (case obj of None \<Rightarrow> None | Some obj \<Rightarrow> as_unstructured obj))"

section \<open>Runs of a reflector\<close>

datatype 'o mutation = MAdd 'o | MUpdate 'o | MDelete 'o | MReplace "'o list" string

fun apply_mutation :: "('i, 'o) indexer \<Rightarrow> 'w callbacks \<Rightarrow> 'o mutation \<Rightarrow>
    'i countingStore \<times> 'w \<Rightarrow> go_error option \<times> 'i countingStore \<times> 'w" where
  "apply_mutation lib cb (MAdd obj) s = store_Add lib cb obj s"
| "apply_mutation lib cb (MUpdate obj) s = store_Update lib cb obj s"
| "apply_mutation lib cb (MDelete obj) s = store_Delete lib cb obj s"
| "apply_mutation lib cb (MReplace objs rv) s = store_Replace lib cb objs rv s"

fun run_mutations :: "('i, 'o) indexer \<Rightarrow> 'w callbacks \<Rightarrow> 'o mutation list \<Rightarrow>
    'i countingStore \<times> 'w \<Rightarrow> go_error option list \<times> 'i countingStore \<times> 'w" where
  "run_mutations lib cb [] s = ([], s)"
| "run_mutations lib cb (m # ms) s =
     (case apply_mutation lib cb m s of (err, s1) \<Rightarrow>
        (case run_mutations lib cb ms s1 of (errs, s2) \<Rightarrow> (err # errs, s2)))"

definition successes :: "go_error option list \<Rightarrow> nat" where
  "successes errs = length (filter (\<lambda>e. e = None) errs)"

text \<open>A mutation that succeeds calls \<open>onChange\<close> once, after the store holds the change; one that
  fails calls nothing.\<close>

lemma apply_mutation_change:
  assumes "onSynced cb = None" and "apply_mutation lib cb m (c, w) = (err, c', w')"
  shows "w' = (if err = None then onChange cb w else w)"
  using assms
  by (cases m) (auto simp: store_Add_def store_Update_def store_Delete_def store_Replace_def
      delegate_def fire_synced_def split: prod.splits option.splits)

text \<open>No change of a watched kind is silent and none is announced twice: when a reflector
  applies any sequence of adds, updates, deletes and relists to a store wired to the bus, the bus ends
  exactly as if the store's kind had been published once per mutation the indexer accepted, and
  never for a rejected one.\<close>

theorem store_publishes:
  assumes "run_mutations lib \<lparr>onChange = Publish k, onSynced = None\<rparr> ms (c, bus) = (errs, c', bus')"
  shows "length errs = length ms \<and> bus' = publish_all (replicate (successes errs) k) bus"
  using assms
proof (induction ms arbitrary: c bus errs)
  case Nil
  then show ?case by (simp add: successes_def)
next
  case (Cons m ms)
  let ?cb = "\<lparr>onChange = Publish k, onSynced = None\<rparr> :: Bus option callbacks"
  obtain err c1 bus1 where m: "apply_mutation lib ?cb m (c, bus) = (err, c1, bus1)"
    by (cases "apply_mutation lib ?cb m (c, bus)") auto
  obtain errs1 where ms: "run_mutations lib ?cb ms (c1, bus1) = (errs1, c', bus')" "errs = err # errs1"
    using Cons.prems m by (auto split: prod.splits)
  have "bus1 = (if err = None then Publish k bus else bus)"
    using apply_mutation_change[OF _ m] by simp
  with Cons.IH[OF ms(1)] ms(2) show ?case by (simp add: successes_def)
qed

definition always_ok :: "(nat, nat) indexer" where
  "always_ok = \<lparr>ixAdd = (\<lambda>_ i. (None, i + 1)), ixUpdate = (\<lambda>_ i. (None, i)),
     ixDelete = (\<lambda>_ i. (if i = 0 then Some (errorf ''missing'') else None, i - 1)),
     ixReplace = (\<lambda>objs _ _. (None, length objs)), ixList = (\<lambda>i. [0..<i]),
     ixGetByKey = (\<lambda>_ _. (None, None))\<rparr>"

theorem store_publishes_witness:
  "\<exists>errs c' bus'.
     run_mutations always_ok \<lparr>onChange = Publish PoolChanged, onSynced = None\<rparr>
       [MDelete 1, MReplace [1, 2] ''7'', MAdd 3] (NewStore 0, Some Bus_New) = (errs, c', bus')
     \<and> length errs = 3 \<and> bus' = publish_all [PoolChanged, PoolChanged] (Some Bus_New)"
proof -
  let ?run = "run_mutations always_ok \<lparr>onChange = Publish PoolChanged, onSynced = None\<rparr>
       [MDelete 1, MReplace [1, 2] ''7'', MAdd 3] (NewStore 0, Some Bus_New)"
  obtain errs c' bus' where run: "?run = (errs, c', bus')" by (cases ?run) auto
  have "errs = [Some (errorf ''missing''), None, None]"
    using run by (simp add: always_ok_def NewStore_def store_Add_def store_Delete_def
        store_Replace_def delegate_def)
  with store_publishes[OF run] run show ?thesis
    by (intro exI[of _ errs] exI[of _ c'] exI[of _ bus'])
      (simp add: successes_def numeral_2_eq_2)
qed

text \<open>\<open>onSynced\<close> fires exactly once, with the first relist that lands.\<close>

definition sync_counter :: "(nat \<times> nat) callbacks" where
  "sync_counter = \<lparr>onChange = apfst Suc, onSynced = Some (apsnd Suc)\<rparr>"

lemma run_mutations_synced:
  assumes "run_mutations lib sync_counter ms (c, n, y) = (errs, c', n', y')"
  shows "n' = n + successes errs \<and> (didSync c' \<longleftrightarrow> didSync c \<or> y' = Suc y) \<and>
    y' = (if didSync c then y else if didSync c' then Suc y else y)"
  using assms
proof (induction ms arbitrary: c n y errs)
  case Nil
  then show ?case by (simp add: successes_def)
next
  case (Cons m ms)
  obtain err c1 n1 y1 where m: "apply_mutation lib sync_counter m (c, n, y) = (err, c1, n1, y1)"
    by (cases "apply_mutation lib sync_counter m (c, n, y)") auto
  obtain errs1 where ms: "run_mutations lib sync_counter ms (c1, n1, y1) = (errs1, c', n', y')"
      "errs = err # errs1"
    using Cons.prems m by (auto split: prod.splits)
  have n1: "n1 = n + successes [err]"
    using m by (cases m) (auto simp: store_Add_def store_Update_def store_Delete_def successes_def
        store_Replace_def delegate_def fire_synced_def sync_counter_def split: prod.splits option.splits if_splits)
  have y1: "(didSync c1 \<longleftrightarrow> didSync c \<or> y1 = Suc y)"
      "y1 = (if didSync c then y else if didSync c1 then Suc y else y)"
    using m by (cases m; auto simp: store_Add_def store_Update_def store_Delete_def
        store_Replace_def delegate_def fire_synced_def sync_counter_def split: prod.splits option.splits if_splits)+
  have n': "n' = n1 + successes errs1" using Cons.IH[OF ms(1)] by simp
  have "successes errs = successes [err] + successes errs1" by (simp add: ms(2) successes_def)
  moreover have "(didSync c' \<longleftrightarrow> didSync c1 \<or> y' = Suc y1)"
      "y' = (if didSync c1 then y1 else if didSync c' then Suc y1 else y1)"
    using Cons.IH[OF ms(1)] by simp_all
  ultimately show ?case using n1 n' y1 by (auto split: if_splits)
qed

section \<open>Health over several reflectors\<close>

text \<open>\<open>clusterstate.New\<close> gives nine list-watches one flag. An event is a call of one of them.\<close>

datatype lw_call = LList | LWatch

fun health_run :: "(nat \<times> lw_call \<times> bool) list \<Rightarrow> bool \<Rightarrow> bool" where
  "health_run [] h = h"
| "health_run ((r, LList, ok) # es) h =
     health_run es (snd (tracked_List (None :: unit option, if ok then None else Some (errorf ''list'')) h))"
| "health_run ((r, LWatch, ok) # es) h =
     health_run es (snd (tracked_Watch (None :: unit option, if ok then None else Some (errorf ''watch'')) h))"

lemma health_run_append: "health_run (es @ fs) h = health_run fs (health_run es h)"
  by (induction es h rule: health_run.induct) simp_all

text \<open>For one reflector the flag is the documented signal: a failed call clears it, the next watch
  that is established sets it again, and a list that succeeds leaves it.\<close>

lemma health_single:
  "health_run (es @ [(r, call, ok)]) h =
     (case call of LWatch \<Rightarrow> ok | LList \<Rightarrow> ok \<and> health_run es h)"
  by (cases call) (simp_all add: health_run_append tracked_List_def tracked_Watch_def)

text \<open>Over several reflectors it is the last word of any of them: after a reflector lost its watch, a
  watch established by another one reports the whole state healthy.\<close>

lemma health_masks_failure:
  "r \<noteq> r' \<Longrightarrow> health_run (es @ [(r, LWatch, False), (r', LWatch, True)]) h"
  by (simp add: health_run_append tracked_Watch_def)

end
