(* ===== verification/Unstructured.thy ===== *)
theory Unstructured
  imports K8s "HOL-Library.AList"
begin

text \<open>
  Objects as the server handles them through client-go's dynamic client: the
  \<open>map[string]any\<close> trees the sources build, and the accessors of
  \<open>apimachinery/unstructured\<close> they read them with. The accessors are library code and so the
  fields of the record \<open>unstr\<close>; the locale \<open>unstr_laws\<close> states what the sources rely on, and the
  reference implementation at the end satisfies it.
\<close>

section \<open>Trees\<close>

datatype jval =
    JNull
  | JS string
  | JB bool
  | JI int
  | JL "jval list"
  | JM "(string \<times> jval) list"

text \<open>The resources the server addresses.\<close>

datatype GVR =
    poolGVR | shareGVR | targetGVR | userGVR | snapGVR | inventoryGVR | rdrbdPoolGVR | rdrbdVolumeGVR

text \<open>Group, version and resource.\<close>

fun gvr_of :: "GVR \<Rightarrow> string \<times> string \<times> string" where
  "gvr_of poolGVR = (''storage.stornas.io'', ''v1alpha1'', ''storagepools'')"
| "gvr_of shareGVR = (''storage.stornas.io'', ''v1alpha1'', ''shares'')"
| "gvr_of inventoryGVR = (''storage.stornas.io'', ''v1alpha1'', ''nodeinventories'')"
| "gvr_of targetGVR = (''storage.stornas.io'', ''v1alpha1'', ''targets'')"
| "gvr_of userGVR = (''storage.stornas.io'', ''v1alpha1'', ''localusers'')"
| "gvr_of rdrbdVolumeGVR = (''r-drbd.io'', ''v1alpha1'', ''volumes'')"
| "gvr_of rdrbdPoolGVR = (''r-drbd.io'', ''v1alpha1'', ''pools'')"
| "gvr_of snapGVR = (''snapshot.storage.k8s.io'', ''v1'', ''volumesnapshots'')"

lemma gvr_of_inj: "inj gvr_of"
proof (rule injI)
  show "gvr_of g = gvr_of h \<Longrightarrow> g = h" for g h by (cases g; cases h) simp_all
qed

record unstr =
  NestedString :: "jval \<Rightarrow> string list \<Rightarrow> string \<times> bool"
  NestedBool :: "jval \<Rightarrow> string list \<Rightarrow> bool \<times> bool"
  NestedStringSlice :: "jval \<Rightarrow> string list \<Rightarrow> string list \<times> bool"
  NestedSlice :: "jval \<Rightarrow> string list \<Rightarrow> jval list \<times> bool"
  SetNestedStringSlice :: "jval \<Rightarrow> string list \<Rightarrow> string list \<Rightarrow> jval"
  GetName :: "jval \<Rightarrow> string"
  GetNamespace :: "jval \<Rightarrow> string"
  GetAnnotations :: "jval \<Rightarrow> (string \<rightharpoonup> string)"

text \<open>An accessor returns the value at a path, or the zero value and \<open>false\<close>; setting a slice that was
  there changes the slice at that path and nothing at a path that leads elsewhere.\<close>

locale unstr_laws =
  fixes U :: unstr
  assumes string_zero: "NestedString U obj p = (s, False) \<Longrightarrow> s = ''''"
    and slice_zero: "NestedStringSlice U obj p = (xs, False) \<Longrightarrow> xs = []"
    and set_get: "snd (NestedStringSlice U obj p) \<Longrightarrow>
       NestedStringSlice U (SetNestedStringSlice U obj p xs) p = (xs, True)"
    and set_other: "snd (NestedStringSlice U obj p) \<Longrightarrow> length q = length p \<Longrightarrow> q \<noteq> p \<Longrightarrow>
       NestedString U (SetNestedStringSlice U obj p xs) q = NestedString U obj q"
    and set_name: "snd (NestedStringSlice U obj p) \<Longrightarrow> hd p \<noteq> ''metadata'' \<Longrightarrow>
       GetName U (SetNestedStringSlice U obj p xs) = GetName U obj"

section \<open>A reference implementation\<close>

fun nested :: "jval \<Rightarrow> string list \<Rightarrow> jval option" where
  "nested v [] = Some v"
| "nested (JM m) (k # ks) = (case map_of m k of None \<Rightarrow> None | Some v \<Rightarrow> nested v ks)"
| "nested _ (k # ks) = None"

fun set_nested :: "jval \<Rightarrow> string list \<Rightarrow> jval \<Rightarrow> jval" where
  "set_nested v [] x = x"
| "set_nested (JM m) (k # ks) x =
     (case map_of m k of
        None \<Rightarrow> JM (AList.update k (set_nested (JM []) ks x) m)
      | Some v \<Rightarrow> JM (AList.update k (set_nested v ks x) m))"
| "set_nested v (k # ks) x = v"

definition as_strings :: "jval list \<Rightarrow> string list option" where
  "as_strings vs = those (map (\<lambda>v. case v of JS s \<Rightarrow> Some s | _ \<Rightarrow> None) vs)"

definition string_at :: "jval \<Rightarrow> string list \<Rightarrow> string \<times> bool" where
  "string_at obj p = (case nested obj p of Some (JS s) \<Rightarrow> (s, True) | _ \<Rightarrow> ('''', False))"

definition slice_at :: "jval \<Rightarrow> string list \<Rightarrow> string list \<times> bool" where
  "slice_at obj p = (case nested obj p of
      Some (JL vs) \<Rightarrow> (case as_strings vs of Some xs \<Rightarrow> (xs, True) | None \<Rightarrow> ([], False))
    | _ \<Rightarrow> ([], False))"

definition std_unstr :: unstr where
  "std_unstr =
    \<lparr>NestedString = string_at,
     NestedBool = (\<lambda>obj p. case nested obj p of Some (JB b) \<Rightarrow> (b, True) | _ \<Rightarrow> (False, False)),
     NestedStringSlice = slice_at,
     NestedSlice = (\<lambda>obj p. case nested obj p of Some (JL vs) \<Rightarrow> (vs, True) | _ \<Rightarrow> ([], False)),
     SetNestedStringSlice = (\<lambda>obj p xs. set_nested obj p (JL (map JS xs))),
     GetName = (\<lambda>obj. fst (string_at obj [''metadata'', ''name''])),
     GetNamespace = (\<lambda>obj. fst (string_at obj [''metadata'', ''namespace''])),
     GetAnnotations = (\<lambda>obj. case nested obj [''metadata'', ''annotations''] of
         Some (JM m) \<Rightarrow> (\<lambda>k. case map_of m k of Some (JS s) \<Rightarrow> Some s | _ \<Rightarrow> None)
       | _ \<Rightarrow> Map.empty)\<rparr>"

lemma as_strings_JS [simp]: "as_strings (map JS xs) = Some xs"
  by (induction xs) (auto simp: as_strings_def comp_def)

lemma nested_set:
  "nested obj p \<noteq> None \<Longrightarrow> nested (set_nested obj p x) p = Some x"
  by (induction obj p rule: nested.induct) (auto simp: AList.update_conv' split: option.splits)

lemma nested_set_other:
  "nested obj p \<noteq> None \<Longrightarrow> length q = length p \<Longrightarrow> q \<noteq> p \<Longrightarrow>
     nested (set_nested obj p x) q = nested obj q"
proof (induction obj p arbitrary: q rule: nested.induct)
  case (2 m k ks)
  then obtain k' ks' where q: "q = k' # ks'" by (cases q) auto
  obtain v where v: "map_of m k = Some v" "nested v ks \<noteq> None"
    using "2.prems"(1) by (auto split: option.splits)
  show ?case
  proof (cases "k' = k")
    case True
    then have "nested (set_nested v ks x) ks' = nested v ks'"
      using "2.IH"[OF v(1) v(2), of ks'] "2.prems" q by simp
    then show ?thesis using v True by (simp add: q AList.update_conv')
  qed (use v q in \<open>simp add: AList.update_conv'\<close>)
qed auto

lemma slice_at_nested: "snd (slice_at obj p) \<Longrightarrow> nested obj p \<noteq> None"
  by (auto simp: slice_at_def split: option.splits)

lemma name_set:
  assumes "nested obj p \<noteq> None" and "hd p \<noteq> ''metadata''"
    and "snd (slice_at obj p)"
  shows "string_at (set_nested obj p x) [''metadata'', ''name''] = string_at obj [''metadata'', ''name'']
    \<or> p = []"
  using assms
  by (cases obj; cases p) (auto simp: string_at_def AList.update_conv' split: option.splits)

text \<open>The empty path names the whole tree; the accessors are never called with it.\<close>

lemma slice_at_Nil_name: "snd (slice_at obj []) \<Longrightarrow> fst (string_at obj [''metadata'', ''name'']) = ''''"
  by (cases obj) (auto simp: slice_at_def string_at_def)

interpretation std_unstr: unstr_laws std_unstr
proof
  show "NestedString std_unstr obj p = (s, False) \<Longrightarrow> s = ''''" for obj p s
    by (auto simp: std_unstr_def string_at_def split: option.splits jval.splits)
  show "NestedStringSlice std_unstr obj p = (xs, False) \<Longrightarrow> xs = []" for obj p xs
    by (auto simp: std_unstr_def slice_at_def split: option.splits jval.splits)
  show "snd (NestedStringSlice std_unstr obj p) \<Longrightarrow>
      NestedStringSlice std_unstr (SetNestedStringSlice std_unstr obj p xs) p = (xs, True)" for obj p xs
    by (auto simp: std_unstr_def dest!: slice_at_nested) (simp add: slice_at_def nested_set)
  show "snd (NestedStringSlice std_unstr obj p) \<Longrightarrow> length q = length p \<Longrightarrow> q \<noteq> p \<Longrightarrow>
      NestedString std_unstr (SetNestedStringSlice std_unstr obj p xs) q = NestedString std_unstr obj q"
    for obj p q xs
    by (auto simp: std_unstr_def dest!: slice_at_nested) (simp add: string_at_def nested_set_other)
  show "snd (NestedStringSlice std_unstr obj p) \<Longrightarrow> hd p \<noteq> ''metadata'' \<Longrightarrow>
      GetName std_unstr (SetNestedStringSlice std_unstr obj p xs) = GetName std_unstr obj" for obj p xs
    using name_set[of obj p "JL (map JS xs)"] slice_at_nested[of obj p] slice_at_Nil_name[of obj]
    by (auto simp: std_unstr_def) (auto simp: string_at_def)
qed

end
