(* ===== verification/Auth.thy ===== *)
theory Auth
  imports Unstructured Go_Time
begin

text \<open>
  The session layer of \<open>internal/auth\<close>: the \<open>Manager\<close> with its table of sessions
  (\<open>auth.go\<close>) and the \<open>KubeSource\<close> that resolves users from LocalUser objects and their Secrets
  (\<open>kube.go\<close>). A handler is a function of the decoded request (\<open>Inl\<close> when the JSON decoder
  fails), the cookie it carries, the clock readings of its critical section and the manager; it returns
  the response and the new manager. The random token is an argument. The delay after a failed
  login is left out.
\<close>

section \<open>Identities, cookies and responses\<close>

record User =
  uName :: string
  uRole :: string

abbreviation cookieName :: string where "cookieName \<equiv> ''stornas_session''"

record Cookie =
  ckName :: string
  ckValue :: string
  ckPath :: string
  ckMaxAge :: int
  ckHttpOnly :: bool
  ckSameSiteLax :: bool
  ckSecure :: bool

datatype 'b http =
    HttpError nat string \<comment> \<open>\<open>http.Error(w, msg, code)\<close>\<close>
  | Reply nat 'b

abbreviation StatusBadRequest :: nat where "StatusBadRequest \<equiv> 400"
abbreviation StatusUnauthorized :: nat where "StatusUnauthorized \<equiv> 401"
abbreviation StatusForbidden :: nat where "StatusForbidden \<equiv> 403"
abbreviation StatusInternalServerError :: nat where "StatusInternalServerError \<equiv> 500"
abbreviation StatusNotImplemented :: nat where "StatusNotImplemented \<equiv> 501"

text \<open>The \<open>Source\<close> interface and the optional \<open>PasswordStore\<close> capability, as the answers they give
  while one request is handled.\<close>

record PasswordStore =
  psMustChange :: "string \<Rightarrow> bool"
  psUpdatePassword :: "string \<Rightarrow> string \<Rightarrow> go_error option"

record Source =
  srcLookup :: "string \<Rightarrow> go_error + (User \<times> string)"
  srcPasswords :: "PasswordStore option"

section \<open>The manager (auth.go)\<close>

record session =
  sUser :: User
  sExpires :: instant

record Manager =
  mTTL :: instant
  mSessions :: "string \<rightharpoonup> session"

definition NewManager :: Manager where
  "NewManager = \<lparr>mTTL = 12 * 3600 * second, mSessions = Map.empty\<rparr>"

definition gcLocked :: "instant \<Rightarrow> Manager \<Rightarrow> Manager" where
  "gcLocked now m = m\<lparr>mSessions := (\<lambda>k. case mSessions m k of
       None \<Rightarrow> None
     | Some s \<Rightarrow> if now > sExpires s then None else Some s)\<rparr>"

definition mkCookie :: "bool \<Rightarrow> string \<Rightarrow> int \<Rightarrow> Cookie" where
  "mkCookie tls v maxAge = \<lparr>ckName = cookieName, ckValue = v, ckPath = ''/'', ckMaxAge = maxAge,
     ckHttpOnly = True, ckSameSiteLax = True, ckSecure = tls\<rparr>"

text \<open>The test both password checks share.\<close>

definition password_ok :: "go_error + (User \<times> string) \<Rightarrow> string \<Rightarrow> bool" where
  "password_ok answer given =
     (case answer of Inl _ \<Rightarrow> False | Inr (u, pw) \<Rightarrow> pw \<noteq> '''' \<and> pw = given)"

definition Login :: "Source \<Rightarrow> instant \<Rightarrow> instant \<Rightarrow> string \<Rightarrow> bool \<Rightarrow> go_error + (string \<times> string) \<Rightarrow>
    Manager \<Rightarrow> User http \<times> Cookie option \<times> Manager" where
  "Login src now now' tok tls body m =
     (case body of
        Inl _ \<Rightarrow> (HttpError StatusBadRequest ''bad request'', None, m)
      | Inr (username, password) \<Rightarrow>
        if username = '''' then (HttpError StatusBadRequest ''bad request'', None, m)
        else
          (case srcLookup src username of
             Inl _ \<Rightarrow> (HttpError StatusUnauthorized ''invalid credentials'', None, m)
           | Inr (user, pw) \<Rightarrow>
             if \<not> password_ok (Inr (user, pw)) password
             then (HttpError StatusUnauthorized ''invalid credentials'', None, m)
             else
               let m1 = gcLocked now m;
                   m2 = m1\<lparr>mSessions := (mSessions m1)(tok \<mapsto> \<lparr>sUser = user, sExpires = now' + mTTL m1\<rparr>)\<rparr>
               in (Reply 200 user, Some (mkCookie tls tok (int (mTTL m div second))), m2)))"

definition Logout :: "bool \<Rightarrow> string option \<Rightarrow> Manager \<Rightarrow> unit http \<times> Cookie \<times> Manager" where
  "Logout tls cookie m =
     (Reply 204 (), mkCookie tls '''' (-1),
      case cookie of None \<Rightarrow> m | Some c \<Rightarrow> m\<lparr>mSessions := (mSessions m)(c := None)\<rparr>)"

definition userFor :: "instant \<Rightarrow> instant \<Rightarrow> string option \<Rightarrow> Manager \<Rightarrow> User option \<times> Manager" where
  "userFor now now' cookie m =
     (case cookie of
        None \<Rightarrow> (None, m)
      | Some c \<Rightarrow>
        (case mSessions m c of
           None \<Rightarrow> (None, m\<lparr>mSessions := (mSessions m)(c := None)\<rparr>)
         | Some s \<Rightarrow>
           if now > sExpires s then (None, m\<lparr>mSessions := (mSessions m)(c := None)\<rparr>)
           else (Some (sUser s), m\<lparr>mSessions := (mSessions m)(c \<mapsto> s\<lparr>sExpires := now' + mTTL m\<rparr>)\<rparr>)))"

definition Session :: "Source \<Rightarrow> instant \<Rightarrow> instant \<Rightarrow> string option \<Rightarrow> Manager \<Rightarrow>
    (User \<times> bool) http \<times> Manager" where
  "Session src now now' cookie m =
     (case userFor now now' cookie m of
        (None, m') \<Rightarrow> (HttpError StatusUnauthorized ''unauthenticated'', m')
      | (Some user, m') \<Rightarrow>
          (Reply 200 (user, case srcPasswords src of None \<Rightarrow> False | Some ps \<Rightarrow> psMustChange ps (uName user)), m'))"

text \<open>A new password is counted in bytes. The update that was issued, if any, is part of the result.\<close>

definition ChangePassword :: "Source \<Rightarrow> instant \<Rightarrow> instant \<Rightarrow> string option \<Rightarrow>
    go_error + (string \<times> string) \<Rightarrow> Manager \<Rightarrow> unit http \<times> (string \<times> string) option \<times> Manager" where
  "ChangePassword src now now' cookie body m =
     (case userFor now now' cookie m of
        (None, m') \<Rightarrow> (HttpError StatusUnauthorized ''unauthenticated'', None, m')
      | (Some user, m') \<Rightarrow>
        (case srcPasswords src of
           None \<Rightarrow> (HttpError StatusNotImplemented ''password change not supported'', None, m')
         | Some ps \<Rightarrow>
           (case body of
              Inl _ \<Rightarrow> (HttpError StatusBadRequest ''bad request'', None, m')
            | Inr (current, new) \<Rightarrow>
              if length new < 8
              then (HttpError StatusBadRequest ''new password needs at least 8 characters'', None, m')
              else if \<not> password_ok (srcLookup src (uName user)) current
              then (HttpError StatusForbidden ''current password is wrong'', None, m')
              else
                (case psUpdatePassword ps (uName user) new of
                   Some e \<Rightarrow> (HttpError StatusInternalServerError (eText e), Some (uName user, new), m')
                 | None \<Rightarrow> (Reply 204 (), Some (uName user, new), m')))))"

text \<open>The gates call the next handler with the identity on the request context, or answer themselves.\<close>

definition Require :: "instant \<Rightarrow> instant \<Rightarrow> string option \<Rightarrow> (User \<Rightarrow> 'r) \<Rightarrow> Manager \<Rightarrow>
    (unit http + 'r) \<times> Manager" where
  "Require now now' cookie next_handler m =
     (case userFor now now' cookie m of
        (None, m') \<Rightarrow> (Inl (HttpError StatusUnauthorized ''unauthenticated''), m')
      | (Some user, m') \<Rightarrow> (Inr (next_handler user), m'))"

definition RequireAdmin :: "instant \<Rightarrow> instant \<Rightarrow> string option \<Rightarrow> (User \<Rightarrow> 'r) \<Rightarrow> Manager \<Rightarrow>
    (unit http + 'r) \<times> Manager" where
  "RequireAdmin now now' cookie next_handler m =
     (case userFor now now' cookie m of
        (None, m') \<Rightarrow> (Inl (HttpError StatusUnauthorized ''unauthenticated''), m')
      | (Some user, m') \<Rightarrow>
          if uRole user \<noteq> ''admin'' then (Inl (HttpError StatusForbidden ''forbidden''), m')
          else (Inr (next_handler user), m'))"

lemmas manager_defs = Login_def Logout_def Session_def ChangePassword_def Require_def RequireAdmin_def

section \<open>Histories\<close>

text \<open>What happened to the session table, newest first. Every handler but \<^const>\<open>Login\<close> and
  \<^const>\<open>Logout\<close> touches it through \<^const>\<open>userFor\<close> alone.\<close>

lemma handlers_use_userFor:
  "snd (Session src now now' cookie m) = snd (userFor now now' cookie m)"
  "snd (snd (ChangePassword src now now' cookie body m)) = snd (userFor now now' cookie m)"
  "snd (Require now now' cookie next_handler m) = snd (userFor now now' cookie m)"
  "snd (RequireAdmin now now' cookie next_handler m) = snd (userFor now now' cookie m)"
  by (auto simp: manager_defs split: prod.splits option.splits sum.splits)

datatype auth_event =
    LoggedIn string User string string instant instant
      \<comment> \<open>token, identity, user name and password given, times of the look-up and of the session\<close>
  | LoggedOut string
  | Admitted string User instant \<comment> \<open>token, identity, time\<close>

text \<open>The source at the time of each login is the argument \<open>srcAt\<close>; requests come with non-decreasing
  clock readings.\<close>

inductive history :: "(instant \<Rightarrow> Source) \<Rightarrow> auth_event list \<Rightarrow> Manager \<Rightarrow> instant \<Rightarrow> bool"
  for srcAt :: "instant \<Rightarrow> Source" where
  start: "history srcAt [] NewManager t"
| login: "history srcAt h m t \<Longrightarrow> t \<le> now \<Longrightarrow> now \<le> now' \<Longrightarrow>
    Login (srcAt now) now now' tok tls (Inr (name, pw)) m = (Reply code u, ck, m') \<Longrightarrow>
    history srcAt (LoggedIn tok u name pw now now' # h) m' now'"
| refused: "history srcAt h m t \<Longrightarrow> t \<le> now \<Longrightarrow> now \<le> now' \<Longrightarrow>
    Login (srcAt now) now now' tok tls body m = (HttpError code msg, ck, m') \<Longrightarrow>
    history srcAt h m' now'"
| logout: "history srcAt h m t \<Longrightarrow> Logout tls (Some c) m = (r, ck, m') \<Longrightarrow>
    history srcAt (LoggedOut c # h) m' t"
| admitted: "history srcAt h m t \<Longrightarrow> t \<le> now \<Longrightarrow> now \<le> now' \<Longrightarrow>
    userFor now now' (Some c) m = (Some u, m') \<Longrightarrow>
    history srcAt (Admitted c u now' # h) m' now'"
| denied: "history srcAt h m t \<Longrightarrow> t \<le> now \<Longrightarrow> now \<le> now' \<Longrightarrow>
    userFor now now' cookie m = (None, m') \<Longrightarrow>
    history srcAt h m' now'"
| tick: "history srcAt h m t \<Longrightarrow> t \<le> t' \<Longrightarrow> history srcAt h m t'"

text \<open>A session is alive in a history for an identity, last seen at an instant: it was opened by a login
  whose password the source confirmed, and has not been closed since.\<close>

fun alive :: "(instant \<Rightarrow> Source) \<Rightarrow> auth_event list \<Rightarrow> string \<Rightarrow> User \<Rightarrow> instant \<Rightarrow> bool" where
  "alive srcAt [] c u seen \<longleftrightarrow> False"
| "alive srcAt (LoggedIn tok v name pw now now' # h) c u seen \<longleftrightarrow>
     (if tok = c then v = u \<and> seen = now' \<and> pw \<noteq> '''' \<and> srcLookup (srcAt now) name = Inr (u, pw)
      else alive srcAt h c u seen)"
| "alive srcAt (LoggedOut tok # h) c u seen \<longleftrightarrow> tok \<noteq> c \<and> alive srcAt h c u seen"
| "alive srcAt (Admitted tok v t # h) c u seen \<longleftrightarrow>
     (if tok = c then v = u \<and> (\<exists>seen'. alive srcAt h c u seen') \<and> seen = t else alive srcAt h c u seen)"

lemma Login_Reply:
  assumes "Login src now now' tok tls (Inr (name, pw)) m = (Reply code u, ck, m')"
  shows "srcLookup src name = Inr (u, pw)" "pw \<noteq> ''''"
    "mTTL m' = mTTL m"
    "mSessions m' = (mSessions (gcLocked now m))(tok \<mapsto> \<lparr>sUser = u, sExpires = now' + mTTL m\<rparr>)"
    "ck = Some (mkCookie tls tok (int (mTTL m div second)))"
  using assms
  by (auto simp: Login_def password_ok_def Let_def gcLocked_def split: if_splits sum.splits)

lemma Login_HttpError:
  assumes "Login src now now' tok tls body m = (HttpError code msg, ck, m')"
  shows "m' = m" "ck = None"
  using assms by (auto simp: Login_def Let_def split: sum.splits if_splits)

lemma gcLocked_Some: "mSessions (gcLocked now m) c = Some s \<longleftrightarrow> mSessions m c = Some s \<and> now \<le> sExpires s"
  by (auto simp: gcLocked_def split: option.splits)

lemma userFor_Some:
  assumes "userFor now now' (Some c) m = (Some u, m')"
  obtains s where "mSessions m c = Some s" "now \<le> sExpires s" "u = sUser s" "mTTL m' = mTTL m"
    "mSessions m' = (mSessions m)(c \<mapsto> s\<lparr>sExpires := now' + mTTL m\<rparr>)"
  using assms by (auto simp: userFor_def split: option.splits if_splits)

lemma userFor_None:
  assumes "userFor now now' cookie m = (None, m')" and "mSessions m' c = Some s"
  shows "mSessions m c = Some s" "mTTL m' = mTTL m"
  using assms by (auto simp: userFor_def split: option.splits if_splits)

lemma userFor_ttl: "mTTL (snd (userFor now now' cookie m)) = mTTL m"
  by (auto simp: userFor_def split: option.splits)

text \<open>The invariant: every session in the table is alive in the history, and expires one TTL after it
  was last seen.\<close>

definition backed :: "(instant \<Rightarrow> Source) \<Rightarrow> auth_event list \<Rightarrow> Manager \<Rightarrow> instant \<Rightarrow> bool" where
  "backed srcAt h m t \<longleftrightarrow> mTTL m = mTTL NewManager \<and>
     (\<forall>c s. mSessions m c = Some s \<longrightarrow>
        (\<exists>seen \<le> t. alive srcAt h c (sUser s) seen \<and> sExpires s = seen + mTTL m))"

lemma backed_mono:
  assumes "backed srcAt h m t" "t \<le> t'" "mTTL m' = mTTL m"
    and "\<And>c s. mSessions m' c = Some s \<Longrightarrow> mSessions m c = Some s"
  shows "backed srcAt h m' t'"
  using assms unfolding backed_def by (metis le_trans)

lemma backedD:
  assumes "backed srcAt h m t" "mSessions m c = Some s" "t \<le> t'"
  shows "\<exists>seen \<le> t'. alive srcAt h c (sUser s) seen \<and> sExpires s = seen + mTTL m"
  using assms unfolding backed_def by (meson le_trans)

lemma history_backed: "history srcAt h m t \<Longrightarrow> backed srcAt h m t"
proof (induction rule: history.induct)
  case (start t)
  then show ?case by (simp add: backed_def NewManager_def)
next
  case (login h m t now now' tok tls name pw code u ck m')
  note L = Login_Reply[OF login.hyps(4)]
  show ?case
    unfolding backed_def
  proof (intro conjI allI impI)
    show "mTTL m' = mTTL NewManager" using login.IH L by (simp add: backed_def)
    fix c s assume s: "mSessions m' c = Some s"
    show "\<exists>seen \<le> now'. alive srcAt (LoggedIn tok u name pw now now' # h) c (sUser s) seen \<and>
        sExpires s = seen + mTTL m'"
    proof (cases "c = tok")
      case True
      with s L show ?thesis by auto
    next
      case False
      with s L have "mSessions m c = Some s" by (auto simp: gcLocked_Some)
      with backedD[OF login.IH, of c s now'] False L(3) login.hyps(2,3) show ?thesis by auto
    qed
  qed
next
  case (refused h m t now now' tok tls body code msg ck m')
  with Login_HttpError[OF refused.hyps(4)] show ?case by (auto intro: backed_mono)
next
  case (logout h m t tls c r ck m')
  have m': "mTTL m' = mTTL m" "mSessions m' = (mSessions m)(c := None)"
    using logout.hyps(2) by (auto simp: Logout_def)
  with logout.IH show ?case by (auto simp: backed_def split: if_splits)
next
  case (admitted h m t now now' c u m')
  from userFor_Some[OF admitted.hyps(4)] obtain s0 where s0: "mSessions m c = Some s0" "u = sUser s0"
    "mTTL m' = mTTL m" "mSessions m' = (mSessions m)(c \<mapsto> s0\<lparr>sExpires := now' + mTTL m\<rparr>)" by metis
  show ?case
    unfolding backed_def
  proof (intro conjI allI impI)
    show "mTTL m' = mTTL NewManager" using admitted.IH s0 by (simp add: backed_def)
    fix d s assume s: "mSessions m' d = Some s"
    show "\<exists>seen \<le> now'. alive srcAt (Admitted c u now' # h) d (sUser s) seen \<and> sExpires s = seen + mTTL m'"
    proof (cases "d = c")
      case True
      have "\<exists>seen. alive srcAt h c u seen" using admitted.IH s0 by (auto simp: backed_def)
      with s s0 True show ?thesis by auto
    next
      case False
      with s s0 have "mSessions m d = Some s" by simp
      with backedD[OF admitted.IH, of d s now'] False s0(3) admitted.hyps(2,3) show ?thesis by auto
    qed
  qed
next
  case (denied h m t now now' cookie m')
  have "mTTL m' = mTTL m" using userFor_ttl[of now now' cookie m] denied.hyps(4) by simp
  with denied userFor_None(1)[OF denied.hyps(4)] show ?case by (auto intro: backed_mono)
next
  case (tick h m t t')
  then show ?case by (auto intro: backed_mono)
qed

text \<open>What being alive means in terms of the events.\<close>

lemma alive_events:
  "alive srcAt h c u seen \<Longrightarrow>
     \<exists>h1 h2 name pw t t'. h = h1 @ LoggedIn c u name pw t t' # h2 \<and> LoggedOut c \<notin> set h1 \<and>
       pw \<noteq> '''' \<and> srcLookup (srcAt t) name = Inr (u, pw) \<and> (seen = t' \<or> Admitted c u seen \<in> set h1)"
proof (induction srcAt h c u seen rule: alive.induct)
  case (2 srcAt tok v name pw now now' h c u seen)
  show ?case
  proof (cases "tok = c")
    case True
    with 2 show ?thesis by - (rule exI[of _ "[]"], auto)
  next
    case False
    with 2 obtain h1 h2 n p t t' where "h = h1 @ LoggedIn c u n p t t' # h2" "LoggedOut c \<notin> set h1"
      "p \<noteq> ''''" "srcLookup (srcAt t) n = Inr (u, p)" "seen = t' \<or> Admitted c u seen \<in> set h1" by auto
    then show ?thesis by - (rule exI[of _ "LoggedIn tok v name pw now now' # h1"], auto)
  qed
next
  case (3 srcAt tok h c u seen)
  then obtain h1 h2 n p t t' where "h = h1 @ LoggedIn c u n p t t' # h2" "LoggedOut c \<notin> set h1"
    "p \<noteq> ''''" "srcLookup (srcAt t) n = Inr (u, p)" "seen = t' \<or> Admitted c u seen \<in> set h1" "tok \<noteq> c" by auto
  then show ?case by - (rule exI[of _ "LoggedOut tok # h1"], auto)
next
  case (4 srcAt tok v t h c u seen)
  show ?case
  proof (cases "tok = c")
    case True
    with "4.prems" obtain seen' where "alive srcAt h c u seen'" "v = u" "seen = t" by auto
    with 4 True obtain h1 h2 n p t1 t' where "h = h1 @ LoggedIn c u n p t1 t' # h2" "LoggedOut c \<notin> set h1"
      "p \<noteq> ''''" "srcLookup (srcAt t1) n = Inr (u, p)" by blast
    with True \<open>v = u\<close> \<open>seen = t\<close> show ?thesis by - (rule exI[of _ "Admitted tok v t # h1"], auto)
  next
    case False
    with 4 obtain h1 h2 n p t1 t' where "h = h1 @ LoggedIn c u n p t1 t' # h2" "LoggedOut c \<notin> set h1"
      "p \<noteq> ''''" "srcLookup (srcAt t1) n = Inr (u, p)" "seen = t' \<or> Admitted c u seen \<in> set h1" by auto
    then show ?thesis by - (rule exI[of _ "Admitted tok v t # h1"], auto)
  qed
qed simp


lemma Require_Inr:
  "fst (Require now now' cookie next_handler m) = Inr r \<longleftrightarrow>
     (\<exists>u. fst (userFor now now' cookie m) = Some u \<and> r = next_handler u)"
  by (auto simp: Require_def split: prod.splits option.splits)

lemma RequireAdmin_Inr:
  "fst (RequireAdmin now now' cookie next_handler m) = Inr r \<longleftrightarrow>
     (\<exists>u. fst (userFor now now' cookie m) = Some u \<and> uRole u = ''admin'' \<and> r = next_handler u)"
  by (auto simp: RequireAdmin_def split: prod.splits option.splits)

lemma userFor_admits:
  assumes "history srcAt h m t" "t \<le> now" "fst (userFor now now' cookie m) = Some u"
  shows "\<exists>c seen. cookie = Some c \<and> alive srcAt h c u seen \<and> now \<le> seen + mTTL NewManager"
proof -
  obtain c s where c: "cookie = Some c" "mSessions m c = Some s" "now \<le> sExpires s" "u = sUser s"
    using assms(3) by (auto simp: userFor_def split: option.splits if_splits)
  have "mTTL m = mTTL NewManager" using history_backed[OF assms(1)] by (simp add: backed_def)
  with backedD[OF history_backed[OF assms(1)] c(2) order_refl] obtain seen where
    "alive srcAt h c (sUser s) seen" "sExpires s = seen + mTTL NewManager" by auto
  with c show ?thesis by auto
qed

text \<open>\<^bold>\<open>C30\<close>. No request reaches an admin handler without a password: in every history of logins,
  logouts and requests, if \<open>RequireAdmin\<close> runs its handler, the request's cookie is the token of a
  login in which the source confirmed that user's (non-empty) password and the admin role, no logout
  of that token followed, and the token was last used (or issued) at most twelve hours before.\<close>

theorem admin_session_safe:
  assumes "history srcAt h m t" and "t \<le> now"
    and "fst (RequireAdmin now now' cookie next_handler m) = Inr r"
  shows "\<exists>c u h1 h2 name pw tl tl' seen.
     cookie = Some c \<and> r = next_handler u \<and> uRole u = ''admin'' \<and>
     h = h1 @ LoggedIn c u name pw tl tl' # h2 \<and> LoggedOut c \<notin> set h1 \<and>
     pw \<noteq> '''' \<and> srcLookup (srcAt tl) name = Inr (u, pw) \<and>
     (seen = tl' \<or> Admitted c u seen \<in> set h1) \<and> now \<le> seen + 12 * 3600 * second"
proof -
  from assms(3) obtain u where u: "fst (userFor now now' cookie m) = Some u" "uRole u = ''admin''"
    "r = next_handler u" by (auto simp: RequireAdmin_Inr)
  from userFor_admits[OF assms(1,2) u(1)] obtain c seen where
    c: "cookie = Some c" "alive srcAt h c u seen" "now \<le> seen + mTTL NewManager" by blast
  from alive_events[OF c(2)] c u show ?thesis
    by (elim exE conjE) (intro exI conjI, auto simp: NewManager_def)
qed

text \<open>A session ends with its logout: the same cookie is refused until a new login issues it.\<close>

lemma logout_ends_session:
  assumes "Logout tls (Some c) m = (r, ck, m')"
  shows "fst (userFor now now' (Some c) m') = None"
  using assms by (auto simp: Logout_def userFor_def)

text \<open>A login's table keeps no expired session.\<close>

lemma login_collects:
  assumes "Login src now now' tok tls body m = (Reply code u, ck, m')" and "mSessions m' c = Some s"
    and "c \<noteq> tok"
  shows "now \<le> sExpires s"
proof -
  from assms(1) obtain name pw where "body = Inr (name, pw)"
    by (cases body) (auto simp: Login_def)
  with assms Login_Reply(4)[of src now now' tok tls name pw m code u ck m'] show ?thesis
    by (auto simp: gcLocked_Some)
qed

definition boss :: User where "boss = \<lparr>uName = ''ann'', uRole = ''admin''\<rparr>"

definition one_user :: "string \<Rightarrow> Source" where
  "one_user role = \<lparr>srcLookup = (\<lambda>n. if n = ''ann'' then Inr (\<lparr>uName = ''ann'', uRole = role\<rparr>, ''s3cret-pw'')
      else Inl (errorf ''not found'')), srcPasswords = None\<rparr>"

definition ann_in :: Manager where
  "ann_in = NewManager\<lparr>mSessions := [''tok'' \<mapsto> \<lparr>sUser = boss, sExpires = 5 + 12 * 3600 * second\<rparr>]\<rparr>"

lemma ann_login:
  "Login (one_user ''admin'') 5 5 ''tok'' True (Inr (''ann'', ''s3cret-pw'')) NewManager
     = (Reply 200 boss, Some (mkCookie True ''tok'' 43200), ann_in)"
  by (simp add: Login_def one_user_def password_ok_def Let_def gcLocked_def NewManager_def boss_def
      ann_in_def second_def fun_eq_iff)

lemma ann_history:
  assumes "srcAt 5 = one_user ''admin''"
  shows "history srcAt [LoggedIn ''tok'' boss ''ann'' ''s3cret-pw'' 5 5] ann_in 5"
  using history.login[OF history.start[of srcAt 0], of 5 5 "''tok''" True "''ann''" "''s3cret-pw''"] ann_login assms
  by simp

theorem admin_session_safe_witness:
  "\<exists>c u h1 h2 name pw tl tl' seen.
     Some ''tok'' = Some c \<and> ''ann'' = uName u \<and> uRole u = ''admin'' \<and>
     [LoggedIn ''tok'' boss ''ann'' ''s3cret-pw'' 5 5] = h1 @ LoggedIn c u name pw tl tl' # h2 \<and>
     LoggedOut c \<notin> set h1 \<and> pw \<noteq> '''' \<and> srcLookup (one_user ''admin'') name = Inr (u, pw) \<and>
     (seen = tl' \<or> Admitted c u seen \<in> set h1) \<and> (9 :: nat) \<le> seen + 12 * 3600 * second"
proof -
  have r: "fst (RequireAdmin 9 9 (Some ''tok'') uName ann_in) = Inr ''ann''"
    by (simp add: RequireAdmin_def userFor_def ann_in_def boss_def second_def)
  show ?thesis
    using admin_session_safe[OF ann_history _ r, of "\<lambda>_. one_user ''admin''"]
    by simp
qed

text \<open>The identity of a session is the one of its login: a user demoted (or deleted) since keeps the old
  role for as long as the session is used.\<close>

lemma demoted_admin_admitted:
  "\<exists>srcAt h. history srcAt h ann_in 5 \<and> srcLookup (srcAt 9) ''ann'' = Inr (\<lparr>uName = ''ann'', uRole = ''viewer''\<rparr>, ''s3cret-pw'')
     \<and> fst (RequireAdmin 9 9 (Some ''tok'') uRole ann_in) = Inr ''admin''"
proof -
  let ?src = "\<lambda>t :: instant. if t = 5 then one_user ''admin'' else one_user ''viewer''"
  have "history ?src [LoggedIn ''tok'' boss ''ann'' ''s3cret-pw'' 5 5] ann_in 5"
    by (rule ann_history) simp
  moreover have "srcLookup (?src 9) ''ann'' = Inr (\<lparr>uName = ''ann'', uRole = ''viewer''\<rparr>, ''s3cret-pw'')"
    by (simp add: one_user_def)
  moreover have "fst (RequireAdmin 9 9 (Some ''tok'') uRole ann_in) = Inr ''admin''"
    by (simp add: RequireAdmin_def userFor_def ann_in_def boss_def second_def)
  ultimately show ?thesis by blast
qed

text \<open>Password changes, on every branch: an update is issued only for the session's own user, with
  a new password of at least eight bytes, after the current one was confirmed by the source; the
  caller is told 204 exactly when the store accepted it, 401 without a session, 501 without a password
  store, 400 for an undecodable or short request, 403 for a wrong password and 500 with the store's
  message otherwise.\<close>

theorem change_password_checked:
  assumes "ChangePassword src now now' cookie body m = (resp, upd, m')"
  shows "(case upd of
      Some (name, new) \<Rightarrow> \<exists>u ps current.
        fst (userFor now now' cookie m) = Some u \<and> name = uName u \<and> srcPasswords src = Some ps \<and>
        body = Inr (current, new) \<and> 8 \<le> length new \<and> password_ok (srcLookup src name) current \<and>
        resp = (case psUpdatePassword ps name new of
                  None \<Rightarrow> Reply 204 () | Some e \<Rightarrow> HttpError 500 (eText e))
    | None \<Rightarrow> \<exists>code msg. resp = HttpError code msg \<and>
        (code = 401 \<longleftrightarrow> fst (userFor now now' cookie m) = None) \<and>
        (code = 501 \<longleftrightarrow> fst (userFor now now' cookie m) \<noteq> None \<and> srcPasswords src = None) \<and>
        code \<in> {400, 401, 403, 501})"
  using assms unfolding ChangePassword_def
  by (auto split: prod.splits option.splits sum.splits if_splits)

definition changer :: Source where
  "changer = (one_user ''admin'')\<lparr>srcPasswords := Some
     \<lparr>psMustChange = (\<lambda>_. True), psUpdatePassword = (\<lambda>_ _. None)\<rparr>\<rparr>"

theorem change_password_checked_witness:
  "\<exists>u ps current. fst (userFor 9 9 (Some ''tok'') ann_in) = Some u \<and> ''ann'' = uName u \<and>
     srcPasswords changer = Some ps \<and>
     (Inr (''s3cret-pw'', ''correct horse'') :: go_error + string \<times> string) = Inr (current, ''correct horse'') \<and>
     password_ok (srcLookup changer ''ann'') current"
proof -
  have run: "ChangePassword changer 9 9 (Some ''tok'') (Inr (''s3cret-pw'', ''correct horse'')) ann_in =
      (Reply 204 (), Some (''ann'', ''correct horse''), snd (userFor 9 9 (Some ''tok'') ann_in))"
    by (simp add: ChangePassword_def userFor_def ann_in_def boss_def second_def changer_def
        one_user_def password_ok_def)
  show ?thesis using change_password_checked[OF run] by (auto simp del: One_nat_def)
qed


end
