(* ===== verification/Auth_Kube.thy ===== *)
theory Auth_Kube
  imports Auth Api_Types
begin

text \<open>
  \<open>KubeSource\<close> of \<open>internal/auth/kube.go\<close>: users live in LocalUser objects of the appliance
  namespace, their passwords in the Secrets these name. The API server is the record \<open>kubeapi\<close>:
  its answers to the reads and writes of one call. Each operation returns the writes it issued, in
  order, with its result; \<open>rand.Text()\<close> is an argument.
\<close>

section \<open>The cluster as the source sees it\<close>

abbreviation annotGenerated :: string where "annotGenerated \<equiv> ''stornas.io/generated-password''"

datatype kube_write =
    KCreateSecret Secret
  | KUpdateSecret Secret
  | KCreateUser jval
  | KPatchUser string jval \<comment> \<open>merge patch\<close>

record kubeapi =
  kaUser :: "string \<Rightarrow> go_error + jval"
  kaUsers :: "go_error + jval list"
  kaSecret :: "string \<Rightarrow> go_error + Secret"
  kaWrite :: "kube_write \<Rightarrow> go_error option"

section \<open>The operations\<close>

definition kube_Lookup :: "unstr \<Rightarrow> kubeapi \<Rightarrow> string \<Rightarrow> go_error + (User \<times> string)" where
  "kube_Lookup U k username =
     (case kaUser k username of
        Inl e \<Rightarrow> Inl e
      | Inr u \<Rightarrow>
        let role = fst (NestedString U u [''spec'', ''role'']);
            ref = fst (NestedString U u [''spec'', ''passwordSecretRef''])
        in if role = '''' \<or> ref = ''''
           then Inl (errorf (''localuser '' @ username @ '' has no role or secret ref''))
           else
             (case kaSecret k ref of
                Inl e \<Rightarrow> Inl e
              | Inr secret \<Rightarrow> Inr (\<lparr>uName = username, uRole = role\<rparr>, mget (secData secret) ''password'')))"

definition admin_object :: "string \<Rightarrow> jval" where
  "admin_object ns = JM
     [(''apiVersion'', JS ''storage.stornas.io/v1alpha1''), (''kind'', JS ''LocalUser''),
      (''metadata'', JM [(''name'', JS ''admin''), (''namespace'', JS ns),
         (''annotations'', JM [(annotGenerated, JS ''true'')])]),
      (''spec'', JM [(''role'', JS ''admin''), (''passwordSecretRef'', JS ''admin-password'')])]"

definition admin_secret :: "string \<Rightarrow> string \<Rightarrow> Secret" where
  "admin_secret ns password =
     \<lparr>secMeta = meta0 ns ''admin-password'', secData = [''password'' \<mapsto> password]\<rparr>"

definition tolerate_exists :: "go_error option \<Rightarrow> go_error option" where
  "tolerate_exists err = (if IsReason AlreadyExists err then None else err)"

definition Bootstrap :: "string \<Rightarrow> string \<Rightarrow> kubeapi \<Rightarrow> kube_write list \<times> (go_error + string)" where
  "Bootstrap ns password k =
     (case kaUsers k of
        Inl e \<Rightarrow> ([], Inl e)
      | Inr users \<Rightarrow>
        if users \<noteq> [] then ([], Inr '''')
        else
          let w1 = KCreateSecret (admin_secret ns password)
          in (case tolerate_exists (kaWrite k w1) of
                Some e \<Rightarrow> ([w1], Inl e)
              | None \<Rightarrow>
                let w2 = KCreateUser (admin_object ns)
                in (case tolerate_exists (kaWrite k w2) of
                      Some e \<Rightarrow> ([w1, w2], Inl e)
                    | None \<Rightarrow> ([w1, w2], Inr password))))"

definition MustChange :: "unstr \<Rightarrow> kubeapi \<Rightarrow> string \<Rightarrow> bool" where
  "MustChange U k username =
     (case kaUser k username of
        Inl _ \<Rightarrow> False
      | Inr u \<Rightarrow> mget (GetAnnotations U u) annotGenerated = ''true'')"

text \<open>The JSON merge patch that removes the mark.\<close>

definition clear_patch :: jval where
  "clear_patch = JM [(''metadata'', JM [(''annotations'', JM [(annotGenerated, JNull)])])]"

definition UpdatePassword :: "unstr \<Rightarrow> kubeapi \<Rightarrow> string \<Rightarrow> string \<Rightarrow> kube_write list \<times> go_error option" where
  "UpdatePassword U k username password =
     (case kaUser k username of
        Inl e \<Rightarrow> ([], Some e)
      | Inr u \<Rightarrow>
        let ref = fst (NestedString U u [''spec'', ''passwordSecretRef''])
        in if ref = '''' then ([], Some (errorf (''localuser '' @ username @ '' has no secret ref'')))
           else
             (case kaSecret k ref of
                Inl e \<Rightarrow> ([], Some e)
              | Inr secret \<Rightarrow>
                let w1 = KUpdateSecret (secret\<lparr>secData := (secData secret)(''password'' \<mapsto> password)\<rparr>)
                in (case kaWrite k w1 of
                      Some e \<Rightarrow> ([w1], Some e)
                    | None \<Rightarrow>
                      if mget (GetAnnotations U u) annotGenerated \<noteq> ''''
                      then let w2 = KPatchUser username clear_patch in ([w1, w2], kaWrite k w2)
                      else ([w1], None))))"

text \<open>The source handed to the session manager: live reads, no cache.\<close>

definition KubeSource :: "unstr \<Rightarrow> kubeapi \<Rightarrow> Source" where
  "KubeSource U k = \<lparr>srcLookup = kube_Lookup U k,
     srcPasswords = Some \<lparr>psMustChange = MustChange U k,
        psUpdatePassword = (\<lambda>name pw. snd (UpdatePassword U k name pw))\<rparr>\<rparr>"

section \<open>Properties\<close>

lemma kube_Lookup_Inr:
  assumes "kube_Lookup U k name = Inr (u, pw)"
  shows "uName u = name" "uRole u \<noteq> ''''"
    "\<exists>obj ref secret. kaUser k name = Inr obj \<and> NestedString U obj [''spec'', ''passwordSecretRef''] = ref \<and>
       kaSecret k (fst ref) = Inr secret \<and> pw = mget (secData secret) ''password''"
  using assms by (auto simp: kube_Lookup_def Let_def split: sum.splits if_splits)

text \<open>A user without an object, a role, a Secret or a password in it cannot log in.\<close>

lemma login_fails_closed:
  assumes "kaUser k name = Inl e \<or> (\<exists>obj. kaUser k name = Inr obj \<and>
      (let ref = fst (NestedString U obj [''spec'', ''passwordSecretRef'']) in
       (fst (NestedString U obj [''spec'', ''role'']) = '''' \<or> ref = '''' \<or> (\<exists>e. kaSecret k ref = Inl e)
        \<or> (\<exists>s. kaSecret k ref = Inr s \<and> mget (secData s) ''password'' = ''''))))"
    and "name \<noteq> ''''"
  shows "Login (KubeSource U k) now now' tok tls (Inr (name, pw)) m =
    (HttpError 401 ''invalid credentials'', None, m)"
  using assms
  by (auto simp: Login_def KubeSource_def kube_Lookup_def password_ok_def Let_def split: sum.splits)

text \<open>The object store after a Secret update.\<close>

definition after_update :: "kubeapi \<Rightarrow> string \<Rightarrow> Secret \<Rightarrow> kubeapi" where
  "after_update k ref s = k\<lparr>kaSecret := (kaSecret k)(ref := Inr s)\<rparr>"


definition shop :: kubeapi where
  "shop = \<lparr>kaUser = (\<lambda>n. if n = ''admin'' then Inr (admin_object ''sys'') else Inl (errorf ''no'')),
     kaUsers = Inr [admin_object ''sys''],
     kaSecret = (\<lambda>r. if r = ''admin-password'' then Inr (admin_secret ''sys'' ''old'') else Inl (errorf ''no'')),
     kaWrite = (\<lambda>_. None)\<rparr>"

lemmas shop_defs = shop_def admin_object_def admin_secret_def std_unstr_def string_at_def


text \<open>First boot on an empty cluster: the password returned is the one the Secret was created with.\<close>

lemma bootstrap_fresh:
  assumes "Bootstrap ns password k = (ws, Inr pw)" and "pw \<noteq> ''''"
    and "kaWrite k (KCreateSecret (admin_secret ns password)) = None"
  shows "ws = [KCreateSecret (admin_secret ns password), KCreateUser (admin_object ns)] \<and> pw = password"
  using assms by (auto simp: Bootstrap_def Let_def split: sum.splits if_splits option.splits)

text \<open>When an \<open>admin-password\<close> Secret is already there (every LocalUser was deleted, or an earlier boot
  failed between the two creates) the bootstrap keeps it and still returns the password it generated:
  that password does not open the account.\<close>

lemma bootstrap_stale_password:
  assumes "kaUsers k = Inr []"
    and "kaWrite k (KCreateSecret (admin_secret ns password)) = Some \<lparr>eReason = AlreadyExists, eText = msg\<rparr>"
    and "kaWrite k (KCreateUser (admin_object ns)) = None"
    and "kaUser k' ''admin'' = Inr (admin_object ns)"
    and "kaSecret k' ''admin-password'' = Inr (admin_secret ns kept)" and "kept \<noteq> password"
  shows "snd (Bootstrap ns password k) = Inr password"
    and "fst (Login (KubeSource std_unstr k') now now' tok tls (Inr (''admin'', password)) m) =
      HttpError 401 ''invalid credentials''"
  using assms
  by (auto simp: Bootstrap_def tolerate_exists_def Let_def Login_def KubeSource_def kube_Lookup_def
      admin_object_def std_unstr_def string_at_def admin_secret_def password_ok_def)

end
