(* ===== verification/Api.thy ===== *)
theory Api
  imports Auth Tasks Api_Types
begin

text \<open>
  The mutation endpoints of \<open>internal/api\<close>: handlers that shape an object from a decoded
  request, check what the CRDs cannot, and pass the API server's answer on. A handler takes the
  answers of the cluster (record \<open>apisrv\<close>), the library code it calls (record \<open>apilib\<close>), the
  request context (identity and clock), the decoded body (\<open>Inl\<close> when the JSON decoder fails) and
  the activity feed; it returns the writes it issued, in order, the feed and the response.
\<close>

section \<open>The cluster and the library\<close>

text \<open>A parsed quantity, as its \<open>Value()\<close> and \<open>String()\<close>.\<close>

record Quantity =
  qValue :: int
  qString :: string

record newPVC =
  npNamespace :: string
  npName :: string
  npAnnotations :: "(string \<times> string) list"
  npAccessModes :: "string list"
  npVolumeMode :: string
  npStorageClass :: "string option"
  npSize :: Quantity
  npDataSource :: "(string \<times> string \<times> string) option" \<comment> \<open>API group, kind, name\<close>

datatype api_write =
    DynCreate GVR string jval \<comment> \<open>namespace (empty for cluster scope), object\<close>
  | DynUpdate GVR string jval
  | DynDelete GVR string string
  | DynPatch GVR string string jval
  | PVCCreate newPVC
  | PVCDelete string string
  | PVCPatch string string string
  | SecretCreate string string "(string \<times> string) list"
  | SecretDelete string string

record apisrv =
  dynGet :: "GVR \<Rightarrow> string \<Rightarrow> string \<Rightarrow> go_error + jval"
  dynList :: "GVR \<Rightarrow> string \<Rightarrow> go_error + jval list"
  pvcGet :: "string \<Rightarrow> string \<Rightarrow> go_error + PersistentVolumeClaim"
  nodesList :: "go_error + Node list"
  apiWrite :: "api_write \<Rightarrow> go_error option"

record apilib =
  alUnstr :: unstr
  alMeta :: metalib
  ParseQuantity :: "string \<Rightarrow> go_error + Quantity"
  VolumeFromUnstructured :: "jval \<Rightarrow> go_error + Volume"

record reqctx =
  rcUser :: "User option"
  rcNow :: instant

text \<open>\<open>API.Namespace\<close> is an argument \<open>ns\<close>; \<open>API.Tasks\<close> is \<^const>\<open>None\<close> when nil.\<close>

type_synonym feed = "(Feed \<times> Bus option) option"
type_synonym outcome = "api_write list \<times> feed \<times> unit http"

definition FromContext :: "reqctx \<Rightarrow> User" where
  "FromContext r = (case rcUser r of Some u \<Rightarrow> u | None \<Rightarrow> \<lparr>uName = '''', uRole = ''''\<rparr>)"

definition recordIn :: "reqctx \<Rightarrow> string \<Rightarrow> string \<Rightarrow> string \<Rightarrow> go_error option \<Rightarrow> feed \<Rightarrow> feed" where
  "recordIn r namespace verb name err f =
     map_option (RecordOp \<lparr>opVerb = verb, opNamespace = namespace, opName = name,
       opBy = uName (FromContext r), opOK = (err = None), opAt = rcNow r\<rparr>) f"

abbreviation StatusNotFound :: nat where "StatusNotFound \<equiv> 404"
abbreviation StatusConflict :: nat where "StatusConflict \<equiv> 409"
abbreviation StatusBadGateway :: nat where "StatusBadGateway \<equiv> 502"

definition respond :: "go_error option \<Rightarrow> unit http" where
  "respond err =
     (case err of
        None \<Rightarrow> Reply 201 ()
      | Some e \<Rightarrow>
        if eReason e = Invalid \<or> eReason e = BadRequest then HttpError StatusBadRequest (eText e)
        else if eReason e = AlreadyExists then HttpError StatusConflict (eText e)
        else HttpError StatusInternalServerError (eText e))"

definition respondDelete :: "go_error option \<Rightarrow> unit http" where
  "respondDelete err =
     (case err of
        None \<Rightarrow> Reply 200 ()
      | Some e \<Rightarrow>
        if eReason e = NotFound then HttpError StatusNotFound (eText e)
        else if eReason e = Invalid \<or> eReason e = BadRequest \<or> eReason e = Forbidden
        then HttpError StatusBadRequest (eText e)
        else HttpError StatusInternalServerError (eText e))"

definition bad_body :: "go_error \<Rightarrow> unit http" where
  "bad_body e = HttpError StatusBadRequest (''bad request: '' @ eText e)"

definition toAny :: "string list \<Rightarrow> jval" where
  "toAny xs = JL (map JS xs)"

definition orDefault :: "string \<Rightarrow> string \<Rightarrow> string" where
  "orDefault s def = (if s = '''' then def else s)"

definition errInUse :: go_error where "errInUse = errorf ''in use''"

definition errNeedsNodes :: go_error where "errNeedsNodes = errorf ''replication needs three nodes''"

definition storage_object :: "string \<Rightarrow> (string \<times> jval) list \<Rightarrow> (string \<times> jval) list \<Rightarrow> jval" where
  "storage_object kind meta spec = JM [(''apiVersion'', JS ''storage.stornas.io/v1alpha1''),
     (''kind'', JS kind), (''metadata'', JM meta), (''spec'', JM spec)]"

section \<open>Pools\<close>

record poolRequest =
  prName :: string
  prNode :: string
  prDevices :: "string list"
  prRaid :: string
  prTier :: string

text \<open>The nested loops of the conflict check: the first requested device, in request order, of the first
  listed pool on the node that has one.\<close>

fun pool_conflict :: "unstr \<Rightarrow> poolRequest \<Rightarrow> jval list \<Rightarrow> (string \<times> string) option" where
  "pool_conflict U req [] = None"
| "pool_conflict U req (p # ps) =
     (if fst (NestedString U p [''spec'', ''node'']) \<noteq> prNode req then pool_conflict U req ps
      else
        (case find (\<lambda>d. d \<in> set (fst (NestedStringSlice U p [''spec'', ''devices'']))) (prDevices req) of
           Some d \<Rightarrow> Some (d, GetName U p)
         | None \<Rightarrow> pool_conflict U req ps))"

definition API_CreatePool :: "apilib \<Rightarrow> apisrv \<Rightarrow> string \<Rightarrow> reqctx \<Rightarrow> go_error + poolRequest \<Rightarrow> feed \<Rightarrow> outcome" where
  "API_CreatePool lib srv ns r body f =
     (case body of
        Inl e \<Rightarrow> ([], f, bad_body e)
      | Inr req0 \<Rightarrow>
        let req = req0\<lparr>prTier := orDefault (prTier req0) DefaultTier\<rparr>
        in (case dynList srv poolGVR '''' of
              Inl e \<Rightarrow> ([], f, HttpError StatusInternalServerError (''pools: '' @ eText e))
            | Inr pools \<Rightarrow>
              (case pool_conflict (alUnstr lib) req pools of
                 Some (d, p) \<Rightarrow>
                   ([], recordIn r ns ''create pool'' (prName req) (Some errInUse) f,
                    HttpError StatusConflict (d @ '' belongs to pool '' @ p))
               | None \<Rightarrow>
                   let w = DynCreate poolGVR '''' (storage_object ''StoragePool''
                         [(''name'', JS (prName req))]
                         [(''node'', JS (prNode req)), (''devices'', toAny (prDevices req)),
                          (''raid'', JS (orDefault (prRaid req) ''none'')), (''tier'', JS (prTier req))]);
                       err = apiWrite srv w
                   in ([w], recordIn r ns ''create pool'' (prName req) err f, respond err))))"

definition API_DeletePool :: "apilib \<Rightarrow> apisrv \<Rightarrow> string \<Rightarrow> reqctx \<Rightarrow> string \<Rightarrow> feed \<Rightarrow> outcome" where
  "API_DeletePool lib srv ns r name f =
     (let w = DynDelete poolGVR '''' name;
          derr = apiWrite srv w;
          delete = ([w], recordIn r ns ''delete pool'' name derr f, respondDelete derr)
      in case dynGet srv poolGVR '''' name of
           Inl e \<Rightarrow> ([], f, respondDelete (Some e))
         | Inr _ \<Rightarrow>
           (case dynGet srv rdrbdPoolGVR '''' name of
              Inl e \<Rightarrow>
                if eReason e = NotFound then delete
                else ([], f, HttpError StatusBadGateway (''cannot verify the pool is unused: '' @ eText e))
            | Inr backing \<Rightarrow>
                let vols = fst (NestedStringSlice (alUnstr lib) backing [''status'', ''volumes''])
                in if vols \<noteq> [] then
                     ([], recordIn r ns ''delete pool'' name (Some errInUse) f,
                      HttpError StatusConflict (''pool still backs volumes ('' @ joinWith '', '' vols @ ''); delete them first''))
                   else delete))"

record replaceRequest =
  rrOld :: string
  rrNew :: string

definition API_ReplacePoolDevice :: "apilib \<Rightarrow> apisrv \<Rightarrow> string \<Rightarrow> reqctx \<Rightarrow> string \<Rightarrow>
    go_error + replaceRequest \<Rightarrow> feed \<Rightarrow> outcome" where
  "API_ReplacePoolDevice lib srv ns r name body f =
     (case body of
        Inl e \<Rightarrow> ([], f, bad_body e)
      | Inr req \<Rightarrow>
        if rrOld req = '''' \<or> rrNew req = ''''
        then ([], f, HttpError StatusBadRequest ''old and new device paths required'')
        else
          (case dynGet srv poolGVR '''' name of
             Inl e \<Rightarrow> ([], recordIn r ns ''replace disk'' name (Some e) f, respondDelete (Some e))
           | Inr pool \<Rightarrow>
             let devices = fst (NestedStringSlice (alUnstr lib) pool [''spec'', ''devices''])
             in if rrOld req \<notin> set devices
                then ([], f, HttpError StatusConflict (rrOld req @ '' is not a member of pool '' @ name))
                else
                  let w = DynUpdate poolGVR '''' (SetNestedStringSlice (alUnstr lib) pool [''spec'', ''devices'']
                        (map (\<lambda>dev. if dev = rrOld req then rrNew req else dev) devices));
                      uerr = apiWrite srv w
                  in ([w], recordIn r ns ''replace disk'' name uerr f, respondDelete uerr)))"

section \<open>Volumes\<close>

definition ReplicationMinNodes :: nat where "ReplicationMinNodes = 3"

record volumeRequest =
  vrName :: string
  vrSize :: string
  vrStorageClass :: string
  vrBlock :: bool
  vrFromSnapshot :: string
  vrPool :: string

text \<open>What a restore takes from the snapshot's source claim.\<close>

definition inherit_source :: "apisrv \<Rightarrow> string \<Rightarrow> string \<Rightarrow> volumeRequest \<Rightarrow> unit http + volumeRequest" where
  "inherit_source srv vns src req =
     (case pvcGet srv vns src of
        Inr pvc \<Rightarrow>
          let req1 = (case pvcStorageClassName pvc of
                        Some c \<Rightarrow> if vrStorageClass req = '''' then req\<lparr>vrStorageClass := c\<rparr> else req
                      | None \<Rightarrow> req)
          in Inr (if pvcVolumeMode pvc = Some ''Block'' then req1\<lparr>vrBlock := True\<rparr> else req1)
      | Inl e \<Rightarrow>
          if vrStorageClass req = '''' then
            Inl (HttpError StatusConflict (''snapshot source PVC '' @ src @ '' is not readable ('' @ eText e @
              ''); pass storageClass (and block) explicitly''))
          else Inr req)"

definition restore_from :: "apilib \<Rightarrow> apisrv \<Rightarrow> string \<Rightarrow> volumeRequest \<Rightarrow> unit http + volumeRequest" where
  "restore_from lib srv vns req =
     (case dynGet srv snapGVR vns (vrFromSnapshot req) of
        Inl e \<Rightarrow> Inl (HttpError StatusBadRequest (''snapshot: '' @ eText e))
      | Inr snap \<Rightarrow>
        let restore = NestedString (alUnstr lib) snap [''status'', ''restoreSize''];
            src = fst (NestedString (alUnstr lib) snap [''spec'', ''source'', ''persistentVolumeClaimName''])
        in if vrSize req = '''' \<and> \<not> snd restore then
             Inl (HttpError StatusBadRequest ''snapshot has no restoreSize yet; pass an explicit size'')
           else
             let req1 = (if vrSize req = '''' then req\<lparr>vrSize := fst restore\<rparr> else req)
             in if src \<noteq> '''' then inherit_source srv vns src req1 else Inr req1)"

definition pin_pool :: "apilib \<Rightarrow> apisrv \<Rightarrow> volumeRequest \<Rightarrow> unit http + volumeRequest" where
  "pin_pool lib srv req =
     (case dynGet srv poolGVR '''' (vrPool req) of
        Inl e \<Rightarrow> Inl (HttpError StatusBadRequest (''pool: '' @ eText e))
      | Inr pool \<Rightarrow>
        let local_class = fst (TierClasses (fst (NestedString (alUnstr lib) pool [''spec'', ''tier''])))
        in if vrStorageClass req \<noteq> '''' \<and> vrStorageClass req \<noteq> local_class then
             Inl (HttpError StatusBadRequest (''pool '' @ vrPool req @ '' serves class '' @ local_class @
               '', not '' @ vrStorageClass req))
           else Inr (req\<lparr>vrStorageClass := local_class\<rparr>))"

definition new_claim :: "string \<Rightarrow> volumeRequest \<Rightarrow> Quantity \<Rightarrow> newPVC" where
  "new_claim vns req q =
     \<lparr>npNamespace = vns, npName = vrName req,
      npAnnotations = (ConsumerAnnotation, ConsumerHost) #
        (if vrPool req \<noteq> '''' then [(PoolAnnotation, vrPool req)] else []),
      npAccessModes = [''ReadWriteOnce''],
      npVolumeMode = (if vrBlock req then ''Block'' else ''Filesystem''),
      npStorageClass = (if vrStorageClass req \<noteq> '''' then Some (vrStorageClass req) else None),
      npSize = q,
      npDataSource = (if vrFromSnapshot req \<noteq> ''''
        then Some (''snapshot.storage.k8s.io'', ''VolumeSnapshot'', vrFromSnapshot req) else None)\<rparr>"

text \<open>The tail: the node count for a replicated class, the size, the claim.\<close>

definition create_claim :: "apilib \<Rightarrow> apisrv \<Rightarrow> reqctx \<Rightarrow> string \<Rightarrow> volumeRequest \<Rightarrow> feed \<Rightarrow> outcome" where
  "create_claim lib srv r vns req f =
     (case ParseQuantity lib (vrSize req) of
        Inl e \<Rightarrow> ([], f, HttpError StatusBadRequest (''invalid size: '' @ eText e))
      | Inr q \<Rightarrow>
        let w = PVCCreate (new_claim vns req q);
            cerr = apiWrite srv w;
            verb = (if vrFromSnapshot req \<noteq> '''' then ''restore volume'' else ''create volume'')
        in ([w], recordIn r vns verb (vrName req) cerr f, respond cerr))"

definition checked_claim :: "apilib \<Rightarrow> apisrv \<Rightarrow> reqctx \<Rightarrow> string \<Rightarrow> volumeRequest \<Rightarrow> feed \<Rightarrow> outcome" where
  "checked_claim lib srv r vns req f =
     (if replicated (vrStorageClass req) then
        (case nodesList srv of
           Inl e \<Rightarrow> ([], f, HttpError StatusInternalServerError (''nodes: '' @ eText e))
         | Inr nodes \<Rightarrow>
           if length nodes < ReplicationMinNodes then
             ([], recordIn r vns ''create volume'' (vrName req) (Some errNeedsNodes) f,
              HttpError StatusConflict (eText errNeedsNodes))
           else create_claim lib srv r vns req f)
      else create_claim lib srv r vns req f)"

definition shape_volume :: "apilib \<Rightarrow> apisrv \<Rightarrow> string \<Rightarrow> volumeRequest \<Rightarrow> unit http + volumeRequest" where
  "shape_volume lib srv vns req =
     (case (if vrFromSnapshot req \<noteq> '''' then restore_from lib srv vns req else Inr req) of
        Inl h \<Rightarrow> Inl h
      | Inr req1 \<Rightarrow> if vrPool req1 \<noteq> '''' then pin_pool lib srv req1 else Inr req1)"

definition API_CreateVolume :: "apilib \<Rightarrow> apisrv \<Rightarrow> reqctx \<Rightarrow> string \<Rightarrow> go_error + volumeRequest \<Rightarrow> feed \<Rightarrow> outcome" where
  "API_CreateVolume lib srv r vns body f =
     (case body of
        Inl e \<Rightarrow> ([], f, bad_body e)
      | Inr req \<Rightarrow>
        (case shape_volume lib srv vns req of
           Inl h \<Rightarrow> ([], f, h)
         | Inr req1 \<Rightarrow> checked_claim lib srv r vns req1 f))"

text \<open>What still exports a claim: the first share, then the first target, that names it.\<close>

definition lun_claims :: "jval \<Rightarrow> string \<Rightarrow> bool" where
  "lun_claims l claim = (case l of JM m \<Rightarrow> map_of m ''claimName'' = Some (JS claim) | _ \<Rightarrow> False)"

definition claimReferenced :: "apilib \<Rightarrow> apisrv \<Rightarrow> string \<Rightarrow> string \<Rightarrow> go_error + string" where
  "claimReferenced lib srv ns claim =
     (case dynList srv shareGVR ns of
        Inl e \<Rightarrow> Inl e
      | Inr shares \<Rightarrow>
        (case find (\<lambda>s. fst (NestedString (alUnstr lib) s [''spec'', ''claimName'']) = claim) shares of
           Some s \<Rightarrow> Inr (''share '' @ GetName (alUnstr lib) s)
         | None \<Rightarrow>
           (case dynList srv targetGVR ns of
              Inl e \<Rightarrow> Inl e
            | Inr targets \<Rightarrow>
              (case find (\<lambda>t. list_ex (\<lambda>l. lun_claims l claim)
                     (fst (NestedSlice (alUnstr lib) t [''spec'', ''luns'']))) targets of
                 Some t \<Rightarrow> Inr (''target '' @ GetName (alUnstr lib) t)
               | None \<Rightarrow> Inr ''''))))"

definition API_DeleteVolume :: "apilib \<Rightarrow> apisrv \<Rightarrow> string \<Rightarrow> reqctx \<Rightarrow> string \<Rightarrow> string \<Rightarrow> feed \<Rightarrow> outcome" where
  "API_DeleteVolume lib srv ns r vns name f =
     (let w = PVCDelete vns name;
          err = apiWrite srv w;
          delete = ([w], recordIn r vns ''delete volume'' name err f, respondDelete err)
      in if vns = ns then
           (case claimReferenced lib srv ns name of
              Inl e \<Rightarrow> ([], f, HttpError StatusInternalServerError (eText e))
            | Inr ref \<Rightarrow>
              if ref \<noteq> '''' then
                ([], recordIn r vns ''delete volume'' name (Some errInUse) f,
                 HttpError StatusConflict (''volume is in use by '' @ ref))
              else delete)
         else delete)"

definition resolve_patch :: "string \<Rightarrow> jval" where
  "resolve_patch survivor = JM [(''spec'', JM [(''resolve'', JM [(''survivor'', JS survivor)])])]"

definition API_ResolveSplitBrain :: "apilib \<Rightarrow> apisrv \<Rightarrow> reqctx \<Rightarrow> string \<Rightarrow> string \<Rightarrow>
    go_error + string \<Rightarrow> feed \<Rightarrow> outcome" where
  "API_ResolveSplitBrain lib srv r vns name body f =
     (case body of
        Inl e \<Rightarrow> ([], f, bad_body e)
      | Inr survivor \<Rightarrow>
        if survivor = '''' then ([], f, HttpError StatusBadRequest ''survivor node required'')
        else
          (case pvcGet srv vns name of
             Inl e \<Rightarrow> ([], f, respondDelete (Some e))
           | Inr pvc \<Rightarrow>
             let res = pvcVolumeName pvc
             in if res = '''' then ([], f, HttpError StatusConflict ''volume has no bound PV yet'')
                else
                  (case dynGet srv rdrbdVolumeGVR '''' res of
                     Inl e \<Rightarrow> ([], f, HttpError StatusBadGateway (''r-drbd volume '' @ res @ '': '' @ eText e))
                   | Inr u \<Rightarrow>
                     (case VolumeFromUnstructured lib u of
                        Inl e \<Rightarrow> ([], f, HttpError StatusBadGateway (''r-drbd volume '' @ res @ '': '' @ eText e))
                      | Inr vol \<Rightarrow>
                        if \<not> IsStatusConditionTrue (alMeta lib) (vtConditions (vStatus vol)) ConditionSplitBrain then
                          ([], f, HttpError StatusConflict
                             (name @ '' is not in split brain (r-drbd reports no SplitBrain condition)''))
                        else if \<not> Diskful vol survivor then
                          ([], f, HttpError StatusConflict (survivor @ '' holds no replica of '' @ name))
                        else
                          let w = DynPatch rdrbdVolumeGVR '''' res (resolve_patch survivor);
                              perr = apiWrite srv w
                          in ([w], recordIn r vns ''resolve split-brain'' name perr f,
                              case perr of
                                Some e \<Rightarrow> HttpError StatusBadGateway (''r-drbd volume '' @ res @ '': '' @ eText e)
                              | None \<Rightarrow> respondDelete None)))))"

definition resize_patch :: "Quantity \<Rightarrow> string" where
  "resize_patch q = ''{\"spec\":{\"resources\":{\"requests\":{\"storage\":\"'' @ qString q @ ''\"}}}}''"

definition API_ResizeVolume :: "apilib \<Rightarrow> apisrv \<Rightarrow> reqctx \<Rightarrow> string \<Rightarrow> string \<Rightarrow> go_error + string \<Rightarrow> feed \<Rightarrow> outcome" where
  "API_ResizeVolume lib srv r vns name body f =
     (case body of
        Inl e \<Rightarrow> ([], f, bad_body e)
      | Inr sz \<Rightarrow>
        (case ParseQuantity lib sz of
           Inl e \<Rightarrow> ([], f, HttpError StatusBadRequest (''invalid size: '' @ eText e))
         | Inr q \<Rightarrow>
           let w = PVCPatch vns name (resize_patch q);
               perr = apiWrite srv w
           in ([w], recordIn r vns ''resize volume'' name perr f, respondDelete perr)))"

section \<open>Targets, snapshots and shares\<close>

definition API_DeleteShare :: "apisrv \<Rightarrow> string \<Rightarrow> reqctx \<Rightarrow> string \<Rightarrow> feed \<Rightarrow> outcome" where
  "API_DeleteShare srv ns r name f =
     (let w = DynDelete shareGVR ns name; err = apiWrite srv w
      in ([w], recordIn r ns ''delete share'' name err f, respondDelete err))"

record targetRequest =
  trName :: string
  trVIP :: string
  trLUNs :: "(int \<times> string) list" \<comment> \<open>ID and claim\<close>
  trInitiators :: "string list"

definition target_spec :: "targetRequest \<Rightarrow> (string \<times> jval) list" where
  "target_spec req =
     [(''luns'', JL (map (\<lambda>(i, c). JM [(''id'', JI i), (''claimName'', JS c)]) (trLUNs req)))]
     @ (if trVIP req \<noteq> '''' then [(''vip'', JS (trVIP req))] else [])
     @ (if trInitiators req \<noteq> [] then
          [(''initiators'', JL (map (\<lambda>iqn. JM [(''iqn'', JS iqn)]) (trInitiators req)))] else [])"

definition API_CreateTarget :: "apisrv \<Rightarrow> string \<Rightarrow> reqctx \<Rightarrow> go_error + targetRequest \<Rightarrow> feed \<Rightarrow> outcome" where
  "API_CreateTarget srv ns r body f =
     (case body of
        Inl e \<Rightarrow> ([], f, bad_body e)
      | Inr req \<Rightarrow>
        let w = DynCreate targetGVR ns (storage_object ''Target''
              [(''name'', JS (trName req)), (''namespace'', JS ns)] (target_spec req));
            err = apiWrite srv w
        in ([w], recordIn r ns ''create target'' (trName req) err f, respond err))"

definition API_DeleteTarget :: "apisrv \<Rightarrow> string \<Rightarrow> reqctx \<Rightarrow> string \<Rightarrow> feed \<Rightarrow> outcome" where
  "API_DeleteTarget srv ns r name f =
     (let w = DynDelete targetGVR ns name; err = apiWrite srv w
      in ([w], recordIn r ns ''delete target'' name err f, respondDelete err))"

definition snapshot_object :: "string \<Rightarrow> string \<Rightarrow> string \<Rightarrow> jval" where
  "snapshot_object vns name vol = JM
     [(''apiVersion'', JS ''snapshot.storage.k8s.io/v1''), (''kind'', JS ''VolumeSnapshot''),
      (''metadata'', JM [(''name'', JS name), (''namespace'', JS vns)]),
      (''spec'', JM [(''volumeSnapshotClassName'', JS ''stornas''),
         (''source'', JM [(''persistentVolumeClaimName'', JS vol)])])]"

definition API_CreateSnapshot :: "apisrv \<Rightarrow> reqctx \<Rightarrow> string \<Rightarrow> go_error + (string \<times> string) \<Rightarrow> feed \<Rightarrow> outcome" where
  "API_CreateSnapshot srv r vns body f =
     (case body of
        Inl e \<Rightarrow> ([], f, bad_body e)
      | Inr (name, vol) \<Rightarrow>
        let w = DynCreate snapGVR vns (snapshot_object vns name vol); err = apiWrite srv w
        in ([w], recordIn r vns ''create snapshot'' name err f, respond err))"

definition API_DeleteSnapshot :: "apisrv \<Rightarrow> reqctx \<Rightarrow> string \<Rightarrow> string \<Rightarrow> feed \<Rightarrow> outcome" where
  "API_DeleteSnapshot srv r vns name f =
     (let w = DynDelete snapGVR vns name; err = apiWrite srv w
      in ([w], recordIn r vns ''delete snapshot'' name err f, respondDelete err))"

text \<open>\<open>^[^\s()]+(\([^\s()]*\))?$\<close>: the regexp package's \<open>\s\<close> is tab, newline, form feed, carriage return
  and space.\<close>

definition nfs_char :: "char \<Rightarrow> bool" where
  "nfs_char c \<longleftrightarrow> c \<notin> {CHR 0x09, CHR 0x0A, CHR 0x0C, CHR 0x0D, CHR 0x20, CHR ''('', CHR '')''}"

definition nfsClientRE :: "string \<Rightarrow> bool" where
  "nfsClientRE s =
     (let host = takeWhile nfs_char s; rest = dropWhile nfs_char s
      in host \<noteq> [] \<and>
         (case rest of
            [] \<Rightarrow> True
          | c # opts \<Rightarrow> c = CHR ''('' \<and> opts \<noteq> [] \<and> List.last opts = CHR '')'' \<and> list_all nfs_char (butlast opts)))"

record shareRequest =
  shrName :: string
  shrClaim :: string
  shrNFSClients :: "string list"
  shrSMB :: bool
  shrValidUsers :: "string list"

definition share_spec :: "shareRequest \<Rightarrow> (string \<times> jval) list" where
  "share_spec req =
     [(''claimName'', JS (shrClaim req))]
     @ (if shrNFSClients req \<noteq> [] then [(''nfs'', JM [(''clients'', toAny (shrNFSClients req))])] else [])
     @ (if shrSMB req then
          [(''smb'', JM (if shrValidUsers req \<noteq> [] then [(''validUsers'', toAny (shrValidUsers req))] else []))]
        else [])"

definition API_CreateShare :: "apisrv \<Rightarrow> string \<Rightarrow> reqctx \<Rightarrow> go_error + shareRequest \<Rightarrow> feed \<Rightarrow> outcome" where
  "API_CreateShare srv ns r body f =
     (case body of
        Inl e \<Rightarrow> ([], f, bad_body e)
      | Inr req \<Rightarrow>
        (case find (\<lambda>c. \<not> nfsClientRE c) (shrNFSClients req) of
           Some c \<Rightarrow> ([], f, HttpError StatusBadRequest (''invalid NFS client entry: '' @ c))
         | None \<Rightarrow>
           let w = DynCreate shareGVR ns (storage_object ''Share''
                 [(''name'', JS (shrName req)), (''namespace'', JS ns)] (share_spec req));
               err = apiWrite srv w
           in ([w], recordIn r ns ''create share'' (shrName req) err f, respond err)))"

section \<open>Users\<close>

record userRequest =
  urName :: string
  urPassword :: string
  urRole :: string
  urSMB :: bool

definition API_CreateUser :: "apisrv \<Rightarrow> string \<Rightarrow> reqctx \<Rightarrow> go_error + userRequest \<Rightarrow> feed \<Rightarrow> outcome" where
  "API_CreateUser srv ns r body f =
     (case body of
        Inl e \<Rightarrow> ([], f, bad_body e)
      | Inr req \<Rightarrow>
        if length (urPassword req) < 8
        then ([], f, HttpError StatusBadRequest ''password needs at least 8 characters'')
        else
          let secretName = urName req @ ''-password'';
              w1 = SecretCreate ns secretName [(''password'', urPassword req)]
          in (case apiWrite srv w1 of
                Some e \<Rightarrow> ([w1], f, respond (Some e))
              | None \<Rightarrow>
                let w2 = DynCreate userGVR ns (storage_object ''LocalUser''
                      [(''name'', JS (urName req)), (''namespace'', JS ns)]
                      [(''role'', JS (orDefault (urRole req) ''viewer'')), (''smb'', JB (urSMB req)),
                       (''passwordSecretRef'', JS secretName)]);
                    err = apiWrite srv w2
                in ([w1, w2] @ (if err \<noteq> None then [SecretDelete ns secretName] else []),
                    recordIn r ns ''create user'' (urName req) err f, respond err)))"

definition API_DeleteUser :: "apilib \<Rightarrow> apisrv \<Rightarrow> string \<Rightarrow> reqctx \<Rightarrow> string \<Rightarrow> feed \<Rightarrow> outcome" where
  "API_DeleteUser lib srv ns r name f =
     (if name = ''admin'' then ([], f, HttpError StatusConflict ''the admin user cannot be deleted'')
      else
        (case dynGet srv userGVR ns name of
           Inl e \<Rightarrow> ([], f, respondDelete (Some e))
         | Inr u \<Rightarrow>
           let ref = fst (NestedString (alUnstr lib) u [''spec'', ''passwordSecretRef'']);
               w = DynDelete userGVR ns name;
               derr = apiWrite srv w
           in ((if ref \<noteq> '''' then [SecretDelete ns ref] else []) @ [w],
               recordIn r ns ''delete user'' name derr f, respondDelete derr)))"

definition API_ListUsers :: "apilib \<Rightarrow> apisrv \<Rightarrow> string \<Rightarrow> (string \<times> string \<times> bool) list http" where
  "API_ListUsers lib srv ns =
     (case dynList srv userGVR ns of
        Inl e \<Rightarrow> HttpError StatusInternalServerError (eText e)
      | Inr items \<Rightarrow> Reply 200 (map (\<lambda>item. (GetName (alUnstr lib) item,
          fst (NestedString (alUnstr lib) item [''spec'', ''role'']),
          fst (NestedBool (alUnstr lib) item [''spec'', ''smb'']))) items))"

section \<open>The routes\<close>

text \<open>The mutating routes of \<open>cmd/stornas\<close>, each behind \<open>RequireAdmin\<close>, with their path values and
  decoded bodies.\<close>

datatype api_call =
    CCreatePool "go_error + poolRequest"
  | CDeletePool string
  | CReplaceDevice string "go_error + replaceRequest"
  | CCreateVolume string "go_error + volumeRequest"
  | CDeleteVolume string string
  | CResizeVolume string string "go_error + string"
  | CResolveSplit string string "go_error + string"
  | CCreateShare "go_error + shareRequest"
  | CDeleteShare string
  | CCreateTarget "go_error + targetRequest"
  | CDeleteTarget string
  | CCreateSnapshot string "go_error + (string \<times> string)"
  | CDeleteSnapshot string string
  | CCreateUser "go_error + userRequest"
  | CDeleteUser string

fun api_serve :: "apilib \<Rightarrow> apisrv \<Rightarrow> string \<Rightarrow> reqctx \<Rightarrow> api_call \<Rightarrow> feed \<Rightarrow> outcome" where
  "api_serve lib srv ns r (CCreatePool b) f = API_CreatePool lib srv ns r b f"
| "api_serve lib srv ns r (CDeletePool n) f = API_DeletePool lib srv ns r n f"
| "api_serve lib srv ns r (CReplaceDevice n b) f = API_ReplacePoolDevice lib srv ns r n b f"
| "api_serve lib srv ns r (CCreateVolume v b) f = API_CreateVolume lib srv r v b f"
| "api_serve lib srv ns r (CDeleteVolume v n) f = API_DeleteVolume lib srv ns r v n f"
| "api_serve lib srv ns r (CResizeVolume v n b) f = API_ResizeVolume lib srv r v n b f"
| "api_serve lib srv ns r (CResolveSplit v n b) f = API_ResolveSplitBrain lib srv r v n b f"
| "api_serve lib srv ns r (CCreateShare b) f = API_CreateShare srv ns r b f"
| "api_serve lib srv ns r (CDeleteShare n) f = API_DeleteShare srv ns r n f"
| "api_serve lib srv ns r (CCreateTarget b) f = API_CreateTarget srv ns r b f"
| "api_serve lib srv ns r (CDeleteTarget n) f = API_DeleteTarget srv ns r n f"
| "api_serve lib srv ns r (CCreateSnapshot v b) f = API_CreateSnapshot srv r v b f"
| "api_serve lib srv ns r (CDeleteSnapshot v n) f = API_DeleteSnapshot srv r v n f"
| "api_serve lib srv ns r (CCreateUser b) f = API_CreateUser srv ns r b f"
| "api_serve lib srv ns r (CDeleteUser n) f = API_DeleteUser lib srv ns r n f"

text \<open>The gate and the handler behind it: \<open>admin(mutate.X)\<close>.\<close>

definition admin_route :: "apilib \<Rightarrow> apisrv \<Rightarrow> string \<Rightarrow> instant \<Rightarrow> instant \<Rightarrow> string option \<Rightarrow> api_call \<Rightarrow>
    Manager \<Rightarrow> feed \<Rightarrow> outcome \<times> Manager" where
  "admin_route lib srv ns now now' cookie call m f =
     (case RequireAdmin now now' cookie
        (\<lambda>u. api_serve lib srv ns \<lparr>rcUser = Some u, rcNow = now'\<rparr> call f) m of
        (Inl h, m') \<Rightarrow> (([], f, h), m')
      | (Inr out, m') \<Rightarrow> (out, m'))"

end
