(* ===== verification/Api_Safety.thy ===== *)
theory Api_Safety
  imports Api
begin

text \<open>
  What the mutation endpoints guarantee: which conditions every write they issue was preceded by, what
  they answer when they refuse, and that every mutation that took effect is in the activity feed.
\<close>

lemmas api_pool_defs = API_CreatePool_def API_DeletePool_def API_ReplacePoolDevice_def
lemmas api_volume_defs = API_CreateVolume_def API_DeleteVolume_def API_ResizeVolume_def
  API_ResolveSplitBrain_def checked_claim_def create_claim_def
lemmas api_export_defs = API_DeleteShare_def API_CreateShare_def API_CreateTarget_def API_DeleteTarget_def
  API_CreateSnapshot_def API_DeleteSnapshot_def
lemmas api_user_defs = API_CreateUser_def API_DeleteUser_def

section \<open>Pools\<close>

definition pool_node :: "unstr \<Rightarrow> jval \<Rightarrow> string" where
  "pool_node U p = fst (NestedString U p [''spec'', ''node''])"

definition pool_devices :: "unstr \<Rightarrow> jval \<Rightarrow> string list" where
  "pool_devices U p = fst (NestedStringSlice U p [''spec'', ''devices''])"

lemma pool_conflict_None:
  "pool_conflict U req ps = None \<longleftrightarrow>
     (\<forall>p \<in> set ps. pool_node U p = prNode req \<longrightarrow> set (pool_devices U p) \<inter> set (prDevices req) = {})"
  by (induction ps) (auto simp: pool_node_def pool_devices_def find_None_iff find_Some_iff split: option.splits)

lemma pool_conflict_Some:
  "pool_conflict U req ps = Some (d, n) \<Longrightarrow>
     \<exists>p \<in> set ps. pool_node U p = prNode req \<and> n = GetName U p \<and> d \<in> set (pool_devices U p) \<and> d \<in> set (prDevices req)"
proof (induction ps)
  case (Cons p ps)
  then show ?case
    by (auto simp: pool_node_def pool_devices_def find_Some_iff split: if_splits option.splits)
qed simp

text \<open>\<^bold>\<open>C32\<close>. A pool is created only over free disks: the only write \<open>CreatePool\<close> ever issues is the
  StoragePool of the request, with its node and devices, and only when the listed pools of that node
  have none of its devices. If one does, nothing is written, the caller gets 409 and the refusal is
  recorded; if the pools cannot be listed, nothing is written either.\<close>

theorem create_pool_disjoint:
  assumes "API_CreatePool lib srv ns r (Inr req) f = (ws, f', resp)"
  shows "(\<forall>w \<in> set ws. \<exists>pools spec. dynList srv poolGVR '''' = Inr pools \<and>
      w = DynCreate poolGVR '''' (storage_object ''StoragePool'' [(''name'', JS (prName req))] spec) \<and>
      map_of spec ''node'' = Some (JS (prNode req)) \<and> map_of spec ''devices'' = Some (toAny (prDevices req)) \<and>
      (\<forall>p \<in> set pools. pool_node (alUnstr lib) p = prNode req \<longrightarrow>
         set (pool_devices (alUnstr lib) p) \<inter> set (prDevices req) = {}))
    \<and> (\<forall>pools p d. dynList srv poolGVR '''' = Inr pools \<and> p \<in> set pools \<and>
         pool_node (alUnstr lib) p = prNode req \<and> d \<in> set (pool_devices (alUnstr lib) p) \<and> d \<in> set (prDevices req) \<longrightarrow>
         ws = [] \<and> (\<exists>msg. resp = HttpError 409 msg) \<and>
         f' = recordIn r ns ''create pool'' (prName req) (Some errInUse) f)"
proof (intro conjI ballI allI impI; (elim conjE)?)
  fix w assume "w \<in> set ws"
  with assms show "\<exists>pools spec. dynList srv poolGVR '''' = Inr pools \<and>
      w = DynCreate poolGVR '''' (storage_object ''StoragePool'' [(''name'', JS (prName req))] spec) \<and>
      map_of spec ''node'' = Some (JS (prNode req)) \<and> map_of spec ''devices'' = Some (toAny (prDevices req)) \<and>
      (\<forall>p \<in> set pools. pool_node (alUnstr lib) p = prNode req \<longrightarrow>
         set (pool_devices (alUnstr lib) p) \<inter> set (prDevices req) = {})"
    by (auto simp: API_CreatePool_def Let_def pool_conflict_None split: sum.splits option.splits)
next
  fix pools p d
  assume pools: "dynList srv poolGVR '''' = Inr pools" and p: "p \<in> set pools"
    "pool_node (alUnstr lib) p = prNode req" "d \<in> set (pool_devices (alUnstr lib) p)" "d \<in> set (prDevices req)"
  let ?req = "req\<lparr>prTier := orDefault (prTier req) DefaultTier\<rparr>"
  have "pool_conflict (alUnstr lib) ?req pools \<noteq> None"
    using p by (auto simp: pool_conflict_None)
  then obtain d' n where "pool_conflict (alUnstr lib) ?req pools = Some (d', n)" by auto
  with assms pools show "ws = []" "\<exists>msg. resp = HttpError 409 msg"
    "f' = recordIn r ns ''create pool'' (prName req) (Some errInUse) f"
    by (auto simp add: API_CreatePool_def Let_def)
qed

text \<open>\<^bold>\<open>C33\<close>. Deleting a pool fails closed: \<open>DeletePool\<close> issues the delete of that pool exactly when the
  pool exists and either r-drbd has no Pool of that name or its Pool lists no volumes; on any other
  answer, an unreadable Pool included, it writes nothing and answers an error.\<close>

theorem delete_pool_fail_closed:
  assumes "API_DeletePool lib srv ns r name f = (ws, f', resp)"
  shows "(if (\<exists>p. dynGet srv poolGVR '''' name = Inr p) \<and>
        (case dynGet srv rdrbdPoolGVR '''' name of
           Inl e \<Rightarrow> eReason e = NotFound
         | Inr b \<Rightarrow> fst (NestedStringSlice (alUnstr lib) b [''status'', ''volumes'']) = [])
      then ws = [DynDelete poolGVR '''' name] \<and> resp = respondDelete (apiWrite srv (DynDelete poolGVR '''' name)) \<and>
           f' = recordIn r ns ''delete pool'' name (apiWrite srv (DynDelete poolGVR '''' name)) f
      else ws = [] \<and> (\<exists>code msg. resp = HttpError code msg))"
  using assms
  by (auto simp: API_DeletePool_def Let_def respondDelete_def split: sum.splits if_splits option.splits)

definition meta_lib :: apilib where
  "meta_lib = \<lparr>alUnstr = std_unstr, alMeta = std_metalib,
     ParseQuantity = (\<lambda>s. Inr \<lparr>qValue = 1, qString = s\<rparr>),
     VolumeFromUnstructured = (\<lambda>_. Inl (errorf ''no volume''))\<rparr>"

definition pool_obj :: "string \<Rightarrow> string \<Rightarrow> string list \<Rightarrow> jval" where
  "pool_obj name node devs = storage_object ''StoragePool'' [(''name'', JS name)]
     [(''node'', JS node), (''devices'', toAny devs), (''tier'', JS ''default'')]"

definition two_pools :: apisrv where
  "two_pools = \<lparr>dynGet = (\<lambda>g ns n. if g = poolGVR \<and> n = ''a'' then Inr (pool_obj ''a'' ''n1'' [''/dev/sda''])
        else if g = poolGVR \<and> n = ''b'' then Inr (pool_obj ''b'' ''n1'' [''/dev/sdb''])
        else Inl \<lparr>eReason = NotFound, eText = ''not found''\<rparr>),
     dynList = (\<lambda>g ns. Inr (if g = poolGVR then [pool_obj ''a'' ''n1'' [''/dev/sda''], pool_obj ''b'' ''n1'' [''/dev/sdb'']] else [])),
     pvcGet = (\<lambda>_ _. Inl \<lparr>eReason = NotFound, eText = ''not found''\<rparr>), nodesList = Inr [],
     apiWrite = (\<lambda>_. None)\<rparr>"

definition ctx0 :: reqctx where
  "ctx0 = \<lparr>rcUser = Some \<lparr>uName = ''ann'', uRole = ''admin''\<rparr>, rcNow = 0\<rparr>"

lemmas obj_eval = pool_obj_def storage_object_def toAny_def std_unstr_def string_at_def slice_at_def
  as_strings_def meta_lib_def two_pools_def pool_node_def pool_devices_def

theorem create_pool_disjoint_witness:
  "fst (API_CreatePool meta_lib two_pools ''sys'' ctx0
     (Inr \<lparr>prName = ''c'', prNode = ''n1'', prDevices = [''/dev/sdc'', ''/dev/sdb''], prRaid = '''', prTier = ''''\<rparr>) None) = []"
proof -
  let ?req = "\<lparr>prName = ''c'', prNode = ''n1'', prDevices = [''/dev/sdc'', ''/dev/sdb''], prRaid = '''', prTier = ''''\<rparr>"
  obtain ws f' resp where run: "API_CreatePool meta_lib two_pools ''sys'' ctx0 (Inr ?req) None = (ws, f', resp)"
    by (metis prod.collapse)
  from create_pool_disjoint[OF run] have "ws = []"
    by (elim conjE allE[of _ "[pool_obj ''a'' ''n1'' [''/dev/sda''], pool_obj ''b'' ''n1'' [''/dev/sdb'']]"]
        allE[of _ "pool_obj ''b'' ''n1'' [''/dev/sdb'']"] allE[of _ "''/dev/sdb''"] impE)
      (simp_all add: obj_eval)
  with run show ?thesis by simp
qed

theorem delete_pool_fail_closed_witness:
  "fst (API_DeletePool meta_lib two_pools ''sys'' ctx0 ''a'' None) = [DynDelete poolGVR '''' ''a'']"
proof -
  obtain ws f' resp where run: "API_DeletePool meta_lib two_pools ''sys'' ctx0 ''a'' None = (ws, f', resp)"
    by (metis prod.collapse)
  from delete_pool_fail_closed[OF run] run show ?thesis by (simp add: two_pools_def)
qed

text \<open>A device swap writes one update: the listed pool with the old device replaced in place.\<close>

lemma replace_device_swaps:
  assumes "unstr_laws (alUnstr lib)"
    and "API_ReplacePoolDevice lib srv ns r name (Inr req) f = (ws, f', resp)" and "ws \<noteq> []"
  shows "\<exists>pool obj. dynGet srv poolGVR '''' name = Inr pool \<and> ws = [DynUpdate poolGVR '''' obj] \<and>
     rrOld req \<in> set (pool_devices (alUnstr lib) pool) \<and>
     pool_devices (alUnstr lib) obj =
       map (\<lambda>d. if d = rrOld req then rrNew req else d) (pool_devices (alUnstr lib) pool) \<and>
     pool_node (alUnstr lib) obj = pool_node (alUnstr lib) pool \<and>
     GetName (alUnstr lib) obj = GetName (alUnstr lib) pool"
proof -
  obtain pool where pool: "dynGet srv poolGVR '''' name = Inr pool" and mem: "rrOld req \<in> set (pool_devices (alUnstr lib) pool)"
    and ws: "ws = [DynUpdate poolGVR '''' (SetNestedStringSlice (alUnstr lib) pool [''spec'', ''devices'']
        (map (\<lambda>d. if d = rrOld req then rrNew req else d) (pool_devices (alUnstr lib) pool)))]"
    using assms(2,3)
    by (auto simp: API_ReplacePoolDevice_def pool_devices_def Let_def split: if_splits sum.splits)
  have found: "snd (NestedStringSlice (alUnstr lib) pool [''spec'', ''devices''])"
  proof (rule ccontr)
    assume "\<not> snd (NestedStringSlice (alUnstr lib) pool [''spec'', ''devices''])"
    then have "pool_devices (alUnstr lib) pool = []"
      using unstr_laws.slice_zero[OF assms(1), of pool "[''spec'', ''devices'']"]
      by (metis pool_devices_def prod.collapse)
    with mem show False by simp
  qed
  show ?thesis
    using pool mem ws unstr_laws.set_get[OF assms(1) found] unstr_laws.set_other[OF assms(1) found, of "[''spec'', ''node'']"]
      unstr_laws.set_name[OF assms(1) found]
    by (auto simp: pool_devices_def pool_node_def)
qed

text \<open>It does not ask the other pools of the node: a disk of pool \<open>b\<close> can be swapped into pool \<open>a\<close>, which
  \<open>CreatePool\<close> would refuse.\<close>

lemma replace_takes_foreign_device:
  "\<exists>obj f' resp. API_ReplacePoolDevice meta_lib two_pools ''sys'' ctx0 ''a''
       (Inr \<lparr>rrOld = ''/dev/sda'', rrNew = ''/dev/sdb''\<rparr>) None = ([DynUpdate poolGVR '''' obj], f', resp)
     \<and> resp = Reply 200 () \<and> pool_node std_unstr obj = ''n1'' \<and> pool_devices std_unstr obj = [''/dev/sdb'']
     \<and> pool_devices std_unstr (pool_obj ''b'' ''n1'' [''/dev/sdb'']) = [''/dev/sdb'']"
  by (simp add: API_ReplacePoolDevice_def obj_eval respondDelete_def Let_def)

section \<open>Volumes\<close>

lemma inherit_source_Inr:
  assumes "inherit_source srv vns src req = Inr req'"
  shows "vrName req' = vrName req" "vrSize req' = vrSize req" "vrFromSnapshot req' = vrFromSnapshot req"
    "vrPool req' = vrPool req" "vrBlock req \<longrightarrow> vrBlock req'"
    "vrStorageClass req \<noteq> '''' \<longrightarrow> vrStorageClass req' = vrStorageClass req"
    "\<forall>pvc. pvcGet srv vns src = Inr pvc \<longrightarrow>
       (pvcVolumeMode pvc = Some ''Block'' \<longrightarrow> vrBlock req') \<and>
       (vrStorageClass req = '''' \<longrightarrow> (\<forall>c. pvcStorageClassName pvc = Some c \<longrightarrow> vrStorageClass req' = c))"
    "\<forall>e. pvcGet srv vns src = Inl e \<longrightarrow> vrStorageClass req \<noteq> ''''"
  using assms by (auto simp: inherit_source_def Let_def split: sum.splits option.splits if_splits)

lemma pin_pool_Inr:
  assumes "pin_pool lib srv req = Inr req'"
  shows "\<exists>pool. dynGet srv poolGVR '''' (vrPool req) = Inr pool \<and>
    req' = req\<lparr>vrStorageClass := fst (TierClasses (fst (NestedString (alUnstr lib) pool [''spec'', ''tier''])))\<rparr> \<and>
    (vrStorageClass req = '''' \<or> vrStorageClass req = vrStorageClass req')"
  using assms by (auto simp: pin_pool_def Let_def split: sum.splits if_splits)

text \<open>What shaping a request keeps, and what a restore takes from its snapshot.\<close>

definition inherits :: "apisrv \<Rightarrow> string \<Rightarrow> string \<Rightarrow> volumeRequest \<Rightarrow> volumeRequest \<Rightarrow> bool" where
  "inherits srv vns src req req' \<longleftrightarrow>
     (case pvcGet srv vns src of
        Inl _ \<Rightarrow> vrStorageClass req \<noteq> ''''
      | Inr pvc \<Rightarrow> (pvcVolumeMode pvc = Some ''Block'' \<longrightarrow> vrBlock req') \<and>
          (vrStorageClass req = '''' \<longrightarrow> (\<forall>c. pvcStorageClassName pvc = Some c \<longrightarrow> c \<noteq> '''' \<longrightarrow> vrStorageClass req' = c)))"

lemma restore_from_Inr:
  assumes "restore_from lib srv vns req = Inr req'"
  shows "vrName req' = vrName req" "vrFromSnapshot req' = vrFromSnapshot req" "vrPool req' = vrPool req"
    "vrStorageClass req \<noteq> '''' \<longrightarrow> vrStorageClass req' = vrStorageClass req"
    "\<exists>snap. dynGet srv snapGVR vns (vrFromSnapshot req) = Inr snap \<and>
       (vrSize req = '''' \<longrightarrow> NestedString (alUnstr lib) snap [''status'', ''restoreSize''] = (vrSize req', True)) \<and>
       (let src = fst (NestedString (alUnstr lib) snap [''spec'', ''source'', ''persistentVolumeClaimName''])
        in src \<noteq> '''' \<longrightarrow> inherits srv vns src req req')"
proof -
  obtain snap where snap: "dynGet srv snapGVR vns (vrFromSnapshot req) = Inr snap"
    using assms by (auto simp: restore_from_def split: sum.splits)
  define restore where "restore = NestedString (alUnstr lib) snap [''status'', ''restoreSize'']"
  define src where "src = fst (NestedString (alUnstr lib) snap [''spec'', ''source'', ''persistentVolumeClaimName''])"
  define req1 where "req1 = (if vrSize req = '''' then req\<lparr>vrSize := fst restore\<rparr> else req)"
  have ok: "vrSize req \<noteq> '''' \<or> snd restore"
    and req': "if src \<noteq> '''' then inherit_source srv vns src req1 = Inr req' else req' = req1"
    using assms snap
    by (auto simp: restore_from_def Let_def restore_def src_def req1_def split: if_splits)
  have req1: "vrName req1 = vrName req" "vrFromSnapshot req1 = vrFromSnapshot req" "vrPool req1 = vrPool req"
    "vrStorageClass req1 = vrStorageClass req" "vrSize req = '''' \<longrightarrow> vrSize req1 = fst restore"
    by (auto simp: req1_def)
  note I = inherit_source_Inr[of srv vns src req1 req']
  show "vrName req' = vrName req" "vrFromSnapshot req' = vrFromSnapshot req" "vrPool req' = vrPool req"
    "vrStorageClass req \<noteq> '''' \<longrightarrow> vrStorageClass req' = vrStorageClass req"
    using req' req1 I(1,3,4,6) by (auto split: if_splits)
  have "vrSize req = '''' \<longrightarrow> restore = (vrSize req', True)"
    using req' req1 ok I(2) by (cases restore) (auto split: if_splits)
  moreover have "src \<noteq> '''' \<longrightarrow> inherits srv vns src req req'"
    using req' req1 I(7,8) by (auto simp: inherits_def split: sum.splits)
  ultimately show "\<exists>snap. dynGet srv snapGVR vns (vrFromSnapshot req) = Inr snap \<and>
       (vrSize req = '''' \<longrightarrow> NestedString (alUnstr lib) snap [''status'', ''restoreSize''] = (vrSize req', True)) \<and>
       (let src = fst (NestedString (alUnstr lib) snap [''spec'', ''source'', ''persistentVolumeClaimName''])
        in src \<noteq> '''' \<longrightarrow> inherits srv vns src req req')"
    using snap by (auto simp: Let_def restore_def src_def)
qed


lemma shape_volume_Inr:
  assumes "shape_volume lib srv vns req = Inr req'"
  shows "vrName req' = vrName req" "vrFromSnapshot req' = vrFromSnapshot req" "vrPool req' = vrPool req"
    "vrStorageClass req \<noteq> '''' \<longrightarrow> vrStorageClass req' = vrStorageClass req"
    "vrPool req \<noteq> '''' \<longrightarrow> (\<exists>pool. dynGet srv poolGVR '''' (vrPool req) = Inr pool \<and>
       vrStorageClass req' = fst (TierClasses (fst (NestedString (alUnstr lib) pool [''spec'', ''tier'']))))"
    "vrFromSnapshot req \<noteq> '''' \<longrightarrow> (\<exists>snap. dynGet srv snapGVR vns (vrFromSnapshot req) = Inr snap \<and>
       (vrSize req = '''' \<longrightarrow> NestedString (alUnstr lib) snap [''status'', ''restoreSize''] = (vrSize req', True)) \<and>
       (let src = fst (NestedString (alUnstr lib) snap [''spec'', ''source'', ''persistentVolumeClaimName''])
        in src \<noteq> '''' \<longrightarrow> inherits srv vns src req req'))"
proof -
  obtain req1 where r1: "(if vrFromSnapshot req \<noteq> '''' then restore_from lib srv vns req else Inr req) = Inr req1"
    and r2: "(if vrPool req1 \<noteq> '''' then pin_pool lib srv req1 else Inr req1) = Inr req'"
    using assms unfolding shape_volume_def by (auto split: sum.splits)
  have keep1: "vrName req1 = vrName req" "vrFromSnapshot req1 = vrFromSnapshot req" "vrPool req1 = vrPool req"
    "vrStorageClass req \<noteq> '''' \<longrightarrow> vrStorageClass req1 = vrStorageClass req"
    using r1 restore_from_Inr(1-4)[of lib srv vns req req1] by (auto split: if_splits)
  have pin: "vrName req' = vrName req1" "vrFromSnapshot req' = vrFromSnapshot req1" "vrPool req' = vrPool req1"
    "vrSize req' = vrSize req1" "vrBlock req' = vrBlock req1"
    "vrStorageClass req1 \<noteq> '''' \<longrightarrow> vrStorageClass req' = vrStorageClass req1"
    "vrPool req1 \<noteq> '''' \<longrightarrow> (\<exists>pool. dynGet srv poolGVR '''' (vrPool req1) = Inr pool \<and>
       vrStorageClass req' = fst (TierClasses (fst (NestedString (alUnstr lib) pool [''spec'', ''tier'']))))"
    using r2 pin_pool_Inr[of lib srv req1 req'] by (auto split: if_splits)
  show "vrName req' = vrName req" "vrFromSnapshot req' = vrFromSnapshot req" "vrPool req' = vrPool req"
    "vrStorageClass req \<noteq> '''' \<longrightarrow> vrStorageClass req' = vrStorageClass req"
    "vrPool req \<noteq> '''' \<longrightarrow> (\<exists>pool. dynGet srv poolGVR '''' (vrPool req) = Inr pool \<and>
       vrStorageClass req' = fst (TierClasses (fst (NestedString (alUnstr lib) pool [''spec'', ''tier'']))))"
    using keep1 pin by auto
  have inh: "inherits srv vns src req req1 \<Longrightarrow> inherits srv vns src req req'" for src
    using pin(5,6) by (auto simp: inherits_def split: sum.splits)
  show "vrFromSnapshot req \<noteq> '''' \<longrightarrow> (\<exists>snap. dynGet srv snapGVR vns (vrFromSnapshot req) = Inr snap \<and>
       (vrSize req = '''' \<longrightarrow> NestedString (alUnstr lib) snap [''status'', ''restoreSize''] = (vrSize req', True)) \<and>
       (let src = fst (NestedString (alUnstr lib) snap [''spec'', ''source'', ''persistentVolumeClaimName''])
        in src \<noteq> '''' \<longrightarrow> inherits srv vns src req req'))"
    using r1 restore_from_Inr(5)[of lib srv vns req req1] inh pin(4)
    by (auto simp: Let_def split: if_splits)
qed

lemma checked_claim_writes:
  assumes "checked_claim lib srv r vns req f = (ws, f', resp)" and "w \<in> set ws"
  shows "\<exists>q. w = PVCCreate (new_claim vns req q) \<and> ws = [w] \<and> ParseQuantity lib (vrSize req) = Inr q"
    "replicated (vrStorageClass req) \<longrightarrow> (\<exists>nodes. nodesList srv = Inr nodes \<and> 3 \<le> length nodes)"
  using assms
  by (auto simp: checked_claim_def create_claim_def ReplicationMinNodes_def Let_def split: sum.splits if_splits)


definition snap_obj :: jval where
  "snap_obj = JM [(''metadata'', JM [(''name'', JS ''s1''), (''namespace'', JS ''apps'')]),
     (''spec'', JM [(''source'', JM [(''persistentVolumeClaimName'', JS ''data'')])]),
     (''status'', JM [(''restoreSize'', JS ''5Gi'')])]"

definition restore_srv :: apisrv where
  "restore_srv = two_pools\<lparr>dynGet := (\<lambda>g ns n. if g = snapGVR \<and> ns = ''apps'' \<and> n = ''s1'' then Inr snap_obj
        else Inl \<lparr>eReason = NotFound, eText = ''not found''\<rparr>),
     pvcGet := (\<lambda>ns n. if ns = ''apps'' \<and> n = ''data'' then Inr \<lparr>pvcMeta = meta0 ''apps'' ''data'',
        pvcVolumeName = ''pv-1'', pvcStorageClassName = Some ''stornas-replicated'', pvcVolumeMode = Some ''Block''\<rparr>
        else Inl \<lparr>eReason = NotFound, eText = ''not found''\<rparr>),
     nodesList := Inr (replicate 3 \<lparr>nMeta = meta0 '''' ''n'', nConditions = []\<rparr>)\<rparr>"

definition restore_req :: volumeRequest where
  "restore_req = \<lparr>vrName = ''copy'', vrSize = '''', vrStorageClass = '''', vrBlock = False,
     vrFromSnapshot = ''s1'', vrPool = ''''\<rparr>"


text \<open>A volume under an export is not deleted: in the system namespace \<open>DeleteVolume\<close> issues the
  delete of the claim only when both lists could be read and no share and no LUN of a target there
  names the claim; it issues nothing else in any namespace.\<close>

theorem delete_volume_unreferenced:
  assumes "API_DeleteVolume lib srv ns r vns name f = (ws, f', resp)" and "w \<in> set ws"
  shows "w = PVCDelete vns name \<and> (vns = ns \<longrightarrow>
     (\<exists>shares targets. dynList srv shareGVR ns = Inr shares \<and> dynList srv targetGVR ns = Inr targets \<and>
       (\<forall>s \<in> set shares. fst (NestedString (alUnstr lib) s [''spec'', ''claimName'']) \<noteq> name) \<and>
       (\<forall>t \<in> set targets. \<forall>l \<in> set (fst (NestedSlice (alUnstr lib) t [''spec'', ''luns''])). \<not> lun_claims l name)))"
  using assms
  by (auto simp: API_DeleteVolume_def claimReferenced_def Let_def find_None_iff list_ex_iff
      split: if_splits sum.splits option.splits)

theorem delete_volume_unreferenced_witness:
  "\<exists>w f' resp. API_DeleteVolume meta_lib two_pools ''sys'' ctx0 ''sys'' ''data'' None = ([w], f', resp) \<and>
     w = PVCDelete ''sys'' ''data''"
proof -
  obtain ws f' resp where run: "API_DeleteVolume meta_lib two_pools ''sys'' ctx0 ''sys'' ''data'' None = (ws, f', resp)"
    by (metis prod.collapse)
  have ws: "ws = [PVCDelete ''sys'' ''data'']"
    using run by (simp add: API_DeleteVolume_def claimReferenced_def two_pools_def Let_def)
  from delete_volume_unreferenced[OF run, of "PVCDelete ''sys'' ''data''"] ws run show ?thesis by auto
qed


text \<open>\<^bold>\<open>C35\<close>. Data is discarded only in a real split brain: \<open>ResolveSplitBrain\<close> issues nothing but the
  resolve patch of the r-drbd Volume the claim is bound to, and only when that Volume reports the
  SplitBrain condition and the named survivor holds a diskful replica of it.\<close>

theorem resolve_split_safe:
  assumes "API_ResolveSplitBrain lib srv r vns name body f = (ws, f', resp)" and "w \<in> set ws"
  shows "\<exists>survivor pvc u vol. body = Inr survivor \<and> pvcGet srv vns name = Inr pvc \<and> pvcVolumeName pvc \<noteq> '''' \<and>
     dynGet srv rdrbdVolumeGVR '''' (pvcVolumeName pvc) = Inr u \<and> VolumeFromUnstructured lib u = Inr vol \<and>
     IsStatusConditionTrue (alMeta lib) (vtConditions (vStatus vol)) ConditionSplitBrain \<and> Diskful vol survivor \<and>
     w = DynPatch rdrbdVolumeGVR '''' (pvcVolumeName pvc) (resolve_patch survivor)"
  using assms
  by (auto simp: API_ResolveSplitBrain_def Let_def split: sum.splits if_splits)

definition split_vol :: Volume where
  "split_vol = (volume0 ''pv-1'')\<lparr>vSpec := (vSpec (volume0 ''pv-1''))\<lparr>vsAssignment := Some [diskful0 ''n1'', diskful0 ''n2'']\<rparr>,
     vStatus := (vStatus (volume0 ''pv-1''))\<lparr>vtConditions := [\<lparr>cType = ''SplitBrain'', cStatus = ConditionTrue,
        cReason = ''Diverged'', cMessage = '''', cObservedGeneration = 1\<rparr>]\<rparr>\<rparr>"

definition split_srv :: apisrv where
  "split_srv = restore_srv\<lparr>dynGet := (\<lambda>g ns n. Inr JNull)\<rparr>"

definition split_lib :: apilib where
  "split_lib = meta_lib\<lparr>VolumeFromUnstructured := (\<lambda>_. Inr split_vol)\<rparr>"

theorem resolve_split_safe_witness:
  "\<exists>w f' resp. API_ResolveSplitBrain split_lib split_srv ctx0 ''apps'' ''data'' (Inr ''n2'') None = ([w], f', resp)
     \<and> w = DynPatch rdrbdVolumeGVR '''' ''pv-1'' (resolve_patch ''n2'')"
proof -
  let ?w = "DynPatch rdrbdVolumeGVR '''' ''pv-1'' (resolve_patch ''n2'')"
  obtain ws f' resp where run: "API_ResolveSplitBrain split_lib split_srv ctx0 ''apps'' ''data'' (Inr ''n2'') None = (ws, f', resp)"
    by (metis prod.collapse)
  have ws: "ws = [?w]"
    using run by (simp add: API_ResolveSplitBrain_def split_lib_def split_srv_def restore_srv_def two_pools_def
        meta_lib_def split_vol_def std_metalib_def Diskful_def diskful0_def Let_def)
  from resolve_split_safe[OF run, of ?w] ws run show ?thesis by (auto simp: split_srv_def restore_srv_def)
qed

section \<open>Shares and users\<close>

text \<open>The language of the client entries: a host, or a host with an option list.\<close>

definition nfs_entry :: "string \<Rightarrow> bool" where
  "nfs_entry s \<longleftrightarrow> (\<exists>host. host \<noteq> [] \<and> list_all nfs_char host \<and>
     (s = host \<or> (\<exists>opts. list_all nfs_char opts \<and> s = host @ ''('' @ opts @ '')'')))"

lemma nfs_paren: "\<not> nfs_char (CHR ''('')" "\<not> nfs_char (CHR '')'')"
  by (simp_all add: nfs_char_def)

lemma nfsClientRE_language: "nfsClientRE s \<longleftrightarrow> nfs_entry s"
proof
  assume "nfsClientRE s"
  then have host: "takeWhile nfs_char s \<noteq> []"
    and rest: "case dropWhile nfs_char s of [] \<Rightarrow> True
      | c # opts \<Rightarrow> c = CHR ''('' \<and> opts \<noteq> [] \<and> List.last opts = CHR '')'' \<and> list_all nfs_char (butlast opts)"
    by (simp_all add: nfsClientRE_def Let_def)
  have all: "list_all nfs_char (takeWhile nfs_char s)" by (auto simp: list_all_iff dest: set_takeWhileD)
  show "nfs_entry s"
  proof (cases "dropWhile nfs_char s")
    case Nil
    then have "s = takeWhile nfs_char s" by (metis append_Nil2 takeWhile_dropWhile_id)
    with host all show ?thesis unfolding nfs_entry_def by metis
  next
    case (Cons c opts)
    with rest have c: "c = CHR ''(''" "opts \<noteq> []" "List.last opts = CHR '')''" by simp_all
    have "s = takeWhile nfs_char s @ c # opts" using takeWhile_dropWhile_id[of nfs_char s] Cons by simp
    moreover have "opts = butlast opts @ '')''" using append_butlast_last_id[OF c(2)] c(3) by simp
    ultimately have "s = takeWhile nfs_char s @ ''('' @ butlast opts @ '')''" using c(1) by simp
    moreover have "list_all nfs_char (butlast opts)" using rest Cons by simp
    ultimately show ?thesis unfolding nfs_entry_def using host all by metis
  qed
next
  assume "nfs_entry s"
  then obtain host opts where host: "host \<noteq> []" "list_all nfs_char host"
    and s: "s = host \<or> (list_all nfs_char opts \<and> s = host @ ''('' @ opts @ '')'')"
    unfolding nfs_entry_def by blast
  have plain: "takeWhile nfs_char host = host" "dropWhile nfs_char host = []"
    using host(2) by (simp_all add: list_all_iff)
  have listed: "takeWhile nfs_char (host @ ''('' @ opts @ '')'') = host"
    "dropWhile nfs_char (host @ ''('' @ opts @ '')'') = ''('' @ opts @ '')''"
    using host(2) nfs_paren by (simp_all add: list_all_iff takeWhile_append dropWhile_append)
  from s show "nfsClientRE s"
  proof
    assume "s = host"
    show ?thesis unfolding nfsClientRE_def Let_def \<open>s = host\<close> plain using host(1) by simp
  next
    assume l: "list_all nfs_char opts \<and> s = host @ ''('' @ opts @ '')''"
    then have "s = host @ ''('' @ opts @ '')''" by blast
    show ?thesis unfolding nfsClientRE_def Let_def \<open>s = host @ ''('' @ opts @ '')''\<close> listed
      using host(1) l by (simp add: butlast_append)
  qed
qed

text \<open>A share is created only when every client entry is well formed.\<close>

lemma create_share_clients:
  assumes "API_CreateShare srv ns r (Inr req) f = (ws, f', resp)" and "ws \<noteq> []"
  shows "\<forall>c \<in> set (shrNFSClients req). nfs_entry c"
  using assms
  by (auto simp: API_CreateShare_def find_None_iff nfsClientRE_language Let_def split: option.splits)

text \<open>A user gets its Secret first and only with a password of eight bytes; when the LocalUser is
  refused the Secret is removed again. The admin user is never deleted.\<close>

lemma create_user_order:
  assumes "API_CreateUser srv ns r (Inr req) f = (ws, f', resp)" and "ws \<noteq> []"
  shows "8 \<le> length (urPassword req) \<and>
    (\<exists>rest. ws = SecretCreate ns (urName req @ ''-password'') [(''password'', urPassword req)] # rest \<and>
      (\<forall>g n obj. DynCreate g n obj \<in> set rest \<longrightarrow> apiWrite srv (hd ws) = None \<and> g = userGVR) \<and>
      ((\<exists>g n obj. DynCreate g n obj \<in> set rest \<and> apiWrite srv (DynCreate g n obj) \<noteq> None) \<longleftrightarrow>
        SecretDelete ns (urName req @ ''-password'') \<in> set rest))"
  using assms
  by (auto simp: API_CreateUser_def Let_def split: if_splits option.splits)

lemma admin_kept:
  assumes "api_serve lib srv ns r call f = (ws, f', resp)"
  shows "DynDelete userGVR n ''admin'' \<notin> set ws"
  using assms
  by (cases call)
    (auto simp: api_pool_defs api_volume_defs api_export_defs api_user_defs Let_def
      split: sum.splits if_splits option.splits)

section \<open>The activity feed\<close>

definition attributed :: "reqctx \<Rightarrow> feed \<Rightarrow> feed \<Rightarrow> bool \<Rightarrow> bool" where
  "attributed r f f' ok \<longleftrightarrow> (\<exists>op. f' = map_option (RecordOp op) f \<and> opBy op = uName (FromContext r) \<and>
     opAt op = rcNow r \<and> opOK op = ok)"

lemma recordIn_attributed: "attributed r f (recordIn r vns verb name err f) (err = None)"
  unfolding attributed_def recordIn_def by (rule exI, rule conjI, rule refl) simp

lemma respond_Reply: "(\<exists>code x. respond err = Reply code x) \<longleftrightarrow> err = None"
  by (auto simp: respond_def split: option.splits)

lemma respondDelete_Reply: "(\<exists>code x. respondDelete err = Reply code x) \<longleftrightarrow> err = None"
  by (auto simp: respondDelete_def split: option.splits)

lemma attributedI:
  assumes "ok = (err = None)"
  shows "attributed r f (recordIn r vns verb name err f) ok"
  using recordIn_attributed[of r f vns verb name err] assms by simp

lemma Reply_iff [simp]:
  "(\<exists>code. respond err = Reply code ()) \<longleftrightarrow> err = None"
  "(\<exists>code. respondDelete err = Reply code ()) \<longleftrightarrow> err = None"
  by (auto simp: respond_def respondDelete_def split: option.splits)

lemma ReplyD:
  "respond err = Reply code x \<Longrightarrow> err = None"
  "respondDelete err = Reply code x \<Longrightarrow> err = None"
  by (auto simp: respond_def respondDelete_def split: option.splits if_splits)

lemma shape_volume_Inl: "shape_volume lib srv vns req = Inl h \<Longrightarrow> \<exists>code msg. h = HttpError code msg"
  by (auto simp: shape_volume_def restore_from_def inherit_source_def pin_pool_def Let_def
      split: sum.splits if_splits option.splits)

lemma serve_attributed:
  assumes "api_serve lib srv ns r call f = (ws, f', resp)"
    and "(\<exists>w \<in> set ws. apiWrite srv w = None) \<or> (\<exists>code. resp = Reply code ())"
  shows "attributed r f f' (\<exists>code. resp = Reply code ())"
  using assms
  by (cases call)
    (auto simp: api_pool_defs api_volume_defs api_export_defs api_user_defs bad_body_def Let_def
      intro!: attributedI dest: ReplyD dest!: shape_volume_Inl split: sum.splits if_splits option.splits)

lemma accepted_write_recorded:
  assumes "api_serve lib srv ns r call f = (ws, f', resp)" and "w \<in> set ws" and "apiWrite srv w = None"
  shows "attributed r f f' (\<exists>code. resp = Reply code ())"
  using serve_attributed[OF assms(1)] assms(2,3) by blast

text \<open>\<^bold>\<open>C36\<close>. The audit trail is complete for what took effect: whatever handler runs, if the API server
  accepted one of its writes, or the caller was answered with success, then exactly one operation was
  added to the feed, attributed to the session's user at the request's time, and marked OK exactly
  when the caller was answered with success.\<close>

theorem mutations_recorded:
  assumes "api_serve lib srv ns r call f = (ws, f', resp)"
    and "(\<exists>w \<in> set ws. apiWrite srv w = None) \<or> (\<exists>code. resp = Reply code ())"
  shows "attributed r f f' (\<exists>code. resp = Reply code ())"
  using assms by (rule serve_attributed)

theorem mutations_recorded_witness:
  "\<exists>ws f' resp. api_serve meta_lib two_pools ''sys'' ctx0 (CDeletePool ''a'') (Some (Feed_New, None)) = (ws, f', resp)
     \<and> attributed ctx0 (Some (Feed_New, None)) f' (\<exists>code. resp = Reply code ())"
proof -
  obtain ws f' resp where run:
    "api_serve meta_lib two_pools ''sys'' ctx0 (CDeletePool ''a'') (Some (Feed_New, None)) = (ws, f', resp)"
    by (metis prod.collapse)
  have "\<exists>w \<in> set ws. apiWrite two_pools w = None"
    using run by (auto simp: API_DeletePool_def two_pools_def Let_def)
  with mutations_recorded[OF run] run show ?thesis by blast
qed

text \<open>Refusals are recorded by some handlers only: neither the attempt to delete the admin user, nor a
  swap of a device the pool does not have, nor a user whose Secret exists already leaves a trace.\<close>

lemma refusals_unrecorded:
  "api_serve lib srv ns r (CDeleteUser ''admin'') f = ([], f, HttpError 409 ''the admin user cannot be deleted'')"
  "apiWrite srv (SecretCreate ns (urName req @ ''-password'') [(''password'', urPassword req)]) = Some e \<Longrightarrow>
     fst (snd (api_serve lib srv ns r (CCreateUser (Inr req)) f)) = f"
  "fst (snd (api_serve meta_lib two_pools ns r (CReplaceDevice ''a'' (Inr \<lparr>rrOld = ''/dev/sdx'', rrNew = ''/dev/sdy''\<rparr>)) f)) = f"
  by (simp_all add: API_DeleteUser_def API_CreateUser_def API_ReplacePoolDevice_def obj_eval Let_def)


end
