(* ===== verification/Pool_Protocol.thy ===== *)
theory Pool_Protocol
  imports Pool_Ctl Pool_Agent
begin

text \<open>
  The deletion of a StoragePool as the two programs play it: the operator's \<open>Reconcile\<close> and the agent's,
  each over its own cached copy of the object, with the API server between them. A step is one
  pass (which only decides what to write), one write landing or failing, one cache moving forward, or an
  act of the user or of r-drbd. The API server accepts a write of the object only at the version it was
  read at; r-drbd releases a Pool only when it is being deleted and backs no volume; the cached copies
  never go back in time. Reads of the r-drbd Pool are current.
\<close>

section \<open>The world\<close>

record pool_world =
  pwVers :: "StoragePool list" \<comment> \<open>every version of the object, the API server's last\<close>
  pwOp :: nat \<comment> \<open>the version the operator has seen\<close>
  pwAg :: nat \<comment> \<open>the version the agent has seen\<close>
  pwPool :: "Pool option" \<comment> \<open>the r-drbd Pool of that name\<close>
  pwWrites :: "pool_write list" \<comment> \<open>what the operator's pass has still to write\<close>
  pwReports :: "agent_pool_write list"
  pwTorn :: bool \<comment> \<open>a teardown of the host has ended without an error\<close>
  pwNodeLost :: bool \<comment> \<open>a pass was told the node is gone or unready\<close>
  pwGone :: bool \<comment> \<open>the object has been removed\<close>

definition latest :: "pool_world \<Rightarrow> StoragePool" where
  "latest w = last (pwVers w)"

definition fresh_rv :: "pool_world \<Rightarrow> string \<Rightarrow> bool" where
  "fresh_rv w rv \<longleftrightarrow> rv \<notin> (\<lambda>v. omResourceVersion (spMeta v)) ` set (pwVers w)"

definition same_rv :: "pool_world \<Rightarrow> StoragePool \<Rightarrow> bool" where
  "same_rv w p \<longleftrightarrow> \<not> pwGone w \<and> omResourceVersion (spMeta p) = omResourceVersion (spMeta (latest w))"

text \<open>An update of the status subresource changes the status alone, an update of the object everything else
  it may; the last finalizer of a deleting object takes it away.\<close>

definition put_status :: "StoragePool \<Rightarrow> string \<Rightarrow> pool_world \<Rightarrow> pool_world" where
  "put_status p rv w = w\<lparr>pwVers := pwVers w @ [(latest w)\<lparr>spStatus := spStatus p,
     spMeta := (spMeta (latest w))\<lparr>omResourceVersion := rv\<rparr>\<rparr>]\<rparr>"

definition put_object :: "StoragePool \<Rightarrow> string \<Rightarrow> pool_world \<Rightarrow> pool_world" where
  "put_object p rv w = w\<lparr>pwVers := pwVers w @ [(latest w)\<lparr>spSpec := spSpec p,
     spMeta := (spMeta (latest w))\<lparr>omFinalizers := omFinalizers (spMeta p), omResourceVersion := rv\<rparr>\<rparr>],
     pwGone := (omDeleting (spMeta (latest w)) \<and> omFinalizers (spMeta p) = [])\<rparr>"

text \<open>What the operator's client answers during a pass that reads the object at \<open>sp\<close>.\<close>

definition op_sees :: "pool_world \<Rightarrow> StoragePool \<Rightarrow> kclient \<Rightarrow> bool" where
  "op_sees w sp c \<longleftrightarrow> GetStoragePool c (omName (spMeta sp)) = Inr sp \<and>
     (\<forall>q. GetPool c (omName (spMeta sp)) = Inr q \<longrightarrow> pwPool w = Some q) \<and>
     (\<forall>e. GetPool c (omName (spMeta sp)) = Inl e \<and> eReason e = NotFound \<longrightarrow> pwPool w = None) \<and>
     (\<forall>p p'. UpdateStoragePool c p = Inr p' \<longrightarrow>
        (\<exists>rv. p' = p\<lparr>spMeta := (spMeta p)\<lparr>omResourceVersion := rv\<rparr>\<rparr>))"

abbreviation op_version :: "pool_world \<Rightarrow> StoragePool" where "op_version w \<equiv> pwVers w ! pwOp w"
abbreviation ag_version :: "pool_world \<Rightarrow> StoragePool" where "ag_version w \<equiv> pwVers w ! pwAg w"

record 'h agent_host =
  ahOs :: "'h os"
  ahLib :: golib
  ahOrder :: "(string \<rightharpoonup> string) \<Rightarrow> string list"
  ahNode :: string

definition agent_pass :: "metalib \<Rightarrow> 'h agent_host \<Rightarrow> kclient \<Rightarrow> (string \<rightharpoonup> SmartInfo) option \<Rightarrow> StoragePool \<Rightarrow>
    ('h, agent_pool_write outcome) prog" where
  "agent_pass lib ah c smart sp =
     PoolAgentReconcile lib c (ahOs ah) (ahLib ah) (ahOrder ah) smart (ahNode ah) (omName (spMeta sp))"

definition tears_down :: "metalib \<Rightarrow> 'h agent_host \<Rightarrow> kclient \<Rightarrow> (string \<rightharpoonup> SmartInfo) option \<Rightarrow> StoragePool \<Rightarrow> 'h \<Rightarrow> bool" where
  "tears_down lib ah c smart sp h \<longleftrightarrow> omDeleting (spMeta sp) \<and> value_of (TeardownPool (ahOs ah) sp) h = None \<and>
     log_of (agent_pass lib ah c smart sp) h = log_of (TeardownPool (ahOs ah) sp) h"

inductive pool_step :: "metalib \<Rightarrow> 'h agent_host \<Rightarrow> pool_world \<Rightarrow> pool_world \<Rightarrow> bool"
  for lib :: metalib and ah :: "'h agent_host" where
  op_observes: "pwOp w \<le> i \<Longrightarrow> i < length (pwVers w) \<Longrightarrow> pool_step lib ah w (w\<lparr>pwOp := i\<rparr>)"
| ag_observes: "pwAg w \<le> i \<Longrightarrow> i < length (pwVers w) \<Longrightarrow> pool_step lib ah w (w\<lparr>pwAg := i\<rparr>)"
| op_pass: "pwWrites w = [] \<Longrightarrow> op_sees w (op_version w) c \<Longrightarrow>
    pool_step lib ah w (w\<lparr>pwWrites := fst (StoragePoolReconcile lib rec c (omName (spMeta (op_version w)))),
      pwNodeLost := (pwNodeLost w \<or> nodeGoneOrUnready c (spsNode (spSpec (op_version w))) = Inr True)\<rparr>)"
| op_aborts: "pool_step lib ah w (w\<lparr>pwWrites := []\<rparr>)"
| op_skips: "pwWrites w = x # xs \<Longrightarrow> pool_step lib ah w (w\<lparr>pwWrites := xs\<rparr>)"
| op_creates: "pwWrites w = CreateRPool q # xs \<Longrightarrow> pwPool w = None \<Longrightarrow>
    pool_step lib ah w (w\<lparr>pwPool := Some q, pwWrites := xs\<rparr>)"
| op_deletes: "pwWrites w = DeleteRPool q # xs \<Longrightarrow> pwPool w = Some q' \<Longrightarrow>
    pool_step lib ah w (w\<lparr>pwWrites := xs, pwPool := Some (q'\<lparr>plMeta := (plMeta q')\<lparr>omDeleting := True\<rparr>\<rparr>)\<rparr>)"
| op_status: "pwWrites w = WStoragePoolStatus p # xs \<Longrightarrow> same_rv w p \<Longrightarrow> fresh_rv w rv \<Longrightarrow>
    pool_step lib ah w ((put_status p rv w)\<lparr>pwWrites := xs\<rparr>)"
| op_updates: "pwWrites w = WStoragePool p # xs \<Longrightarrow> same_rv w p \<Longrightarrow> fresh_rv w rv \<Longrightarrow>
    pool_step lib ah w ((put_object p rv w)\<lparr>pwWrites := xs\<rparr>)"
| ag_pass: "pwReports w = [] \<Longrightarrow> GetStoragePool c (omName (spMeta (ag_version w))) = Inr (ag_version w) \<Longrightarrow>
    pool_step lib ah w (w\<lparr>pwReports := fst (value_of (agent_pass lib ah c smart (ag_version w)) h),
      pwTorn := (pwTorn w \<or> tears_down lib ah c smart (ag_version w) h)\<rparr>)"
| ag_fails: "pool_step lib ah w (w\<lparr>pwReports := []\<rparr>)"
| ag_status: "pwReports w = AgentPoolStatus p # xs \<Longrightarrow> same_rv w p \<Longrightarrow> fresh_rv w rv \<Longrightarrow>
    pool_step lib ah w ((put_status p rv w)\<lparr>pwReports := xs\<rparr>)"
| user_deletes: "\<not> pwGone w \<Longrightarrow> omFinalizers (spMeta (latest w)) \<noteq> [] \<Longrightarrow> fresh_rv w rv \<Longrightarrow>
    pool_step lib ah w (w\<lparr>pwVers := pwVers w @ [(latest w)\<lparr>
      spMeta := (spMeta (latest w))\<lparr>omDeleting := True, omResourceVersion := rv\<rparr>\<rparr>]\<rparr>)"
| user_edits: "\<not> pwGone w \<Longrightarrow> spsNode sp = spsNode (spSpec (latest w)) \<Longrightarrow> fresh_rv w rv \<Longrightarrow>
    pool_step lib ah w (w\<lparr>pwVers := pwVers w @ [(latest w)\<lparr>spSpec := sp,
      spMeta := (spMeta (latest w))\<lparr>omGeneration := g, omResourceVersion := rv\<rparr>\<rparr>]\<rparr>)"
| rdrbd_reports: "pwPool w = Some q \<Longrightarrow> pool_step lib ah w (w\<lparr>pwPool := Some (q\<lparr>plStatus := st\<rparr>)\<rparr>)"
| rdrbd_releases: "pwPool w = Some q \<Longrightarrow> omDeleting (plMeta q) \<Longrightarrow> ptVolumes (plStatus q) = [] \<Longrightarrow>
    pool_step lib ah w (w\<lparr>pwPool := None\<rparr>)"

text \<open>A pool as it was created: no condition, nothing registered.\<close>

definition pool_start :: "pool_world \<Rightarrow> bool" where
  "pool_start w \<longleftrightarrow> (\<exists>sp. pwVers w = [sp] \<and> \<not> omDeleting (spMeta sp) \<and> spConditions (spStatus sp) = []) \<and>
     pwOp w = 0 \<and> pwAg w = 0 \<and> pwPool w = None \<and> pwWrites w = [] \<and> pwReports w = [] \<and>
     \<not> pwTorn w \<and> \<not> pwNodeLost w \<and> \<not> pwGone w"

definition pool_run :: "metalib \<Rightarrow> 'h agent_host \<Rightarrow> pool_world \<Rightarrow> bool" where
  "pool_run lib ah w \<longleftrightarrow> (\<exists>w0. pool_start w0 \<and> (pool_step lib ah)\<^sup>*\<^sup>* w0 w)"

section \<open>The invariant\<close>

abbreviation dereg :: "metalib \<Rightarrow> StoragePool \<Rightarrow> bool" where
  "dereg lib p \<equiv> pool_true lib p ConditionDeregistered"

abbreviation torn :: "metalib \<Rightarrow> StoragePool \<Rightarrow> bool" where
  "torn lib p \<equiv> pool_true lib p ConditionTornDown"

text \<open>The clearance has been decided: it stands in some version or is about to be written.\<close>

definition cleared :: "metalib \<Rightarrow> pool_world \<Rightarrow> bool" where
  "cleared lib w \<longleftrightarrow> (\<exists>v \<in> set (pwVers w). dereg lib v) \<or>
     (\<exists>p. WStoragePoolStatus p \<in> set (pwWrites w) \<and> dereg lib p)"

definition versions_ok :: "metalib \<Rightarrow> pool_world \<Rightarrow> bool" where
  "versions_ok lib w \<longleftrightarrow> pwOp w < length (pwVers w) \<and> pwAg w < length (pwVers w) \<and>
     (\<forall>v \<in> set (pwVers w). spsNode (spSpec v) = spsNode (spSpec (latest w)) \<and> VGName v = VGName (latest w)) \<and>
     sorted_wrt (\<lambda>u v. omDeleting (spMeta u) \<longrightarrow> omDeleting (spMeta v)) (pwVers w) \<and>
     (\<forall>v \<in> set (pwVers w). (dereg lib v \<longrightarrow> omDeleting (spMeta v)) \<and> (torn lib v \<longrightarrow> pwTorn w))"

definition write_ok :: "metalib \<Rightarrow> pool_world \<Rightarrow> pool_write \<Rightarrow> bool" where
  "write_ok lib w x \<longleftrightarrow> (case x of
      WStoragePoolStatus p \<Rightarrow> torn lib p \<longrightarrow> pwTorn w
    | WStoragePool p \<Rightarrow> spsNode (spSpec p) = spsNode (spSpec (latest w)) \<and>
        (poolFinalizer \<in> set (omFinalizers (spMeta p)) \<or>
         (\<exists>v \<in> set (pwVers w). dereg lib v) \<and> (pwTorn w \<or> pwNodeLost w))
    | _ \<Rightarrow> True)"

definition report_ok :: "metalib \<Rightarrow> pool_world \<Rightarrow> agent_pool_write \<Rightarrow> bool" where
  "report_ok lib w x \<longleftrightarrow> (case x of AgentPoolStatus p \<Rightarrow>
     (dereg lib p \<longrightarrow> (\<exists>v \<in> set (pwVers w). dereg lib v)) \<and> (torn lib p \<longrightarrow> pwTorn w))"

definition clearance_ok :: "metalib \<Rightarrow> pool_world \<Rightarrow> bool" where
  "clearance_ok lib w \<longleftrightarrow> (cleared lib w \<longrightarrow> omDeleting (spMeta (op_version w)) \<and>
     (\<forall>q. CreateRPool q \<notin> set (pwWrites w)) \<and> (\<forall>q. pwPool w = Some q \<longrightarrow> \<not> pool_ours (latest w) q))"

definition pool_inv :: "metalib \<Rightarrow> pool_world \<Rightarrow> bool" where
  "pool_inv lib w \<longleftrightarrow> versions_ok lib w \<and> clearance_ok lib w \<and>
     (\<forall>x \<in> set (pwWrites w). write_ok lib w x) \<and> (\<forall>x \<in> set (pwReports w). report_ok lib w x) \<and>
     (pwGone w \<longrightarrow> (\<exists>v \<in> set (pwVers w). dereg lib v) \<and> (pwTorn w \<or> pwNodeLost w))"


section \<open>What the passes decide\<close>

lemma same_cond:
  assumes "metalib_laws lib"
    and "FindStatusCondition lib (spConditions (spStatus p)) ty = FindStatusCondition lib (spConditions (spStatus q)) ty"
  shows "pool_true lib p ty = pool_true lib q ty"
  using assms by (simp add: metalib_laws.is_true)

lemma live_pass_objects:
  assumes "WStoragePool p \<in> set (fst (pool_live_pass lib rec c ws b))"
  shows "WStoragePool p \<in> set ws"
proof -
  obtain ws' p' err where pass: "pool_status_pass lib c b = (ws', p', err)" by (metis prod_cases3)
  have "WStoragePool p \<notin> set ws'" using pool_status_writes[of "WStoragePool p" lib c b] by (auto simp: pass)
  moreover have "WStoragePool p \<notin> set (pool_alert rec b)" using pool_alert_writes by blast
  ultimately show ?thesis using assms by (auto simp: pool_live_pass_def pass Let_def split: sum.splits if_splits)
qed

text \<open>A pass over a pool that is not being deleted keeps the finalizer and both conditions of the
  handshake.\<close>

lemma live_pass_decides:
  assumes lib: "metalib_laws lib" and sees: "op_sees w sp c" and live: "\<not> omDeleting (spMeta sp)"
    and x: "x \<in> set (fst (StoragePoolReconcile lib rec c (omName (spMeta sp))))"
  shows "x = WStoragePoolStatus p \<Longrightarrow> dereg lib p = dereg lib sp \<and> torn lib p = torn lib sp"
    and "x = WStoragePool p \<Longrightarrow> spSpec p = spSpec sp \<and> poolFinalizer \<in> set (omFinalizers (spMeta p))"
proof -
  let ?held = "sp\<lparr>spMeta := fst (AddFinalizer lib (spMeta sp) poolFinalizer)\<rparr>"
  have get: "GetStoragePool c (omName (spMeta sp)) = Inr sp" using sees by (simp add: op_sees_def)
  have held: "poolFinalizer \<in> set (omFinalizers (spMeta ?held))" by (simp add: metalib_laws.add_set[OF lib])
  have upd: "spStatus p' = spStatus p" if "UpdateStoragePool c p = Inr p'" for p p'
  proof -
    from sees that obtain rv where "p' = p\<lparr>spMeta := (spMeta p)\<lparr>omResourceVersion := rv\<rparr>\<rparr>"
      unfolding op_sees_def by metis
    then show ?thesis by simp
  qed
  have base: "spStatus b = spStatus sp" if "pool_in_hand lib c (omName (spMeta sp)) = Some b" for b
    using that get live by (auto simp: pool_in_hand_def Let_def dest: upd split: if_splits sum.splits)
  show "dereg lib p = dereg lib sp \<and> torn lib p = torn lib sp" if "x = WStoragePoolStatus p"
  proof (cases "pool_in_hand lib c (omName (spMeta sp))")
    case None
    with x get live that show ?thesis
      by (auto simp: StoragePoolReconcile_def pool_in_hand_def Let_def split: if_splits sum.splits prod.splits)
  next
    case (Some b)
    obtain ws p' err where pass: "pool_status_pass lib c b = (ws, p', err)" by (metis prod_cases3)
    from metalib_laws.pool_live_writes[OF lib Some x] that have "p = p'"
      using pool_status_writes[of x lib c b] unfolding pass by auto
    moreover have "pool_true lib p' ty = pool_true lib sp ty" if "ty \<notin> {ConditionAvailable, ConditionRegistered}" for ty
      using same_cond[OF lib metalib_laws.pool_status_pass_frame[OF lib pass that]] base[OF Some] by simp
    ultimately show ?thesis by simp
  qed
  show "spSpec p = spSpec sp \<and> poolFinalizer \<in> set (omFinalizers (spMeta p))" if "x = WStoragePool p"
  proof -
    have "p = ?held"
      using x get live that
      by (auto simp: StoragePoolReconcile_def Let_def dest: live_pass_objects split: if_splits sum.splits prod.splits)
    then show ?thesis using held by simp
  qed
qed

text \<open>A pass over a deleting pool never registers it, gives the clearance only when nothing of it is
  registered, and drops the finalizer only after the clearance and the teardown or the loss of the
  node.\<close>

lemma delete_pass_decides:
  assumes lib: "metalib_laws lib" and sees: "op_sees w sp c" and del: "omDeleting (spMeta sp)"
    and x: "x \<in> set (fst (StoragePoolReconcile lib rec c (omName (spMeta sp))))"
  shows "x \<noteq> CreateRPool q"
    and "x = WStoragePoolStatus p \<Longrightarrow> torn lib p = torn lib sp \<and>
      (dereg lib p \<longrightarrow> (\<forall>q. pwPool w = Some q \<longrightarrow> \<not> pool_ours sp q))"
    and "x = WStoragePool p \<Longrightarrow> spSpec p = spSpec sp \<and> dereg lib sp \<and>
      (torn lib sp \<or> nodeGoneOrUnready c (spsNode (spSpec sp)) = Inr True)"
proof -
  have get: "GetStoragePool c (omName (spMeta sp)) = Inr sp" using sees by (simp add: op_sees_def)
  note W = metalib_laws.pool_delete_writes[OF lib get del x]
  have rel: "\<forall>q. pwPool w = Some q \<longrightarrow> \<not> pool_ours sp q" if "pool_released c sp"
    using that sees by (cases "GetPool c (omName (spMeta sp))") (auto simp: pool_released_def op_sees_def)
  show "x \<noteq> CreateRPool q" using W by auto
  show "torn lib p = torn lib sp \<and> (dereg lib p \<longrightarrow> (\<forall>q. pwPool w = Some q \<longrightarrow> \<not> pool_ours sp q))"
    if "x = WStoragePoolStatus p" using W that rel by auto
  show "spSpec p = spSpec sp \<and> dereg lib sp \<and> (torn lib sp \<or> nodeGoneOrUnready c (spsNode (spSpec sp)) = Inr True)"
    if "x = WStoragePool p" using W that by (auto simp: pool_release_ok_def)
qed

text \<open>The agent reports TornDown only for a teardown that succeeded, and keeps the clearance as it was.\<close>

lemma agent_pass_decides:
  assumes lib: "metalib_laws lib" and get: "GetStoragePool c (omName (spMeta sp)) = Inr sp"
    and x: "AgentPoolStatus p \<in> set (fst (value_of (agent_pass lib ah c smart sp) h))"
  shows "dereg lib p = dereg lib sp" and "torn lib p \<Longrightarrow> torn lib sp \<or> tears_down lib ah c smart sp h"
proof -
  have "dereg lib p = dereg lib sp \<and> (torn lib p \<longrightarrow> torn lib sp \<or> tears_down lib ah c smart sp h)"
  proof (cases "omDeleting (spMeta sp)")
    case True
    obtain err h' l' where run: "run_state (TeardownPool (ahOs ah) sp) (h, []) = (err, (h', l'))" by (metis prod_cases3)
    with True x get show ?thesis
      by (auto simp: agent_pass_def tears_down_def PoolAgentReconcile_def log_of_def value_of_def State_Monad.bind_def
          State_Monad.return_def Let_def set_agent_cond_def torn_down_def metalib_laws.is_true_set[OF lib]
          split: option.splits sum.splits if_splits)
  next
    case False
    obtain rep err h' l' where run: "run_state (EnsureHostPool (ahOs ah) (ahLib ah) (ahOrder ah) sp) (h, []) = ((rep, err), (h', l'))"
      by (metis prod.collapse)
    with False x get have p: "p = apply_report lib smart rep err sp"
      by (auto simp: agent_pass_def PoolAgentReconcile_def value_of_def State_Monad.bind_def State_Monad.return_def Let_def
          split: sum.splits if_splits)
    show ?thesis unfolding p
      by (auto simp: apply_report_def set_agent_cond_def Let_def metalib_laws.is_true_set[OF lib] split: option.splits)
  qed
  then show "dereg lib p = dereg lib sp" "torn lib p \<Longrightarrow> torn lib sp \<or> tears_down lib ah c smart sp h" by auto
qed


section \<open>Every step keeps the invariant\<close>

lemma deleting_lasts:
  assumes "versions_ok lib w" "pwOp w \<le> i" "i < length (pwVers w)" "omDeleting (spMeta (op_version w))"
  shows "omDeleting (spMeta (pwVers w ! i))"
proof (cases "pwOp w = i")
  case False
  then have "pwOp w < i" using assms(2) by simp
  with assms(1,3,4) show ?thesis unfolding versions_ok_def sorted_wrt_iff_nth_less by blast
qed (use assms in simp)

lemma deleting_latest:
  assumes "versions_ok lib w" "v \<in> set (pwVers w)" "omDeleting (spMeta v)"
  shows "omDeleting (spMeta (latest w))"
proof -
  obtain i where i: "i < length (pwVers w)" "v = pwVers w ! i" using assms(2) by (metis in_set_conv_nth)
  have last: "latest w = pwVers w ! (length (pwVers w) - 1)" using i by (cases "pwVers w") (auto simp: latest_def last_conv_nth)
  show ?thesis
  proof (cases "i = length (pwVers w) - 1")
    case False
    with i have "i < length (pwVers w) - 1" "length (pwVers w) - 1 < length (pwVers w)" by auto
    with assms(1,3) i show ?thesis unfolding last versions_ok_def sorted_wrt_iff_nth_less by blast
  qed (use i last assms(3) in simp)
qed

lemma version_in: "versions_ok lib w \<Longrightarrow> op_version w \<in> set (pwVers w)" "versions_ok lib w \<Longrightarrow> ag_version w \<in> set (pwVers w)"
  by (auto simp: versions_ok_def)

lemma ours_version:
  assumes "versions_ok lib w" "v \<in> set (pwVers w)"
  shows "pool_ours v q \<longleftrightarrow> pool_ours (latest w) q"
  using assms by (auto simp: versions_ok_def pool_ours_def)

text \<open>A new version that gives no clearance of its own.\<close>

lemma pool_inv_append:
  assumes inv: "pool_inv lib w"
    and v: "spsNode (spSpec v) = spsNode (spSpec (latest w))" "VGName v = VGName (latest w)"
      "omDeleting (spMeta (latest w)) \<longrightarrow> omDeleting (spMeta v)" "dereg lib v \<longrightarrow> cleared lib w" "torn lib v \<longrightarrow> pwTorn w"
    and sub: "set xs \<subseteq> set (pwWrites w)" "set rs \<subseteq> set (pwReports w)"
    and g: "g \<longrightarrow> (\<exists>v \<in> set (pwVers w). dereg lib v) \<and> (pwTorn w \<or> pwNodeLost w)"
  shows "pool_inv lib (w\<lparr>pwVers := pwVers w @ [v], pwWrites := xs, pwReports := rs, pwGone := g\<rparr>)" (is "pool_inv lib ?w")
proof -
  have vo: "versions_ok lib w" and co: "clearance_ok lib w" using inv by (auto simp: pool_inv_def)
  have new: "latest ?w = v" by (simp add: latest_def)
  have clr: "cleared lib w" if "cleared lib ?w" using that v(4) sub by (auto simp: cleared_def)
  have del: "omDeleting (spMeta v)" if "cleared lib w"
    using that co v(3) deleting_latest[OF vo version_in(1)[OF vo]] by (auto simp: clearance_ok_def)
  have vo': "versions_ok lib ?w"
    using vo v del deleting_latest[OF vo] unfolding versions_ok_def new
    by (auto simp: sorted_wrt_append)
  have "clearance_ok lib ?w"
    using clr co sub vo v(1,2) by (auto simp: clearance_ok_def new versions_ok_def nth_append pool_ours_def)
  moreover have "write_ok lib ?w x" if "x \<in> set xs" for x
  proof -
    have "write_ok lib w x" using that sub inv by (auto simp: pool_inv_def)
    then show ?thesis using v(1) by (auto simp: write_ok_def new split: pool_write.splits)
  qed
  moreover have "report_ok lib ?w x" if "x \<in> set rs" for x
  proof -
    have "report_ok lib w x" using that sub inv by (auto simp: pool_inv_def)
    then show ?thesis by (auto simp: report_ok_def split: agent_pool_write.splits)
  qed
  ultimately show ?thesis using vo' g by (auto simp: pool_inv_def)
qed

lemma op_pass_inv:
  assumes lib: "metalib_laws lib" and inv: "pool_inv lib w" and idle: "pwWrites w = []"
    and sees: "op_sees w (op_version w) c"
  shows "pool_inv lib (w\<lparr>pwWrites := fst (StoragePoolReconcile lib rec c (omName (spMeta (op_version w)))),
      pwNodeLost := (pwNodeLost w \<or> nodeGoneOrUnready c (spsNode (spSpec (op_version w))) = Inr True)\<rparr>)"
    (is "pool_inv lib ?w")
proof -
  have vo: "versions_ok lib w" and co: "clearance_ok lib w" using inv by (auto simp: pool_inv_def)
  let ?sp = "op_version w"
  have mem: "?sp \<in> set (pwVers w)" by (rule version_in(1)[OF vo])
  have new: "latest ?w = latest w" by (simp add: latest_def)
  have spec: "spsNode (spSpec ?sp) = spsNode (spSpec (latest w))" and tn: "torn lib ?sp \<longrightarrow> pwTorn w"
    and dr: "dereg lib ?sp \<longrightarrow> omDeleting (spMeta ?sp)"
    using vo mem by (auto simp: versions_ok_def)
  have "versions_ok lib ?w" using vo by (simp add: versions_ok_def latest_def)
  moreover have "clearance_ok lib ?w \<and> (\<forall>x \<in> set (pwWrites ?w). write_ok lib ?w x)"
  proof (cases "omDeleting (spMeta ?sp)")
    case True
    note D = delete_pass_decides[OF lib sees True]
    have "clearance_ok lib ?w"
      using D(1,2) co True ours_version[OF vo mem] by (auto simp: clearance_ok_def cleared_def new)
    moreover have "write_ok lib ?w x" if "x \<in> set (pwWrites ?w)" for x
      using D(2,3)[OF that[simplified]] spec tn mem by (auto simp: write_ok_def latest_def split: pool_write.splits)
    ultimately show ?thesis by blast
  next
    case False
    note L = live_pass_decides[OF lib sees False]
    have "\<not> cleared lib w" using co False by (auto simp: clearance_ok_def)
    then have "\<not> cleared lib ?w" using L(1) dr False by (auto simp: cleared_def)
    moreover have "write_ok lib ?w x" if "x \<in> set (pwWrites ?w)" for x
      using L[OF that[simplified]] spec tn by (auto simp: write_ok_def latest_def split: pool_write.splits)
    ultimately show ?thesis by (auto simp: clearance_ok_def)
  qed
  moreover have "\<forall>x \<in> set (pwReports ?w). report_ok lib ?w x"
    using inv by (auto simp: pool_inv_def report_ok_def split: agent_pool_write.splits)
  ultimately show ?thesis using inv by (auto simp: pool_inv_def)
qed


text \<open>Writes and reports may be lost, and r-drbd may change or drop its Pool.\<close>

lemma pool_inv_drop:
  assumes "pool_inv lib w" "set xs \<subseteq> set (pwWrites w)" "set rs \<subseteq> set (pwReports w)"
    and "\<forall>q. r = Some q \<longrightarrow> (\<exists>q'. pwPool w = Some q' \<and> plSpec q = plSpec q')"
  shows "pool_inv lib (w\<lparr>pwWrites := xs, pwReports := rs, pwPool := r\<rparr>)" (is "pool_inv lib ?w")
proof -
  have "cleared lib ?w \<Longrightarrow> cleared lib w" using assms(2) by (auto simp: cleared_def)
  then have "clearance_ok lib ?w"
    using assms by (fastforce simp: pool_inv_def clearance_ok_def latest_def pool_ours_def)
  moreover have "versions_ok lib ?w" using assms(1) by (simp add: pool_inv_def versions_ok_def latest_def)
  moreover have "write_ok lib ?w x = write_ok lib w x" "report_ok lib ?w y = report_ok lib w y" for x y
    by (simp_all add: write_ok_def report_ok_def latest_def split: pool_write.split agent_pool_write.split)
  ultimately show ?thesis using assms by (auto simp: pool_inv_def)
qed

lemma put_status_inv:
  assumes inv: "pool_inv lib w" and p: "dereg lib p \<longrightarrow> cleared lib w" "torn lib p \<longrightarrow> pwTorn w"
    and sub: "set xs \<subseteq> set (pwWrites w)" "set rs \<subseteq> set (pwReports w)"
  shows "pool_inv lib ((put_status p rv w)\<lparr>pwWrites := xs, pwReports := rs\<rparr>)"
proof -
  let ?v = "(latest w)\<lparr>spStatus := spStatus p, spMeta := (spMeta (latest w))\<lparr>omResourceVersion := rv\<rparr>\<rparr>"
  have "pool_inv lib (w\<lparr>pwVers := pwVers w @ [?v], pwWrites := xs, pwReports := rs, pwGone := pwGone w\<rparr>)"
    using inv p sub by (intro pool_inv_append) (auto simp: VGName_def pool_inv_def)
  then show ?thesis by (simp add: put_status_def)
qed

lemma version_conds:
  assumes "pool_inv lib w"
  shows "dereg lib (latest w) \<longrightarrow> cleared lib w" "torn lib (latest w) \<longrightarrow> pwTorn w"
proof -
  have vo: "versions_ok lib w" using assms by (simp add: pool_inv_def)
  then have "latest w \<in> set (pwVers w)" by (cases "pwVers w") (auto simp: latest_def versions_ok_def)
  with vo show "dereg lib (latest w) \<longrightarrow> cleared lib w" "torn lib (latest w) \<longrightarrow> pwTorn w"
    by (auto simp: cleared_def versions_ok_def)
qed

lemma put_object_inv:
  assumes inv: "pool_inv lib w" and p: "write_ok lib w (WStoragePool p)" and sub: "set xs \<subseteq> set (pwWrites w)"
    and live: "\<not> pwGone w"
  shows "pool_inv lib ((put_object p rv w)\<lparr>pwWrites := xs\<rparr>)"
proof -
  let ?v = "(latest w)\<lparr>spSpec := spSpec p,
     spMeta := (spMeta (latest w))\<lparr>omFinalizers := omFinalizers (spMeta p), omResourceVersion := rv\<rparr>\<rparr>"
  let ?g = "omDeleting (spMeta (latest w)) \<and> omFinalizers (spMeta p) = []"
  have "pool_inv lib (w\<lparr>pwVers := pwVers w @ [?v], pwWrites := xs, pwReports := pwReports w, pwGone := ?g\<rparr>)"
    using inv p sub version_conds[OF inv] by (intro pool_inv_append) (auto simp: VGName_def write_ok_def)
  then show ?thesis by (cases w) (simp add: put_object_def)
qed

lemma ag_pass_inv:
  assumes lib: "metalib_laws lib" and inv: "pool_inv lib w"
    and get: "GetStoragePool c (omName (spMeta (ag_version w))) = Inr (ag_version w)"
  shows "pool_inv lib (w\<lparr>pwReports := fst (value_of (agent_pass lib ah c smart (ag_version w)) h),
      pwTorn := (pwTorn w \<or> tears_down lib ah c smart (ag_version w) h)\<rparr>)" (is "pool_inv lib ?w")
proof -
  have vo: "versions_ok lib w" using inv by (simp add: pool_inv_def)
  have mem: "ag_version w \<in> set (pwVers w)" by (rule version_in(2)[OF vo])
  have "report_ok lib ?w x" if "x \<in> set (pwReports ?w)" for x
  proof -
    obtain p where x: "x = AgentPoolStatus p" by (cases x)
    note A = agent_pass_decides[OF lib get that[unfolded x, simplified]]
    have "torn lib (ag_version w) \<longrightarrow> pwTorn w" using vo mem by (auto simp: versions_ok_def)
    with A mem show ?thesis by (auto simp: report_ok_def x)
  qed
  moreover have "versions_ok lib ?w" using vo by (auto simp: versions_ok_def latest_def)
  moreover have "clearance_ok lib ?w" using inv by (auto simp: pool_inv_def clearance_ok_def cleared_def latest_def)
  moreover have "write_ok lib w x \<Longrightarrow> write_ok lib ?w x" for x
    by (auto simp: write_ok_def latest_def split: pool_write.splits)
  ultimately show ?thesis using inv by (auto simp: pool_inv_def)
qed

lemma pool_inv_step:
  assumes lib: "metalib_laws lib" and step: "pool_step lib ah w w'" and inv: "pool_inv lib w"
  shows "pool_inv lib w'"
  using step
proof cases
  case (op_observes i)
  then show ?thesis using inv deleting_lasts[of lib w i]
    by (auto simp: pool_inv_def versions_ok_def clearance_ok_def cleared_def latest_def write_ok_def report_ok_def
        split: pool_write.splits agent_pool_write.splits)
next
  case (ag_observes i)
  then show ?thesis using inv
    by (auto simp: pool_inv_def versions_ok_def clearance_ok_def cleared_def latest_def write_ok_def report_ok_def
        split: pool_write.splits agent_pool_write.splits)
next
  case (op_pass c rec)
  then show ?thesis using op_pass_inv[OF lib inv] by blast
next
  case op_aborts
  then show ?thesis using pool_inv_drop[OF inv, of "[]" "pwReports w" "pwPool w"] by simp
next
  case (op_skips x xs)
  then show ?thesis using pool_inv_drop[OF inv, of xs "pwReports w" "pwPool w"] by auto
next
  case (op_creates q xs)
  then show ?thesis using inv
    by (auto simp: pool_inv_def versions_ok_def clearance_ok_def cleared_def latest_def write_ok_def report_ok_def
        split: pool_write.splits agent_pool_write.splits)
next
  case (op_deletes q xs q')
  then show ?thesis
    using pool_inv_drop[OF inv, of xs "pwReports w" "Some (q'\<lparr>plMeta := (plMeta q')\<lparr>omDeleting := True\<rparr>\<rparr>)"] by auto
next
  case (op_status p xs rv)
  then have "dereg lib p \<longrightarrow> cleared lib w" "torn lib p \<longrightarrow> pwTorn w"
    using inv by (auto simp: cleared_def pool_inv_def write_ok_def)
  then show ?thesis using put_status_inv[OF inv, of p xs "pwReports w" rv] op_status by (auto simp: put_status_def)
next
  case (op_updates p xs rv)
  then show ?thesis using put_object_inv[OF inv, of p xs rv] inv by (auto simp: pool_inv_def same_rv_def)
next
  case (ag_pass c smart h)
  then show ?thesis using ag_pass_inv[OF lib inv, of c ah smart h] by simp
next
  case ag_fails
  then show ?thesis using pool_inv_drop[OF inv, of "pwWrites w" "[]" "pwPool w"] by simp
next
  case (ag_status p xs rv)
  then have "dereg lib p \<longrightarrow> cleared lib w" "torn lib p \<longrightarrow> pwTorn w"
    using inv by (auto simp: cleared_def pool_inv_def report_ok_def)
  then show ?thesis using put_status_inv[OF inv, of p "pwWrites w" xs rv] ag_status by (auto simp: put_status_def)
next
  case (user_deletes rv)
  let ?v = "(latest w)\<lparr>spMeta := (spMeta (latest w))\<lparr>omDeleting := True, omResourceVersion := rv\<rparr>\<rparr>"
  have "pool_inv lib (w\<lparr>pwVers := pwVers w @ [?v], pwWrites := pwWrites w, pwReports := pwReports w, pwGone := pwGone w\<rparr>)"
    using inv version_conds[OF inv] user_deletes by (intro pool_inv_append) (auto simp: VGName_def)
  then show ?thesis unfolding user_deletes(1) by simp
next
  case (user_edits sp rv g)
  let ?v = "(latest w)\<lparr>spSpec := sp, spMeta := (spMeta (latest w))\<lparr>omGeneration := g, omResourceVersion := rv\<rparr>\<rparr>"
  have "pool_inv lib (w\<lparr>pwVers := pwVers w @ [?v], pwWrites := pwWrites w, pwReports := pwReports w, pwGone := pwGone w\<rparr>)"
    using inv version_conds[OF inv] user_edits by (intro pool_inv_append) (auto simp: VGName_def)
  then show ?thesis unfolding user_edits(1) by simp
next
  case (rdrbd_reports q st)
  then show ?thesis using pool_inv_drop[OF inv, of "pwWrites w" "pwReports w" "Some (q\<lparr>plStatus := st\<rparr>)"] by simp
next
  case (rdrbd_releases q)
  then show ?thesis using pool_inv_drop[OF inv, of "pwWrites w" "pwReports w" None] by simp
qed


lemma pool_run_inv:
  assumes lib: "metalib_laws lib" and "pool_run lib ah w"
  shows "pool_inv lib w"
proof -
  from assms(2) obtain w0 where s: "pool_start w0" and r: "(pool_step lib ah)\<^sup>*\<^sup>* w0 w" by (auto simp: pool_run_def)
  have "pool_inv lib w0"
    using s by (auto simp: pool_start_def pool_inv_def versions_ok_def clearance_ok_def cleared_def latest_def
        metalib_laws.is_true[OF lib] metalib_laws.find_nil[OF lib])
  with r show ?thesis by (induction rule: rtranclp_induct) (auto intro: pool_inv_step[OF lib])
qed

text \<open>Clearance lasts: what was cleared stays unregistered.\<close>

lemma cleared_lasts:
  assumes "(pool_step lib ah)\<^sup>*\<^sup>* w w'" "v \<in> set (pwVers w)"
  shows "v \<in> set (pwVers w')"
  using assms by (induction rule: rtranclp_induct)
    (auto elim!: pool_step.cases simp: put_status_def put_object_def)

lemma agent_runs_cleared:
  assumes "GetStoragePool c (omName (spMeta sp)) = Inr sp" "omDeleting (spMeta sp)"
    and "log_of (agent_pass lib ah c smart sp) h \<noteq> []"
  shows "dereg lib sp \<and> spsNode (spSpec sp) = ahNode ah"
  using assms
  by (auto simp: agent_pass_def PoolAgentReconcile_def log_of_def State_Monad.return_def split: if_splits)

section \<open>The handshake is safe\<close>



text \<open>A run to the point where the agent wipes: the user deletes a pool that never registered.\<close>

definition wit_host :: "unit agent_host" where
  "wit_host = \<lparr>ahOs = foreign_host, ahLib = lib0, ahOrder = (\<lambda>_. []), ahNode = ''a''\<rparr>"

definition wit_pool :: "bool \<Rightarrow> string \<Rightarrow> Condition list \<Rightarrow> StoragePool" where
  "wit_pool del rv cs = (demo_pool cs)\<lparr>spMeta := (spMeta (demo_pool cs))\<lparr>omDeleting := del, omResourceVersion := rv\<rparr>\<rparr>"

definition wit_clearance :: Condition where
  "wit_clearance = pool_cond ConditionDeregistered ConditionTrue ReasonReady '''' (wit_pool True ''2'' [])"

definition wit_world :: "StoragePool list \<Rightarrow> nat \<Rightarrow> nat \<Rightarrow> pool_write list \<Rightarrow> pool_world" where
  "wit_world vs i j ws = \<lparr>pwVers = vs, pwOp = i, pwAg = j, pwPool = None, pwWrites = ws, pwReports = [],
     pwTorn = False, pwNodeLost = False, pwGone = False\<rparr>"

abbreviation "wit_versions \<equiv> [wit_pool False ''1'' [], wit_pool True ''2'' [], wit_pool True ''3'' [wit_clearance]]"

lemma wit_pass:
  "fst (StoragePoolReconcile std_metalib True (pool_cluster (wit_pool True ''2'' []) None) ''p'') =
     [WStoragePoolStatus (wit_pool True ''2'' [wit_clearance])]"
  "nodeGoneOrUnready (pool_cluster (wit_pool True ''2'' []) None) ''a'' = Inr False"
  by (simp_all add: StoragePoolReconcile_def pool_reconcileDelete_def DeletePool_def pool_cluster_def wit_pool_def
      demo_pool_def std_metalib_def Let_def set_pool_cond_def wit_clearance_def pool_cond_def not_found_def client0_def
      nodeGoneOrUnready_def node0_def pool0_def meta0_def nodeReady_def)


lemma wit_pool_simps [simp]:
  "omName (spMeta (wit_pool d rv cs)) = ''p''" "omDeleting (spMeta (wit_pool d rv cs)) = d"
  "omResourceVersion (spMeta (wit_pool d rv cs)) = rv" "spConditions (spStatus (wit_pool d rv cs)) = cs"
  "spsNode (spSpec (wit_pool d rv cs)) = ''a''" "omFinalizers (spMeta (wit_pool d rv cs)) = [poolFinalizer]"
  by (simp_all add: wit_pool_def demo_pool_def meta0_def)

lemma wit_pool_upd:
  "(wit_pool d rv cs)\<lparr>spStatus := spStatus (wit_pool d' rv' cs'), spMeta := (spMeta (wit_pool d rv cs))\<lparr>omResourceVersion := rv''\<rparr>\<rparr> =
     wit_pool d rv'' cs'"
  "(wit_pool d rv cs)\<lparr>spMeta := (spMeta (wit_pool d rv cs))\<lparr>omDeleting := d', omResourceVersion := rv'\<rparr>\<rparr> = wit_pool d' rv' cs"
  by (simp_all add: wit_pool_def demo_pool_def)

lemma wit_run: "pool_run std_metalib wit_host (wit_world wit_versions 1 2 [])"
proof -
  let ?step = "pool_step std_metalib wit_host"
  let ?v1 = "wit_pool False ''1'' []" and ?v2 = "wit_pool True ''2'' []" and ?st = "WStoragePoolStatus (wit_pool True ''2'' [wit_clearance])"
  have "?step (wit_world [?v1] 0 0 []) (wit_world [?v1, ?v2] 0 0 [])"
    using pool_step.user_deletes[of "wit_world [?v1] 0 0 []" "''2''" std_metalib wit_host]
    by (simp add: wit_world_def latest_def fresh_rv_def wit_pool_upd)
  moreover have "?step (wit_world [?v1, ?v2] 0 0 []) (wit_world [?v1, ?v2] 1 0 [])"
    using pool_step.op_observes[of "wit_world [?v1, ?v2] 0 0 []" 1 std_metalib wit_host] by (simp add: wit_world_def)
  moreover have "?step (wit_world [?v1, ?v2] 1 0 []) (wit_world [?v1, ?v2] 1 0 [?st])"
  proof -
    have upd: "\<exists>rv. p = p\<lparr>spMeta := (spMeta p)\<lparr>omResourceVersion := rv\<rparr>\<rparr>" for p :: StoragePool
      by (rule exI[of _ "omResourceVersion (spMeta p)"]) simp
    have "op_sees (wit_world [?v1, ?v2] 1 0 []) ?v2 (pool_cluster ?v2 None)"
      using upd by (simp add: op_sees_def wit_world_def pool_cluster_def client0_def)
    then show ?thesis
      using pool_step.op_pass[of "wit_world [?v1, ?v2] 1 0 []" "pool_cluster ?v2 None" std_metalib wit_host True]
      by (simp add: wit_world_def wit_pass)
  qed
  moreover have "?step (wit_world [?v1, ?v2] 1 0 [?st]) (wit_world wit_versions 1 0 [])"
    using pool_step.op_status[of "wit_world [?v1, ?v2] 1 0 [?st]" "wit_pool True ''2'' [wit_clearance]" "[]" "''3''" std_metalib wit_host]
    by (simp add: wit_world_def same_rv_def latest_def fresh_rv_def put_status_def wit_pool_upd)
  moreover have "?step (wit_world wit_versions 1 0 []) (wit_world wit_versions 1 2 [])"
    using pool_step.ag_observes[of "wit_world wit_versions 1 0 []" 2 std_metalib wit_host] by (simp add: wit_world_def)
  ultimately have "?step\<^sup>*\<^sup>* (wit_world [?v1] 0 0 []) (wit_world wit_versions 1 2 [])"
    by (meson converse_rtranclp_into_rtranclp rtranclp.rtrancl_refl)
  moreover have "pool_start (wit_world [?v1] 0 0 [])" by (simp add: pool_start_def wit_world_def)
  ultimately show ?thesis unfolding pool_run_def by blast
qed


end
