(* ===== verification/Server_Main.thy ===== *)
theory Server_Main
  imports Go_Strings
begin

text \<open>
  What \<open>cmd/stornas/main.go\<close> decides itself: the route table with the gate each handler stands behind, the
  dispatch of a request, the file the console's fallback looks up, and the small configuration helpers. Flags,
  the listener and the shutdown are the standard library's.
\<close>

section \<open>Configuration\<close>

text \<open>\<open>os.Getenv\<close> is the argument \<open>getenv\<close>; the in-cluster and the kubeconfig loader are arguments too.\<close>

definition envOr :: "(string \<Rightarrow> string) \<Rightarrow> string \<Rightarrow> string \<Rightarrow> string" where
  "envOr getenv key def0 = (let v = getenv key in if v \<noteq> '''' then v else def0)"

definition kubeConfig :: "'e + 'c \<Rightarrow> 'e + 'c \<Rightarrow> 'e + 'c" where
  "kubeConfig inCluster loaded = (case inCluster of Inr cfg \<Rightarrow> Inr cfg | Inl _ \<Rightarrow> loaded)"

section \<open>Paths\<close>

text \<open>\<open>filepath.Clean\<close> and \<open>filepath.Join\<close> of two elements: the elements kept so far are a stack.\<close>

abbreviation path_split :: "string \<Rightarrow> string list" where
  "path_split s \<equiv> splitP (\<lambda>c. c = CHR ''/'') s"

definition rooted :: "string \<Rightarrow> bool" where
  "rooted s \<longleftrightarrow> s \<noteq> [] \<and> hd s = CHR ''/''"

fun clean_elems :: "bool \<Rightarrow> string list \<Rightarrow> string list \<Rightarrow> string list" where
  "clean_elems r st [] = rev st"
| "clean_elems r st (e # es) =
     (if e = '''' \<or> e = ''.'' then clean_elems r st es
      else if e = ''..'' then
        (case st of
           [] \<Rightarrow> if r then clean_elems r [] es else clean_elems r [''..''] es
         | t # ts \<Rightarrow> if t = ''..'' then clean_elems r (''..'' # st) es else clean_elems r ts es)
      else clean_elems r (e # st) es)"

definition render :: "bool \<Rightarrow> string list \<Rightarrow> string" where
  "render r es = (if r then ''/'' @ joinWith ''/'' es else if es = [] then ''.'' else joinWith ''/'' es)"

definition path_Clean :: "string \<Rightarrow> string" where
  "path_Clean s = render (rooted s) (clean_elems (rooted s) [] (path_split s))"

definition path_Join :: "string \<Rightarrow> string \<Rightarrow> string" where
  "path_Join a b = (if a \<noteq> '''' then path_Clean (a @ ''/'' @ b) else if b \<noteq> '''' then path_Clean b else '''')"

section \<open>The console's fallback (spaHandler)\<close>

text \<open>\<open>os.Stat\<close> answers whether a path is a directory; the file server and \<open>ServeFile\<close> are the standard
  library's.\<close>

definition trimPrefix :: "string \<Rightarrow> string \<Rightarrow> string" where
  "trimPrefix s p = (if hasPrefix s p then drop (length p) s else s)"

datatype spa_answer = ServeTree string | ServeIndex string

definition spaPath :: "string \<Rightarrow> string \<Rightarrow> string" where
  "spaPath dir url = path_Join dir (path_Clean (''/'' @ trimPrefix url ''/''))"

definition spaHandler :: "(string \<Rightarrow> bool option) \<Rightarrow> string \<Rightarrow> string \<Rightarrow> spa_answer" where
  "spaHandler stat dir url =
     (case stat (spaPath dir url) of
        Some isDir \<Rightarrow> if \<not> isDir then ServeTree url else ServeIndex (path_Join dir ''index.html'')
      | None \<Rightarrow> ServeIndex (path_Join dir ''index.html''))"

definition plain_elem :: "string \<Rightarrow> bool" where
  "plain_elem e \<longleftrightarrow> e \<noteq> '''' \<and> e \<noteq> ''.'' \<and> e \<noteq> ''..'' \<and> CHR ''/'' \<notin> set e"

lemma clean_elems_append:
  "clean_elems r st (es @ fs) = clean_elems r (rev (clean_elems r st es)) fs"
  by (induction r st es rule: clean_elems.induct) (auto split: list.splits)

lemma clean_elems_plain: "list_all plain_elem es \<Longrightarrow> clean_elems r st es = rev st @ es"
  by (induction es arbitrary: st) (auto simp: plain_elem_def)

lemma clean_elems_rooted:
  assumes "list_all (\<lambda>e. CHR ''/'' \<notin> set e) es" "list_all plain_elem st"
  shows "list_all plain_elem (clean_elems True st es)"
  using assms by (induction True st es rule: clean_elems.induct) (auto simp: plain_elem_def split: list.splits)

lemma path_split_slash: "path_split (a @ ''/'' @ b) = path_split a @ path_split b"
  by (induction a) (auto split: list.splits)

lemma path_split_join: "list_all plain_elem es \<Longrightarrow> es \<noteq> [] \<Longrightarrow> path_split (joinWith ''/'' es) = es"
proof (induction "''/''" es rule: joinWith.induct)
  case (2 x)
  then show ?case by (auto simp: plain_elem_def intro: splitP_single)
next
  case (3 x y ys)
  then have "path_split x = [x]" by (auto simp: plain_elem_def intro: splitP_single)
  with 3 show ?case by (simp only: joinWith.simps path_split_slash) simp
qed simp

text \<open>The file looked up lies under the directory, whatever the request path says: it is the cleaned
  directory followed by elements none of which leads up.\<close>

theorem spa_confined:
  assumes "dir \<noteq> ''''"
  shows "\<exists>es. list_all plain_elem es \<and>
    spaPath dir url = render (rooted dir) (clean_elems (rooted dir) [] (path_split dir) @ es)"
proof -
  let ?u = "''/'' @ trimPrefix url ''/''"
  define es where "es = clean_elems True [] (path_split ?u)"
  have plain: "list_all plain_elem es"
    unfolding es_def by (rule clean_elems_rooted) (auto simp: list_all_iff dest: splitP_no_sep)
  have clean: "path_Clean ?u = ''/'' @ joinWith ''/'' es" by (simp add: path_Clean_def render_def rooted_def es_def)
  have "clean_elems r st (path_split (''/'' @ joinWith ''/'' es)) = rev st @ es" for r st
  proof (cases "es = []")
    case False
    have "path_split (''/'' @ joinWith ''/'' es) = [''''] @ es"
      using path_split_slash[of "[]" "joinWith ''/'' es"] path_split_join[OF plain False] by simp
    then show ?thesis using plain by (simp add: clean_elems_plain)
  qed simp
  then have "clean_elems r [] (path_split (dir @ ''/'' @ ''/'' @ joinWith ''/'' es)) =
      clean_elems r [] (path_split dir) @ es" for r
    by (simp only: path_split_slash[of dir] clean_elems_append) simp
  moreover have "rooted (dir @ x) = rooted dir" for x using assms by (simp add: rooted_def)
  ultimately have "spaPath dir url = render (rooted dir) (clean_elems (rooted dir) [] (path_split dir) @ es)"
    using assms unfolding spaPath_def path_Join_def clean by (simp add: path_Clean_def)
  with plain show ?thesis by blast
qed


section \<open>The routes\<close>

text \<open>A pattern of \<open>http.ServeMux\<close> is a method and the elements of a path, literal or wildcard; a \<open>GET\<close>
  pattern also takes \<open>HEAD\<close>. The handlers are named as the source names them.\<close>

datatype seg = Lit string | Wild string

datatype gate = Ungated | NeedsSession | NeedsAdmin

record route =
  rtMethod :: string
  rtPath :: "seg list"
  rtGate :: gate
  rtHandler :: string

abbreviation api_path :: "seg list \<Rightarrow> seg list" where
  "api_path p \<equiv> Lit ''api'' # Lit ''v1'' # p"

abbreviation ns_path :: "seg list \<Rightarrow> seg list" where
  "ns_path p \<equiv> api_path (Lit ''namespaces'' # Wild ''namespace'' # p)"

abbreviation admin_only :: "string \<Rightarrow> seg list \<Rightarrow> string \<Rightarrow> route" where
  "admin_only m p h \<equiv> \<lparr>rtMethod = m, rtPath = p, rtGate = NeedsAdmin, rtHandler = h\<rparr>"

definition routes :: "route list" where
  "routes =
    [\<lparr>rtMethod = ''GET'', rtPath = [Lit ''healthz''], rtGate = Ungated, rtHandler = ''healthz''\<rparr>,
     \<lparr>rtMethod = ''GET'', rtPath = api_path [Lit ''status''], rtGate = Ungated, rtHandler = ''status''\<rparr>,
     \<lparr>rtMethod = ''POST'', rtPath = api_path [Lit ''login''], rtGate = Ungated, rtHandler = ''sessions.Login''\<rparr>,
     \<lparr>rtMethod = ''POST'', rtPath = api_path [Lit ''logout''], rtGate = Ungated, rtHandler = ''sessions.Logout''\<rparr>,
     \<lparr>rtMethod = ''GET'', rtPath = api_path [Lit ''session''], rtGate = Ungated, rtHandler = ''sessions.Session''\<rparr>,
     \<lparr>rtMethod = ''POST'', rtPath = api_path [Lit ''session'', Lit ''password''], rtGate = Ungated, rtHandler = ''sessions.ChangePassword''\<rparr>,
     \<lparr>rtMethod = ''GET'', rtPath = api_path [Lit ''state''], rtGate = NeedsSession, rtHandler = ''snapFn''\<rparr>,
     \<lparr>rtMethod = ''GET'', rtPath = api_path [Lit ''stream''], rtGate = NeedsSession, rtHandler = ''hub''\<rparr>,
     admin_only ''POST'' (api_path [Lit ''pools'']) ''mutate.CreatePool'',
     admin_only ''DELETE'' (api_path [Lit ''pools'', Wild ''name'']) ''mutate.DeletePool'',
     admin_only ''POST'' (api_path [Lit ''pools'', Wild ''name'', Lit ''replace'']) ''mutate.ReplacePoolDevice'',
     admin_only ''POST'' (ns_path [Lit ''volumes'']) ''mutate.CreateVolume'',
     admin_only ''DELETE'' (ns_path [Lit ''volumes'', Wild ''name'']) ''mutate.DeleteVolume'',
     admin_only ''POST'' (ns_path [Lit ''volumes'', Wild ''name'', Lit ''resize'']) ''mutate.ResizeVolume'',
     admin_only ''POST'' (ns_path [Lit ''volumes'', Wild ''name'', Lit ''resolve-split'']) ''mutate.ResolveSplitBrain'',
     admin_only ''POST'' (api_path [Lit ''shares'']) ''mutate.CreateShare'',
     admin_only ''DELETE'' (api_path [Lit ''shares'', Wild ''name'']) ''mutate.DeleteShare'',
     admin_only ''POST'' (api_path [Lit ''targets'']) ''mutate.CreateTarget'',
     admin_only ''DELETE'' (api_path [Lit ''targets'', Wild ''name'']) ''mutate.DeleteTarget'',
     admin_only ''POST'' (ns_path [Lit ''snapshots'']) ''mutate.CreateSnapshot'',
     admin_only ''DELETE'' (ns_path [Lit ''snapshots'', Wild ''name'']) ''mutate.DeleteSnapshot'',
     admin_only ''GET'' (api_path [Lit ''users'']) ''mutate.ListUsers'',
     admin_only ''POST'' (api_path [Lit ''users'']) ''mutate.CreateUser'',
     admin_only ''DELETE'' (api_path [Lit ''users'', Wild ''name'']) ''mutate.DeleteUser'']"

text \<open>The catch-all \<open>GET /\<close>.\<close>

definition console :: route where
  "console = \<lparr>rtMethod = ''GET'', rtPath = [], rtGate = Ungated, rtHandler = ''spaHandler''\<rparr>"

fun seg_matches :: "seg \<Rightarrow> string \<Rightarrow> bool" where
  "seg_matches (Lit a) e \<longleftrightarrow> e = a"
| "seg_matches (Wild _) e \<longleftrightarrow> e \<noteq> ''''"

definition method_matches :: "string \<Rightarrow> string \<Rightarrow> bool" where
  "method_matches m m' \<longleftrightarrow> m' = m \<or> m = ''GET'' \<and> m' = ''HEAD''"

definition route_matches :: "string \<Rightarrow> string list \<Rightarrow> route \<Rightarrow> bool" where
  "route_matches m es r \<longleftrightarrow> method_matches (rtMethod r) m \<and> list_all2 seg_matches (rtPath r) es"

definition dispatch :: "string \<Rightarrow> string list \<Rightarrow> route option" where
  "dispatch m es =
     (case find (route_matches m es) routes of
        Some r \<Rightarrow> Some r
      | None \<Rightarrow> if method_matches ''GET'' m then Some console else None)"

text \<open>Two patterns that no request can match together: the order of registration does not matter.\<close>

fun segs_apart :: "seg list \<Rightarrow> seg list \<Rightarrow> bool" where
  "segs_apart (Lit a # p) (Lit b # q) \<longleftrightarrow> a \<noteq> b \<or> segs_apart p q"
| "segs_apart (_ # p) (_ # q) \<longleftrightarrow> segs_apart p q"
| "segs_apart [] [] \<longleftrightarrow> False"
| "segs_apart _ _ \<longleftrightarrow> True"

lemma segs_apart_disjoint: "segs_apart p q \<Longrightarrow> list_all2 seg_matches p es \<Longrightarrow> \<not> list_all2 seg_matches q es"
  by (induction p q arbitrary: es rule: segs_apart.induct) (auto simp: list_all2_Cons1)

definition routes_apart :: "route \<Rightarrow> route \<Rightarrow> bool" where
  "routes_apart r s \<longleftrightarrow> rtMethod r \<noteq> rtMethod s \<or> segs_apart (rtPath r) (rtPath s)"

lemma routes_pairwise_apart: "sorted_wrt routes_apart routes"
  by code_simp

lemma routes_methods: "list_all (\<lambda>r. rtMethod r \<in> {''GET'', ''POST'', ''DELETE''}) routes"
  by code_simp

lemma apart_disjoint:
  assumes "routes_apart r s" "r \<in> set routes" "s \<in> set routes" "route_matches m es r"
  shows "\<not> route_matches m es s"
proof
  assume "route_matches m es s"
  with assms(4) segs_apart_disjoint assms(1)
  have "rtMethod r \<noteq> rtMethod s" "method_matches (rtMethod r) m" "method_matches (rtMethod s) m"
    by (auto simp: route_matches_def routes_apart_def)
  moreover have "rtMethod r \<in> {''GET'', ''POST'', ''DELETE''}" "rtMethod s \<in> {''GET'', ''POST'', ''DELETE''}"
    using routes_methods assms(2,3) by (auto simp: list_all_iff)
  ultimately show False by (auto simp: method_matches_def)
qed

text \<open>\<^bold>\<open>C39\<close>. A request has at most one route, so registering them in another order changes nothing; a request that is
  not a read reaches an admin handler or one of the three session handlers; the state and the stream
  are behind a session, and every handler of the mutation API behind the admin gate.\<close>

theorem routes_gated:
  "(\<forall>r \<in> set routes. route_matches m es r \<longrightarrow> dispatch m es = Some r) \<and>
   (\<forall>r. dispatch m es = Some r \<longrightarrow> m \<noteq> ''GET'' \<longrightarrow> m \<noteq> ''HEAD'' \<longrightarrow>
      rtGate r = NeedsAdmin \<or> rtHandler r \<in> {''sessions.Login'', ''sessions.Logout'', ''sessions.ChangePassword''}) \<and>
   (\<forall>r. dispatch m es = Some r \<longrightarrow> rtHandler r \<in> {''snapFn'', ''hub''} \<longrightarrow> rtGate r = NeedsSession) \<and>
   (\<forall>r. dispatch m es = Some r \<longrightarrow> hasPrefix (rtHandler r) ''mutate.'' \<longrightarrow> rtGate r = NeedsAdmin)"
proof -
  have table: "list_all (\<lambda>r. (rtMethod r \<noteq> ''GET'' \<longrightarrow> rtGate r = NeedsAdmin \<or>
        rtHandler r \<in> {''sessions.Login'', ''sessions.Logout'', ''sessions.ChangePassword''}) \<and>
      (rtHandler r \<in> {''snapFn'', ''hub''} \<longrightarrow> rtGate r = NeedsSession) \<and>
      (hasPrefix (rtHandler r) ''mutate.'' \<longrightarrow> rtGate r = NeedsAdmin)) routes"
    by code_simp
  have first: "dispatch m es = Some r" if r: "r \<in> set routes" "route_matches m es r" for r
  proof -
    obtain s where s: "find (route_matches m es) routes = Some s" using r by (cases "find (route_matches m es) routes") (auto simp: find_None_iff)
    then obtain i where i: "i < length routes" "route_matches m es (routes ! i)" "s = routes ! i"
      by (auto simp: find_Some_iff)
    obtain j where j: "j < length routes" "r = routes ! j" using r(1) by (metis in_set_conv_nth)
    have "i = j"
    proof (rule ccontr)
      assume "i \<noteq> j"
      then have "routes_apart (routes ! i) (routes ! j) \<or> routes_apart (routes ! j) (routes ! i)"
        using routes_pairwise_apart i j unfolding sorted_wrt_iff_nth_less by (metis linorder_neqE_nat)
      with apart_disjoint i j r show False by (metis nth_mem)
    qed
    with s i j show ?thesis by (simp add: dispatch_def)
  qed
  have from_table: "r \<in> set routes \<and> method_matches (rtMethod r) m \<or> r = console \<and> method_matches ''GET'' m"
    if "dispatch m es = Some r" for r
    using that by (auto simp: dispatch_def find_Some_iff route_matches_def split: option.splits if_splits)
  have "hasPrefix (rtHandler console) ''mutate.'' = False" "rtHandler console = ''spaHandler''"
    by (simp_all add: console_def hasPrefix_def)
  with table from_table first show ?thesis
    unfolding list_all_iff by (auto simp: method_matches_def)
qed

theorem routes_gated_witness:
  "\<exists>r. dispatch ''DELETE'' [''api'', ''v1'', ''pools'', ''a''] = Some r \<and> rtHandler r = ''mutate.DeletePool'' \<and>
     rtGate r = NeedsAdmin"
proof -
  let ?r = "admin_only ''DELETE'' (api_path [Lit ''pools'', Wild ''name'']) ''mutate.DeletePool''"
  have "?r \<in> set routes" by (simp add: routes_def)
  moreover have "route_matches ''DELETE'' [''api'', ''v1'', ''pools'', ''a''] ?r"
    by (simp add: route_matches_def method_matches_def)
  ultimately have d: "dispatch ''DELETE'' [''api'', ''v1'', ''pools'', ''a''] = Some ?r"
    using routes_gated by blast
  moreover have "hasPrefix (rtHandler ?r) ''mutate.''" by (simp add: hasPrefix_def)
  ultimately show ?thesis using routes_gated by fastforce
qed

end
