(* ===== verification/Stream_Hub.thy ===== *)
theory Stream_Hub
  imports Eventbus
begin

text \<open>
  The snapshot hub of \<open>internal/stream\<close> together with everything that can run beside it: reflectors
  that change a store and then publish its kind, the micro steps of \<open>Publish\<close>, connections that
  attach, drain their mailbox and go away, and other subscribers of the bus. One step is one
  atomic action of one goroutine; the hub's loop in \<open>Run\<close> is one rule per line. A snapshot is
  not an atomic read: the stores are read one after the other.

  The stores, the frame built from what was read (\<open>json.Marshal\<close> of the snapshot, \<^const>\<open>None\<close> when
  it fails) and the set of kinds are the configuration. Deadlines and pings are in
  \<open>Stream_Conn\<close>, the WebSocket upgrade is the library's; a connection can go away at any time.
\<close>

section \<open>Systems that settle\<close>

text \<open>A step relation that keeps an invariant, descends in a well-founded order and is enabled until it
  is settled reaches a settled state, on every path.\<close>

locale settling =
  fixes step :: "'s \<Rightarrow> 's \<Rightarrow> bool"
    and good :: "'s \<Rightarrow> bool"
    and settled :: "'s \<Rightarrow> bool"
    and descent :: "('s \<times> 's) set"
  assumes wf_descent: "wf descent"
    and descends: "good s \<Longrightarrow> step s s' \<Longrightarrow> (s', s) \<in> descent"
    and keeps_good: "good s \<Longrightarrow> step s s' \<Longrightarrow> good s'"
    and progress: "good s \<Longrightarrow> \<not> settled s \<Longrightarrow> \<exists>s'. step s s'"
begin

lemma good_run: "step\<^sup>*\<^sup>* s s' \<Longrightarrow> good s \<Longrightarrow> good s'"
  by (induction rule: rtranclp_induct) (auto intro: keeps_good)

lemma settles: "good s \<Longrightarrow> \<exists>s'. step\<^sup>*\<^sup>* s s' \<and> settled s' \<and> good s'"
proof (induction s rule: wf_induct_rule[OF wf_descent])
  case (1 s)
  show ?case
  proof (cases "settled s")
    case True
    with 1 show ?thesis by blast
  next
    case False
    with progress 1 obtain s1 where s1: "step s s1" by blast
    with 1 descends keeps_good obtain s' where "step\<^sup>*\<^sup>* s1 s'" "settled s'" "good s'" by blast
    with s1 show ?thesis by (meson converse_rtranclp_into_rtranclp)
  qed
qed

lemma no_infinite_run:
  assumes "good (run 0)"
  shows "\<exists>i. \<not> step (run i) (run (Suc i))"
proof (rule ccontr)
  assume "\<nexists>i. \<not> step (run i) (run (Suc i))"
  then have all: "step (run i) (run (Suc i))" for i by blast
  have "good (run i)" for i by (induction i) (use assms all keeps_good in blast)+
  then have "(run (Suc i), run i) \<in> descent" for i using all descends by blast
  then show False using wf_descent by (meson wf_iff_no_infinite_down_chain)
qed

end

section \<open>The hub (hub.go)\<close>

text \<open>A connection: its mailbox, the last frame handed to it, and the last frame written to the client.\<close>

record conn =
  cOut :: "string option"
  cLast :: string
  cShown :: string

definition new_conn :: conn where
  "new_conn = \<lparr>cOut = None, cLast = '''', cShown = ''''\<rparr>"

definition deliver_one :: "string \<Rightarrow> conn \<Rightarrow> conn" where
  "deliver_one js c = (if cLast c = js then c else c\<lparr>cLast := js, cOut := Some js\<rparr>)"

definition deliver :: "string \<Rightarrow> (nat \<rightharpoonup> conn) \<Rightarrow> (nat \<rightharpoonup> conn)" where
  "deliver js conns = (\<lambda>c. map_option (deliver_one js) (conns c))"

text \<open>Where \<open>Run\<close> is: in the outer select, at the head of the inner loop, building a frame under a version
  (what was read, what is still to be read), handing it out, or about to compare the versions.\<close>

datatype ('i, 'o) phase =
    Waiting
  | Checking
  | Reading "64 word" "('i \<times> 'o) list" "'i list"
  | Delivering "64 word" string
  | Rechecking "64 word"

text \<open>A publication under way: the store holds the change, the version is bumped, subscribers are being
  woken under the read lock.\<close>

datatype pub = Stored Kind | Bumped Kind | Waking Kind "nat list"

record ('i, 'o) hubcfg =
  hubSub :: nat
  hubKinds :: "Kind list"
  hubSources :: "'i list"
  hubKindOf :: "'i \<Rightarrow> Kind"
  hubFrame :: "('i \<rightharpoonup> 'o) \<Rightarrow> string option"

record ('i, 'o) hub =
  hStores :: "'i \<Rightarrow> 'o"
  hBus :: Bus
  hFlight :: "pub list"
  hPhase :: "('i, 'o) phase"
  hKick :: bool
  hConns :: "nat \<rightharpoonup> conn"

definition hub_add :: "nat \<Rightarrow> ('i, 'o) hub \<Rightarrow> ('i, 'o) hub" where
  "hub_add c s = s\<lparr>hConns := (hConns s)(c \<mapsto> new_conn), hKick := True\<rparr>"

definition hub_remove :: "nat \<Rightarrow> ('i, 'o) hub \<Rightarrow> ('i, 'o) hub" where
  "hub_remove c s = s\<lparr>hConns := (hConns s)(c := None)\<rparr>"

definition hub_version :: "('i, 'o) hubcfg \<Rightarrow> ('i, 'o) hub \<Rightarrow> 64 word" where
  "hub_version cfg s = Version (Some (hBus s)) (hubKinds cfg)"

definition pump :: "nat \<Rightarrow> ('i, 'o) hub \<Rightarrow> ('i, 'o) hub" where
  "pump c s = s\<lparr>hConns := (hConns s)(c := map_option (\<lambda>k. case cOut k of
      None \<Rightarrow> k | Some js \<Rightarrow> k\<lparr>cOut := None, cShown := js\<rparr>) (hConns s c))\<rparr>"

text \<open>The steps the process takes on its own.\<close>

inductive hub_step :: "('i, 'o) hubcfg \<Rightarrow> ('i, 'o) hub \<Rightarrow> ('i, 'o) hub \<Rightarrow> bool"
  for cfg :: "('i, 'o) hubcfg" where
  bump_version: "hFlight s = xs @ Stored k # ys \<Longrightarrow>
    hub_step cfg s (s\<lparr>hBus := bump k (hBus s), hFlight := xs @ Bumped k # ys\<rparr>)"
| lock: "hFlight s = xs @ Bumped k # ys \<Longrightarrow> distinct is \<Longrightarrow> set is = dom (subs (hBus s)) \<Longrightarrow>
    hub_step cfg s (s\<lparr>hFlight := xs @ Waking k is # ys\<rparr>)"
| wake: "hFlight s = xs @ Waking k (i # is) # ys \<Longrightarrow>
    hub_step cfg s (s\<lparr>hBus := wake_one k i (hBus s), hFlight := xs @ Waking k is # ys\<rparr>)"
| unlock: "hFlight s = xs @ Waking k [] # ys \<Longrightarrow> hub_step cfg s (s\<lparr>hFlight := xs @ ys\<rparr>)"
| select_wake: "hPhase s = Waiting \<Longrightarrow> pending (hubSub cfg) (hBus s) \<Longrightarrow>
    hub_step cfg s (s\<lparr>hBus := drain (hubSub cfg) (hBus s), hPhase := Checking\<rparr>)"
| select_kick: "hPhase s = Waiting \<Longrightarrow> hKick s \<Longrightarrow> hub_step cfg s (s\<lparr>hKick := False, hPhase := Checking\<rparr>)"
| idle: "hPhase s = Checking \<Longrightarrow> hConns s = Map.empty \<Longrightarrow> hub_step cfg s (s\<lparr>hPhase := Waiting\<rparr>)"
| begin_pass: "hPhase s = Checking \<Longrightarrow> hConns s \<noteq> Map.empty \<Longrightarrow>
    hub_step cfg s (s\<lparr>hPhase := Reading (hub_version cfg s) [] (hubSources cfg)\<rparr>)"
| read_store: "hPhase s = Reading v got (i # is) \<Longrightarrow>
    hub_step cfg s (s\<lparr>hPhase := Reading v ((i, hStores s i) # got) is\<rparr>)"
| encode: "hPhase s = Reading v got [] \<Longrightarrow> hubFrame cfg (map_of got) = Some js \<Longrightarrow>
    hub_step cfg s (s\<lparr>hPhase := Delivering v js\<rparr>)"
| encode_error: "hPhase s = Reading v got [] \<Longrightarrow> hubFrame cfg (map_of got) = None \<Longrightarrow>
    hub_step cfg s (s\<lparr>hPhase := Waiting\<rparr>)"
| hand_out: "hPhase s = Delivering v js \<Longrightarrow>
    hub_step cfg s (s\<lparr>hConns := deliver js (hConns s), hPhase := Rechecking v\<rparr>)"
| caught_up: "hPhase s = Rechecking v \<Longrightarrow> hub_version cfg s = v \<Longrightarrow> hub_step cfg s (s\<lparr>hPhase := Waiting\<rparr>)"
| moved: "hPhase s = Rechecking v \<Longrightarrow> hub_version cfg s \<noteq> v \<Longrightarrow> hub_step cfg s (s\<lparr>hPhase := Checking\<rparr>)"
| write_frame: "hConns s c = Some k \<Longrightarrow> cOut k = Some js \<Longrightarrow> hub_step cfg s (pump c s)"

text \<open>What the world does to it: a reflector changes a store (and will publish), connections come and go,
  others subscribe to the bus and leave it, which needs the write lock.\<close>

definition unlocked :: "('i, 'o) hub \<Rightarrow> bool" where
  "unlocked s \<longleftrightarrow> (\<forall>k is. Waking k is \<notin> set (hFlight s))"

inductive world_step :: "('i, 'o) hubcfg \<Rightarrow> ('i, 'o) hub \<Rightarrow> ('i, 'o) hub \<Rightarrow> bool"
  for cfg :: "('i, 'o) hubcfg" where
  change: "world_step cfg s (s\<lparr>hStores := (hStores s)(i := x), hFlight := Stored (hubKindOf cfg i) # hFlight s\<rparr>)"
| attach: "hConns s c = None \<Longrightarrow> world_step cfg s (hub_add c s)"
| detach: "world_step cfg s (hub_remove c s)"
| subscribe: "unlocked s \<Longrightarrow> subs (hBus s) i = None \<Longrightarrow> Subscribe i ks (Some (hBus s)) = (ch, Some b) \<Longrightarrow>
    world_step cfg s (s\<lparr>hBus := b\<rparr>)"
| leave: "unlocked s \<Longrightarrow> i \<noteq> hubSub cfg \<Longrightarrow> cancel i (Some (hBus s)) = Some b \<Longrightarrow> world_step cfg s (s\<lparr>hBus := b\<rparr>)"

definition hub_start :: "('i, 'o) hubcfg \<Rightarrow> ('i, 'o) hub \<Rightarrow> bool" where
  "hub_start cfg s \<longleftrightarrow> Subscribe (hubSub cfg) (hubKinds cfg) (Some Bus_New) = (Some (hubSub cfg), Some (hBus s)) \<and>
     hFlight s = [] \<and> hPhase s = Waiting \<and> \<not> hKick s \<and> hConns s = Map.empty"

inductive hub_reachable :: "('i, 'o) hubcfg \<Rightarrow> ('i, 'o) hub \<Rightarrow> bool" for cfg :: "('i, 'o) hubcfg" where
  start: "hub_start cfg s \<Longrightarrow> hub_reachable cfg s"
| own: "hub_reachable cfg s \<Longrightarrow> hub_step cfg s s' \<Longrightarrow> hub_reachable cfg s'"
| outside: "hub_reachable cfg s \<Longrightarrow> world_step cfg s s' \<Longrightarrow> hub_reachable cfg s'"

section \<open>The invariant\<close>

text \<open>A wake is owed to the hub: one is pending, a connection asked for a frame, or a publication of one
  of its kinds has not visited its subscription yet.\<close>

fun pub_owes :: "('i, 'o) hubcfg \<Rightarrow> pub \<Rightarrow> bool" where
  "pub_owes cfg (Stored k) \<longleftrightarrow> k \<in> set (hubKinds cfg)"
| "pub_owes cfg (Bumped k) \<longleftrightarrow> k \<in> set (hubKinds cfg)"
| "pub_owes cfg (Waking k is) \<longleftrightarrow> k \<in> set (hubKinds cfg) \<and> hubSub cfg \<in> set is"

definition owed :: "('i, 'o) hubcfg \<Rightarrow> ('i, 'o) hub \<Rightarrow> bool" where
  "owed cfg s \<longleftrightarrow> pending (hubSub cfg) (hBus s) \<or> hKick s \<or> (\<exists>p \<in> set (hFlight s). pub_owes cfg p)"

definition view :: "('i, 'o) hubcfg \<Rightarrow> ('i \<Rightarrow> 'o) \<Rightarrow> ('i \<rightharpoonup> 'o)" where
  "view cfg st = (\<lambda>i. if i \<in> set (hubSources cfg) then Some (st i) else None)"

text \<open>Every connection was handed the frame of the current stores.\<close>

definition current :: "('i, 'o) hubcfg \<Rightarrow> ('i, 'o) hub \<Rightarrow> bool" where
  "current cfg s \<longleftrightarrow> (\<forall>js c k. hubFrame cfg (view cfg (hStores s)) = Some js \<longrightarrow> hConns s c = Some k \<longrightarrow> cLast k = js)"

text \<open>What the hub has read so far, in the order of the sources, and that it is still what the stores hold.\<close>

definition reading_of :: "('i, 'o) hubcfg \<Rightarrow> ('i \<times> 'o) list \<Rightarrow> 'i list \<Rightarrow> bool" where
  "reading_of cfg got todo \<longleftrightarrow> map fst (rev got) @ todo = hubSources cfg"

fun phase_ok :: "('i, 'o) hubcfg \<Rightarrow> ('i, 'o) hub \<Rightarrow> ('i, 'o) phase \<Rightarrow> bool" where
  "phase_ok cfg s Waiting \<longleftrightarrow> current cfg s"
| "phase_ok cfg s Checking \<longleftrightarrow> True"
| "phase_ok cfg s (Reading v got todo) \<longleftrightarrow> (\<forall>(i, x) \<in> set got. x = hStores s i)"
| "phase_ok cfg s (Delivering v js) \<longleftrightarrow> hubFrame cfg (view cfg (hStores s)) = Some js"
| "phase_ok cfg s (Rechecking v) \<longleftrightarrow> current cfg s"

definition conn_ok :: "conn \<Rightarrow> bool" where
  "conn_ok k \<longleftrightarrow> (case cOut k of None \<Rightarrow> cShown k = cLast k | Some js \<Rightarrow> js = cLast k)"

definition registered :: "('i, 'o) hubcfg \<Rightarrow> ('i, 'o) hub \<Rightarrow> bool" where
  "registered cfg s \<longleftrightarrow> finite (dom (subs (hBus s))) \<and> finite (dom (hConns s)) \<and>
     (\<forall>k \<in> set (hubKinds cfg). listens (hubSub cfg) k (hBus s)) \<and>
     (\<forall>c k. hConns s c = Some k \<longrightarrow> conn_ok k) \<and>
     (case hPhase s of Reading v got todo \<Rightarrow> reading_of cfg got todo | _ \<Rightarrow> True)"

definition hub_good :: "('i, 'o) hubcfg \<Rightarrow> ('i, 'o) hub \<Rightarrow> bool" where
  "hub_good cfg s \<longleftrightarrow> hubKindOf cfg ` set (hubSources cfg) \<subseteq> set (hubKinds cfg) \<and> registered cfg s \<and>
     (owed cfg s \<or> phase_ok cfg s (hPhase s))"

lemma listens_dom: "listens i k b \<Longrightarrow> i \<in> dom (subs b)"
  by (auto simp: listens_def)

lemma map_of_view:
  assumes "reading_of cfg got []" and "\<forall>(i, x) \<in> set got. x = st i"
  shows "map_of got = view cfg st"
proof
  fix i
  have sources: "set (hubSources cfg) = fst ` set got"
  proof -
    have "hubSources cfg = map fst (rev got)" using assms(1) by (simp add: reading_of_def)
    then show ?thesis by simp
  qed
  show "map_of got i = view cfg st i"
  proof (cases "map_of got i")
    case None
    then show ?thesis by (auto simp: view_def sources map_of_eq_None_iff)
  next
    case (Some x)
    then have "(i, x) \<in> set got" by (rule map_of_SomeD)
    with assms(2) Some show ?thesis by (force simp: view_def sources)
  qed
qed

lemma deliver_simps [simp]: "dom (deliver js conns) = dom conns"
  by (auto simp: deliver_def dom_def)

lemma conn_ok_deliver: "conn_ok k \<Longrightarrow> conn_ok (deliver_one js k)" "cLast (deliver_one js k) = js"
  by (auto simp: conn_ok_def deliver_one_def)

lemma registered_step:
  assumes "hub_step cfg s s'" and "registered cfg s"
  shows "registered cfg s'"
  using assms
proof cases
  case (read_store v got i "is")
  with assms(2) show ?thesis by (simp add: registered_def reading_of_def)
next
  case (hand_out v js)
  with assms(2) show ?thesis
    by (auto simp: registered_def deliver_def conn_ok_deliver dom_def)
next
  case (write_frame c k js)
  have "dom (hConns s') = dom (hConns s)" using write_frame by (auto simp: pump_def dom_def)
  moreover have "conn_ok k'" if "hConns s' d = Some k'" for d k'
    using that assms(2) write_frame by (cases "d = c") (auto simp: registered_def pump_def conn_ok_def split: option.splits)
  ultimately show ?thesis using assms(2) write_frame by (simp add: registered_def pump_def)
qed (auto simp: registered_def reading_of_def)

text \<open>A publication under way stays owed until it has set the hub's wake.\<close>

lemma owed_publish:
  assumes "registered cfg s" and "owed cfg s"
  shows "hFlight s = xs @ Stored k # ys \<Longrightarrow> owed cfg (s\<lparr>hBus := bump k (hBus s), hFlight := xs @ Bumped k # ys\<rparr>)"
    and "hFlight s = xs @ Bumped k # ys \<Longrightarrow> set is = dom (subs (hBus s)) \<Longrightarrow>
      owed cfg (s\<lparr>hFlight := xs @ Waking k is # ys\<rparr>)"
    and "hFlight s = xs @ Waking k (i # is) # ys \<Longrightarrow>
      owed cfg (s\<lparr>hBus := wake_one k i (hBus s), hFlight := xs @ Waking k is # ys\<rparr>)"
    and "hFlight s = xs @ Waking k [] # ys \<Longrightarrow> owed cfg (s\<lparr>hFlight := xs @ ys\<rparr>)"
  using assms listens_dom[of "hubSub cfg" k "hBus s"] by (auto simp: owed_def registered_def)

lemma hub_good_step:
  assumes step: "hub_step cfg s s'" and good: "hub_good cfg s"
  shows "hub_good cfg s'"
proof -
  have reg: "registered cfg s" and kinds: "hubKindOf cfg ` set (hubSources cfg) \<subseteq> set (hubKinds cfg)"
    and ok: "owed cfg s \<or> phase_ok cfg s (hPhase s)" using good by (auto simp: hub_good_def)
  have "owed cfg s' \<or> phase_ok cfg s' (hPhase s')"
    using step
  proof cases
    case (bump_version xs k ys)
    with ok owed_publish(1)[OF reg] show ?thesis by (cases "hPhase s") (auto simp: current_def)
  next
    case (lock xs k ys "is")
    with ok owed_publish(2)[OF reg] show ?thesis by (cases "hPhase s") (auto simp: current_def)
  next
    case (wake xs k i "is" ys)
    with ok owed_publish(3)[OF reg] show ?thesis by (cases "hPhase s") (auto simp: current_def)
  next
    case (unlock xs k ys)
    with ok owed_publish(4)[OF reg] show ?thesis by (cases "hPhase s") (auto simp: current_def)
  next
    case idle
    then show ?thesis by (simp add: current_def)
  next
    case (begin_pass)
    then show ?thesis by simp
  next
    case (read_store v got i "is")
    with ok show ?thesis by (auto simp: owed_def)
  next
    case (encode v got js)
    with reg have "reading_of cfg got []" by (simp add: registered_def)
    with map_of_view[of cfg got "hStores s"] ok encode show ?thesis by (auto simp: owed_def)
  next
    case (encode_error v got)
    with reg have "reading_of cfg got []" by (simp add: registered_def)
    with map_of_view[of cfg got "hStores s"] ok encode_error show ?thesis by (auto simp: owed_def current_def)
  next
    case (hand_out v js)
    with ok show ?thesis by (auto simp: owed_def current_def deliver_def conn_ok_deliver)
  next
    case (write_frame c k js)
    have "cLast k' = cLast k0" if "hConns s' d = Some k'" "hConns s d = Some k0" for d k' k0
      using that write_frame by (cases "d = c") (auto simp: pump_def)
    moreover have "hConns s' d = None \<longleftrightarrow> hConns s d = None" for d
      using write_frame by (cases "d = c") (auto simp: pump_def)
    ultimately have "current cfg s \<Longrightarrow> current cfg s'"
      using write_frame by (fastforce simp: current_def pump_def)
    with ok write_frame show ?thesis by (cases "hPhase s") (auto simp: owed_def pump_def)
  qed (use ok in \<open>auto simp: owed_def current_def\<close>)
  with registered_step[OF step reg] kinds show ?thesis by (simp add: hub_good_def)
qed


lemma hub_good_world:
  assumes step: "world_step cfg s s'" and good: "hub_good cfg s"
  shows "hub_good cfg s'"
proof -
  have reg: "registered cfg s" and kinds: "hubKindOf cfg ` set (hubSources cfg) \<subseteq> set (hubKinds cfg)"
    and ok: "owed cfg s \<or> phase_ok cfg s (hPhase s)" using good by (auto simp: hub_good_def)
  from step show ?thesis
  proof cases
    case (change i x)
    show ?thesis
    proof (cases "i \<in> set (hubSources cfg)")
      case True
      then have "owed cfg s'" using kinds change by (auto simp: owed_def)
      then show ?thesis using reg kinds change by (simp add: hub_good_def registered_def)
    next
      case False
      have view: "view cfg (hStores s') = view cfg (hStores s)" using change False by (auto simp: view_def fun_eq_iff)
      have "owed cfg s' \<or> phase_ok cfg s' (hPhase s')"
      proof (cases "owed cfg s")
        case True
        then show ?thesis using change by (auto simp: owed_def)
      next
        case False
        with ok have ph: "phase_ok cfg s (hPhase s)" by blast
        have "phase_ok cfg s' (hPhase s)"
        proof (cases "hPhase s")
          case (Reading v got todo)
          with reg have "hubSources cfg = map fst (rev got) @ todo" by (simp add: registered_def reading_of_def)
          then have "fst ` set got \<subseteq> set (hubSources cfg)" by simp
          with ph Reading change \<open>i \<notin> set (hubSources cfg)\<close> show ?thesis by force
        qed (use ph view change in \<open>simp_all add: current_def\<close>)
        then show ?thesis using change by simp
      qed
      then show ?thesis using reg kinds change by (simp add: hub_good_def registered_def)
    qed
  next
    case (attach c)
    then show ?thesis using reg kinds
      by (auto simp: hub_good_def registered_def owed_def hub_add_def conn_ok_def new_conn_def)
  next
    case (detach c)
    then show ?thesis using reg kinds ok
      by (cases "hPhase s") (auto simp: hub_good_def registered_def owed_def hub_remove_def current_def)
  next
    case (subscribe i ks ch b)
    then have b: "b = (hBus s)\<lparr>subs := (subs (hBus s))(i \<mapsto> \<lparr>skinds = set ks, sch = False\<rparr>)\<rparr>"
      by (simp add: Subscribe_def)
    have keep: "listens (hubSub cfg) k b" if "listens (hubSub cfg) k (hBus s)" for k
      using that subscribe(3) b by (auto simp: listens_def)
    have "pending (hubSub cfg) b \<longleftrightarrow> pending (hubSub cfg) (hBus s)"
      using subscribe(3) b by (auto simp: pending_def)
    then show ?thesis using reg kinds ok subscribe(1) keep b
      by (cases "hPhase s") (auto simp: hub_good_def registered_def owed_def current_def)
  next
    case (leave i b)
    then have b: "b = (hBus s)\<lparr>subs := (subs (hBus s))(i := None)\<rparr>" by (simp add: cancel_def)
    have keep: "listens (hubSub cfg) k b" if "listens (hubSub cfg) k (hBus s)" for k
      using that leave(3) b by (auto simp: listens_def)
    have "pending (hubSub cfg) b \<longleftrightarrow> pending (hubSub cfg) (hBus s)"
      using leave(3) b by (auto simp: pending_def)
    then show ?thesis using reg kinds ok leave(1) keep b
      by (cases "hPhase s") (auto simp: hub_good_def registered_def owed_def current_def)
  qed
qed

text \<open>The kinds the hub subscribes to must cover the stores its frame is built from.\<close>

definition covers :: "('i, 'o) hubcfg \<Rightarrow> bool" where
  "covers cfg \<longleftrightarrow> list_all (\<lambda>i. hubKindOf cfg i \<in> set (hubKinds cfg)) (hubSources cfg)"

lemma hub_reachable_good:
  assumes "hub_reachable cfg s" and "covers cfg"
  shows "hub_good cfg s"
  using assms(1)
proof induction
  case (start s)
  then have "hBus s = Bus_New\<lparr>subs := (subs Bus_New)(hubSub cfg \<mapsto> \<lparr>skinds = set (hubKinds cfg), sch = False\<rparr>)\<rparr>"
    by (simp add: hub_start_def Subscribe_def)
  with start assms(2) show ?case
    by (auto simp: hub_good_def registered_def hub_start_def Bus_New_def listens_def current_def covers_def list_all_iff)
qed (auto intro: hub_good_step hub_good_world)

section \<open>Descent and progress\<close>

definition hub_settled :: "('i, 'o) hubcfg \<Rightarrow> ('i, 'o) hub \<Rightarrow> bool" where
  "hub_settled cfg s \<longleftrightarrow> hFlight s = [] \<and> hPhase s = Waiting \<and> \<not> hKick s \<and> \<not> pending (hubSub cfg) (hBus s) \<and>
     (\<forall>c k. hConns s c = Some k \<longrightarrow> cOut k = None)"

fun pub_weight :: "nat \<Rightarrow> pub \<Rightarrow> nat" where
  "pub_weight n (Stored k) = n + 3"
| "pub_weight n (Bumped k) = n + 2"
| "pub_weight n (Waking k is) = length is + 1"

definition flight_weight :: "('i, 'o) hub \<Rightarrow> nat" where
  "flight_weight s = (\<Sum>p\<leftarrow>hFlight s. pub_weight (card (dom (subs (hBus s)))) p)"

definition wake_weight :: "('i, 'o) hubcfg \<Rightarrow> ('i, 'o) hub \<Rightarrow> nat" where
  "wake_weight cfg s = of_bool (pending (hubSub cfg) (hBus s)) + of_bool (hKick s)"

definition stale_weight :: "('i, 'o) hubcfg \<Rightarrow> ('i, 'o) hub \<Rightarrow> nat" where
  "stale_weight cfg s = (case hPhase s of
      Reading v got todo \<Rightarrow> of_bool (v \<noteq> hub_version cfg s)
    | Delivering v js \<Rightarrow> of_bool (v \<noteq> hub_version cfg s)
    | Rechecking v \<Rightarrow> of_bool (v \<noteq> hub_version cfg s)
    | _ \<Rightarrow> 0)"

definition phase_weight :: "('i, 'o) hubcfg \<Rightarrow> ('i, 'o) hub \<Rightarrow> nat" where
  "phase_weight cfg s = (case hPhase s of
      Waiting \<Rightarrow> 0
    | Rechecking v \<Rightarrow> 1
    | Delivering v js \<Rightarrow> 2
    | Reading v got todo \<Rightarrow> 3 + length todo
    | Checking \<Rightarrow> 4 + length (hubSources cfg))"

definition mail_weight :: "('i, 'o) hub \<Rightarrow> nat" where
  "mail_weight s = card {c. \<exists>k js. hConns s c = Some k \<and> cOut k = Some js}"

definition hub_descent :: "('i, 'o) hubcfg \<Rightarrow> (('i, 'o) hub \<times> ('i, 'o) hub) set" where
  "hub_descent cfg = measures [flight_weight, wake_weight cfg, stale_weight cfg, phase_weight cfg, mail_weight]"

lemmas weight_defs = hub_descent_def flight_weight_def wake_weight_def stale_weight_def phase_weight_def hub_version_def

lemma wf_hub_descent: "wf (hub_descent cfg)"
  by (simp add: hub_descent_def)

lemma mail_finite:
  assumes "registered cfg s"
  shows "finite {c. \<exists>k js. hConns s c = Some k \<and> cOut k = Some js}"
  by (rule finite_subset[of _ "dom (hConns s)"]) (use assms in \<open>auto simp: registered_def\<close>)

lemma hub_descends:
  assumes "hub_step cfg s s'" and "registered cfg s"
  shows "(s', s) \<in> hub_descent cfg"
  using assms(1)
proof cases
  case (lock xs k ys "is")
  then have "length is = card (dom (subs (hBus s)))" by (metis distinct_card)
  with lock show ?thesis by (simp add: weight_defs)
next
  case (write_frame c k js)
  let ?mail = "\<lambda>s. {c. \<exists>k js. hConns s c = Some k \<and> cOut k = Some js}"
  have rest: "?mail s' = ?mail s - {c}" using write_frame by (auto simp: pump_def split: if_splits)
  have mem: "c \<in> ?mail s" using write_frame by auto
  have "mail_weight s' < mail_weight s"
    unfolding mail_weight_def rest by (rule card_Diff1_less[OF mail_finite[OF assms(2)] mem])
  with write_frame show ?thesis by (simp add: weight_defs pump_def split: phase.split)
qed (simp_all add: weight_defs)

lemma hub_progress:
  assumes "registered cfg s" and "\<not> hub_settled cfg s"
  shows "\<exists>s'. hub_step cfg s s'"
proof (cases "hFlight s")
  case (Cons p ps)
  have "finite (dom (subs (hBus s)))" using assms(1) by (simp add: registered_def)
  from finite_distinct_list[OF this] obtain "is" where ids: "distinct is" "set is = dom (subs (hBus s))"
    by (elim exE conjE)
  show ?thesis
  proof (cases p)
    case (Stored k)
    then show ?thesis using hub_step.bump_version[of s "[]" k ps cfg] Cons by auto
  next
    case (Bumped k)
    then show ?thesis using hub_step.lock[of s "[]" k ps "is" cfg] Cons ids by auto
  next
    case (Waking k js)
    then show ?thesis
      using hub_step.wake[of s "[]" k _ _ ps cfg] hub_step.unlock[of s "[]" k ps cfg] Cons
      by (cases js) auto
  qed
next
  case Nil
  show ?thesis
  proof (cases "hPhase s")
    case Waiting
    with Nil assms(2) consider "pending (hubSub cfg) (hBus s)" | "hKick s"
      | c k js where "hConns s c = Some k" "cOut k = Some js"
      by (auto simp: hub_settled_def)
    then show ?thesis
      by cases (use Waiting in \<open>blast intro: hub_step.intros\<close>)+
  next
    case Checking
    then show ?thesis by (cases "hConns s = Map.empty") (blast intro: hub_step.intros)+
  next
    case (Reading v got todo)
    then show ?thesis
      by (cases todo; cases "hubFrame cfg (map_of got)") (blast intro: hub_step.intros)+
  next
    case (Delivering v js)
    then show ?thesis by (blast intro: hub_step.intros)
  next
    case (Rechecking v)
    then show ?thesis by (cases "hub_version cfg s = v") (blast intro: hub_step.intros)+
  qed
qed


interpretation hub_settling: settling "hub_step cfg" "hub_good cfg" "hub_settled cfg" "hub_descent cfg" for cfg
proof
  show "wf (hub_descent cfg)" by (rule wf_hub_descent)
  show "(s', s) \<in> hub_descent cfg" if "hub_good cfg s" "hub_step cfg s s'" for s s'
    using that by (auto simp: hub_good_def intro: hub_descends)
  show "hub_good cfg s'" if "hub_good cfg s" "hub_step cfg s s'" for s s'
    using that by (auto intro: hub_good_step)
  show "\<exists>s'. hub_step cfg s s'" if "hub_good cfg s" "\<not> hub_settled cfg s" for s
    using that by (auto simp: hub_good_def intro: hub_progress)
qed

lemma hub_step_frame:
  assumes "hub_step cfg s s'"
  shows "hStores s' = hStores s" "dom (hConns s') = dom (hConns s)"
  using assms by (cases; auto simp: pump_def dom_def deliver_def)+

lemma hub_steps_frame:
  "(hub_step cfg)\<^sup>*\<^sup>* s s' \<Longrightarrow> hStores s' = hStores s \<and> dom (hConns s') = dom (hConns s)"
  by (induction rule: rtranclp_induct) (simp, metis hub_step_frame)

lemma settled_shows:
  assumes "hub_good cfg s" "hub_settled cfg s" "hubFrame cfg (view cfg (hStores s)) = Some js" "hConns s c = Some k"
  shows "cShown k = js"
  using assms
  by (auto simp: hub_good_def hub_settled_def owed_def current_def registered_def conn_ok_def)

section \<open>The server's configuration\<close>

text \<open>What \<open>cmd/stornas\<close> wires together: the nine indexers of \<open>clusterstate\<close> in the order \<open>Snapshot\<close> reads
  them, then the task feed, each with the kind its changes publish; the hub subscribes to all kinds.\<close>

datatype server_source =
    Pools | Inventories | Nodes | Backing | Pvcs | Shares | Targets | Snapshots | Events | TaskFeed

fun kind_of_source :: "server_source \<Rightarrow> Kind" where
  "kind_of_source Pools = PoolChanged"
| "kind_of_source Shares = ShareChanged"
| "kind_of_source Inventories = NodeChanged"
| "kind_of_source Targets = TargetChanged"
| "kind_of_source Snapshots = SnapshotChanged"
| "kind_of_source Backing = VolumeChanged"
| "kind_of_source Nodes = NodeChanged"
| "kind_of_source Pvcs = VolumeChanged"
| "kind_of_source Events = AlertChanged"
| "kind_of_source TaskFeed = TaskChanged"

definition server_kinds :: "Kind list" where
  "server_kinds = [PoolChanged, NodeChanged, VolumeChanged, ShareChanged, TargetChanged, SnapshotChanged,
     AlertChanged, TaskChanged]"

definition server_hub :: "((server_source \<rightharpoonup> 'o) \<Rightarrow> string option) \<Rightarrow> (server_source, 'o) hubcfg" where
  "server_hub frame = \<lparr>hubSub = 0, hubKinds = server_kinds,
     hubSources = [Pools, Inventories, Nodes, Backing, Pvcs, Shares, Targets, Snapshots, Events, TaskFeed],
     hubKindOf = kind_of_source, hubFrame = frame\<rparr>"

lemma server_hub_covers: "covers (server_hub frame)"
  by (simp add: covers_def server_hub_def server_kinds_def)

lemma server_view: "view (server_hub frame) st = (\<lambda>i. Some (st i))"
proof
  show "view (server_hub frame) st i = Some (st i)" for i
    by (cases i) (simp_all add: view_def server_hub_def)
qed

text \<open>No change is lost on its way to the browser: from every state the server can reach, under any
  interleaving of store changes, publications, connections and the hub's loop, the process run alone
  comes to rest (no execution of its own steps is infinite), and when it rests every connected client
  shows the frame of the current stores, whatever happened while earlier frames were built.\<close>

lemma hub_converges:
  assumes "hub_reachable (server_hub frame) s"
  shows "(\<exists>s'. (hub_step (server_hub frame))\<^sup>*\<^sup>* s s' \<and> hub_settled (server_hub frame) s' \<and>
      hStores s' = hStores s \<and> dom (hConns s') = dom (hConns s))
    \<and> (\<forall>s' js c k. (hub_step (server_hub frame))\<^sup>*\<^sup>* s s' \<and> hub_settled (server_hub frame) s' \<and>
      frame (\<lambda>i. Some (hStores s i)) = Some js \<and> hConns s' c = Some k \<longrightarrow> cShown k = js)
    \<and> (\<forall>run. run 0 = s \<longrightarrow> (\<exists>i. \<not> hub_step (server_hub frame) (run i) (run (Suc i))))"
proof (intro conjI allI impI)
  have good: "hub_good (server_hub frame) s" by (rule hub_reachable_good[OF assms server_hub_covers])
  show "\<exists>s'. (hub_step (server_hub frame))\<^sup>*\<^sup>* s s' \<and> hub_settled (server_hub frame) s' \<and>
      hStores s' = hStores s \<and> dom (hConns s') = dom (hConns s)"
    using hub_settling.settles[OF good] hub_steps_frame by meson
  show "cShown k = js" if "(hub_step (server_hub frame))\<^sup>*\<^sup>* s s' \<and> hub_settled (server_hub frame) s' \<and>
      frame (\<lambda>i. Some (hStores s i)) = Some js \<and> hConns s' c = Some k" for s' js c k
  proof -
    have "hStores s' = hStores s" "hub_good (server_hub frame) s'"
      using that hub_steps_frame hub_settling.good_run[OF _ good] by blast+
    with that show ?thesis
      using settled_shows[of "server_hub frame" s' js c k] by (simp add: server_view) (simp add: server_hub_def)
  qed
  show "\<exists>i. \<not> hub_step (server_hub frame) (run i) (run (Suc i))" if "run 0 = s" for run
    using hub_settling.no_infinite_run[of "server_hub frame" run] good that by simp
qed

text \<open>The origin check of the WebSocket upgrade; the host \<open>url.Parse\<close> finds is the argument \<open>hostOf\<close>.\<close>

definition checkOrigin :: "(string \<rightharpoonup> string) \<Rightarrow> string \<Rightarrow> string \<Rightarrow> bool" where
  "checkOrigin hostOf origin host =
     (if origin = '''' then True
      else (case hostOf origin of None \<Rightarrow> False | Some h \<Rightarrow> h = host))"

end
