(* ===== verification/Restfactory.thy ===== *)
theory Restfactory
  imports Ttlcache K8s
begin

text \<open>
  The per-token client factory of \<open>internal/restfactory\<close> and the CA loader of \<open>internal/tlsconf\<close>. A
  client is a value of any type; building one from a configuration is the argument \<open>build\<close>, which may
  answer differently at different times. The hash behind \<open>TokenKey\<close> is the argument \<open>sha\<close>, whose
  collision freedom on the tokens in use is a hypothesis of the isolation theorem.
\<close>

section \<open>Configurations\<close>

text \<open>\<open>rest.Config\<close>, by the fields the sources name; \<open>rcRest\<close> stands for the remaining ones (empty when zero).\<close>

record rest_config =
  rcHost :: string
  rcAPIPath :: string
  rcBearerToken :: string
  rcBearerTokenFile :: string
  rcInsecure :: bool
  rcServerName :: string
  rcCAFile :: string
  rcCAData :: string
  rcCertFile :: string
  rcCertData :: string
  rcRest :: string

definition saTokenPath :: string where
  "saTokenPath = ''/var/run/secrets/kubernetes.io/serviceaccount/token''"

definition clientTTL :: time where "clientTTL = 5 * 60 * 1000000000"

definition clearCredentials :: "rest_config \<Rightarrow> rest_config" where
  "clearCredentials full =
     \<lparr>rcHost = rcHost full, rcAPIPath = rcAPIPath full, rcBearerToken = '''', rcBearerTokenFile = '''',
      rcInsecure = rcInsecure full, rcServerName = rcServerName full,
      rcCAFile = rcCAFile full, rcCAData = rcCAData full,
      rcCertFile = '''', rcCertData = '''', rcRest = ''''\<rparr>"

definition hasClientCert :: "rest_config \<Rightarrow> bool" where
  "hasClientCert cfg \<longleftrightarrow> rcCertFile cfg \<noteq> '''' \<or> length (rcCertData cfg) > 0"

text \<open>\<open>os.Stat(saTokenPath)\<close> is the argument \<open>mounted\<close>.\<close>

definition saConfig :: "bool \<Rightarrow> rest_config \<Rightarrow> rest_config option" where
  "saConfig mounted full =
     (let cfg = (if rcBearerTokenFile full = '''' \<and> rcBearerToken full = '''' \<and> mounted
                 then full\<lparr>rcBearerTokenFile := saTokenPath\<rparr> else full);
          cfg = (if rcBearerTokenFile cfg \<noteq> '''' then cfg\<lparr>rcBearerToken := ''''\<rparr> else cfg)
      in if rcBearerToken cfg = '''' \<and> rcBearerTokenFile cfg = '''' \<and> \<not> hasClientCert cfg then None
         else Some cfg)"

section \<open>The factory\<close>

record 'c Factory =
  fBase :: rest_config
  fSaConfig :: "rest_config option"
  fCache :: "'c Cache"
  fSaClient :: "'c option" \<comment> \<open>\<open>saBuilt\<close> and \<open>saClient\<close>\<close>

definition Factory_New :: "bool \<Rightarrow> go_error + rest_config \<Rightarrow> go_error + 'c Factory" where
  "Factory_New mounted resolved =
     (case resolved of
        Inl e \<Rightarrow> Inl e
      | Inr full \<Rightarrow> Inr \<lparr>fBase = clearCredentials full, fSaConfig = saConfig mounted full,
          fCache = Cache_New clientTTL, fSaClient = None\<rparr>)"

definition Factory_For :: "(string \<Rightarrow> string) \<Rightarrow> (time \<Rightarrow> rest_config \<Rightarrow> go_error + 'c) \<Rightarrow> time \<Rightarrow> time \<Rightarrow>
    string \<Rightarrow> 'c Factory \<Rightarrow> (go_error + 'c) \<times> 'c Factory" where
  "Factory_For sha build now now' token f =
     (let key = sha token
      in case Cache_Get now (fCache f) key of
           Some c \<Rightarrow> (Inr c, f)
         | None \<Rightarrow>
           (case build now' ((fBase f)\<lparr>rcBearerToken := token\<rparr>) of
              Inl e \<Rightarrow> (Inl e, f)
            | Inr client \<Rightarrow> (Inr client, f\<lparr>fCache := Cache_Put now' key client (fCache f)\<rparr>)))"

definition Factory_SA :: "(rest_config \<Rightarrow> go_error + 'c) \<Rightarrow> 'c Factory \<Rightarrow> (go_error + 'c) \<times> 'c Factory" where
  "Factory_SA build f =
     (case fSaConfig f of
        None \<Rightarrow> (Inl (errorf ''no service-account credentials available (set -kubeconfig or run in-cluster)''), f)
      | Some cfg \<Rightarrow>
        (case fSaClient f of
           Some c \<Rightarrow> (Inr c, f)
         | None \<Rightarrow>
           (case build cfg of
              Inl e \<Rightarrow> (Inl e, f)
            | Inr client \<Rightarrow> (Inr client, f\<lparr>fSaClient := Some client\<rparr>))))"

section \<open>Isolation of the per-token clients\<close>

text \<open>The user path carries no credential but the token.\<close>

lemma base_has_no_identity:
  "rcBearerToken (clearCredentials full) = ''''" "rcBearerTokenFile (clearCredentials full) = ''''"
  "\<not> hasClientCert (clearCredentials full)" "rcRest (clearCredentials full) = ''''"
  by (simp_all add: clearCredentials_def hasClientCert_def)

text \<open>The service-account path never carries a stale inline token beside a file.\<close>

lemma saConfig_refreshes:
  assumes "saConfig mounted full = Some cfg"
  shows "rcBearerTokenFile cfg = '''' \<or> rcBearerToken cfg = ''''"
    "rcBearerTokenFile cfg \<noteq> '''' \<or> rcBearerToken cfg \<noteq> '''' \<or> hasClientCert cfg"
  using assms by (auto simp: saConfig_def hasClientCert_def Let_def split: if_splits)

lemma Factory_For_memoized:
  "Factory_For sha build now now' token f =
     (case ttl.memoized now now' (fCache f) (sha token) (build now' ((fBase f)\<lparr>rcBearerToken := token\<rparr>)) of
        (r, c) \<Rightarrow> (r, f\<lparr>fCache := c\<rparr>))"
  by (auto simp: Factory_For_def ttl.memoized_def Let_def split: option.split sum.split)

text \<open>A history of calls: the tokens and clock readings, oldest first.\<close>

fun serve_all :: "(string \<Rightarrow> string) \<Rightarrow> (time \<Rightarrow> rest_config \<Rightarrow> go_error + 'c) \<Rightarrow>
    (time \<times> time \<times> string) list \<Rightarrow> 'c Factory \<Rightarrow> 'c Factory" where
  "serve_all sha build [] f = f"
| "serve_all sha build ((now, now', token) # cs) f =
     serve_all sha build cs (snd (Factory_For sha build now now' token f))"

text \<open>What an entry of the cache is: a client built, at the time of its entry, from the clean base with a
  token of the history that has this key.\<close>

definition built_for :: "(string \<Rightarrow> string) \<Rightarrow> (time \<Rightarrow> rest_config \<Rightarrow> go_error + 'c) \<Rightarrow> rest_config \<Rightarrow>
    string set \<Rightarrow> string \<Rightarrow> 'c \<Rightarrow> time \<Rightarrow> bool" where
  "built_for sha build base toks k c t \<longleftrightarrow>
     (\<exists>token \<in> toks. sha token = k \<and> build t (base\<lparr>rcBearerToken := token\<rparr>) = Inr c)"

lemma Factory_For_keeps:
  assumes "ttl.all_held (built_for sha build (fBase f) toks) (fCache f)" and "token \<in> toks"
  shows "ttl.all_held (built_for sha build (fBase f) toks) (fCache (snd (Factory_For sha build now now' token f)))"
    "fBase (snd (Factory_For sha build now now' token f)) = fBase f"
    "cttl (fCache (snd (Factory_For sha build now now' token f))) = cttl (fCache f)"
proof -
  let ?fresh = "build now' ((fBase f)\<lparr>rcBearerToken := token\<rparr>)"
  have "ttl.all_held (built_for sha build (fBase f) toks)
      (snd (ttl.memoized now now' (fCache f) (sha token) ?fresh))"
    using assms by (intro ttl.memoized_keeps) (auto simp: built_for_def)
  then show "ttl.all_held (built_for sha build (fBase f) toks) (fCache (snd (Factory_For sha build now now' token f)))"
    by (simp add: Factory_For_memoized case_prod_beta)
  show "fBase (snd (Factory_For sha build now now' token f)) = fBase f"
    by (simp add: Factory_For_memoized case_prod_beta)
  show "cttl (fCache (snd (Factory_For sha build now now' token f))) = cttl (fCache f)"
    using ttl.memoized_window[of now now' "fCache f" "sha token" ?fresh]
    by (simp add: Factory_For_memoized case_prod_beta)
qed

lemma serve_all_keeps:
  assumes "ttl.all_held (built_for sha build (fBase f) toks) (fCache f)" and "snd ` snd ` set cs \<subseteq> toks"
  shows "ttl.all_held (built_for sha build (fBase f) toks) (fCache (serve_all sha build cs f)) \<and>
    fBase (serve_all sha build cs f) = fBase f \<and> cttl (fCache (serve_all sha build cs f)) = cttl (fCache f)"
  using assms
proof (induction cs arbitrary: f)
  case (Cons c cs)
  obtain now now' token where c: "c = (now, now', token)" by (cases c)
  let ?f = "snd (Factory_For sha build now now' token f)"
  have K: "ttl.all_held (built_for sha build (fBase ?f) toks) (fCache ?f)" "fBase ?f = fBase f"
      "cttl (fCache ?f) = cttl (fCache f)"
    using Factory_For_keeps[OF Cons.prems(1), of token now now'] Cons.prems(2) c by auto
  from Cons.IH[OF K(1)] Cons.prems(2) K(2,3) show ?case by (simp add: c)
qed simp

text \<open>A client is never handed to another token: after any history of calls on a new factory, the
  client \<open>For(token)\<close> returns was built from the resolved endpoint with this token as the only
  credential, at the time of this call or less than the client TTL before it, so a revoked token
  stops working within that time. The hypothesis is that no two tokens in use have the same hash.\<close>

theorem client_isolated:
  assumes "Factory_New mounted (Inr full) = Inr f0"
    and "inj_on sha (insert token (snd ` snd ` set cs))"
    and "fst (Factory_For sha build now now' token (serve_all sha build cs f0)) = Inr client"
  shows "\<exists>t. build t ((clearCredentials full)\<lparr>rcBearerToken := token\<rparr>) = Inr client \<and>
    (t = now' \<or> now - t < clientTTL)"
proof -
  let ?toks = "insert token (snd ` snd ` set cs)"
  let ?f = "serve_all sha build cs f0"
  have f0: "fBase f0 = clearCredentials full" "fCache f0 = Cache_New clientTTL"
    using assms(1) by (auto simp: Factory_New_def)
  have "ttl.all_held (built_for sha build (fBase f0) ?toks) (fCache f0)"
    by (simp add: f0 ttl.all_held_def Cache_New_def)
  then have K: "ttl.all_held (built_for sha build (fBase f0) ?toks) (fCache ?f)" "fBase ?f = fBase f0"
      "cttl (fCache ?f) = clientTTL"
    using serve_all_keeps[of sha build f0 ?toks cs] by (auto simp: f0 Cache_New_def)
  let ?fresh = "build now' ((fBase ?f)\<lparr>rcBearerToken := token\<rparr>)"
  have "fst (ttl.memoized now now' (fCache ?f) (sha token) ?fresh) = Inr client"
    using assms(3) by (simp add: Factory_For_memoized split: prod.splits)
  with ttl.memoized_answer[OF K(1)] have "?fresh = Inr client \<or>
      (\<exists>t. built_for sha build (fBase f0) ?toks (sha token) client t \<and> now - t < cttl (fCache ?f))"
    by blast
  then show ?thesis
  proof
    assume "?fresh = Inr client"
    then show ?thesis using K(2) f0 by auto
  next
    assume "\<exists>t. built_for sha build (fBase f0) ?toks (sha token) client t \<and> now - t < cttl (fCache ?f)"
    then obtain t tok where t: "tok \<in> ?toks" "sha tok = sha token" "now - t < clientTTL"
        "build t ((fBase f0)\<lparr>rcBearerToken := tok\<rparr>) = Inr client"
      using K(3) by (auto simp: built_for_def)
    have "tok = token" using inj_onD[OF assms(2) t(2)] t(1) by simp
    with t f0 show ?thesis by auto
  qed
qed

definition in_cluster :: rest_config where
  "in_cluster = \<lparr>rcHost = ''https://10.0.0.1'', rcAPIPath = '''', rcBearerToken = ''sa'', rcBearerTokenFile = saTokenPath,
     rcInsecure = False, rcServerName = '''', rcCAFile = ''ca.crt'', rcCAData = '''', rcCertFile = '''', rcCertData = '''', rcRest = ''''\<rparr>"

definition echo_token :: "time \<Rightarrow> rest_config \<Rightarrow> go_error + string" where
  "echo_token t cfg = Inr (rcBearerToken cfg)"

theorem client_isolated_witness:
  "\<exists>f0 client. Factory_New True (Inr in_cluster) = Inr f0 \<and>
     fst (Factory_For id echo_token 9 9 ''bob'' (serve_all id echo_token [(1, 1, ''ann''), (2, 3, ''bob'')] f0)) = Inr client \<and>
     (\<exists>t. echo_token t ((clearCredentials in_cluster)\<lparr>rcBearerToken := ''bob''\<rparr>) = Inr client)"
proof -
  obtain f0 :: "string Factory" where f0: "Factory_New True (Inr in_cluster) = Inr f0"
    by (simp add: Factory_New_def)
  let ?call = "Factory_For id echo_token 9 9 ''bob'' (serve_all id echo_token [(1, 1, ''ann''), (2, 3, ''bob'')] f0)"
  obtain client where c: "fst ?call = Inr client"
    by (cases "fst ?call") (auto simp: Factory_For_def echo_token_def Let_def split: option.splits)
  from client_isolated[OF f0 _ c] c f0 show ?thesis by auto
qed

section \<open>CA bundles (tlsconf)\<close>

text \<open>\<open>os.ReadFile\<close> and \<open>AppendCertsFromPEM\<close> are the arguments; \<^const>\<open>None\<close> keeps the system pool.\<close>

definition RootCAs :: "(string \<Rightarrow> go_error + string) \<Rightarrow> (string \<Rightarrow> 'p option) \<Rightarrow> string \<Rightarrow> 'p option" where
  "RootCAs readFile appendPEM caFile =
     (case readFile caFile of
        Inl _ \<Rightarrow> None
      | Inr pem \<Rightarrow> appendPEM pem)"

end
