(* ===== verification/Clusterstate.thy ===== *)
theory Clusterstate
  imports Api_Types Unstructured Tasks Stream_Hub
begin

text \<open>
  The UI snapshot of \<open>internal/clusterstate\<close> with the wire types of \<open>internal/model\<close>. The nine
  indexers are lists in the order \<open>List()\<close> returns them, which client-go does not specify; decoding an
  unstructured object is a parameter (record \<open>cslib\<close>), as are the condition helpers. Go's range
  over a map is an explicit order. Times are instants of \<open>Go_Time\<close>; \<open>int32\<close> counts are 32-bit words and wrap.
\<close>

section \<open>Wire types (model.go)\<close>

record mDevice =
  mdPath :: string
  mdState :: string
  mdSmart :: string

record mPool =
  mpName :: string
  mpNode :: string
  mpRaid :: string
  mpTier :: string
  mpDevices :: "mDevice list"
  mpVG :: string
  mpCapacityBytes :: int
  mpFreeBytes :: int
  mpHealth :: string
  mpRebuildPercent :: "int option"
  mpAvailable :: bool
  mpReason :: string

record mDisk =
  mkPath :: string
  mkModel :: string
  mkSerial :: string
  mkSizeBytes :: int
  mkRotational :: bool
  mkClaimed :: bool
  mkSmart :: string
  mkTempCelsius :: "int option"
  mkPowerOnHours :: "int option"

record mNode =
  mnName :: string
  mnReady :: bool
  mnRoles :: "string list"
  mnAddresses :: "string list"
  mnKubeletVersion :: string
  mnDisks :: "mDisk list"

record mPeer =
  mePeer :: string
  meConnected :: bool
  meStatus :: string

record mReplica =
  mrNode :: string
  mrDiskState :: string
  mrInUse :: bool
  mrSyncPercent :: "int option"
  mrPeers :: "mPeer list"

record mReplication =
  mxReplicas :: "mReplica list"
  mxSplitBrain :: bool
  mxPeerUnreachable :: "(string \<times> string) option" \<comment> \<open>reason and message\<close>

record mVolume =
  mvNamespace :: string
  mvName :: string
  mvStorageClass :: string
  mvPhase :: string
  mvCapacityBytes :: int
  mvBlock :: bool
  mvResource :: string
  mvReplication :: "mReplication option"

record mShare =
  msNamespace :: string
  msName :: string
  msClaim :: string
  msNFS :: bool
  msSMB :: bool
  msNode :: string
  msState :: string
  msAvailable :: bool
  msReason :: string

record mTarget =
  mtNamespace :: string
  mtName :: string
  mtIQN :: string
  mtVIP :: string
  mtActiveNode :: string
  mtSessions :: int
  mtState :: string
  mtLUNs :: "(int \<times> string \<times> string) list" \<comment> \<open>ID, claim, device\<close>
  mtAvailable :: bool
  mtReason :: string

record mSnapshot =
  mzNamespace :: string
  mzName :: string
  mzSource :: string
  mzReady :: bool
  mzSizeBytes :: int
  mzCreatedAt :: string

record mAlert =
  maNamespace :: string
  maObject :: string
  maReason :: string
  maMessage :: string
  maCount :: "32 word" \<comment> \<open>an \<open>int32\<close>\<close>
  maLastSeen :: string

record Snapshot =
  snSystemNamespace :: string
  snPools :: "mPool list"
  snNodes :: "mNode list"
  snVolumes :: "mVolume list"
  snShares :: "mShare list"
  snTargets :: "mTarget list"
  snSnapshots :: "mSnapshot list"
  snAlerts :: "mAlert list"
  snTasks :: "Task list"

section \<open>What the indexers hold\<close>

record KNode = Node +
  knLabels :: "string list" \<comment> \<open>the keys, in range order\<close>
  knAddresses :: "(string \<times> string) list" \<comment> \<open>type and address\<close>
  knKubeletVersion :: string

record KPVC = PersistentVolumeClaim +
  kpPhase :: string
  kpCapacity :: "int option"
  kpRequest :: "int option"

record KEvent =
  evNamespace :: string
  evKind :: string
  evName :: string
  evReason :: string
  evMessage :: string
  evCount :: "32 word"
  evLastTimestamp :: instant
  evEventTime :: instant
  evSeries :: "(32 word \<times> instant) option" \<comment> \<open>count, last observed time\<close>

record cslib =
  clUnstr :: unstr
  clMeta :: metalib
  clPool :: "jval \<Rightarrow> go_error + StoragePool"
  clInventory :: "jval \<Rightarrow> go_error + NodeInventory"
  clVolume :: "jval \<Rightarrow> go_error + Volume"
  clShare :: "jval \<Rightarrow> go_error + Share"
  clTarget :: "jval \<Rightarrow> go_error + Target"
  clQuantity :: "string \<Rightarrow> go_error + int"
  clPeerOrder :: "ReplicaStatus \<Rightarrow> string list" \<comment> \<open>the order Go ranges over \<open>Peers\<close>\<close>

record State =
  stPools :: "jval list"
  stShares :: "jval list"
  stInventories :: "jval list"
  stTargets :: "jval list"
  stSnapshots :: "jval list"
  stBacking :: "jval list"
  stNodes :: "KNode list"
  stPvcs :: "KPVC list"
  stEvents :: "KEvent list"
  stSystemNamespace :: string

text \<open>The reflectors \<open>New\<close> sets up: the indexer each one fills, the kind it publishes, what it lists and
  watches, and the object type it expects. All nine share the health flag of the state.\<close>

datatype list_source =
    Dynamic GVR
  | CoreNodes
  | CorePVCs string \<comment> \<open>the namespace, empty for all\<close>
  | CoreEvents string

datatype expected = EUnstructured | ENode | EPersistentVolumeClaim | EEvent

record reflectorSpec =
  specStore :: server_source
  specPublishes :: Kind
  specExpected :: expected
  specList :: list_source
  specSelector :: string

definition State_specs :: "reflectorSpec list" where
  "State_specs =
    [\<lparr>specStore = Pools, specPublishes = PoolChanged, specExpected = EUnstructured, specList = Dynamic poolGVR, specSelector = ''''\<rparr>,
     \<lparr>specStore = Shares, specPublishes = ShareChanged, specExpected = EUnstructured, specList = Dynamic shareGVR, specSelector = ''''\<rparr>,
     \<lparr>specStore = Inventories, specPublishes = NodeChanged, specExpected = EUnstructured, specList = Dynamic inventoryGVR, specSelector = ''''\<rparr>,
     \<lparr>specStore = Targets, specPublishes = TargetChanged, specExpected = EUnstructured, specList = Dynamic targetGVR, specSelector = ''''\<rparr>,
     \<lparr>specStore = Snapshots, specPublishes = SnapshotChanged, specExpected = EUnstructured, specList = Dynamic snapGVR, specSelector = ''''\<rparr>,
     \<lparr>specStore = Backing, specPublishes = VolumeChanged, specExpected = EUnstructured, specList = Dynamic rdrbdVolumeGVR, specSelector = ''''\<rparr>,
     \<lparr>specStore = Nodes, specPublishes = NodeChanged, specExpected = ENode, specList = CoreNodes, specSelector = ''''\<rparr>,
     \<lparr>specStore = Pvcs, specPublishes = VolumeChanged, specExpected = EPersistentVolumeClaim, specList = CorePVCs '''', specSelector = ''''\<rparr>,
     \<lparr>specStore = Events, specPublishes = AlertChanged, specExpected = EEvent, specList = CoreEvents '''', specSelector = ''type=Warning''\<rparr>]"

text \<open>The hub's kinds per source are the ones these reflectors publish; the task feed is the only source that
  is not a reflector's.\<close>

lemma specs_publish:
  "map_of (map (\<lambda>s. (specStore s, specPublishes s)) State_specs) i =
     (if i = TaskFeed then None else Some (kind_of_source i))"
  by (cases i) (simp_all add: State_specs_def)

section \<open>One row each\<close>

text \<open>The loop over the conditions, shared by pools, shares and targets: the last Available wins.\<close>

definition availability :: "Condition list \<Rightarrow> bool \<times> string" where
  "availability cs = foldl (\<lambda>(a, r) c. if cType c = ConditionAvailable
     then (cStatus c = ConditionTrue, cReason c) else (a, r)) (False, '''') cs"

definition opt0 :: "int option \<Rightarrow> int" where
  "opt0 q = (case q of None \<Rightarrow> 0 | Some v \<Rightarrow> v)"

definition poolModel :: "StoragePool \<Rightarrow> mPool" where
  "poolModel p =
     (let observed = map_of (rev (map (\<lambda>d. (dsPath d, d)) (spDevices (spStatus p))));
          av = availability (spConditions (spStatus p))
      in \<lparr>mpName = omName (spMeta p), mpNode = spsNode (spSpec p), mpRaid = spsRaid (spSpec p),
          mpTier = spsTier (spSpec p),
          mpDevices = map (\<lambda>path. case observed path of
              Some d \<Rightarrow> \<lparr>mdPath = path, mdState = dsState d, mdSmart = dsSmart d\<rparr>
            | None \<Rightarrow> \<lparr>mdPath = path, mdState = '''', mdSmart = ''''\<rparr>) (spsDevices (spSpec p)),
          mpVG = spVG (spStatus p), mpCapacityBytes = opt0 (spCapacity (spStatus p)),
          mpFreeBytes = opt0 (spFree (spStatus p)),
          mpHealth = (if spHealth (spStatus p) = '''' then ''Unknown'' else spHealth (spStatus p)),
          mpRebuildPercent = spRebuildPercent (spStatus p), mpAvailable = fst av, mpReason = snd av\<rparr>)"

definition shareModel :: "Share \<Rightarrow> mShare" where
  "shareModel s =
     (let av = availability (shConditions (shStatus s))
      in \<lparr>msNamespace = omNamespace (shMeta s), msName = omName (shMeta s), msClaim = ssClaimName (shSpec s),
          msNFS = (ssNFS (shSpec s) \<noteq> None), msSMB = (ssSMB (shSpec s) \<noteq> None), msNode = shNode (shStatus s),
          msState = (if shState (shStatus s) = '''' then ''Pending'' else shState (shStatus s)),
          msAvailable = fst av, msReason = snd av\<rparr>)"

definition targetModel :: "Target \<Rightarrow> mTarget" where
  "targetModel t =
     (let resolved = map_of (rev (map (\<lambda>l. (lsID l, lsDevice l)) (ttLUNs (tStatus t))));
          av = availability (ttConditions (tStatus t))
      in \<lparr>mtNamespace = omNamespace (tMeta t), mtName = omName (tMeta t), mtIQN = ttIQN (tStatus t),
          mtVIP = tsVIP (tSpec t), mtActiveNode = ttActiveNode (tStatus t), mtSessions = ttSessions (tStatus t),
          mtState = (if ttState (tStatus t) = '''' then ''Pending'' else ttState (tStatus t)),
          mtLUNs = map (\<lambda>l. (lunID l, lunClaimName l, mget resolved (lunID l))) (tsLUNs (tSpec t)),
          mtAvailable = fst av, mtReason = snd av\<rparr>)"

definition snapshotModel :: "cslib \<Rightarrow> jval \<Rightarrow> mSnapshot" where
  "snapshotModel lib u =
     (let U = clUnstr lib;
          src = NestedString U u [''spec'', ''source'', ''persistentVolumeClaimName''];
          ready = NestedBool U u [''status'', ''readyToUse''];
          restore = NestedString U u [''status'', ''restoreSize''];
          created = NestedString U u [''status'', ''creationTime'']
      in \<lparr>mzNamespace = GetNamespace U u, mzName = GetName U u,
          mzSource = (if snd src then fst src else ''''),
          mzReady = (if snd ready then fst ready else False),
          mzSizeBytes = (if snd restore then (case clQuantity lib (fst restore) of Inr q \<Rightarrow> q | Inl _ \<Rightarrow> 0) else 0),
          mzCreatedAt = (if snd created then fst created else '''')\<rparr>)"

definition alertModel :: "KEvent \<Rightarrow> mAlert" where
  "alertModel ev =
     (let last0 = (if evLastTimestamp ev = 0 then evEventTime ev else evLastTimestamp ev);
          last1 = (case evSeries ev of Some (n, t) \<Rightarrow> t | None \<Rightarrow> last0)
      in \<lparr>maNamespace = evNamespace ev, maObject = evKind ev @ ''/'' @ evName ev, maReason = evReason ev,
          maMessage = evMessage ev,
          maCount = (case evSeries ev of Some (n, t) \<Rightarrow> n | None \<Rightarrow> evCount ev),
          maLastSeen = (if last1 \<noteq> 0 then RFC3339 last1 else '''')\<rparr>)"

abbreviation rolePrefix :: string where "rolePrefix \<equiv> ''node-role.kubernetes.io/''"

definition roleFromLabel :: "string \<Rightarrow> string option" where
  "roleFromLabel label =
     (if length label > length rolePrefix \<and> take (length rolePrefix) label = rolePrefix
      then Some (drop (length rolePrefix) label) else None)"

definition nodeModel :: "KNode \<Rightarrow> mNode" where
  "nodeModel n =
     \<lparr>mnName = omName (nMeta n),
      mnReady = foldl (\<lambda>r c. if ncType c = ''Ready'' then ncStatus c = ConditionTrue else r) False (nConditions n),
      mnRoles = sort (List.map_filter roleFromLabel (knLabels n)),
      mnAddresses = map snd (filter (\<lambda>(ty, a). ty = ''InternalIP'' \<or> ty = ''ExternalIP'') (knAddresses n)),
      mnKubeletVersion = knKubeletVersion n, mnDisks = []\<rparr>"

definition volumeModel :: "KPVC \<Rightarrow> mVolume" where
  "volumeModel pvc =
     \<lparr>mvNamespace = omNamespace (pvcMeta pvc), mvName = omName (pvcMeta pvc),
      mvStorageClass = (case pvcStorageClassName pvc of Some c \<Rightarrow> c | None \<Rightarrow> ''''),
      mvPhase = kpPhase pvc,
      mvCapacityBytes = (case kpCapacity pvc of Some q \<Rightarrow> q | None \<Rightarrow> opt0 (kpRequest pvc)),
      mvBlock = (pvcVolumeMode pvc = Some ''Block''), mvResource = pvcVolumeName pvc, mvReplication = None\<rparr>"

abbreviation ConditionPeerUnreachable :: string where "ConditionPeerUnreachable \<equiv> ''PeerUnreachable''"

definition replicaModel :: "cslib \<Rightarrow> ReplicaStatus \<Rightarrow> mReplica" where
  "replicaModel lib r =
     \<lparr>mrNode = rsNode r, mrDiskState = (if rsDiskState r = '''' then ''Unknown'' else rsDiskState r),
      mrInUse = rsInUse r, mrSyncPercent = rsSyncPercent r,
      mrPeers = sort_by (\<lambda>a b. mePeer a < mePeer b)
        (map (\<lambda>node. \<lparr>mePeer = node, meConnected = (mget (rsPeers r) node = ''Connected''),
           meStatus = mget (rsPeers r) node\<rparr>) (clPeerOrder lib r))\<rparr>"

definition replicationModel :: "cslib \<Rightarrow> Volume \<Rightarrow> mReplication" where
  "replicationModel lib v =
     (let cs = vtConditions (vStatus v)
      in \<lparr>mxReplicas = sort_by (\<lambda>a b. mrNode a < mrNode b) (map (replicaModel lib) (vtReplicas (vStatus v))),
          mxSplitBrain = IsStatusConditionTrue (clMeta lib) cs ConditionSplitBrain,
          mxPeerUnreachable = (case FindStatusCondition (clMeta lib) cs ConditionPeerUnreachable of
             Some c \<Rightarrow> if cStatus c = ConditionTrue then Some (cReason c, cMessage c) else None
           | None \<Rightarrow> None)\<rparr>)"

section \<open>The snapshot\<close>

definition decoded :: "('a \<Rightarrow> go_error + 'b) \<Rightarrow> 'a list \<Rightarrow> 'b list" where
  "decoded dec us = List.map_filter (\<lambda>u. case dec u of Inr x \<Rightarrow> Some x | Inl _ \<Rightarrow> None) us"

definition diskModel :: "Disk \<Rightarrow> mDisk" where
  "diskModel d = \<lparr>mkPath = dkPath d, mkModel = dkModel d, mkSerial = dkSerial d, mkSizeBytes = dkSize d,
     mkRotational = dkRotational d, mkClaimed = dkClaimed d, mkSmart = dkSmart d,
     mkTempCelsius = dkTempCelsius d, mkPowerOnHours = dkPowerOnHours d\<rparr>"

definition disksOf :: "NodeInventory list \<Rightarrow> string \<Rightarrow> mDisk list" where
  "disksOf invs node = concat (map (\<lambda>inv. if omName (niMeta inv) = node then map diskModel (niDisks inv) else []) invs)"

definition smartAlert :: "string \<Rightarrow> Disk \<Rightarrow> mAlert" where
  "smartAlert node d = \<lparr>maNamespace = '''', maObject = ''Disk/'' @ node @ '':'' @ dkPath d, maReason = ''SmartFailed'',
     maMessage = ''SMART health check failed on '' @ node @ '' ('' @ dkPath d @ ''); replace the disk'',
     maCount = 1, maLastSeen = ''''\<rparr>"

definition smartAlerts :: "NodeInventory list \<Rightarrow> mAlert list" where
  "smartAlerts invs = concat (map (\<lambda>inv. map (smartAlert (omName (niMeta inv)))
     (filter (\<lambda>d. dkSmart d = ''Failed'') (niDisks inv))) invs)"

definition alert_key :: "mAlert \<Rightarrow> string" where
  "alert_key a = maNamespace a @ ''/'' @ maObject a @ ''/'' @ maReason a"

definition merge_alert :: "mAlert \<Rightarrow> mAlert \<Rightarrow> mAlert" where
  "merge_alert a prev =
     (let p = prev\<lparr>maCount := maCount prev + maCount a\<rparr>
      in if maLastSeen a > maLastSeen p then p\<lparr>maLastSeen := maLastSeen a, maMessage := maMessage a\<rparr> else p)"

text \<open>One turn of the loop over the events: \<open>seen\<close> points at the alert with the same key.\<close>

fun add_alert :: "mAlert \<Rightarrow> mAlert list \<Rightarrow> mAlert list" where
  "add_alert a [] = [a]"
| "add_alert a (p # ps) = (if alert_key p = alert_key a then merge_alert a p # ps else p # add_alert a ps)"

definition merged_alerts :: "KEvent list \<Rightarrow> mAlert list" where
  "merged_alerts evs = fold add_alert (map alertModel evs) []"

definition sort_text :: "mAlert \<Rightarrow> string" where
  "sort_text a = maNamespace a @ maObject a @ maReason a"

definition alert_before :: "mAlert \<Rightarrow> mAlert \<Rightarrow> bool" where
  "alert_before a b =
     (if maLastSeen a \<noteq> maLastSeen b then maLastSeen a > maLastSeen b else sort_text a < sort_text b)"

definition snap_alerts :: "KEvent list \<Rightarrow> NodeInventory list \<Rightarrow> mAlert list" where
  "snap_alerts evs invs =
     (let alerts = sort_by alert_before (merged_alerts evs);
          alerts = (if length alerts > 100 then take 100 alerts else alerts)
      in sort_by (\<lambda>a b. maObject a < maObject b) (smartAlerts invs) @ alerts)"

definition by_key :: "('a \<Rightarrow> string) \<Rightarrow> ('a \<Rightarrow> string) \<Rightarrow> 'a \<Rightarrow> 'a \<Rightarrow> bool" where
  "by_key ns name a b \<longleftrightarrow> ns a @ ''/'' @ name a < ns b @ ''/'' @ name b"

definition snap_volumes :: "cslib \<Rightarrow> Volume list \<Rightarrow> KPVC list \<Rightarrow> mVolume list" where
  "snap_volumes lib vols pvcs =
     (let replication = map_of (rev (map (\<lambda>v. (omName (vMeta v), replicationModel lib v)) vols))
      in map (\<lambda>pvc. let vm = volumeModel pvc in vm\<lparr>mvReplication := replication (mvResource vm)\<rparr>) pvcs)"

definition State_Snapshot :: "cslib \<Rightarrow> State \<Rightarrow> Snapshot" where
  "State_Snapshot lib s =
     (let invs = decoded (clInventory lib) (stInventories s);
          vols = decoded (clVolume lib) (stBacking s)
      in \<lparr>snSystemNamespace = stSystemNamespace s,
          snPools = sort_by (\<lambda>a b. mpName a < mpName b) (map poolModel (decoded (clPool lib) (stPools s))),
          snNodes = sort_by (\<lambda>a b. mnName a < mnName b)
            (map (\<lambda>n. (nodeModel n)\<lparr>mnDisks := disksOf invs (omName (nMeta n))\<rparr>) (stNodes s)),
          snVolumes = sort_by (by_key mvNamespace mvName) (snap_volumes lib vols (stPvcs s)),
          snShares = sort_by (by_key msNamespace msName) (map shareModel (decoded (clShare lib) (stShares s))),
          snTargets = sort_by (by_key mtNamespace mtName) (map targetModel (decoded (clTarget lib) (stTargets s))),
          snSnapshots = sort_by (by_key mzNamespace mzName) (map (snapshotModel lib) (stSnapshots s)),
          snAlerts = snap_alerts (stEvents s) invs,
          snTasks = []\<rparr>)"

text \<open>\<open>snapFn\<close> of \<open>cmd/stornas\<close>: the snapshot with the task rows.\<close>

definition snapFn :: "cslib \<Rightarrow> State \<Rightarrow> Feed \<Rightarrow> Snapshot" where
  "snapFn lib s f = (State_Snapshot lib s)\<lparr>snTasks := taskModels f\<rparr>"

end
