(* ===== verification/Snapshot_Canonical.thy ===== *)
theory Snapshot_Canonical
  imports Clusterstate "HOL-Library.Multiset"
begin

text \<open>
  The snapshot does not depend on the order the indexers list their objects in, nor on the order Go
  ranges over a map: equal cluster states give equal frames, which is what the hub's byte comparison
  relies on. The alerts feed has one row per identity.
\<close>

section \<open>Sorting is independent of the input order\<close>

lemma insert_by_commute:
  assumes "transp lt" "asymp lt" "lt x y \<or> lt y x \<or> x = y"
  shows "insert_by lt x (insert_by lt y zs) = insert_by lt y (insert_by lt x zs)"
proof (induction zs)
  case Nil
  show ?case using assms(2,3) by (auto dest: asympD)
next
  case (Cons z zs)
  show ?case using Cons assms by (auto dest: asympD transpD)
qed

lemma sort_by_perm:
  assumes "transp lt" "asymp lt" "mset xs = mset ys"
    and "\<forall>x \<in> set xs. \<forall>y \<in> set xs. lt x y \<or> lt y x \<or> x = y"
  shows "sort_by lt xs = sort_by lt ys"
proof -
  have "fold (insert_by lt) (rev xs) = fold (insert_by lt) (rev ys)"
    using assms insert_by_commute[OF assms(1,2)]
    by (intro fold_multiset_equiv) (auto simp: fun_eq_iff)
  then show ?thesis by (simp add: sort_by_def foldr_conv_fold)
qed

lemma mset_insert_by: "mset (insert_by lt x ys) = add_mset x (mset ys)"
  by (induction ys) auto

lemma mset_sort_by: "mset (sort_by lt xs) = mset xs"
  unfolding sort_by_def by (induction xs) (auto simp: mset_insert_by)

text \<open>Sorting by a text key that identifies the elements.\<close>

lemma sort_by_key_perm:
  fixes key :: "'a \<Rightarrow> string"
  assumes "mset xs = mset ys" "inj_on key (set xs)"
  shows "sort_by (\<lambda>a b. key a < key b) xs = sort_by (\<lambda>a b. key a < key b) ys"
proof (rule sort_by_perm)
  show "transp (\<lambda>a b. key a < key b)" by (auto intro: transpI)
  show "asymp (\<lambda>a b. key a < key b)" by (auto intro: asympI)
  show "\<forall>x \<in> set xs. \<forall>y \<in> set xs. key x < key y \<or> key y < key x \<or> x = y"
    using assms(2) by (meson inj_onD linorder_neqE)
qed (rule assms)

lemma distinct_inj_on: "distinct (map f xs) \<Longrightarrow> inj_on f (set xs)"
  by (simp add: distinct_map)

lemma map_of_perm:
  assumes "mset xs = mset ys" "distinct (map fst xs)"
  shows "map_of xs = map_of ys"
proof -
  have "mset (map fst xs) = mset (map fst ys)" using assms(1) by (simp add: mset_map)
  then have "distinct (map fst ys)" using assms(2) by (metis mset_eq_imp_distinct_iff)
  with assms show ?thesis by (metis map_of_inject_set mset_eq_setD)
qed

section \<open>Merging alerts\<close>

definition lookup_alert :: "string \<Rightarrow> mAlert list \<Rightarrow> mAlert option" where
  "lookup_alert k as = find (\<lambda>p. alert_key p = k) as"

lemma merge_alert_ident [simp]:
  "maNamespace (merge_alert a p) = maNamespace p" "maObject (merge_alert a p) = maObject p"
  "maReason (merge_alert a p) = maReason p" "alert_key (merge_alert a p) = alert_key p"
  "maCount (merge_alert a p) = maCount p + maCount a"
  "maLastSeen (merge_alert a p) = max (maLastSeen p) (maLastSeen a)"
  by (auto simp: merge_alert_def alert_key_def Let_def max_def)

lemma merge_alert_message:
  "maMessage (merge_alert a p) = (if maLastSeen p < maLastSeen a then maMessage a else maMessage p)"
  by (simp add: merge_alert_def Let_def)

lemma lookup_add:
  "lookup_alert k (add_alert a as) =
     (if alert_key a = k then Some (case lookup_alert k as of None \<Rightarrow> a | Some p \<Rightarrow> merge_alert a p)
      else lookup_alert k as)"
  by (induction as) (auto simp: lookup_alert_def)

lemma keys_add:
  "map alert_key (add_alert a as) =
     (if alert_key a \<in> alert_key ` set as then map alert_key as else map alert_key as @ [alert_key a])"
  by (induction as) auto

lemma distinct_keys_add: "distinct (map alert_key as) \<Longrightarrow> distinct (map alert_key (add_alert a as))"
  by (auto simp: keys_add)

lemma distinct_keys_fold: "distinct (map alert_key as) \<Longrightarrow> distinct (map alert_key (fold add_alert bs as))"
  by (induction bs arbitrary: as) (auto intro: distinct_keys_add)

text \<open>All alerts of one identity, folded into the first.\<close>

fun combine :: "mAlert list \<Rightarrow> mAlert option" where
  "combine [] = None"
| "combine (x # xs) = Some (fold merge_alert xs x)"

lemma combine_snoc: "combine (xs @ [a]) = Some (case combine xs of None \<Rightarrow> a | Some p \<Rightarrow> merge_alert a p)"
  by (cases xs) auto

lemma lookup_fold:
  "lookup_alert k (fold add_alert as []) = combine (filter (\<lambda>a. alert_key a = k) as)"
proof (induction as rule: rev_induct)
  case Nil
  show ?case by (simp add: lookup_alert_def)
next
  case (snoc a as)
  then show ?case by (simp add: lookup_add combine_snoc)
qed

lemma lookup_map_of: "lookup_alert k as = map_of (map (\<lambda>p. (alert_key p, p)) as) k"
  by (induction as) (auto simp: lookup_alert_def)

lemma set_by_lookup:
  assumes "distinct (map alert_key as)"
  shows "p \<in> set as \<longleftrightarrow> lookup_alert (alert_key p) as = Some p"
proof -
  have "distinct (map fst (map (\<lambda>p. (alert_key p, p)) as))" using assms by (simp add: comp_def)
  then have "lookup_alert (alert_key p) as = Some p \<longleftrightarrow> (alert_key p, p) \<in> set (map (\<lambda>p. (alert_key p, p)) as)"
    by (simp only: lookup_map_of map_of_eq_Some_iff)
  then show ?thesis by auto
qed

text \<open>What the merged row of an identity is: the total count, the latest sighting, and the message of an
  event seen then.\<close>

lemma combine_spec:
  assumes "xs \<noteq> []"
  shows "\<exists>c. combine xs = Some c \<and> maCount c = sum_list (map maCount xs) \<and>
    maNamespace c = maNamespace (hd xs) \<and> maObject c = maObject (hd xs) \<and> maReason c = maReason (hd xs) \<and>
    (\<forall>a \<in> set xs. maLastSeen a \<le> maLastSeen c) \<and>
    (\<exists>a \<in> set xs. maLastSeen a = maLastSeen c \<and> maMessage a = maMessage c)"
  using assms
proof (induction xs rule: rev_induct)
  case (snoc a xs)
  show ?case
  proof (cases "xs = []")
    case True
    then show ?thesis by simp
  next
    case False
    with snoc.IH obtain c where c: "combine xs = Some c" "maCount c = sum_list (map maCount xs)"
      "maNamespace c = maNamespace (hd xs)" "maObject c = maObject (hd xs)" "maReason c = maReason (hd xs)"
      "\<forall>b \<in> set xs. maLastSeen b \<le> maLastSeen c"
      "\<exists>b \<in> set xs. maLastSeen b = maLastSeen c \<and> maMessage b = maMessage c" by blast
    have "\<exists>b \<in> set (xs @ [a]). maLastSeen b = maLastSeen (merge_alert a c) \<and> maMessage b = maMessage (merge_alert a c)"
      using c(7) by (auto simp: merge_alert_message max_def)
    with c False show ?thesis
      by (auto simp: combine_snoc max.coboundedI1)
  qed
qed simp

text \<open>Alerts of one identity agree on what it is made of, and on the message of one sighting.\<close>

definition alerts_agree :: "mAlert list \<Rightarrow> bool" where
  "alerts_agree as \<longleftrightarrow> (\<forall>a \<in> set as. \<forall>b \<in> set as. alert_key a = alert_key b \<longrightarrow>
     maNamespace a = maNamespace b \<and> maObject a = maObject b \<and> maReason a = maReason b \<and>
     (maLastSeen a = maLastSeen b \<longrightarrow> maMessage a = maMessage b))"

lemma combine_perm:
  assumes "mset xs = mset ys" "\<forall>a \<in> set xs. alert_key a = k" "alerts_agree xs"
  shows "combine xs = combine ys"
proof (cases "xs = []")
  case True
  then show ?thesis using assms(1) by simp
next
  case False
  then have "ys \<noteq> []" using assms(1) by auto
  have sets: "set xs = set ys" using assms(1) by (rule mset_eq_setD)
  obtain c where c: "combine xs = Some c" "maCount c = sum_list (map maCount xs)"
      "maNamespace c = maNamespace (hd xs)" "maObject c = maObject (hd xs)" "maReason c = maReason (hd xs)"
      "\<forall>b \<in> set xs. maLastSeen b \<le> maLastSeen c"
      "\<exists>b \<in> set xs. maLastSeen b = maLastSeen c \<and> maMessage b = maMessage c"
    using combine_spec[OF False] by blast
  obtain d where d: "combine ys = Some d" "maCount d = sum_list (map maCount ys)"
      "maNamespace d = maNamespace (hd ys)" "maObject d = maObject (hd ys)" "maReason d = maReason (hd ys)"
      "\<forall>b \<in> set ys. maLastSeen b \<le> maLastSeen d"
      "\<exists>b \<in> set ys. maLastSeen b = maLastSeen d \<and> maMessage b = maMessage d"
    using combine_spec[OF \<open>ys \<noteq> []\<close>] by blast
  have hd: "hd xs \<in> set xs" "hd ys \<in> set xs"
    unfolding sets[symmetric] using hd_in_set[OF False] hd_in_set[OF \<open>ys \<noteq> []\<close>] sets by simp_all
  have count: "maCount c = maCount d"
  proof -
    have "mset (map maCount xs) = mset (map maCount ys)" using assms(1) by simp
    then have "sum_list (map maCount xs) = sum_list (map maCount ys)"
      using sum_mset_sum_list[of "map maCount xs"] sum_mset_sum_list[of "map maCount ys"] by simp
    with c(2) d(2) show ?thesis by simp
  qed
  have seen: "maLastSeen c = maLastSeen d" using c(6,7) d(6,7) sets by (metis order_antisym)
  have msg: "maMessage c = maMessage d"
    using c(7) d(7) seen sets assms(2,3) unfolding alerts_agree_def by metis
  have "maNamespace (hd xs) = maNamespace (hd ys) \<and> maObject (hd xs) = maObject (hd ys) \<and>
      maReason (hd xs) = maReason (hd ys)"
    using hd assms(2,3) unfolding alerts_agree_def by metis
  with c d count seen msg have "c = d" by simp
  with c d show ?thesis by simp
qed

lemma fold_add_perm:
  assumes "mset as = mset bs" "alerts_agree as"
  shows "mset (fold add_alert as []) = mset (fold add_alert bs [])"
proof -
  have look: "lookup_alert k (fold add_alert as []) = lookup_alert k (fold add_alert bs [])" for k
    unfolding lookup_fold
    by (rule combine_perm[of _ _ k]) (use assms in \<open>auto simp: alerts_agree_def\<close>)
  have dist: "distinct (map alert_key (fold add_alert xs []))" for xs
    by (rule distinct_keys_fold) simp
  have "set (fold add_alert as []) = set (fold add_alert bs [])"
    using set_by_lookup[OF dist] look by auto
  then show ?thesis using dist by (metis distinct_map set_eq_iff_mset_eq_distinct)
qed

interpretation ab: weak_order alert_before
  by unfold_locales (auto simp: alert_before_def split: if_splits)

lemma alert_before_trans: "transp alert_before"
  by (rule transpI) (auto simp: alert_before_def split: if_splits)

lemma alert_before_asym: "asymp alert_before"
  by (rule asympI) (auto simp: alert_before_def split: if_splits)

text \<open>The sort text identifies an alert when it identifies its parts.\<close>

definition texts_identify :: "mAlert list \<Rightarrow> bool" where
  "texts_identify as \<longleftrightarrow> (\<forall>a \<in> set as. \<forall>b \<in> set as. sort_text a = sort_text b \<longrightarrow> alert_key a = alert_key b)"

lemma merged_origin:
  assumes "p \<in> set (fold add_alert as [])"
  shows "\<exists>a \<in> set as. alert_key a = alert_key p \<and> sort_text a = sort_text p"
proof -
  let ?xs = "filter (\<lambda>a. alert_key a = alert_key p) as"
  have "distinct (map alert_key (fold add_alert as []))" by (rule distinct_keys_fold) simp
  with assms have c: "combine ?xs = Some p" by (simp add: set_by_lookup lookup_fold)
  then have "?xs \<noteq> []" by auto
  with combine_spec[OF this] c have "sort_text p = sort_text (hd ?xs)" by (auto simp: sort_text_def)
  moreover have "hd ?xs \<in> set ?xs" using \<open>?xs \<noteq> []\<close> by (rule hd_in_set)
  ultimately show ?thesis by auto
qed

lemma sorted_alerts_perm:
  assumes "mset as = mset bs" "alerts_agree as" "texts_identify as"
  shows "sort_by alert_before (fold add_alert as []) = sort_by alert_before (fold add_alert bs [])"
proof (rule sort_by_perm[OF alert_before_trans alert_before_asym fold_add_perm[OF assms(1,2)]])
  let ?A = "fold add_alert as []"
  have dist: "distinct (map alert_key ?A)" by (rule distinct_keys_fold) simp
  show "\<forall>x \<in> set ?A. \<forall>y \<in> set ?A. alert_before x y \<or> alert_before y x \<or> x = y"
  proof (intro ballI)
    fix x y assume xy: "x \<in> set ?A" "y \<in> set ?A"
    show "alert_before x y \<or> alert_before y x \<or> x = y"
    proof (cases "maLastSeen x = maLastSeen y \<and> sort_text x = sort_text y")
      case True
      obtain a b where "a \<in> set as" "b \<in> set as" "alert_key a = alert_key x" "alert_key b = alert_key y"
        "sort_text a = sort_text b" using merged_origin[OF xy(1)] merged_origin[OF xy(2)] True by metis
      with assms(3) have "alert_key x = alert_key y" unfolding texts_identify_def by metis
      with dist xy show ?thesis by (metis distinct_map inj_onD)
    qed (auto simp: alert_before_def)
  qed
qed

section \<open>Rows\<close>

lemma decoded_perm: "mset us = mset us' \<Longrightarrow> mset (decoded dec us) = mset (decoded dec us')"
  unfolding decoded_def List.map_filter_def by simp

lemma disksOf_filter:
  "disksOf invs node = concat (map (\<lambda>inv. map diskModel (niDisks inv)) (filter (\<lambda>inv. omName (niMeta inv) = node) invs))"
  by (induction invs) (auto simp: disksOf_def)

lemma short_perm:
  assumes "length xs \<le> 1" "mset xs = mset ys"
  shows "xs = ys"
proof (cases xs)
  case Nil
  then show ?thesis using assms(2) by simp
next
  case (Cons x zs)
  with assms have "xs = [x]" "mset ys = {#x#}" by simp_all
  then show ?thesis by (simp add: mset_single_iff)
qed

lemma concat_map_perm:
  assumes "mset xs = mset ys"
  shows "mset (concat (map f xs)) = mset (concat (map f ys))"
proof -
  have "mset (concat (map f zs)) = \<Sum>\<^sub># (image_mset (\<lambda>x. mset (f x)) (mset zs))" for zs
    by (induction zs) simp_all
  then show ?thesis using assms by simp
qed

lemma disksOf_perm:
  assumes "mset invs = mset invs'" "distinct (map (\<lambda>inv. omName (niMeta inv)) invs)"
  shows "disksOf invs = disksOf invs'"
proof
  fix node
  let ?f = "filter (\<lambda>inv. omName (niMeta inv) = node)"
  have "length (?f invs) \<le> 1"
    using assms(2) by (induction invs) (auto simp: image_iff filter_empty_conv)
  moreover have eq: "mset (?f invs) = mset (?f invs')" using assms(1) by simp
  ultimately have "?f invs = ?f invs'" by (rule short_perm)
  then show "disksOf invs node = disksOf invs' node" by (simp add: disksOf_filter)
qed

lemma smartAlerts_perm:
  assumes "mset invs = mset invs'" "distinct (map maObject (smartAlerts invs))"
  shows "sort_by (\<lambda>a b. maObject a < maObject b) (smartAlerts invs) = sort_by (\<lambda>a b. maObject a < maObject b) (smartAlerts invs')"
proof (rule sort_by_key_perm)
  show "mset (smartAlerts invs) = mset (smartAlerts invs')"
    using assms(1) unfolding smartAlerts_def by (rule concat_map_perm)
  show "inj_on maObject (set (smartAlerts invs))" using assms(2) by (rule distinct_inj_on)
qed

lemma replicaModel_order:
  assumes "mset (ord r) = mset (clPeerOrder lib r)"
  shows "replicaModel (lib\<lparr>clPeerOrder := ord\<rparr>) r = replicaModel lib r"
proof -
  let ?row = "\<lambda>node. \<lparr>mePeer = node, meConnected = (mget (rsPeers r) node = ''Connected''), meStatus = mget (rsPeers r) node\<rparr>"
  have "inj_on mePeer (set (map ?row (ord r)))" by (rule inj_onI) auto
  then have "sort_by (\<lambda>a b. mePeer a < mePeer b) (map ?row (ord r)) =
      sort_by (\<lambda>a b. mePeer a < mePeer b) (map ?row (clPeerOrder lib r))"
    using assms by (intro sort_by_key_perm) simp_all
  then show ?thesis by (simp add: replicaModel_def)
qed

lemma replicationModel_order:
  assumes "\<forall>r. mset (ord r) = mset (clPeerOrder lib r)"
  shows "replicationModel (lib\<lparr>clPeerOrder := ord\<rparr>) = replicationModel lib"
proof
  have "replicaModel (lib\<lparr>clPeerOrder := ord\<rparr>) = replicaModel lib"
    using assms by (intro ext replicaModel_order) simp
  then show "replicationModel (lib\<lparr>clPeerOrder := ord\<rparr>) v = replicationModel lib v" for v
    by (simp add: replicationModel_def Let_def)
qed


section \<open>Equal states, equal frames\<close>

text \<open>Two readings of one cluster state: every indexer lists the same objects, a node carries the same labels,
  and nothing is said of the order of either.\<close>

definition sorted_labels :: "KNode \<Rightarrow> KNode" where
  "sorted_labels n = n\<lparr>knLabels := sort (knLabels n)\<rparr>"

definition same_state :: "State \<Rightarrow> State \<Rightarrow> bool" where
  "same_state s s' \<longleftrightarrow>
     mset (stPools s) = mset (stPools s') \<and> mset (stShares s) = mset (stShares s') \<and>
     mset (stInventories s) = mset (stInventories s') \<and> mset (stTargets s) = mset (stTargets s') \<and>
     mset (stSnapshots s) = mset (stSnapshots s') \<and> mset (stBacking s) = mset (stBacking s') \<and>
     mset (map sorted_labels (stNodes s)) = mset (map sorted_labels (stNodes s')) \<and>
     mset (stPvcs s) = mset (stPvcs s') \<and> mset (stEvents s) = mset (stEvents s') \<and>
     stSystemNamespace s = stSystemNamespace s'"

text \<open>What the API server and the agents promise of a state: names identify objects, an inventory lists a
  path once, and one sighting of an event has one message.\<close>

abbreviation ns_key :: "('a \<Rightarrow> ObjectMeta) \<Rightarrow> 'a \<Rightarrow> string" where
  "ns_key meta x \<equiv> omNamespace (meta x) @ ''/'' @ omName (meta x)"

definition state_ok :: "cslib \<Rightarrow> State \<Rightarrow> bool" where
  "state_ok lib s \<longleftrightarrow>
     distinct (map (omName \<circ> spMeta) (decoded (clPool lib) (stPools s))) \<and>
     distinct (map (omName \<circ> niMeta) (decoded (clInventory lib) (stInventories s))) \<and>
     distinct (map maObject (smartAlerts (decoded (clInventory lib) (stInventories s)))) \<and>
     distinct (map (omName \<circ> vMeta) (decoded (clVolume lib) (stBacking s))) \<and>
     distinct (map (omName \<circ> nMeta) (stNodes s)) \<and>
     distinct (map (ns_key pvcMeta) (stPvcs s)) \<and>
     distinct (map (ns_key shMeta) (decoded (clShare lib) (stShares s))) \<and>
     distinct (map (ns_key tMeta) (decoded (clTarget lib) (stTargets s))) \<and>
     distinct (map (\<lambda>u. GetNamespace (clUnstr lib) u @ ''/'' @ GetName (clUnstr lib) u) (stSnapshots s)) \<and>
     alerts_agree (map alertModel (stEvents s)) \<and> texts_identify (map alertModel (stEvents s))"

lemma sort_rows_perm:
  fixes key :: "'b \<Rightarrow> string"
  assumes "mset xs = mset ys" "distinct (map (\<lambda>x. key (row x)) xs)"
  shows "sort_by (\<lambda>a b. key a < key b) (map row xs) = sort_by (\<lambda>a b. key a < key b) (map row ys)"
proof (rule sort_by_key_perm)
  show "mset (map row xs) = mset (map row ys)" using assms(1) by simp
  have "distinct (map key (map row xs))" using assms(2) by (simp add: comp_def)
  then show "inj_on key (set (map row xs))" by (rule distinct_inj_on)
qed

lemma by_key_fun: "by_key ns name = (\<lambda>a b. ns a @ ''/'' @ name a < ns b @ ''/'' @ name b)"
  by (simp add: by_key_def fun_eq_iff)

lemma sort_map_filter_sort:
  fixes f :: "'a::linorder \<Rightarrow> 'b::linorder option"
  shows "sort (List.map_filter f (sort xs)) = sort (List.map_filter f xs)"
proof (rule properties_for_sort)
  show "mset (sort (List.map_filter f xs)) = mset (List.map_filter f (sort xs))"
    by (simp add: List.map_filter_def)
qed simp

lemma nodeModel_sorted_labels [simp]: "nodeModel (sorted_labels n) = nodeModel n"
  by (simp add: nodeModel_def sorted_labels_def sort_map_filter_sort)

lemma sorted_labels_meta [simp]: "nMeta (sorted_labels n) = nMeta n"
  by (simp add: sorted_labels_def)

lemma nodeModel_name [simp]: "mnName (nodeModel n) = omName (nMeta n)"
  by (simp add: nodeModel_def)

lemma snap_volumes_perm:
  assumes "mset vols = mset vols'" "distinct (map (omName \<circ> vMeta) vols)"
  shows "snap_volumes lib vols = snap_volumes lib vols'"
proof -
  let ?row = "\<lambda>v. (omName (vMeta v), replicationModel lib v)"
  have "map_of (rev (map ?row vols)) = map_of (rev (map ?row vols'))"
    using assms by (intro map_of_perm) (simp_all add: rev_map[symmetric] comp_def)
  then show ?thesis by (simp add: snap_volumes_def fun_eq_iff)
qed

lemma snap_volumes_order:
  assumes "\<forall>r. mset (ord r) = mset (clPeerOrder lib r)"
  shows "snap_volumes (lib\<lparr>clPeerOrder := ord\<rparr>) = snap_volumes lib"
  by (simp add: snap_volumes_def fun_eq_iff replicationModel_order[OF assms])


lemma snapshotModel_order: "snapshotModel (lib\<lparr>clPeerOrder := ord\<rparr>) = snapshotModel lib"
  by (simp add: snapshotModel_def Let_def fun_eq_iff)

lemma snap_alerts_perm:
  assumes "mset evs = mset evs'" "mset invs = mset invs'" "distinct (map maObject (smartAlerts invs))"
    and "alerts_agree (map alertModel evs)" "texts_identify (map alertModel evs)"
  shows "snap_alerts evs invs = snap_alerts evs' invs'"
proof -
  have "sort_by alert_before (merged_alerts evs) = sort_by alert_before (merged_alerts evs')"
    unfolding merged_alerts_def using assms by (intro sorted_alerts_perm) simp_all
  then show ?thesis unfolding snap_alerts_def Let_def smartAlerts_perm[OF assms(2,3)] by simp
qed

lemma snap_nodes_perm:
  assumes "mset (map sorted_labels ns) = mset (map sorted_labels ns')" "distinct (map (omName \<circ> nMeta) ns)"
    and rows: "\<forall>n. row (sorted_labels n) = row n \<and> mnName (row n) = omName (nMeta n)"
  shows "sort_by (\<lambda>a b. mnName a < mnName b) (map row ns) = sort_by (\<lambda>a b. mnName a < mnName b) (map row ns')"
proof -
  have "map row (map sorted_labels zs) = map row zs" for zs using rows by simp
  moreover have "sort_by (\<lambda>a b. mnName a < mnName b) (map row (map sorted_labels ns)) =
      sort_by (\<lambda>a b. mnName a < mnName b) (map row (map sorted_labels ns'))"
    using assms by (intro sort_rows_perm) (simp_all add: comp_def sorted_labels_def)
  ultimately show ?thesis by (simp only:)
qed

lemma State_Snapshot_perm:
  assumes "same_state s s'" "state_ok lib s" "\<forall>r. mset (ord r) = mset (clPeerOrder lib r)"
  shows "State_Snapshot (lib\<lparr>clPeerOrder := ord\<rparr>) s' = State_Snapshot lib s"
proof -
  note same = assms(1)[unfolded same_state_def] and ok = assms(2)[unfolded state_ok_def]
  let ?invs = "decoded (clInventory lib) (stInventories s)" and ?invs' = "decoded (clInventory lib) (stInventories s')"
  let ?vols = "decoded (clVolume lib) (stBacking s)" and ?vols' = "decoded (clVolume lib) (stBacking s')"
  have invs: "mset ?invs = mset ?invs'" and vols: "mset ?vols = mset ?vols'"
    using same by (blast intro: decoded_perm)+
  have disks: "disksOf ?invs = disksOf ?invs'" using ok by (intro disksOf_perm[OF invs]) (simp add: comp_def)
  have volumes: "snap_volumes lib ?vols = snap_volumes lib ?vols'" using ok by (intro snap_volumes_perm[OF vols]) blast
  have pools: "sort_by (\<lambda>a b. mpName a < mpName b) (map poolModel (decoded (clPool lib) (stPools s))) =
      sort_by (\<lambda>a b. mpName a < mpName b) (map poolModel (decoded (clPool lib) (stPools s')))"
    by (rule sort_rows_perm[OF decoded_perm]) (use same ok in \<open>simp_all add: poolModel_def Let_def comp_def\<close>)
  have shares: "sort_by (by_key msNamespace msName) (map shareModel (decoded (clShare lib) (stShares s))) =
      sort_by (by_key msNamespace msName) (map shareModel (decoded (clShare lib) (stShares s')))"
    unfolding by_key_fun
    by (rule sort_rows_perm[OF decoded_perm]) (use same ok in \<open>simp_all add: shareModel_def Let_def\<close>)
  have targets: "sort_by (by_key mtNamespace mtName) (map targetModel (decoded (clTarget lib) (stTargets s))) =
      sort_by (by_key mtNamespace mtName) (map targetModel (decoded (clTarget lib) (stTargets s')))"
    unfolding by_key_fun
    by (rule sort_rows_perm[OF decoded_perm]) (use same ok in \<open>simp_all add: targetModel_def Let_def\<close>)
  have snapshots: "sort_by (by_key mzNamespace mzName) (map (snapshotModel lib) (stSnapshots s)) =
      sort_by (by_key mzNamespace mzName) (map (snapshotModel lib) (stSnapshots s'))"
    unfolding by_key_fun
    by (rule sort_rows_perm) (use same ok in \<open>simp_all add: snapshotModel_def Let_def\<close>)
  have pvcs: "sort_by (by_key mvNamespace mvName) (snap_volumes lib ?vols (stPvcs s)) =
      sort_by (by_key mvNamespace mvName) (snap_volumes lib ?vols (stPvcs s'))"
    unfolding by_key_fun snap_volumes_def Let_def
    by (rule sort_rows_perm) (use same ok in \<open>simp_all add: volumeModel_def\<close>)
  have nodes: "sort_by (\<lambda>a b. mnName a < mnName b)
        (map (\<lambda>n. (nodeModel n)\<lparr>mnDisks := disksOf ?invs (omName (nMeta n))\<rparr>) (stNodes s)) =
      sort_by (\<lambda>a b. mnName a < mnName b)
        (map (\<lambda>n. (nodeModel n)\<lparr>mnDisks := disksOf ?invs (omName (nMeta n))\<rparr>) (stNodes s'))"
  proof (rule snap_nodes_perm)
    show "mset (map sorted_labels (stNodes s)) = mset (map sorted_labels (stNodes s'))" using same by blast
    show "distinct (map (omName \<circ> nMeta) (stNodes s))" using ok by blast
  qed (simp add: nodeModel_name sorted_labels_meta)
  have alerts: "snap_alerts (stEvents s) ?invs = snap_alerts (stEvents s') ?invs'"
    by (rule snap_alerts_perm[OF _ invs]) (use same ok in blast)+
  show ?thesis unfolding State_Snapshot_def Let_def
    using same by (simp add: snapshotModel_order snap_volumes_order[OF assms(3)] pools shares targets snapshots pvcs nodes alerts
      disks[symmetric] volumes[symmetric])
qed



section \<open>The alerts feed\<close>

text \<open>A row that stands for several alerts.\<close>

definition row_of :: "mAlert \<Rightarrow> mAlert list \<Rightarrow> bool" where
  "row_of p as \<longleftrightarrow> maCount p = sum_list (map maCount as) \<and> (\<forall>a \<in> set as. maLastSeen a \<le> maLastSeen p) \<and>
    (\<exists>a \<in> set as. maLastSeen a = maLastSeen p \<and> maMessage a = maMessage p)"

lemma merged_row:
  assumes "p \<in> set (merged_alerts evs)"
  shows "row_of p (filter (\<lambda>a. alert_key a = alert_key p) (map alertModel evs))"
proof -
  let ?as = "filter (\<lambda>a. alert_key a = alert_key p) (map alertModel evs)"
  have "distinct (map alert_key (merged_alerts evs))"
    unfolding merged_alerts_def by (rule distinct_keys_fold) simp
  with assms have c: "combine ?as = Some p"
    by (simp add: set_by_lookup lookup_fold[symmetric] merged_alerts_def)
  then have "?as \<noteq> []" by auto
  from combine_spec[OF this] c show ?thesis by (auto simp: row_of_def)
qed

lemma merged_covers:
  assumes "ev \<in> set evs"
  shows "\<exists>p \<in> set (merged_alerts evs). alert_key p = alert_key (alertModel ev)"
proof -
  let ?k = "alert_key (alertModel ev)"
  have "filter (\<lambda>a. alert_key a = ?k) (map alertModel evs) \<noteq> []" using assms by (auto simp: filter_empty_conv)
  then obtain p where "lookup_alert ?k (merged_alerts evs) = Some p"
    unfolding merged_alerts_def lookup_fold using combine_spec by blast
  then show ?thesis by (auto simp: lookup_alert_def find_Some_iff)
qed

lemma dropped_alert:
  assumes "sorted_wrt R xs" "x \<in> set xs" "x \<notin> set (take n xs)"
  shows "length (take n xs) = n \<and> (\<forall>y \<in> set (take n xs). R y x)"
proof -
  have "sorted_wrt R (take n xs @ drop n xs)" using assms(1) by simp
  moreover have d: "x \<in> set (drop n xs)" using assms(2,3) by (metis Un_iff append_take_drop_id set_append)
  ultimately have "\<forall>y \<in> set (take n xs). R y x" unfolding sorted_wrt_append by blast
  moreover from d have "n \<le> length xs" by (cases "n \<le> length xs") auto
  ultimately show ?thesis by simp
qed

text \<open>\<^bold>\<open>C38\<close>. The trouble feed: the failing disks lead, all of them; then at most a hundred event rows, newest first, one
  per namespace, object and reason, each with the total count of its events (as \<open>int32\<close>), the latest
  sighting and the message of an event seen then. An event has no row only when a hundred rows at least as
  new are shown.\<close>

theorem alerts_feed:
  "\<exists>lead rows. snap_alerts evs invs = lead @ rows \<and> mset lead = mset (smartAlerts invs) \<and> length rows \<le> 100 \<and>
     distinct (map alert_key rows) \<and> sorted_wrt (\<lambda>p q. maLastSeen q \<le> maLastSeen p) rows \<and>
     (\<forall>p \<in> set rows. row_of p (filter (\<lambda>a. alert_key a = alert_key p) (map alertModel evs))) \<and>
     (\<forall>ev \<in> set evs. (\<exists>p \<in> set rows. alert_key p = alert_key (alertModel ev)) \<or>
        length rows = 100 \<and> (\<forall>p \<in> set rows. maLastSeen (alertModel ev) \<le> maLastSeen p))"
proof -
  let ?S = "sort_by alert_before (merged_alerts evs)"
  let ?lead = "sort_by (\<lambda>a b. maObject a < maObject b) (smartAlerts invs)" and ?rows = "take 100 ?S"
  have srt: "sorted_wrt (\<lambda>p q. maLastSeen q \<le> maLastSeen p) ?S"
    using ab.sorted_sort_by by (rule sorted_wrt_mono_rel[rotated]) (auto simp: alert_before_def split: if_splits)
  have keys: "distinct (map alert_key ?S)"
  proof -
    have "mset (map alert_key ?S) = mset (map alert_key (merged_alerts evs))" by (simp add: mset_sort_by)
    moreover have "distinct (map alert_key (merged_alerts evs))"
      unfolding merged_alerts_def by (rule distinct_keys_fold) simp
    ultimately show ?thesis by (metis mset_eq_imp_distinct_iff)
  qed
  have rows: "set ?rows \<subseteq> set (merged_alerts evs)" by (metis set_sort_by set_take_subset)
  have shown: "(\<exists>p \<in> set ?rows. alert_key p = alert_key (alertModel ev)) \<or>
      length ?rows = 100 \<and> (\<forall>p \<in> set ?rows. maLastSeen (alertModel ev) \<le> maLastSeen p)" if "ev \<in> set evs" for ev
  proof -
    obtain p where p: "p \<in> set ?S" "alert_key p = alert_key (alertModel ev)" using merged_covers[OF \<open>ev \<in> set evs\<close>] by auto
    have new: "maLastSeen (alertModel ev) \<le> maLastSeen p"
      using merged_row[of p evs] p that by (auto simp: row_of_def)
    show ?thesis
    proof (cases "p \<in> set ?rows")
      case False
      with dropped_alert[OF srt p(1)] new show ?thesis by (meson order_trans)
    qed (use p in blast)
  qed
  have "snap_alerts evs invs = ?lead @ ?rows" by (simp add: snap_alerts_def Let_def)
  moreover have "distinct (map alert_key ?rows)" "sorted_wrt (\<lambda>p q. maLastSeen q \<le> maLastSeen p) ?rows"
    using keys srt by (simp_all add: take_map[symmetric] sorted_wrt_take)
  moreover have "mset ?lead = mset (smartAlerts invs)" "length ?rows \<le> 100" by (simp_all add: mset_sort_by)
  moreover have "\<forall>p \<in> set ?rows. row_of p (filter (\<lambda>a. alert_key a = alert_key p) (map alertModel evs))"
    using rows merged_row by blast
  moreover note shown
  ultimately show ?thesis by blast
qed

text \<open>A dying disk and two sightings of one failing pod.\<close>

definition pod_event :: "string \<Rightarrow> 32 word \<Rightarrow> instant \<Rightarrow> KEvent" where
  "pod_event msg n t = \<lparr>evNamespace = ''default'', evKind = ''Pod'', evName = ''nfs'', evReason = ''BackOff'',
     evMessage = msg, evCount = n, evLastTimestamp = t, evEventTime = 0, evSeries = None\<rparr>"

definition dying_inventory :: NodeInventory where
  "dying_inventory = \<lparr>niMeta = meta0 '''' ''n1'', niDisks = [\<lparr>dkPath = ''/dev/sdb'', dkModel = '''', dkSerial = '''',
     dkSize = 0, dkRotational = True, dkClaimed = True, dkSmart = ''Failed'', dkTempCelsius = None,
     dkPowerOnHours = None\<rparr>], niObservedAt = None\<rparr>"

lemma pod_event_alert [simp]:
  "maNamespace (alertModel (pod_event m n t)) = ''default''" "maObject (alertModel (pod_event m n t)) = ''Pod/nfs''"
  "maReason (alertModel (pod_event m n t)) = ''BackOff''" "maCount (alertModel (pod_event m n t)) = n"
  "maMessage (alertModel (pod_event m n t)) = m"
  "alert_key (alertModel (pod_event m n t)) = ''default/Pod/nfs/BackOff''"
  by (simp_all add: alertModel_def pod_event_def Let_def alert_key_def)

theorem alerts_feed_witness:
  "\<exists>lead p. snap_alerts [pod_event ''a'' 2 second, pod_event ''b'' 3 (2 * second)] [dying_inventory] = lead @ [p] \<and>
     map maObject lead = [''Disk/n1:/dev/sdb''] \<and> maCount p = 5"
proof -
  let ?evs = "[pod_event ''a'' 2 second, pod_event ''b'' 3 (2 * second)]"
  have smart: "smartAlerts [dying_inventory] = [smartAlert ''n1'' (hd (niDisks dying_inventory))]"
    by (simp add: smartAlerts_def dying_inventory_def meta0_def)
  have len: "length (snap_alerts ?evs [dying_inventory]) = 2"
    by (simp add: snap_alerts_def Let_def smart merged_alerts_def)
  obtain lead rows where f: "snap_alerts ?evs [dying_inventory] = lead @ rows"
    "mset lead = mset (smartAlerts [dying_inventory])"
    "\<forall>p \<in> set rows. row_of p (filter (\<lambda>a. alert_key a = alert_key p) (map alertModel ?evs))"
    "\<forall>ev \<in> set ?evs. (\<exists>p \<in> set rows. alert_key p = alert_key (alertModel ev)) \<or>
        length rows = 100 \<and> (\<forall>p \<in> set rows. maLastSeen (alertModel ev) \<le> maLastSeen p)"
    using alerts_feed[of ?evs "[dying_inventory]"] by blast
  have lead: "lead = smartAlerts [dying_inventory]" using f(2) by (simp add: smart)
  then have "length rows = 1" using len f(1) by (simp add: smart)
  then obtain p where rows: "rows = [p]" by (cases rows) auto
  with f(4) have "alert_key p = ''default/Pod/nfs/BackOff''" by simp
  with f(3) rows have "maCount p = 5" by (simp add: row_of_def)
  moreover have "map maObject lead = [''Disk/n1:/dev/sdb'']"
    unfolding lead smart by (simp add: smartAlert_def dying_inventory_def)
  ultimately show ?thesis using f(1) rows by (intro exI[of _ lead] exI[of _ p]) (simp only: simp_thms)
qed

text \<open>The order of two events decides the frame where they agree on identity and second but not on the message:
  the strict comparison keeps the message that came first.\<close>

lemma alert_tie_order_dependent:
  "\<exists>lib s s'. same_state s s' \<and> State_Snapshot lib s \<noteq> State_Snapshot lib s'"
proof -
  let ?a = "pod_event ''back-off 10s'' 1 second" and ?b = "pod_event ''back-off 20s'' 1 second"
  let ?s = "\<lambda>evs. \<lparr>stPools = [], stShares = [], stInventories = [], stTargets = [], stSnapshots = [],
    stBacking = [], stNodes = [], stPvcs = [], stEvents = evs, stSystemNamespace = ''stornas''\<rparr>"
  have seen: "maLastSeen (alertModel ?a) = maLastSeen (alertModel ?b)"
    by (simp add: alertModel_def pod_event_def Let_def)
  have feed: "map maMessage (snAlerts (State_Snapshot lib (?s [e, e']))) = [maMessage (alertModel e)]"
    if "alert_key (alertModel e) = alert_key (alertModel e')" "maLastSeen (alertModel e) = maLastSeen (alertModel e')"
    for lib e e'
    using that by (simp add: State_Snapshot_def snap_alerts_def merged_alerts_def smartAlerts_def decoded_def
        sort_by_def merge_alert_message List.map_filter_def Let_def)
  have "State_Snapshot lib (?s [?a, ?b]) \<noteq> State_Snapshot lib (?s [?b, ?a])" for lib
    using feed[of ?a ?b lib] feed[of ?b ?a lib] seen by auto
  moreover have "same_state (?s [?a, ?b]) (?s [?b, ?a])" by (simp add: same_state_def add_mset_commute)
  ultimately show ?thesis by blast
qed


text \<open>Two nodes, one with two roles, two volume snapshots and two sightings of one event, listed both ways.\<close>

definition row_node :: "string \<Rightarrow> string list \<Rightarrow> KNode" where
  "row_node n ls = \<lparr>nMeta = meta0 '''' n, nConditions = [], knLabels = ls, knAddresses = [], knKubeletVersion = ''v1''\<rparr>"

definition row_snapshot :: "string \<Rightarrow> jval" where
  "row_snapshot n = JM [(''metadata'', JM [(''namespace'', JS ''stornas''), (''name'', JS n)])]"

definition row_lib :: cslib where
  "row_lib = \<lparr>clUnstr = std_unstr, clMeta = std_metalib, clPool = (\<lambda>_. Inl (errorf ''decode'')),
     clInventory = (\<lambda>_. Inr dying_inventory), clVolume = (\<lambda>_. Inl (errorf ''decode'')), clShare = (\<lambda>_. Inl (errorf ''decode'')),
     clTarget = (\<lambda>_. Inl (errorf ''decode'')), clQuantity = (\<lambda>_. Inl (errorf ''decode'')), clPeerOrder = (\<lambda>_. [''n1'', ''n2''])\<rparr>"

definition row_state :: "KNode list \<Rightarrow> jval list \<Rightarrow> KEvent list \<Rightarrow> State" where
  "row_state ns ss es = \<lparr>stPools = [], stShares = [], stInventories = [JM []], stTargets = [], stSnapshots = ss,
     stBacking = [], stNodes = ns, stPvcs = [], stEvents = es, stSystemNamespace = ''stornas''\<rparr>"


end
