(* ===== verification/Crd_Schema.thy ===== *)
theory Crd_Schema
  imports Go_Strings Api_Types
begin

text \<open>
  The part of the generated schemas the API server enforces on a status: the validation markers on the
  status types of \<open>operator/api/v1alpha1\<close> and those of \<open>metav1.Condition\<close> they include. A field the
  types tag \<open>omitempty\<close> is absent when it is empty, so an enumeration also admits the empty string.
  Lengths are counted in bytes, which is never less than the characters the schema counts. Formats
  (\<open>date-time\<close>, \<open>int32\<close>) and the printed form of quantities are left out.
\<close>

section \<open>Patterns\<close>

definition ascii_between :: "char \<Rightarrow> char \<Rightarrow> char \<Rightarrow> bool" where
  "ascii_between lo hi c \<longleftrightarrow> lo \<le> c \<and> c \<le> hi"

definition lower_alnum :: "char \<Rightarrow> bool" where
  "lower_alnum c \<longleftrightarrow> ascii_between CHR ''a'' CHR ''z'' c \<or> ascii_between CHR ''0'' CHR ''9'' c"

definition is_alpha :: "char \<Rightarrow> bool" where
  "is_alpha c \<longleftrightarrow> ascii_between CHR ''a'' CHR ''z'' c \<or> ascii_between CHR ''A'' CHR ''Z'' c"

definition is_alnum :: "char \<Rightarrow> bool" where
  "is_alnum c \<longleftrightarrow> is_alpha c \<or> ascii_between CHR ''0'' CHR ''9'' c"

text \<open>\<open>hd rest* last\<close>, the shape of all three patterns: one class for the first character, one for the last
  and one for those between.\<close>

definition bracketed :: "(char \<Rightarrow> bool) \<Rightarrow> (char \<Rightarrow> bool) \<Rightarrow> (char \<Rightarrow> bool) \<Rightarrow> string \<Rightarrow> bool" where
  "bracketed first mid end s \<longleftrightarrow> s \<noteq> [] \<and> first (hd s) \<and> (length s > 1 \<longrightarrow> end (last s)) \<and> list_all mid (butlast (tl s))"

definition reason_pattern :: "string \<Rightarrow> bool" where
  "reason_pattern = bracketed is_alpha (\<lambda>c. is_alnum c \<or> c \<in> {CHR ''_'', CHR '','', CHR '':''}) (\<lambda>c. is_alnum c \<or> c = CHR ''_'')"

definition type_name_pattern :: "string \<Rightarrow> bool" where
  "type_name_pattern = bracketed is_alnum (\<lambda>c. is_alnum c \<or> c \<in> {CHR ''-'', CHR ''_'', CHR ''.''}) is_alnum"

definition dns_pattern :: "string \<Rightarrow> bool" where
  "dns_pattern s \<longleftrightarrow> list_all (bracketed lower_alnum (\<lambda>c. lower_alnum c \<or> c = CHR ''-'') lower_alnum) (splitP (\<lambda>c. c = CHR ''.'') s)"

definition type_pattern :: "string \<Rightarrow> bool" where
  "type_pattern s \<longleftrightarrow> (case cut s ''/'' of (pre, post, found) \<Rightarrow>
     if found then dns_pattern pre \<and> type_name_pattern post else type_name_pattern s)"

section \<open>Conditions\<close>

definition condition_shape :: "Condition \<Rightarrow> bool" where
  "condition_shape c \<longleftrightarrow> type_pattern (cType c) \<and> length (cType c) \<le> 316 \<and>
     reason_pattern (cReason c) \<and> length (cReason c) \<le> 1024 \<and> 0 \<le> cObservedGeneration c"

definition message_fits :: "Condition \<Rightarrow> bool" where
  "message_fits c \<longleftrightarrow> length (cMessage c) \<le> 32768"

text \<open>\<open>listType=map\<close> with key \<open>type\<close>: no two conditions share their type.\<close>

definition conditions_shape :: "Condition list \<Rightarrow> bool" where
  "conditions_shape cs \<longleftrightarrow> list_all condition_shape cs \<and> distinct (map cType cs)"

definition conditions_schema :: "Condition list \<Rightarrow> bool" where
  "conditions_schema cs \<longleftrightarrow> conditions_shape cs \<and> list_all message_fits cs"

section \<open>Statuses\<close>

definition smart_enum :: "string list" where
  "smart_enum = [''Passed'', ''Failed'', ''Unknown'']"

definition device_state_enum :: "string list" where
  "device_state_enum = [''InSync'', ''Rebuilding'', ''Failed'', ''Missing'']"

definition health_enum :: "string list" where
  "health_enum = [''Online'', ''Degraded'', ''Failed'']"

definition export_state_enum :: "string list" where
  "export_state_enum = [''Pending'', ''Exported'', ''Failed'', ''Removed'']"

definition optional_enum :: "string list \<Rightarrow> string \<Rightarrow> bool" where
  "optional_enum values s \<longleftrightarrow> s = '''' \<or> s \<in> set values"

definition device_schema :: "DeviceStatus \<Rightarrow> bool" where
  "device_schema d \<longleftrightarrow> optional_enum smart_enum (dsSmart d) \<and> optional_enum device_state_enum (dsState d)"

definition pool_fields :: "StoragePoolStatus \<Rightarrow> bool" where
  "pool_fields st \<longleftrightarrow> optional_enum health_enum (spHealth st) \<and> list_all device_schema (spDevices st)"

definition target_fields :: "TargetStatus \<Rightarrow> bool" where
  "target_fields st \<longleftrightarrow> optional_enum export_state_enum (ttState st) \<and> distinct (map lsID (ttLUNs st)) \<and>
     distinct (map svName (ttChapSecretVersions st))"

definition share_fields :: "ShareStatus \<Rightarrow> bool" where
  "share_fields st \<longleftrightarrow> optional_enum export_state_enum (shState st)"

definition disk_schema :: "Disk \<Rightarrow> bool" where
  "disk_schema d \<longleftrightarrow> optional_enum smart_enum (dkSmart d)"

text \<open>The objects whose status the operator and the agent write.\<close>

datatype written =
    PoolStatus StoragePool
  | TargetStat Target
  | ShareStat Share
  | UserStat LocalUser
  | InventoryStat NodeInventory

fun written_conditions :: "written \<Rightarrow> Condition list" where
  "written_conditions (PoolStatus p) = spConditions (spStatus p)"
| "written_conditions (TargetStat t) = ttConditions (tStatus t)"
| "written_conditions (ShareStat s) = shConditions (shStatus s)"
| "written_conditions (UserStat u) = luConditions (luStatus u)"
| "written_conditions (InventoryStat i) = []"

fun written_fields :: "written \<Rightarrow> bool" where
  "written_fields (PoolStatus p) \<longleftrightarrow> pool_fields (spStatus p)"
| "written_fields (TargetStat t) \<longleftrightarrow> target_fields (tStatus t)"
| "written_fields (ShareStat s) \<longleftrightarrow> share_fields (shStatus s)"
| "written_fields (UserStat u) \<longleftrightarrow> True"
| "written_fields (InventoryStat i) \<longleftrightarrow> list_all disk_schema (niDisks i)"

definition schema_ok :: "written \<Rightarrow> bool" where
  "schema_ok w \<longleftrightarrow> conditions_schema (written_conditions w) \<and> written_fields w"

text \<open>What a status is short of the bound on its messages.\<close>

definition status_shape :: "written \<Rightarrow> bool" where
  "status_shape w \<longleftrightarrow> conditions_shape (written_conditions w) \<and> written_fields w"

lemma schema_ok_shape: "schema_ok w \<longleftrightarrow> status_shape w \<and> list_all message_fits (written_conditions w)"
  by (auto simp: schema_ok_def status_shape_def conditions_schema_def)

section \<open>Setting a condition\<close>

text \<open>What \<open>meta.SetStatusCondition\<close> documents of the list: the condition of that type is replaced, or
  appended when there is none; setting it again changes nothing; and the condition found is one of the list.\<close>

locale metalib_lists = metalib_laws +
  assumes set_sub: "set (SetStatusCondition lib cs c) \<subseteq> insert c (set cs)"
    and set_distinct: "distinct (map cType cs) \<Longrightarrow> distinct (map cType (SetStatusCondition lib cs c))"
    and set_same: "FindStatusCondition lib cs (cType c) = Some c \<Longrightarrow> SetStatusCondition lib cs c = cs"
    and find_in: "FindStatusCondition lib cs t = Some c \<Longrightarrow> c \<in> set cs"
begin

lemma set_shape:
  assumes "conditions_shape cs" and "condition_shape c"
  shows "conditions_shape (SetStatusCondition lib cs c)"
  using assms set_sub[of cs c] set_distinct[of cs c] by (auto simp: conditions_shape_def list_all_iff)

end

lemma setCond_types: "set (map cType (setCond cs c)) = insert (cType c) (set (map cType cs))"
  by (induction cs c rule: setCond.induct) auto

lemma findCond_in: "findCond cs t = Some c \<Longrightarrow> c \<in> set cs"
  by (induction cs) (auto split: if_splits)

lemma setCond_same: "findCond cs (cType c) = Some c \<Longrightarrow> setCond cs c = cs"
  by (induction cs c rule: setCond.induct) (auto split: if_splits)

lemma setCond_sub: "set (setCond cs c) \<subseteq> insert c (set cs)"
  by (induction cs c rule: setCond.induct) auto

lemma setCond_distinct: "distinct (map cType cs) \<Longrightarrow> distinct (map cType (setCond cs c))"
proof (induction cs c rule: setCond.induct)
  case (2 x xs c)
  then show ?case using setCond_types[of xs c] by auto
qed simp

interpretation std_lists: metalib_lists std_metalib
  by unfold_locales (use setCond_sub setCond_distinct setCond_same findCond_in in \<open>auto simp: std_metalib_def\<close>)

text \<open>Every type and reason the sources use matches its pattern.\<close>

definition code_types :: "string list" where
  "code_types = [ConditionAvailable, ConditionHostReady, ConditionRegistered, ConditionTornDown, ConditionDeregistered]"

definition code_reasons :: "string list" where
  "code_reasons = [ReasonReady, ReasonInvalidSpec, ReasonWaitingForAgent, ReasonWaitingForVolume, ReasonHostError,
     ReasonWaitingForPool, ReasonBackendError, ReasonUnsupported, ReasonHostNotReady]"

lemma code_types_ok: "list_all (\<lambda>t. type_pattern t \<and> length t \<le> 316) code_types"
  by code_simp

lemma code_reasons_ok: "list_all (\<lambda>r. reason_pattern r \<and> length r \<le> 1024) code_reasons"
  by code_simp

lemma shape_code:
  assumes "cType c \<in> set code_types" and "cReason c \<in> set code_reasons" and "0 \<le> cObservedGeneration c"
  shows "condition_shape c"
  using assms code_types_ok code_reasons_ok by (auto simp: condition_shape_def list_all_iff)

end
