(* ===== verification/Status_Schema.thy ===== *)
theory Status_Schema
  imports Crd_Schema Pool_Ctl Share_Ctl User_Ctl Target_Agent Share_Agent Inventory
begin

text \<open>
  Every status the operator and the agent write has the shape its schema asks for: the enumerations, the
  patterns of condition types and reasons, and the keys of the lists kept as maps.
\<close>

section \<open>Values of host programs\<close>

text \<open>\<open>yields m Q\<close>: whatever the host does, the value of \<open>m\<close> satisfies \<open>Q\<close>.\<close>

definition yields :: "('h, 'a) prog \<Rightarrow> ('a \<Rightarrow> bool) \<Rightarrow> bool" where
  "yields m Q \<longleftrightarrow> (\<forall>s. Q (fst (run_state m s)))"

lemma yields_value: "yields m Q \<Longrightarrow> Q (value_of m h)"
  by (simp add: yields_def value_of_def)

lemma yields_any: "yields m (\<lambda>_. True)"
  by (simp add: yields_def)

lemma yields_weaken: "yields m Q \<Longrightarrow> (\<And>x. Q x \<Longrightarrow> R x) \<Longrightarrow> yields m R"
  by (simp add: yields_def)

lemma yields_return: "Q x \<Longrightarrow> yields (ret x) Q"
  by (simp add: yields_def State_Monad.return_def)

lemma yields_bind:
  assumes "yields m R" and "\<And>x. R x \<Longrightarrow> yields (f x) Q"
  shows "yields (State_Monad.bind m f) Q"
  unfolding yields_def
proof
  fix s
  obtain x s' where m: "run_state m s = (x, s')" by (cases "run_state m s")
  with assms(1) have "R x" unfolding yields_def by (metis fst_conv)
  from assms(2)[OF this] m show "Q (fst (run_state (State_Monad.bind m f) s))"
    by (cases s') (simp add: yields_def State_Monad.bind_def)
qed

lemmas yields_then = yields_bind[OF yields_any]

lemma yields_if: "(b \<Longrightarrow> yields m Q) \<Longrightarrow> (\<not> b \<Longrightarrow> yields n Q) \<Longrightarrow> yields (if b then m else n) Q"
  by simp

lemma yields_checked: "(\<And>e. e \<noteq> None \<Longrightarrow> Q (rep, e)) \<Longrightarrow> yields k Q \<Longrightarrow> yields (checked rep m k) Q"
  unfolding checked_def by (rule yields_then, rule yields_if) (simp_all add: yields_return)

lemma yields_Let: "yields (f x) Q \<Longrightarrow> yields (let y = x in f y) Q"
  by simp

section \<open>What the host reports\<close>

definition report_fields :: "Report \<Rightarrow> bool" where
  "report_fields r \<longleftrightarrow> rHealth r \<in> set health_enum \<and> (\<forall>d \<in> set (rDevices r). dsSmart d = '''' \<and> dsState d \<in> set device_state_enum)"

lemma report0_fields [simp]: "report_fields (report0 vg)" "report_fields ((report0 vg)\<lparr>rRebuild := r\<rparr>)"
  by (simp_all add: report_fields_def report0_def health_enum_def)

lemma linear_devices_smart:
  "linear_devices sp rebuild added pvs orphaned health devs = (h, ds) \<Longrightarrow> \<forall>d \<in> set devs. dsSmart d = '''' \<Longrightarrow> \<forall>d \<in> set ds. dsSmart d = ''''"
proof (induction pvs arbitrary: orphaned health devs)
  case (Cons pv pvs)
  have "\<exists>path st hl os. linear_devices sp rebuild added pvs os hl (devs @ [device_status path st]) = (h, ds)"
    using Cons.prems(1)
    by (cases "sp (pvName pv)"; cases "pvMissing pv"; cases orphaned) (auto simp: Let_def split: if_splits)
  then obtain path st hl os where "linear_devices sp rebuild added pvs os hl (devs @ [device_status path st]) = (h, ds)" by blast
  from Cons.IH[OF this] Cons.prems(2) show ?case by (auto simp: device_status_def)
qed simp

lemma map_states: "map dsState ds = xs \<Longrightarrow> set xs \<subseteq> S \<Longrightarrow> d \<in> set ds \<Longrightarrow> dsState d \<in> S"
  by auto

lemma linear_report_fields: "report_fields (linear_report vg spec resolved ks added pvs info rebuild)"
proof -
  let ?sp = "spec_path resolved ks"
  let ?orphaned = "filter (\<lambda>dev. \<not> list_ex (\<lambda>pv. ?sp (pvName pv) = Some dev \<and> \<not> pvMissing pv) pvs) spec"
  obtain h ds where run: "linear_devices ?sp rebuild added pvs ?orphaned ''Online'' [] = (h, ds)" by fastforce
  note char = linear_devices_char[OF run]
  have "dsState d \<in> set device_state_enum" if "d \<in> set ds" for d
    by (rule map_states[OF conjunct2[OF char] _ that]) (auto simp: device_state_enum_def)
  moreover have "h \<in> set health_enum" using char by (simp add: health_enum_def)
  ultimately show ?thesis using linear_devices_smart[OF run] run
    by (simp add: linear_report_def report_fields_def)
qed

definition detail_fields :: "Detail \<Rightarrow> bool" where
  "detail_fields d \<longleftrightarrow> (\<forall>mb \<in> set (dtMembers d). mbState mb \<in> set device_state_enum)"

lemma detail_line_fields: "detail_fields (fst acc) \<Longrightarrow> detail_fields (fst (detail_line lib acc line))"
  using parseMember_state
  by (auto simp: detail_fields_def detail_line_def device_state_enum_def Let_def split: prod.splits option.splits)

lemma parseDetail_fields: "detail_fields (parseDetail lib out)"
proof -
  have "detail_fields (fst (foldl (detail_line lib) acc ls))" if "detail_fields (fst acc)" for acc ls
    using that by (induction ls arbitrary: acc) (auto simp: detail_line_fields)
  from this[of "(detail0, False)"] show ?thesis by (simp add: parseDetail_def detail_fields_def detail0_def)
qed

lemma md_Detail_fields: "yields (md_Detail os lib dev) (\<lambda>r. detail_fields (fst r))"
  unfolding md_Detail_def
  by (rule yields_then, rule yields_return) (auto simp: parseDetail_fields detail0_def split: option.splits, simp add: detail_fields_def)

lemma raid_devices_smart: "d \<in> set (raid_devices sp mbs orphaned) \<Longrightarrow> dsSmart d = ''''"
proof (induction mbs arbitrary: orphaned)
  case (Cons mb mbs)
  then show ?case
    by (cases "if mbPath mb \<noteq> '''' then sp (mbPath mb) else None"; cases "mbState mb = ''InSync''"; cases orphaned)
       (auto simp: device_status_def split: if_splits)
qed simp

lemma raid_report_fields:
  assumes "detail_fields d"
  shows "report_fields (raid_report vg spec resolved ks d info)"
proof -
  have "dsState x \<in> set device_state_enum" if "x \<in> set (raid_devices sp (dtMembers d) orphaned)" for x sp orphaned
    by (rule map_states[OF raid_devices_states _ that]) (use assms in \<open>auto simp: detail_fields_def\<close>)
  then show ?thesis by (auto simp: raid_report_def report_fields_def health_enum_def Let_def dest: raid_devices_smart)
qed

lemma settled_fields: "yields (settled_detail os lib dev) (\<lambda>r. detail_fields (fst r))"
  unfolding settled_detail_def
  by (rule yields_bind[OF md_Detail_fields])
     (auto intro!: yields_return yields_checked md_Detail_fields)

lemma member_loop_fields: "detail_fields d \<Longrightarrow> yields (member_loop os lib dev resolved members inSpec ds d) (\<lambda>r. detail_fields (fst r))"
proof (induction ds arbitrary: d)
  case Nil
  then show ?case by (simp add: yields_return)
next
  case (Cons x xs)
  have step: "yields (do { r \<leftarrow> md_Detail os lib dev; if snd r \<noteq> None then ret r else member_loop os lib dev resolved members inSpec xs (fst r) })
      (\<lambda>r. detail_fields (fst r))"
    by (rule yields_bind[OF md_Detail_fields], rule yields_if) (simp_all add: yields_return Cons.IH)
  show ?case unfolding member_loop.simps Let_def
    by (rule yields_if, rule Cons.IH[OF Cons.prems], rule yields_then, rule yields_if, rule Cons.IH[OF Cons.prems],
        rule yields_checked[OF _ step]) (simp add: Cons.prems)
qed

lemma linear_fields: "yields (ensureLinearPool os lib order pool) (\<lambda>r. report_fields (fst r))"
proof -
  have obs: "yields (linear_observe os lib vg spec resolved ks added pvs) (\<lambda>r. report_fields (fst r))" for vg spec resolved ks added pvs
    unfolding linear_observe_def
    by (rule yields_then, rule yields_if, simp add: yields_return, rule yields_then, rule yields_if)
       (simp_all add: yields_return linear_report_fields)
  have settle: "yields (linear_settle os lib ks pool resolved plan pvs) (\<lambda>r. report_fields (fst r))" for ks resolved plan pvs
    unfolding linear_settle_def Let_def
    by (rule yields_if, rule obs, rule yields_checked, simp, rule yields_then, rule yields_if) (simp_all add: yields_return obs)
  show ?thesis unfolding ensureLinearPool_def linear_members_def Let_def
    by (rule yields_checked, simp, rule yields_checked, simp, rule yields_then, rule yields_if, simp add: yields_return,
        rule yields_then, rule yields_then, rule settle)
qed

lemma raid_fields: "yields (ensureRaidPool os lib order pool) (\<lambda>r. report_fields (fst r))"
  unfolding ensureRaidPool_def Let_def
  apply (rule yields_checked, simp, rule yields_checked, simp, rule yields_checked, simp, rule yields_then)
  apply (rule yields_bind[OF settled_fields], rule yields_if, simp add: yields_return, rule yields_then)
  apply (rule yields_bind[OF member_loop_fields], assumption, rule yields_if, simp add: yields_return, rule yields_then, rule yields_if)
   apply (simp_all add: yields_return raid_report_fields)
  done

lemma host_report_fields: "yields (EnsureHostPool os lib order pool) (\<lambda>r. report_fields (fst r))"
  unfolding EnsureHostPool_def by (rule yields_if) (rule linear_fields, rule raid_fields)

section \<open>The SMART store and the inventory\<close>

definition store_ok :: "smart_store \<Rightarrow> bool" where
  "store_ok m \<longleftrightarrow> (\<forall>i \<in> ran m. siVerdict i \<in> set smart_enum)"

lemma store_ok_get: "store_ok m \<Longrightarrow> m p = Some i \<Longrightarrow> siVerdict i \<in> set smart_enum"
  by (auto simp: store_ok_def ran_def)

lemma smart_Put_ok: "store_ok m \<Longrightarrow> siVerdict i \<in> set smart_enum \<Longrightarrow> store_ok (smart_Put m i ps)"
proof (induction ps arbitrary: m)
  case (Cons p ps)
  have "store_ok (if p \<noteq> '''' then m(p \<mapsto> i) else m)" using Cons.prems by (simp add: store_ok_def ran_def) metis
  from Cons.IH[OF this Cons.prems(2)] show ?case by simp
qed simp

lemma CheckSmart_verdict: "yields (CheckSmart os lib dev) (\<lambda>i. siVerdict i \<in> set smart_enum)"
  unfolding CheckSmart_def
  by (rule yields_then, rule yields_return) (auto simp: smart_enum_def smart_unknown_def split: sum.splits option.splits)

lemma sweep_disk_ok: "store_ok m \<Longrightarrow> yields (sweep_disk os lib dev path m) store_ok"
  unfolding sweep_disk_def
  by (rule yields_bind[OF CheckSmart_verdict], rule yields_return) (auto intro: smart_Put_ok simp del: smart_Put.simps)

text \<open>The stores an agent can hold: its sweeps fill an empty one, disk by disk.\<close>

inductive store_reach :: "'h os \<Rightarrow> golib \<Rightarrow> smart_store \<Rightarrow> bool" for os :: "'h os" and lib :: golib where
  fresh: "store_reach os lib Map.empty"
| swept: "store_reach os lib m \<Longrightarrow> store_reach os lib (value_of (sweep_disk os lib dev path m) h)"

lemma store_reach_ok: "store_reach os lib m \<Longrightarrow> store_ok m"
proof (induction rule: store_reach.induct)
  case fresh
  then show ?case by (simp add: store_ok_def)
next
  case (swept m dev path h)
  show ?case by (rule yields_value[OF sweep_disk_ok[OF swept.IH]])
qed

lemma with_smart_ok:
  assumes "store_ok m" and "dkSmart d = ''''"
  shows "disk_schema (with_smart (smart_Get m p) d)"
  using assms store_ok_get[of m p]
  by (auto simp: with_smart_def smart_Get_def disk_schema_def optional_enum_def split: option.splits)

lemma disk_loop_ok:
  assumes "case smart of None \<Rightarrow> True | Some m \<Rightarrow> store_ok m" and "list_all disk_schema disks"
  shows "yields (disk_loop os lib sweep claimed aliases ds smart disks) (\<lambda>r. list_all disk_schema (snd r))"
  using assms
proof (induction ds arbitrary: smart disks)
  case Nil
  then show ?case by (simp add: yields_return)
next
  case (Cons d ds)
  let ?path = "if mget aliases (lbPath d) \<noteq> '''' then mget aliases (lbPath d) else lbPath d"
  let ?disk = "new_disk d ?path (lbPath d \<in> set claimed)"
  have bare: "dkSmart ?disk = ''''" by (simp add: new_disk_def)
  show ?case
  proof (cases smart)
    case None
    have "disk_schema ?disk" using bare by (simp add: disk_schema_def optional_enum_def)
    then have "list_all disk_schema (disks @ [?disk])" using Cons.prems(2) by simp
    with None Cons.IH[of None] Cons.prems(2) show ?thesis by (simp add: Let_def)
  next
    case (Some m)
    have step: "yields (if sweep then sweep_disk os lib (lbPath d) ?path m else ret m) store_ok"
      using Some Cons.prems(1) by (simp add: sweep_disk_ok yields_return)
    have "yields (do { m' \<leftarrow> (if sweep then sweep_disk os lib (lbPath d) ?path m else ret m);
        disk_loop os lib sweep claimed aliases ds (Some m') (disks @ [with_smart (smart_Get m' (lbPath d)) ?disk]) }) (\<lambda>r. list_all disk_schema (snd r))"
      by (rule yields_bind[OF step], rule Cons.IH) (use Cons.prems(2) with_smart_ok[OF _ bare] in auto)
    with Some Cons.IH[of "Some m"] Cons.prems show ?thesis by (simp add: Let_def)
  qed
qed

lemma Collect_ok:
  assumes "\<And>m. ivSmart p = Some m \<Longrightarrow> store_ok m"
  shows "yields (Collect_disks os lib md now p) (\<lambda>r. \<forall>disks. snd r = Inr disks \<longrightarrow> list_all disk_schema disks)"
proof -
  have rest: "yields (collect_rest os lib md now p devs out) (\<lambda>r. \<forall>disks. snd r = Inr disks \<longrightarrow> list_all disk_schema disks)" for devs out
    unfolding collect_rest_def Let_def
    by (rule yields_then, rule yields_then, rule yields_bind[OF disk_loop_ok])
       (use assms in \<open>auto intro: yields_return split: option.splits\<close>)
  have claims: "yields (collect_claims os lib md now p devs) (\<lambda>r. \<forall>disks. snd r = Inr disks \<longrightarrow> list_all disk_schema disks)" for devs
    unfolding collect_claims_def by (rule yields_then) (auto intro: yields_return rest split: option.splits)
  show ?thesis unfolding Collect_disks_def by (rule yields_then) (auto intro: yields_return claims split: option.splits sum.splits)
qed

lemma publish_ok:
  assumes "\<And>m. ivSmart p = Some m \<Longrightarrow> store_ok m"
  shows "yields (publish c os lib md node now p) (\<lambda>r. \<forall>i. InvStatus i \<in> set (fst (snd r)) \<longrightarrow> list_all disk_schema (niDisks i))"
  unfolding publish_def
  by (rule yields_bind[OF Collect_ok[OF assms]], assumption, rule yields_return)
     (auto simp: publish_status_def Let_def split: prod.splits sum.splits if_splits)

section \<open>The passes\<close>

text \<open>A report keeps the fields of a pool's status within their enumerations, with SMART verdicts from a
  store of verdicts.\<close>

definition smart_source :: "smart_store option \<Rightarrow> bool" where
  "smart_source smart \<longleftrightarrow> (\<forall>m. smart = Some m \<longrightarrow> store_ok m)"

lemma join_smart_ok:
  assumes "smart_source smart" and "report_fields rep"
  shows "list_all device_schema (join_smart smart (rDevices rep))"
proof (cases smart)
  case None
  with assms(2) show ?thesis by (auto simp: join_smart_def list_all_iff report_fields_def device_schema_def optional_enum_def)
next
  case (Some m)
  then have m: "m p = Some i \<Longrightarrow> siVerdict i \<in> set smart_enum" for p i
    using assms(1) store_ok_get unfolding smart_source_def by blast
  show ?thesis unfolding join_smart_def Some option.case list_all_iff set_map
  proof
    fix d'
    assume "d' \<in> (\<lambda>d. case m (dsPath d) of None \<Rightarrow> d | Some info \<Rightarrow> d\<lparr>dsSmart := siVerdict info\<rparr>) ` set (rDevices rep)"
    then obtain d where d: "d \<in> set (rDevices rep)" "d' = (case m (dsPath d) of None \<Rightarrow> d | Some info \<Rightarrow> d\<lparr>dsSmart := siVerdict info\<rparr>)"
      by blast
    from d(1) assms(2) have "dsSmart d = ''''" "dsState d \<in> set device_state_enum" by (auto simp: report_fields_def)
    with d(2) m show "device_schema d'" by (cases "m (dsPath d)") (simp_all add: device_schema_def optional_enum_def)
  qed
qed

lemma apply_report_fields:
  assumes "smart_source smart" and "report_fields rep" and "pool_fields (spStatus p)"
  shows "pool_fields (spStatus (apply_report lib smart rep err p))"
  using assms(2,3) join_smart_ok[OF assms(1,2)]
  by (simp add: apply_report_def set_agent_cond_def pool_fields_def report_fields_def optional_enum_def Let_def)

lemmas code_names = code_types_def code_reasons_def

lemma target_place_cond:
  assumes "target_place lib avoid vols problem t = (t', cond)"
  shows "cType cond = ConditionAvailable \<and> cReason cond \<in> set code_reasons \<and> cObservedGeneration cond = omGeneration (tMeta t)"
  using assms by (auto simp: target_place_def code_names Let_def split: sum.splits prod.splits if_splits)

context metalib_lists
begin

lemma set_code_shape:
  assumes "conditions_shape cs" and "0 \<le> cObservedGeneration c" and "cType c \<in> set code_types" and "cReason c \<in> set code_reasons"
  shows "conditions_shape (SetStatusCondition lib cs c)"
  using set_shape[OF assms(1) shape_code[OF assms(3,4,2)]] .

lemma apply_report_shape:
  assumes "conditions_shape (spConditions (spStatus p))" and "0 \<le> omGeneration (spMeta p)"
  shows "conditions_shape (spConditions (spStatus (apply_report lib smart rep err p)))"
  using assms by (auto simp: apply_report_def set_agent_cond_def code_names Let_def intro!: set_code_shape)

lemma set_pool_shape:
  assumes "conditions_shape (spConditions (spStatus p))" and "0 \<le> omGeneration (spMeta q)" and "ty \<in> set code_types" and "re \<in> set code_reasons"
  shows "conditions_shape (spConditions (spStatus (set_pool_cond lib p (pool_cond ty st re msg q))))"
  using assms by (simp add: set_code_shape pool_cond_def)

lemma pool_pass_shape:
  assumes "pool_status_pass lib c p = (ws, p', err)"
    and "conditions_shape (spConditions (spStatus p))" and "0 \<le> omGeneration (spMeta p)"
  shows "conditions_shape (spConditions (spStatus p'))"
proof -
  have two: "conditions_shape (spConditions (spStatus (set_pool_cond lib (set_pool_cond lib p (pool_cond ConditionRegistered st re m p))
      (pool_cond ConditionAvailable st' re' m' p))))" if "re \<in> set code_reasons" "re' \<in> set code_reasons" for st re m st' re' m'
    by (intro set_pool_shape assms that) (simp_all add: code_names)
  have one: "conditions_shape (spConditions (spStatus (set_pool_cond lib p (pool_cond ConditionAvailable ConditionFalse ReasonInvalidSpec m p))))" for m
    by (intro set_pool_shape assms) (simp_all add: code_names)
  obtain ws' ready msg e where ep: "EnsurePool lib c p = (ws', ready, msg, e)" by (metis prod_cases4)
  show ?thesis using assms(1) one two unfolding pool_status_pass_def Let_def ep
    by (auto simp: code_reasons_def split: if_splits option.splits)
qed

lemma target_pass_shape:
  assumes "target_status_pass lib c tgt = Inr (t, res)"
    and "conditions_shape (ttConditions (tStatus tgt))" and "0 \<le> omGeneration (tMeta tgt)"
  shows "conditions_shape (ttConditions (tStatus t))"
  using assms(1)
proof (cases rule: target_status_pass_cases)
  case (1 versions problem prepared)
  have prep: "ttConditions (tStatus prepared) = ttConditions (tStatus tgt)" "tMeta prepared = tMeta tgt" using 1(2) by simp_all
  from 1(3) show ?thesis
  proof (elim disjE exE conjE)
    fix reason msg
    assume "reason \<in> {ReasonWaitingForVolume, ReasonInvalidSpec}"
      "t = set_target_cond lib prepared (available0 (omGeneration (tMeta tgt))\<lparr>cReason := reason, cMessage := msg\<rparr>)"
    then show ?thesis by (auto simp: prep code_names intro!: set_code_shape assms)
  next
    fix vols avoid t' cond
    assume place: "target_place lib avoid vols problem prepared = (t', cond)" and t: "t = set_target_cond lib t' cond"
    have "conditions_shape (ttConditions (tStatus t'))"
      using place by (cases rule: target_place_cases) (auto simp: prep code_names movedCondition_def intro!: set_code_shape assms)
    with t target_place_cond[OF place] prep assms(3) show ?thesis by (auto simp: code_types_def intro!: set_code_shape)
  qed
qed

lemma share_pass_shape:
  assumes "share_status_pass lib c sh = Inr (s, res)"
    and "conditions_shape (shConditions (shStatus sh))" and "0 \<le> omGeneration (shMeta sh)"
  shows "conditions_shape (shConditions (shStatus s))"
  using assms claimVolume_reasons[of c "omNamespace (shMeta sh)" "ssClaimName (shSpec sh)"]
  by (auto simp: share_status_pass_def share_place_def set_share_cond_def code_names movedCondition_def Let_def
      intro!: set_code_shape split: prod.splits sum.splits option.splits if_splits)

lemma user_shape:
  assumes "user_status lib c u = Inr u'" and "conditions_shape (luConditions (luStatus u))" and "0 \<le> omGeneration (luMeta u)"
  shows "conditions_shape (luConditions (luStatus u'))"
  using assms by (auto simp: user_status_def code_names Let_def intro!: set_code_shape split: sum.splits if_splits)

end

lemma pool_pass_fields:
  assumes "pool_status_pass lib c p = (ws, p', err)"
  shows "pool_fields (spStatus p') = pool_fields (spStatus p)"
proof -
  have one: "pool_fields (spStatus (set_pool_cond lib q x)) = pool_fields (spStatus q)" for q x
    by (simp add: set_pool_cond_def pool_fields_def)
  obtain ws' ready msg e where ep: "EnsurePool lib c p = (ws', ready, msg, e)" by (metis prod_cases4)
  show ?thesis using assms unfolding pool_status_pass_def Let_def ep
    by (auto simp: one split: if_splits option.splits)
qed

lemma placed_luns_distinct:
  assumes "place_loop active avoid 0 (zip vols luns) '''' False [] = Inr (node, repl, sts)" and "distinct (map lunID luns)"
  shows "distinct (map lsID sts)"
proof -
  have "map lsID sts = map lunID (map snd (zip vols luns))"
    using assms(1) by (simp add: place_loop_Inr comp_def)
  then show ?thesis using assms(2) by (simp add: distinct_map inj_on_subset[of _ "set luns"] map_snd_zip_take distinct_take set_take_subset)
qed

lemma target_pass_fields:
  assumes run: "target_status_pass lib c tgt = Inr (t, res)" and old: "target_fields (tStatus tgt)" and ids: "distinct (map lunID (tsLUNs (tSpec tgt)))"
  shows "target_fields (tStatus t)"
  using run
proof (cases rule: target_status_pass_cases)
  case (1 versions problem prepared)
  from 1(1) have names: "distinct (map svName versions)"
    by (auto simp: chapSecrets_def comp_def dest!: chap_loop_versions)
  with old 1(2) have prep: "target_fields (tStatus prepared)" by (simp add: target_fields_def)
  from 1(3) show ?thesis
  proof (elim disjE exE conjE)
    fix reason msg
    assume "t = set_target_cond lib prepared (available0 (omGeneration (tMeta tgt))\<lparr>cReason := reason, cMessage := msg\<rparr>)"
    with prep show ?thesis by (simp add: target_fields_def)
  next
    fix vols avoid t' cond
    assume place: "target_place lib avoid vols problem prepared = (t', cond)" and t: "t = set_target_cond lib t' cond"
    have "target_fields (tStatus t')"
      using place
    proof (cases rule: target_place_cases)
      case (placed node luns repl)
      have "tsLUNs (tSpec prepared) = tsLUNs (tSpec tgt)" using 1(2) by simp
      with placed_luns_distinct[OF placed(1)] ids have "distinct (map lsID luns)" by simp
      with placed(3) prep show ?thesis by (simp add: target_fields_def)
    qed (use prep in simp_all)
    with t show ?thesis by (simp add: target_fields_def)
  qed
qed

lemma share_pass_state: "share_status_pass lib c sh = Inr (s, res) \<Longrightarrow> shState (shStatus s) = shState (shStatus sh)"
  by (auto simp: share_status_pass_def share_place_def set_share_cond_def Let_def split: prod.splits sum.splits option.splits if_splits)

section \<open>What the program writes\<close>

text \<open>The statuses any pass of the operator or of an agent writes: one rule per reconciler, the agent's
  SMART verdicts coming from its own sweeps.\<close>

inductive status_write :: "metalib \<Rightarrow> kclient \<Rightarrow> inv_client \<Rightarrow> 'h os \<Rightarrow> 'h fs \<Rightarrow> golib \<Rightarrow> written \<Rightarrow> bool"
  for lib :: metalib and c :: kclient and ic :: inv_client and os :: "'h os" and fs :: "'h fs" and glib :: golib where
  pool_ctl: "WStoragePoolStatus p \<in> set (fst (StoragePoolReconcile lib rec c name)) \<Longrightarrow> status_write lib c ic os fs glib (PoolStatus p)"
| pool_agent: "\<forall>m. smart = Some m \<longrightarrow> store_reach os glib m \<Longrightarrow>
    AgentPoolStatus p \<in> set (fst (value_of (PoolAgentReconcile lib c os glib order smart node name) h)) \<Longrightarrow>
    status_write lib c ic os fs glib (PoolStatus p)"
| target_ctl: "WTargetStatus t \<in> set (fst (TargetReconcile lib c req)) \<Longrightarrow> status_write lib c ic os fs glib (TargetStat t)"
| target_agent: "AgentTargetStatus t \<in> set (fst (snd (value_of (TargetAgentReconcile lib c os fs glib rt node req applied) h))) \<Longrightarrow>
    status_write lib c ic os fs glib (TargetStat t)"
| share_ctl: "WShareStatus s \<in> set (fst (ShareReconcile lib c req)) \<Longrightarrow> status_write lib c ic os fs glib (ShareStat s)"
| share_agent: "AgentShareStatus s \<in> set (fst (value_of (ShareAgentReconcile lib c os fs rt node req) h)) \<Longrightarrow>
    status_write lib c ic os fs glib (ShareStat s)"
| user_ctl: "WLocalUserStatus u \<in> set (fst (LocalUserReconcile lib c req)) \<Longrightarrow> status_write lib c ic os fs glib (UserStat u)"
| inventory: "\<forall>m. ivSmart p = Some m \<longrightarrow> store_reach os glib m \<Longrightarrow>
    InvStatus i \<in> set (fst (snd (value_of (publish ic os glib md node now p) h))) \<Longrightarrow> status_write lib c ic os fs glib (InventoryStat i)"

text \<open>What the API server promises of the objects it serves: their statuses passed the schema, their
  generation is not negative, and the LUNs of a target's spec have their own ids.\<close>

definition serves_valid :: "kclient \<Rightarrow> bool" where
  "serves_valid c \<longleftrightarrow>
     (\<forall>p. (\<exists>n. GetStoragePool c n = Inr p) \<or> (\<exists>q. UpdateStoragePool c q = Inr p) \<longrightarrow>
        schema_ok (PoolStatus p) \<and> 0 \<le> omGeneration (spMeta p)) \<and>
     (\<forall>t. (\<exists>n. GetTarget c n = Inr t) \<or> (\<exists>q. UpdateTarget c q = Inr t) \<longrightarrow>
        schema_ok (TargetStat t) \<and> 0 \<le> omGeneration (tMeta t) \<and> distinct (map lunID (tsLUNs (tSpec t)))) \<and>
     (\<forall>s. (\<exists>n. GetShare c n = Inr s) \<or> (\<exists>q. UpdateShare c q = Inr s) \<longrightarrow>
        schema_ok (ShareStat s) \<and> 0 \<le> omGeneration (shMeta s)) \<and>
     (\<forall>u n. GetLocalUser c n = Inr u \<longrightarrow> schema_ok (UserStat u) \<and> 0 \<le> omGeneration (luMeta u))"

definition pool_valid :: "StoragePool \<Rightarrow> bool" where
  "pool_valid p \<longleftrightarrow> status_shape (PoolStatus p) \<and> 0 \<le> omGeneration (spMeta p)"

definition target_valid :: "Target \<Rightarrow> bool" where
  "target_valid t \<longleftrightarrow> status_shape (TargetStat t) \<and> 0 \<le> omGeneration (tMeta t) \<and> distinct (map lunID (tsLUNs (tSpec t)))"

definition share_valid :: "Share \<Rightarrow> bool" where
  "share_valid s \<longleftrightarrow> status_shape (ShareStat s) \<and> 0 \<le> omGeneration (shMeta s)"

lemma served:
  assumes "serves_valid c"
  shows "GetStoragePool c n = Inr p \<Longrightarrow> pool_valid p" "UpdateStoragePool c p' = Inr p \<Longrightarrow> pool_valid p"
    "GetTarget c k = Inr t \<Longrightarrow> target_valid t" "UpdateTarget c t' = Inr t \<Longrightarrow> target_valid t"
    "GetShare c k = Inr s \<Longrightarrow> share_valid s" "UpdateShare c s' = Inr s \<Longrightarrow> share_valid s"
    "GetLocalUser c k = Inr u \<Longrightarrow> status_shape (UserStat u) \<and> 0 \<le> omGeneration (luMeta u)"
  using assms unfolding serves_valid_def pool_valid_def target_valid_def share_valid_def schema_ok_shape by blast+

text \<open>The status a StoragePool pass writes: that of the live pass on the object in hand, or the
  Deregistered condition on the object read.\<close>

lemma pool_status_written:
  assumes "WStoragePoolStatus p \<in> set (fst (StoragePoolReconcile lib rec c name))"
  obtains (live) b ws err where "pool_in_hand lib c name = Some b" "pool_status_pass lib c b = (ws, p, err)"
  | (deleting) b st re msg where "GetStoragePool c name = Inr b" "re \<in> {ReasonWaitingForPool, ReasonReady}"
      "p = set_pool_cond lib b (pool_cond ConditionDeregistered st re msg b)"
proof (cases "pool_in_hand lib c name")
  case (Some b)
  obtain ws p' err where pass: "pool_status_pass lib c b = (ws, p', err)" by (metis prod_cases3)
  have alerts: "WStoragePoolStatus p \<notin> set (pool_alert rec b)" using pool_alert_writes by blast
  have own: "WStoragePoolStatus p \<notin> set ws" using pool_status_writes[of "WStoragePoolStatus p" lib c b] by (auto simp: pass)
  from assms Some have "p = p'"
    using alerts own by (cases "GetStoragePool c name")
      (auto simp: StoragePoolReconcile_def pool_in_hand_def pool_live_pass_def pass Let_def split: sum.splits prod.splits if_splits)
  with pass Some live show ?thesis by blast
next
  case None
  from assms obtain b where b: "GetStoragePool c name = Inr b"
    by (cases "GetStoragePool c name") (auto simp: StoragePoolReconcile_def)
  have del: "omDeleting (spMeta b)"
    using assms None b by (auto simp: StoragePoolReconcile_def pool_in_hand_def Let_def split: if_splits sum.splits prod.splits)
  obtain ws gone msg err where d: "DeletePool c b = (ws, gone, msg, err)" by (metis prod_cases4)
  have own: "WStoragePoolStatus p \<notin> set ws" using DeletePool_writes[of "WStoragePoolStatus p" c b] d by simp
  have "\<exists>st re msg. re \<in> {ReasonWaitingForPool, ReasonReady} \<and> p = set_pool_cond lib b (pool_cond ConditionDeregistered st re msg b)"
    using assms b del d own
    by (auto simp: StoragePoolReconcile_def pool_reconcileDelete_def Let_def split: if_splits option.splits sum.splits)
  with b deleting show ?thesis by blast
qed

lemma pool_hand_valid:
  assumes lib: "metalib_laws lib" and c: "serves_valid c" and hand: "pool_in_hand lib c name = Some p"
  shows "pool_valid p"
proof -
  from hand obtain sp where sp: "GetStoragePool c name = Inr sp" by (auto simp: pool_in_hand_def split: sum.splits)
  have "pool_valid (sp\<lparr>spMeta := fst (AddFinalizer lib (spMeta sp) poolFinalizer)\<rparr>)"
    using served(1)[OF c sp] by (simp add: pool_valid_def status_shape_def metalib_laws.add_name(3)[OF lib])
  with hand sp served(2)[OF c] show ?thesis
    by (auto simp: pool_in_hand_def Let_def split: if_splits sum.splits)
qed

lemma target_hand_valid:
  assumes lib: "metalib_laws lib" and c: "serves_valid c" and hand: "target_in_hand lib c req = Some t"
  shows "target_valid t"
proof -
  from hand obtain sp where sp: "GetTarget c req = Inr sp" by (auto simp: target_in_hand_def split: sum.splits)
  have "target_valid (sp\<lparr>tMeta := fst (AddFinalizer lib (tMeta sp) teardownFinalizer)\<rparr>)"
    using served(3)[OF c sp] by (simp add: target_valid_def status_shape_def metalib_laws.add_name(3)[OF lib])
  with hand sp served(4)[OF c] show ?thesis
    by (auto simp: target_in_hand_def Let_def split: if_splits sum.splits)
qed

lemma share_hand_valid:
  assumes lib: "metalib_laws lib" and c: "serves_valid c" and hand: "share_in_hand lib c req = Some s"
  shows "share_valid s"
proof -
  from hand obtain sp where sp: "GetShare c req = Inr sp" by (auto simp: share_in_hand_def split: sum.splits)
  have "share_valid (sp\<lparr>shMeta := fst (AddFinalizer lib (shMeta sp) teardownFinalizer)\<rparr>)"
    using served(5)[OF c sp] by (simp add: share_valid_def status_shape_def metalib_laws.add_name(3)[OF lib])
  with hand sp served(6)[OF c] show ?thesis
    by (auto simp: share_in_hand_def Let_def split: if_splits sum.splits)
qed

context metalib_lists
begin

lemma pool_ctl_shape:
  assumes c: "serves_valid c" and w: "WStoragePoolStatus p \<in> set (fst (StoragePoolReconcile lib rec c name))"
  shows "status_shape (PoolStatus p)"
  using w
proof (cases rule: pool_status_written)
  case (live b ws err)
  with pool_hand_valid[OF metalib_laws_axioms c live(1)] pool_pass_shape[OF live(2)] pool_pass_fields[OF live(2)]
  show ?thesis by (simp add: pool_valid_def status_shape_def)
next
  case (deleting b st re msg)
  have "pool_valid b" using served(1)[OF c deleting(1)] .
  with deleting(2) show ?thesis unfolding deleting(3)
    by (auto simp: pool_valid_def status_shape_def pool_fields_def set_pool_cond_def pool_cond_def code_names intro!: set_code_shape)
qed

lemma pool_agent_shape:
  assumes c: "serves_valid c" and smart: "smart_source smart"
    and w: "AgentPoolStatus p \<in> set (fst (value_of (PoolAgentReconcile lib c os glib order smart node name) h))"
  shows "status_shape (PoolStatus p)"
proof -
  have "yields (PoolAgentReconcile lib c os glib order smart node name) (\<lambda>r. \<forall>p. AgentPoolStatus p \<in> set (fst r) \<longrightarrow> status_shape (PoolStatus p))"
  proof (cases "GetStoragePool c name")
    case (Inl e)
    then show ?thesis by (simp add: PoolAgentReconcile_def yields_return)
  next
    case (Inr b)
    have b: "pool_valid b" using served(1)[OF c Inr] .
    have torn: "status_shape (PoolStatus (set_agent_cond lib b (torn_down b)))"
      using b by (auto simp: pool_valid_def status_shape_def pool_fields_def set_agent_cond_def torn_down_def code_names intro!: set_code_shape)
    have rep: "status_shape (PoolStatus (apply_report lib smart r e b))" if "report_fields r" for r e
      using b apply_report_fields[OF smart that] apply_report_shape by (simp add: pool_valid_def status_shape_def)
    show ?thesis unfolding PoolAgentReconcile_def Inr sum.case Let_def
      by (rule yields_if, simp add: yields_return, rule yields_if, rule yields_if, simp add: yields_return,
          rule yields_if, simp add: yields_return, rule yields_then, rule yields_return,
          use torn in \<open>auto split: option.splits sum.splits\<close>, rule yields_bind[OF host_report_fields], rule yields_return,
          use rep in \<open>auto split: sum.splits\<close>)
  qed
  from yields_value[OF this] w show ?thesis by blast
qed

lemma target_agent_shape:
  assumes c: "serves_valid c"
    and w: "AgentTargetStatus t \<in> set (fst (snd (value_of (TargetAgentReconcile lib c os fs glib rt node req applied) h)))"
  shows "status_shape (TargetStat t)"
proof -
  have "yields (TargetAgentReconcile lib c os fs glib rt node req applied)
      (\<lambda>r. \<forall>t. AgentTargetStatus t \<in> set (fst (snd r)) \<longrightarrow> status_shape (TargetStat t))"
  proof (cases "GetTarget c req")
    case (Inl e)
    then show ?thesis by (auto simp: TargetAgentReconcile_def intro!: yields_return yields_then)
  next
    case (Inr b)
    have b: "target_valid b" using served(3)[OF c Inr] .
    have removed: "status_shape (TargetStat (b\<lparr>tStatus := (tStatus b)\<lparr>ttState := ''Removed''\<rparr>\<rparr>))"
      using b by (simp add: target_valid_def status_shape_def target_fields_def optional_enum_def export_state_enum_def)
    have ready: "status_shape (TargetStat (host_status lib b e))" for e
      using b by (auto simp: target_valid_def status_shape_def target_fields_def optional_enum_def export_state_enum_def
          host_status_def code_names Let_def intro!: set_code_shape)
    show ?thesis unfolding TargetAgentReconcile_def Inr sum.case Let_def agent_delete_pass_def
      by (rule yields_if, rule yields_bind[of _ "\<lambda>r. \<forall>t. AgentTargetStatus t \<in> set (fst r) \<longrightarrow> status_shape (TargetStat t)"],
          rule yields_then, rule yields_return, use removed in \<open>auto split: sum.splits if_splits\<close>, rule yields_return, simp,
          intro yields_if yields_then yields_return, auto split: sum.splits if_splits intro!: yields_return yields_then simp: ready)
  qed
  from yields_value[OF this] w show ?thesis by blast
qed

lemma share_agent_shape:
  assumes c: "serves_valid c"
    and w: "AgentShareStatus s \<in> set (fst (value_of (ShareAgentReconcile lib c os fs rt node req) h))"
  shows "status_shape (ShareStat s)"
proof -
  have "yields (ShareAgentReconcile lib c os fs rt node req)
      (\<lambda>r. \<forall>s. AgentShareStatus s \<in> set (fst r) \<longrightarrow> status_shape (ShareStat s))"
  proof (cases "GetShare c req")
    case (Inl e)
    then show ?thesis by (auto simp: ShareAgentReconcile_def intro!: yields_return yields_then)
  next
    case (Inr b)
    have b: "share_valid b" using served(5)[OF c Inr] .
    have removed: "status_shape (ShareStat (b\<lparr>shStatus := (shStatus b)\<lparr>shState := ''Removed''\<rparr>\<rparr>))"
      using b by (simp add: share_valid_def status_shape_def share_fields_def optional_enum_def export_state_enum_def)
    have ready: "status_shape (ShareStat (share_host_status lib b e))" for e
      using b by (auto simp: share_valid_def status_shape_def share_fields_def optional_enum_def export_state_enum_def
          share_host_status_def code_names Let_def intro!: set_code_shape)
    show ?thesis unfolding ShareAgentReconcile_def Inr sum.case Let_def
      by (rule yields_if, rule yields_then, rule yields_return, use removed in \<open>auto simp: share_removed_pass_def Let_def split: sum.splits if_splits\<close>,
          auto split: sum.splits intro!: yields_return yields_then simp: ready)
  qed
  from yields_value[OF this] w show ?thesis by blast
qed

end

section \<open>Properties\<close>

lemma write_shape:
  assumes lib: "metalib_lists lib" and c: "serves_valid c" and w: "status_write lib c ic os fs glib w"
  shows "status_shape w"
  using w
proof cases
  case (pool_ctl p rec name)
  with metalib_lists.pool_ctl_shape[OF lib c pool_ctl(2)] show ?thesis by simp
next
  case (pool_agent smart p order node name h)
  have "smart_source smart" using pool_agent(2) store_reach_ok unfolding smart_source_def by blast
  from metalib_lists.pool_agent_shape[OF lib c this pool_agent(3)] pool_agent(1) show ?thesis by simp
next
  case (target_ctl t req)
  from target_ctl(2) obtain b res where b: "target_in_hand lib c req = Some b" "target_status_pass lib c b = Inr (t, res)"
    unfolding target_status_written by blast
  have "target_valid b" by (rule target_hand_valid[OF metalib_lists.axioms(1)[OF lib] c b(1)])
  with target_ctl(1) metalib_lists.target_pass_shape[OF lib b(2)] target_pass_fields[OF b(2)] show ?thesis
    by (simp add: target_valid_def status_shape_def)
next
  case (target_agent t rt node req applied h)
  with metalib_lists.target_agent_shape[OF lib c target_agent(2)] show ?thesis by simp
next
  case (share_ctl s req)
  from share_ctl(2) obtain b res where b: "share_in_hand lib c req = Some b" "share_status_pass lib c b = Inr (s, res)"
    unfolding share_status_written by blast
  have "share_valid b" by (rule share_hand_valid[OF metalib_lists.axioms(1)[OF lib] c b(1)])
  with share_ctl(1) metalib_lists.share_pass_shape[OF lib b(2)] share_pass_state[OF b(2)] show ?thesis
    by (simp add: share_valid_def status_shape_def share_fields_def)
next
  case (share_agent s rt node req h)
  with metalib_lists.share_agent_shape[OF lib c share_agent(2)] show ?thesis by simp
next
  case (user_ctl u req)
  from user_ctl(2) obtain b where b: "GetLocalUser c req = Inr b" "user_status lib c b = Inr u"
    by (auto simp: LocalUserReconcile_def split: sum.splits if_splits)
  from user_ctl(1) served(7)[OF c b(1)] metalib_lists.user_shape[OF lib b(2)] show ?thesis by (simp add: status_shape_def)
next
  case (inventory p i md node now h)
  have "store_ok m" if "ivSmart p = Some m" for m using that inventory(2) store_reach_ok by blast
  then have "yields (publish ic os glib md node now p) (\<lambda>r. \<forall>i. InvStatus i \<in> set (fst (snd r)) \<longrightarrow> list_all disk_schema (niDisks i))"
    by (rule publish_ok)
  from yields_value[OF this] inventory(3) have "list_all disk_schema (niDisks i)" by blast
  with inventory(1) show ?thesis by (simp add: status_shape_def conditions_shape_def)
qed

text \<open>\<^bold>\<open>C7\<close>. The statuses are well typed: whatever the host answers and whatever valid objects the API server
  serves, every status a pass of the operator or of an agent writes meets the schema of its resource
  (states, health and SMART verdicts within their enumerations, condition types and reasons matching
  their patterns, one condition per type, one LUN per id, one version per CHAP secret) except at most
  that a condition's message exceeds the 32768 characters a message may have.\<close>

theorem statuses_fit_schema:
  assumes "metalib_lists lib" and "serves_valid c" and "status_write lib c ic os fs glib w"
  shows "schema_ok w \<longleftrightarrow> list_all message_fits (written_conditions w)"
  using write_shape[OF assms] by (simp add: schema_ok_shape)

definition schema_client :: kclient where
  "schema_client = client0\<lparr>GetStoragePool := \<lambda>_. Inr (demo_pool []), UpdateStoragePool := \<lambda>_. Inl not_found,
     UpdateTarget := \<lambda>_. Inl not_found, UpdateShare := \<lambda>_. Inl not_found\<rparr>"

lemma schema_client_valid: "serves_valid schema_client"
  by (auto simp: serves_valid_def schema_client_def client0_def schema_ok_def conditions_schema_def conditions_shape_def
      pool_fields_def optional_enum_def demo_pool_def pool0_def meta0_def)

lemma schema_client_writes:
  "map (\<lambda>w. case w of WStoragePoolStatus p \<Rightarrow> list_all message_fits (spConditions (spStatus p)) | _ \<Rightarrow> False)
     (fst (StoragePoolReconcile std_metalib True schema_client ''p'')) = [True]"
  by code_simp

theorem statuses_fit_schema_witness:
  "\<exists>p. status_write std_metalib schema_client inv_client0 acl_host quiet_fs lio_lib (PoolStatus p) \<and> schema_ok (PoolStatus p)"
proof -
  obtain x where x: "fst (StoragePoolReconcile std_metalib True schema_client ''p'') = [x]"
    and fits: "case x of WStoragePoolStatus p \<Rightarrow> list_all message_fits (spConditions (spStatus p)) | _ \<Rightarrow> False"
    using schema_client_writes by auto
  from fits obtain p where p: "x = WStoragePoolStatus p" by (cases x) auto
  have w: "status_write std_metalib schema_client inv_client0 acl_host quiet_fs lio_lib (PoolStatus p)"
    by (rule status_write.pool_ctl[where rec = True and name = "''p''"]) (use x p in simp)
  with statuses_fit_schema[OF std_lists.metalib_lists_axioms schema_client_valid w] fits p show ?thesis by auto
qed

text \<open>The messages are not cut to that length. The condition of a pool whose deletion waits for its
  volumes names them all, so with enough of them (some 780 of the CSI driver's names) the status that
  would say so is not one the API server accepts.\<close>

lemma named_volumes_refused:
  assumes lib: "metalib_lists lib" and sp: "GetStoragePool c name = Inr sp" "omDeleting (spMeta sp)"
    and q: "GetPool c (omName (spMeta sp)) = Inr q" "pool_ours sp q" "omDeleting (plMeta q)" "ptVolumes (plStatus q) \<noteq> []"
    and long: "32768 < length (joinWith '', '' (ptVolumes (plStatus q)))"
    and w: "WStoragePoolStatus p \<in> set (fst (StoragePoolReconcile lib rec c name))"
  shows "\<not> schema_ok (PoolStatus p)"
proof -
  let ?msg = "''pool still backs volumes: '' @ joinWith '', '' (ptVolumes (plStatus q))"
  let ?cond = "pool_cond ConditionDeregistered ConditionFalse ReasonWaitingForPool ?msg sp"
  have "p = set_pool_cond lib sp ?cond"
    using sp q w by (auto simp: StoragePoolReconcile_def pool_reconcileDelete_def DeletePool_def pool_ours_def Let_def split: sum.splits if_splits)
  then have "FindStatusCondition lib (spConditions (spStatus p)) ConditionDeregistered = Some ?cond"
    by (simp add: metalib_laws.find_set[OF metalib_lists.axioms(1)[OF lib]])
  then have "?cond \<in> set (spConditions (spStatus p))" by (rule metalib_lists.find_in[OF lib])
  moreover have "\<not> message_fits ?cond" using long by (simp add: message_fits_def pool_cond_def)
  ultimately show ?thesis by (auto simp: schema_ok_shape list_all_iff)
qed

end
