(* ===== verification/Target_Protocol.thy ===== *)
theory Target_Protocol
  imports Target_Ctl Target_Agent
begin

text \<open>
  A target's life as the operator and the agents of all nodes play it, each over its own cached copy of
  the object, with the API server between them. A pass of the operator decides its writes, which land or
  fail later; an agent's pass ends with its write, which lands or fails. The server accepts a write of the
  object only at the version it was read at. Caches never go back in time and may skip versions; what a
  pass reads of nodes, claims, Volumes and Secrets, and what the hosts do, is arbitrary. Agents and
  operator may restart at any moment.
\<close>

section \<open>The world\<close>

record target_world =
  twVers :: "Target list" \<comment> \<open>every version of the object, the API server's last\<close>
  twOp :: nat \<comment> \<open>the version the operator has seen\<close>
  twAg :: "string \<Rightarrow> nat" \<comment> \<open>the version each node's agent has seen\<close>
  twApplied :: "string \<Rightarrow> applied_cache"
  twWrites :: "target_write list" \<comment> \<open>what the operator's pass has still to write\<close>
  twGone :: bool
  twServed :: "(string \<times> nat) set" \<comment> \<open>the nodes whose agent exported a version completely\<close>
  twTorn :: "string set" \<comment> \<open>the nodes whose agent tore the deleted target down\<close>
  twLost :: "string set" \<comment> \<open>the nodes a pass was told are gone or unready\<close>

record 'h target_host =
  thOs :: "'h os"
  thFs :: "'h fs"
  thLib :: golib
  thRt :: string

abbreviation t_rv :: "Target \<Rightarrow> string" where "t_rv t \<equiv> omResourceVersion (tMeta t)"
abbreviation t_active :: "Target \<Rightarrow> string" where "t_active t \<equiv> ttActiveNode (tStatus t)"
abbreviation t_true :: "metalib \<Rightarrow> Target \<Rightarrow> string \<Rightarrow> bool" where
  "t_true lib t ty \<equiv> IsStatusConditionTrue lib (ttConditions (tStatus t)) ty"

definition t_latest :: "target_world \<Rightarrow> Target" where
  "t_latest w = last (twVers w)"

definition t_fresh :: "target_world \<Rightarrow> string \<Rightarrow> bool" where
  "t_fresh w rv \<longleftrightarrow> rv \<notin> t_rv ` set (twVers w)"

definition t_same :: "target_world \<Rightarrow> Target \<Rightarrow> bool" where
  "t_same w t \<longleftrightarrow> \<not> twGone w \<and> t_rv t = t_rv (t_latest w)"

text \<open>A new version: the given object at the new resource version.\<close>

definition t_push :: "Target \<Rightarrow> string \<Rightarrow> target_world \<Rightarrow> target_world" where
  "t_push t rv w = w\<lparr>twVers := twVers w @ [t\<lparr>tMeta := (tMeta t)\<lparr>omResourceVersion := rv\<rparr>\<rparr>]\<rparr>"

definition t_put_status :: "Target \<Rightarrow> string \<Rightarrow> target_world \<Rightarrow> target_world" where
  "t_put_status t rv w = t_push ((t_latest w)\<lparr>tStatus := tStatus t\<rparr>) rv w"

definition t_put_object :: "Target \<Rightarrow> string \<Rightarrow> target_world \<Rightarrow> target_world" where
  "t_put_object t rv w = (t_push ((t_latest w)\<lparr>tSpec := tSpec t,
     tMeta := (tMeta (t_latest w))\<lparr>omFinalizers := omFinalizers (tMeta t)\<rparr>\<rparr>) rv w)
     \<lparr>twGone := (omDeleting (tMeta (t_latest w)) \<and> omFinalizers (tMeta t) = [])\<rparr>"

abbreviation t_op :: "target_world \<Rightarrow> Target" where "t_op w \<equiv> twVers w ! twOp w"
abbreviation t_ag :: "target_world \<Rightarrow> string \<Rightarrow> Target" where "t_ag w n \<equiv> twVers w ! twAg w n"

definition op_refused :: "target_world \<Rightarrow> kclient \<Rightarrow> bool" where
  "op_refused w c \<longleftrightarrow> GetTarget c (keyOf (tMeta (t_op w))) = Inr (t_op w) \<and> (\<forall>t. isl (UpdateTarget c t))"

definition op_lost :: "kclient \<Rightarrow> Target \<Rightarrow> string set" where
  "op_lost c t = {n. n = t_active t \<and> nodeGoneOrUnready c n = Inr True}"

definition t_held :: "metalib \<Rightarrow> Target \<Rightarrow> Target" where
  "t_held lib t = t\<lparr>tMeta := fst (AddFinalizer lib (tMeta t) teardownFinalizer)\<rparr>"

text \<open>An agent's pass over the version it has seen, and what it shows of its host.\<close>

definition t_agent_pass :: "metalib \<Rightarrow> (string \<Rightarrow> 'h target_host) \<Rightarrow> kclient \<Rightarrow> target_world \<Rightarrow> string \<Rightarrow>
    ('h, applied_cache \<times> agent_target_write outcome) prog" where
  "t_agent_pass lib ah c w n =
     TargetAgentReconcile lib c (thOs (ah n)) (thFs (ah n)) (thLib (ah n)) (thRt (ah n)) n (keyOf (tMeta (t_ag w n))) (twApplied w n)"

definition t_exports :: "metalib \<Rightarrow> (string \<Rightarrow> 'h target_host) \<Rightarrow> kclient \<Rightarrow> target_world \<Rightarrow> string \<Rightarrow> 'h \<Rightarrow> bool" where
  "t_exports lib ah c w n h \<longleftrightarrow>
     (\<exists>key chap. ensure_inputs c (t_ag w n) = Inr (key, chap) \<and> lio_done (t_ag w n) chap (log_of (t_agent_pass lib ah c w n) h))"

definition t_tears :: "metalib \<Rightarrow> (string \<Rightarrow> 'h target_host) \<Rightarrow> kclient \<Rightarrow> target_world \<Rightarrow> string \<Rightarrow> 'h \<Rightarrow> bool" where
  "t_tears lib ah c w n h \<longleftrightarrow> omDeleting (tMeta (t_ag w n)) \<and>
     tears_down (thLib (ah n)) (thRt (ah n)) (omName (tMeta (t_ag w n))) (tsVIP (tSpec (t_ag w n))) (log_of (t_agent_pass lib ah c w n) h)"

definition t_ran :: "metalib \<Rightarrow> (string \<Rightarrow> 'h target_host) \<Rightarrow> kclient \<Rightarrow> string \<Rightarrow> 'h \<Rightarrow> target_world \<Rightarrow> target_world" where
  "t_ran lib ah c n h w = w\<lparr>twApplied := (twApplied w)(n := fst (value_of (t_agent_pass lib ah c w n) h)),
     twServed := (twServed w \<union> {x. x = (n, twAg w n) \<and> t_exports lib ah c w n h}),
     twTorn := (twTorn w \<union> {x. x = n \<and> t_tears lib ah c w n h})\<rparr>"

abbreviation t_reports :: "metalib \<Rightarrow> (string \<Rightarrow> 'h target_host) \<Rightarrow> kclient \<Rightarrow> target_world \<Rightarrow> string \<Rightarrow> 'h \<Rightarrow> agent_target_write list" where
  "t_reports lib ah c w n h \<equiv> fst (snd (value_of (t_agent_pass lib ah c w n) h))"

inductive target_step :: "metalib \<Rightarrow> (string \<Rightarrow> 'h target_host) \<Rightarrow> target_world \<Rightarrow> target_world \<Rightarrow> bool"
  for lib :: metalib and ah :: "string \<Rightarrow> 'h target_host" where
  op_observes: "twOp w \<le> i \<Longrightarrow> i < length (twVers w) \<Longrightarrow> target_step lib ah w (w\<lparr>twOp := i\<rparr>)"
| ag_observes: "twAg w n \<le> i \<Longrightarrow> i < length (twVers w) \<Longrightarrow> target_step lib ah w (w\<lparr>twAg := (twAg w)(n := i)\<rparr>)"
| op_pass: "twWrites w = [] \<Longrightarrow> op_refused w c \<Longrightarrow>
    target_step lib ah w (w\<lparr>twWrites := fst (TargetReconcile lib c (keyOf (tMeta (t_op w)))),
      twLost := (twLost w \<union> op_lost c (t_op w))\<rparr>)"
| op_holds: "twWrites w = [] \<Longrightarrow> GetTarget c (keyOf (tMeta (t_op w))) = Inr (t_op w) \<Longrightarrow> \<not> omDeleting (tMeta (t_op w)) \<Longrightarrow>
    snd (AddFinalizer lib (tMeta (t_op w)) teardownFinalizer) \<Longrightarrow> t_same w (t_op w) \<Longrightarrow> t_fresh w rv \<Longrightarrow>
    UpdateTarget c (t_held lib (t_op w)) = Inr (t_latest (t_put_object (t_held lib (t_op w)) rv w)) \<Longrightarrow>
    target_step lib ah w ((t_put_object (t_held lib (t_op w)) rv w)
      \<lparr>twWrites := tl (fst (TargetReconcile lib c (keyOf (tMeta (t_op w)))))\<rparr>)"
| op_aborts: "target_step lib ah w (w\<lparr>twWrites := []\<rparr>)"
| op_skips: "twWrites w = x # xs \<Longrightarrow> target_step lib ah w (w\<lparr>twWrites := xs\<rparr>)"
| op_status: "twWrites w = WTargetStatus t # xs \<Longrightarrow> t_same w t \<Longrightarrow> t_fresh w rv \<Longrightarrow>
    target_step lib ah w ((t_put_status t rv w)\<lparr>twWrites := xs\<rparr>)"
| op_updates: "twWrites w = WTarget t # xs \<Longrightarrow> t_same w t \<Longrightarrow> t_fresh w rv \<Longrightarrow>
    target_step lib ah w ((t_put_object t rv w)\<lparr>twWrites := xs\<rparr>)"
| ag_pass: "n \<noteq> '''' \<Longrightarrow> GetTarget c (keyOf (tMeta (t_ag w n))) = Inr (t_ag w n) \<Longrightarrow>
    \<forall>t. AgentTargetStatus t \<in> set (t_reports lib ah c w n h) \<longrightarrow> isl (UpdateTargetStatus c t) \<Longrightarrow>
    target_step lib ah w (t_ran lib ah c n h w)"
| ag_lands: "n \<noteq> '''' \<Longrightarrow> GetTarget c (keyOf (tMeta (t_ag w n))) = Inr (t_ag w n) \<Longrightarrow>
    AgentTargetStatus t \<in> set (t_reports lib ah c w n h) \<Longrightarrow> t_same w t \<Longrightarrow> t_fresh w rv \<Longrightarrow>
    target_step lib ah w (t_put_status t rv (t_ran lib ah c n h w))"
| ag_gone: "twGone w \<Longrightarrow> target_step lib ah w (w\<lparr>twApplied := (twApplied w)(n := (twApplied w n)(keyOf (tMeta (t_latest w)) := None))\<rparr>)"
| ag_restarts: "target_step lib ah w (w\<lparr>twApplied := (twApplied w)(n := Map.empty)\<rparr>)"
| user_deletes: "\<not> twGone w \<Longrightarrow> omFinalizers (tMeta (t_latest w)) \<noteq> [] \<Longrightarrow> t_fresh w rv \<Longrightarrow>
    target_step lib ah w (t_push ((t_latest w)\<lparr>tMeta := (tMeta (t_latest w))\<lparr>omDeleting := True\<rparr>\<rparr>) rv w)"
| user_edits: "\<not> twGone w \<Longrightarrow> t_fresh w rv \<Longrightarrow>
    target_step lib ah w (t_push ((t_latest w)\<lparr>tSpec := sp, tMeta := (tMeta (t_latest w))\<lparr>omGeneration := g\<rparr>\<rparr>) rv w)"

text \<open>A target as it was created: no status.\<close>

definition target_start :: "target_world \<Rightarrow> bool" where
  "target_start w \<longleftrightarrow> (\<exists>t. twVers w = [t] \<and> \<not> omDeleting (tMeta t) \<and> ttConditions (tStatus t) = [] \<and> ttState (tStatus t) = '''') \<and>
     twOp w = 0 \<and> twAg w = (\<lambda>_. 0) \<and> twApplied w = (\<lambda>_. Map.empty) \<and> twWrites w = [] \<and> \<not> twGone w \<and>
     twServed w = {} \<and> twTorn w = {} \<and> twLost w = {}"

definition target_run :: "metalib \<Rightarrow> (string \<Rightarrow> 'h target_host) \<Rightarrow> target_world \<Rightarrow> bool" where
  "target_run lib ah w \<longleftrightarrow> (\<exists>w0. target_start w0 \<and> (target_step lib ah)\<^sup>*\<^sup>* w0 w)"

section \<open>The invariant\<close>

text \<open>Version \<open>i\<close> has been exported by its active node since that node became active.\<close>

definition t_since :: "target_world \<Rightarrow> nat \<Rightarrow> nat \<Rightarrow> bool" where
  "t_since w i j \<longleftrightarrow> (t_active (twVers w ! i), j) \<in> twServed w \<and> t_active (twVers w ! i) \<noteq> '''' \<and>
     (\<forall>k. j \<le> k \<and> k \<le> i \<longrightarrow> t_active (twVers w ! k) = t_active (twVers w ! i))"

definition t_evidence :: "target_world \<Rightarrow> nat \<Rightarrow> bool" where
  "t_evidence w i \<longleftrightarrow> (\<exists>j \<le> i. t_since w i j)"

definition t_released :: "target_world \<Rightarrow> Target \<Rightarrow> bool" where
  "t_released w t \<longleftrightarrow> t_active t = '''' \<or> t_active t \<in> twTorn w \<union> twLost w"

definition t_versions_ok :: "metalib \<Rightarrow> target_world \<Rightarrow> bool" where
  "t_versions_ok lib w \<longleftrightarrow> twOp w < length (twVers w) \<and> (\<forall>n. twAg w n < length (twVers w)) \<and> distinct (map t_rv (twVers w)) \<and>
     (\<forall>i < length (twVers w). t_true lib (twVers w ! i) ConditionHostReady \<or> t_true lib (twVers w ! i) ConditionAvailable \<longrightarrow> t_evidence w i) \<and>
     (\<forall>v \<in> set (twVers w). ttState (tStatus v) = ''Removed'' \<longrightarrow> omDeleting (tMeta v) \<and> t_active v \<in> twTorn w)"

text \<open>What the operator has still to write comes from a version: a status from a live one, keeping a
  true HostReady only with its node; an object without finalizers from one that may be released.\<close>

definition t_status_from :: "metalib \<Rightarrow> Target \<Rightarrow> Target \<Rightarrow> bool" where
  "t_status_from lib v t \<longleftrightarrow> t_rv t = t_rv v \<and> ttState (tStatus t) = ttState (tStatus v) \<and> \<not> omDeleting (tMeta v) \<and>
     (t_true lib t ConditionHostReady \<longrightarrow> t_true lib v ConditionHostReady \<and> t_active t = t_active v) \<and>
     (t_true lib t ConditionAvailable \<longrightarrow> t_true lib t ConditionHostReady)"

definition t_write_ok :: "metalib \<Rightarrow> target_world \<Rightarrow> target_write \<Rightarrow> bool" where
  "t_write_ok lib w x \<longleftrightarrow> (case x of
      WTargetStatus t \<Rightarrow> \<exists>v \<in> set (twVers w). t_status_from lib v t
    | WTarget t \<Rightarrow> omFinalizers (tMeta t) \<noteq> [] \<or> (\<exists>v \<in> set (twVers w). t_rv t = t_rv v \<and> t_released w v))"

definition target_inv :: "metalib \<Rightarrow> target_world \<Rightarrow> bool" where
  "target_inv lib w \<longleftrightarrow> t_versions_ok lib w \<and> (\<forall>x \<in> set (twWrites w). t_write_ok lib w x) \<and>
     (twGone w \<longrightarrow> t_released w (t_latest w))"

section \<open>What the passes decide\<close>

context metalib_laws
begin

lemma target_pass_ready:
  assumes "target_status_pass lib c b = Inr (t, res)" and "t_true lib t ConditionHostReady"
  shows "t_true lib b ConditionHostReady"
  using assms(1)
proof (cases rule: target_status_pass_cases)
  case (1 versions problem prepared)
  have prep: "ttConditions (tStatus prepared) = ttConditions (tStatus b)" using 1(2) by simp
  from 1(3) show ?thesis
  proof (elim disjE exE conjE)
    fix reason msg
    assume "t = set_target_cond lib prepared (available0 (omGeneration (tMeta b))\<lparr>cReason := reason, cMessage := msg\<rparr>)"
    with assms(2) prep show ?thesis by (simp add: is_true_set)
  next
    fix vols avoid t' cond
    assume place: "target_place lib avoid vols problem prepared = (t', cond)" and t: "t = set_target_cond lib t' cond"
    with assms(2) target_place_cond_type[OF place] have "t_true lib t' ConditionHostReady" by (simp add: is_true_set)
    with place prep show ?thesis by (cases rule: target_place_cases) (auto simp: is_true_set split: if_splits)
  qed
qed

lemma target_pass_from:
  assumes run: "target_status_pass lib c b = Inr (t, res)" and live: "\<not> omDeleting (tMeta b)"
    and placed: "t_true lib b ConditionHostReady \<Longrightarrow> t_active b \<noteq> ''''"
  shows "t_status_from lib b t"
proof -
  note frame = target_status_pass_frame[OF run]
  have "t_active t = t_active b" if "t_true lib t ConditionHostReady"
    using target_pass_moved(2)[OF run] placed target_pass_ready[OF run] that by blast
  moreover have "t_true lib t ConditionHostReady" if "t_true lib t ConditionAvailable"
    using target_pass_served[OF run that] by (simp add: target_served_def)
  ultimately show ?thesis using target_pass_ready[OF run] frame live by (auto simp: t_status_from_def)
qed

lemma held_same: "tStatus (t_held lib v) = tStatus v" "t_rv (t_held lib v) = t_rv v"
    "omDeleting (tMeta (t_held lib v)) = omDeleting (tMeta v)" "omFinalizers (tMeta (t_held lib v)) \<noteq> []"
proof -
  show "omFinalizers (tMeta (t_held lib v)) \<noteq> []"
    using add_set[of "tMeta v" teardownFinalizer] by (auto simp: t_held_def)
qed (simp_all add: t_held_def add_name)

text \<open>The writes of a pass over version \<open>v\<close> that updates nothing on the way.\<close>

lemma op_pass_decides:
  assumes get: "GetTarget c key = Inr v" and no: "\<forall>t. isl (UpdateTarget c t)"
    and placed: "t_true lib v ConditionHostReady \<Longrightarrow> t_active v \<noteq> ''''"
    and x: "x \<in> set (fst (TargetReconcile lib c key))"
  shows "case x of WTargetStatus t \<Rightarrow> t_status_from lib v t
    | WTarget t \<Rightarrow> omFinalizers (tMeta t) \<noteq> [] \<or> t_rv t = t_rv v \<and> target_release_ok c v"
proof (cases x)
  case (WTargetStatus t)
  with x obtain b res where b: "target_in_hand lib c key = Some b" "target_status_pass lib c b = Inr (t, res)"
    by (auto simp: target_status_written)
  have "UpdateTarget c u \<noteq> Inr u'" for u u' using no[rule_format, of u] by auto
  with b(1) get have "b = t_held lib v" "\<not> omDeleting (tMeta v)"
    by (auto simp: target_in_hand_def t_held_def Let_def split: if_splits sum.splits)
  with target_pass_from[OF b(2)] placed held_same WTargetStatus show ?thesis by (simp add: t_status_from_def)
next
  case (WTarget t)
  show ?thesis
  proof (cases "omDeleting (tMeta v)")
    case True
    have "t = v\<lparr>tMeta := RemoveFinalizer lib (tMeta v) teardownFinalizer\<rparr> \<and> target_release_ok c v"
      using x WTarget get True
      by (auto simp: TargetReconcile_def target_reconcileDelete_def target_release_ok_def Let_def split: if_splits sum.splits)
    with WTarget show ?thesis by (simp add: removed_rest)
  next
    case False
    have "t = t_held lib v"
      using x WTarget get False
      by (auto simp: TargetReconcile_def t_held_def Let_def live_pass_object split: if_splits sum.splits prod.splits)
    with WTarget held_same(4) show ?thesis by simp
  qed
qed

end

text \<open>The pass that adds the finalizer goes on with the object the server returned.\<close>

lemma op_hold_decides:
  assumes lib: "metalib_laws lib" and get: "GetTarget c key = Inr v" and live: "\<not> omDeleting (tMeta v)"
    and add: "snd (AddFinalizer lib (tMeta v) teardownFinalizer)" and upd: "UpdateTarget c (t_held lib v) = Inr b"
    and b: "\<not> omDeleting (tMeta b)" "t_true lib b ConditionHostReady \<Longrightarrow> t_active b \<noteq> ''''"
    and x: "x \<in> set (tl (fst (TargetReconcile lib c key)))"
  shows "\<exists>t. x = WTargetStatus t \<and> t_status_from lib b t"
proof -
  have "fst (TargetReconcile lib c key) = fst (target_live_pass lib c [WTarget (t_held lib v)] b)"
    using get live add upd by (auto simp: TargetReconcile_def t_held_def Let_def split: prod.splits)
  with x obtain t res where "x = WTargetStatus t" "target_status_pass lib c b = Inr (t, res)"
    by (auto simp: target_live_pass_def split: sum.splits prod.splits if_splits)
  with metalib_laws.target_pass_from[OF lib _ b] show ?thesis by blast
qed

text \<open>What an agent's pass reports: a ready host only after a complete export, a removal only after a
  teardown; nothing else of the status changes.\<close>

lemma agent_decides:
  assumes lib: "metalib_laws lib" and get: "GetTarget c (keyOf (tMeta (t_ag w n))) = Inr (t_ag w n)"
    and x: "AgentTargetStatus t \<in> set (t_reports lib ah c w n h)"
  shows "t_rv t = t_rv (t_ag w n)" "t_active t = n" "t_active (t_ag w n) = n"
    "t_true lib t ConditionAvailable = t_true lib (t_ag w n) ConditionAvailable"
    "t_true lib t ConditionHostReady \<Longrightarrow> t_true lib (t_ag w n) ConditionHostReady \<or> t_exports lib ah c w n h"
    "ttState (tStatus t) = ''Removed'' \<Longrightarrow> t_tears lib ah c w n h"
proof -
  let ?v = "t_ag w n"
  let ?m = "t_agent_pass lib ah c w n"
  have all: "t_rv t = t_rv ?v \<and> t_active t = n \<and> t_active ?v = n \<and> t_true lib t ConditionAvailable = t_true lib ?v ConditionAvailable \<and>
      (t_true lib t ConditionHostReady \<longrightarrow> t_true lib ?v ConditionHostReady \<or> t_exports lib ah c w n h) \<and>
      (ttState (tStatus t) = ''Removed'' \<longrightarrow> t_tears lib ah c w n h)"
  proof (cases "omDeleting (tMeta ?v) \<or> t_active ?v \<noteq> n")
    case True
    note td = target_agent_teardown[OF get True, of lib "thOs (ah n)" "thFs (ah n)" "thLib (ah n)" "thRt (ah n)" "twApplied w n" h,
        unfolded Let_def, folded t_agent_pass_def]
    from x td have t: "t = ?v\<lparr>tStatus := (tStatus ?v)\<lparr>ttState := ''Removed''\<rparr>\<rparr>" and d: "omDeleting (tMeta ?v)" "t_active ?v = n"
      by (auto split: if_splits)
    from conjunct1[OF td] d have "t_tears lib ah c w n h" by (simp add: t_tears_def)
    with t d show ?thesis by simp
  next
    case False
    then have v: "\<not> omDeleting (tMeta ?v)" "t_active ?v = n" by simp_all
    note post = ensures_run[OF live_pass[OF get v], of lib "thOs (ah n)" "thFs (ah n)" "thLib (ah n)" "thRt (ah n)" "twApplied w n" h,
        folded t_agent_pass_def]
    from bspec[OF conjunct1[OF post] x] obtain key chap e where e: "ensure_inputs c ?v = Inr (key, chap)" "t = host_status lib ?v e"
      "e = None \<longrightarrow> lio_done ?v chap (log_of ?m h)" by blast
    have "t_exports lib ah c w n h" if "t_true lib t ConditionHostReady"
      using that e by (auto simp: t_exports_def host_status_def Let_def metalib_laws.is_true_set[OF lib] split: if_splits)
    with e(2) v(2) show ?thesis by (auto simp: host_status_def Let_def metalib_laws.is_true_set[OF lib] split: if_splits)
  qed
  then show "t_rv t = t_rv ?v" "t_active t = n" "t_active ?v = n"
    "t_true lib t ConditionAvailable = t_true lib ?v ConditionAvailable"
    "t_true lib t ConditionHostReady \<Longrightarrow> t_true lib ?v ConditionHostReady \<or> t_exports lib ah c w n h"
    "ttState (tStatus t) = ''Removed'' \<Longrightarrow> t_tears lib ah c w n h" by blast+
qed

section \<open>The invariant is kept\<close>

lemma t_latest_push [simp]: "t_latest (t_push t rv w) = t\<lparr>tMeta := (tMeta t)\<lparr>omResourceVersion := rv\<rparr>\<rparr>"
  by (simp add: t_latest_def t_push_def)

lemma t_push_simps [simp]:
  "twVers (t_push t rv w) = twVers w @ [t\<lparr>tMeta := (tMeta t)\<lparr>omResourceVersion := rv\<rparr>\<rparr>]"
  "twOp (t_push t rv w) = twOp w" "twAg (t_push t rv w) = twAg w" "twWrites (t_push t rv w) = twWrites w"
  "twServed (t_push t rv w) = twServed w" "twTorn (t_push t rv w) = twTorn w" "twLost (t_push t rv w) = twLost w"
  "twGone (t_push t rv w) = twGone w" "twApplied (t_push t rv w) = twApplied w"
  by (simp_all add: t_push_def)

lemma t_latest_in: "t_versions_ok lib w \<Longrightarrow> t_latest w \<in> set (twVers w)"
  by (auto simp: t_versions_ok_def t_latest_def intro!: last_in_set)

lemma t_latest_nth:
  assumes "t_versions_ok lib w"
  shows "t_latest w = twVers w ! (length (twVers w) - 1)"
  unfolding t_latest_def by (rule last_conv_nth) (use assms in \<open>auto simp: t_versions_ok_def\<close>)

lemma t_rv_unique:
  assumes ok: "t_versions_ok lib w" and u: "u \<in> set (twVers w)" and v: "v \<in> set (twVers w)" and rv: "t_rv u = t_rv v"
  shows "u = v"
proof -
  have "inj_on t_rv (set (twVers w))" using ok by (simp add: t_versions_ok_def distinct_map)
  from inj_onD[OF this rv u v] show ?thesis .
qed

lemma t_rv_index:
  assumes ok: "t_versions_ok lib w" and i: "i < length (twVers w)" and rv: "t_rv (twVers w ! i) = t_rv (t_latest w)"
  shows "i = length (twVers w) - 1"
proof -
  have "map t_rv (twVers w) ! i = map t_rv (twVers w) ! (length (twVers w) - 1)"
    using i rv t_latest_nth[OF ok] by auto
  then show ?thesis using ok i nth_eq_iff_index_eq[of "map t_rv (twVers w)" i "length (twVers w) - 1"]
    by (auto simp: t_versions_ok_def)
qed

text \<open>What was shown stays shown as the world grows.\<close>

lemma t_sinceD: "t_since w i j \<Longrightarrow> j \<le> k \<Longrightarrow> k \<le> i \<Longrightarrow> t_active (twVers w ! k) = t_active (twVers w ! i)"
  unfolding t_since_def by blast

lemma t_evidence_mono:
  assumes ev: "t_evidence w i" and i: "i < length (twVers w)" and vs: "twVers w' = twVers w @ vs" and sv: "twServed w \<subseteq> twServed w'"
  shows "t_evidence w' i"
proof -
  from ev obtain j where j: "j \<le> i" "t_since w i j" unfolding t_evidence_def by blast
  have same: "twVers w' ! k = twVers w ! k" if "k \<le> i" for k using that i vs by (simp add: nth_append)
  have "t_since w' i j" unfolding t_since_def
  proof (intro conjI allI impI)
    show "(t_active (twVers w' ! i), j) \<in> twServed w'" using j(2) sv unfolding t_since_def same[OF order_refl] by blast
    show "t_active (twVers w' ! i) \<noteq> ''''" using j(2) unfolding t_since_def same[OF order_refl] by blast
    show "t_active (twVers w' ! k) = t_active (twVers w' ! i)" if "j \<le> k \<and> k \<le> i" for k
      using t_sinceD[OF j(2), of k] that same[of k] same[of i] by simp
  qed
  with j(1) show ?thesis unfolding t_evidence_def by blast
qed

lemma t_since_extend:
  assumes j: "j < length (twVers w)" and vs: "twVers w' = twVers w @ [v]" and sv: "(t_active v, j) \<in> twServed w'" "t_active v \<noteq> ''''"
    and same: "\<And>k. j \<le> k \<Longrightarrow> k < length (twVers w) \<Longrightarrow> t_active (twVers w ! k) = t_active v"
  shows "t_evidence w' (length (twVers w))"
proof -
  have v: "twVers w' ! length (twVers w) = v" using vs by simp
  have "t_since w' (length (twVers w)) j" unfolding t_since_def v
  proof (intro conjI allI impI sv)
    fix k
    assume "j \<le> k \<and> k \<le> length (twVers w)"
    then show "t_active (twVers w' ! k) = t_active v"
      using same[of k] vs v by (cases "k = length (twVers w)") (auto simp: nth_append)
  qed
  then show ?thesis unfolding t_evidence_def using j by (meson less_imp_le)
qed

lemma t_evidence_extend:
  assumes ev: "t_evidence w (length (twVers w) - 1)" and ne: "twVers w \<noteq> []" and vs: "twVers w' = twVers w @ [v]" and sv: "twServed w \<subseteq> twServed w'"
    and act: "t_active v = t_active (last (twVers w))"
  shows "t_evidence w' (length (twVers w))"
proof -
  let ?i = "length (twVers w) - 1"
  from ev obtain j where j: "j \<le> ?i" "t_since w ?i j" unfolding t_evidence_def by blast
  have v: "t_active v = t_active (twVers w ! ?i)" using ne act by (simp add: last_conv_nth)
  show ?thesis
  proof (rule t_since_extend[OF _ vs])
    show "j < length (twVers w)" using j(1) ne by (cases "twVers w") auto
    show "(t_active v, j) \<in> twServed w'" "t_active v \<noteq> ''''" using j(2) sv unfolding t_since_def v by blast+
    show "t_active (twVers w ! k) = t_active v" if "j \<le> k" "k < length (twVers w)" for k
      unfolding v by (rule t_sinceD[OF j(2) that(1)]) (use that(2) in simp)
  qed
qed

text \<open>One lemma for everything that appends a version: the new one's status comes from the latest, or is
  shown anew.\<close>

definition t_grows :: "target_world \<Rightarrow> target_world \<Rightarrow> bool" where
  "t_grows w w' \<longleftrightarrow> twServed w \<subseteq> twServed w' \<and> twTorn w \<subseteq> twTorn w' \<and> twLost w \<subseteq> twLost w'"

lemma t_versions_push:
  assumes ok: "t_versions_ok lib w" and grows: "t_grows w w'" and vs: "twVers w' = twVers w @ [v]" and fresh: "t_fresh w (t_rv v)"
    and idx: "twOp w' = twOp w" "twAg w' = twAg w"
    and ready: "t_true lib v ConditionHostReady \<or> t_true lib v ConditionAvailable \<Longrightarrow> t_evidence w' (length (twVers w))"
    and removed: "ttState (tStatus v) = ''Removed'' \<Longrightarrow> omDeleting (tMeta v) \<and> t_active v \<in> twTorn w'"
  shows "t_versions_ok lib w'"
  unfolding t_versions_ok_def vs
proof (intro conjI allI impI ballI)
  fix i
  assume i: "i < length (twVers w @ [v])" and r: "t_true lib ((twVers w @ [v]) ! i) ConditionHostReady \<or> t_true lib ((twVers w @ [v]) ! i) ConditionAvailable"
  show "t_evidence w' i"
  proof (cases "i = length (twVers w)")
    case True
    with ready r show ?thesis by simp
  next
    case False
    with i r ok have "i < length (twVers w)" "t_evidence w i" by (auto simp: t_versions_ok_def nth_append)
    then show ?thesis using t_evidence_mono[OF _ _ vs] grows by (simp add: t_grows_def)
  qed
next
  fix x
  assume "x \<in> set (twVers w @ [v])" "ttState (tStatus x) = ''Removed''"
  then show "omDeleting (tMeta x)" "t_active x \<in> twTorn w'" using ok removed grows by (auto simp: t_versions_ok_def t_grows_def)
qed (use ok fresh idx in \<open>auto simp: t_versions_ok_def t_fresh_def less_Suc_eq\<close>)

lemma t_released_mono: "t_released w v \<Longrightarrow> t_grows w w' \<Longrightarrow> t_released w' v"
  by (auto simp: t_released_def t_grows_def)

lemma t_write_ok_mono:
  assumes "t_write_ok lib w x" and "t_grows w w'" and "set (twVers w) \<subseteq> set (twVers w')"
  shows "t_write_ok lib w' x"
  using assms t_released_mono[OF _ assms(2)] unfolding t_write_ok_def by (auto split: target_write.splits)

text \<open>A version whose conditions and node are the latest's is shown by what shows the latest.\<close>

lemma t_keep_evidence:
  assumes ok: "t_versions_ok lib w" and grows: "t_grows w w'" and vs: "twVers w' = twVers w @ [v]"
    and "t_true lib (t_latest w) ConditionHostReady \<or> t_true lib (t_latest w) ConditionAvailable" and "t_active v = t_active (t_latest w)"
  shows "t_evidence w' (length (twVers w))"
proof (rule t_evidence_extend[OF _ _ vs])
  show ne: "twVers w \<noteq> []" using ok by (auto simp: t_versions_ok_def)
  have "length (twVers w) - 1 < length (twVers w)" using ne by (cases "twVers w") auto
  then show "t_evidence w (length (twVers w) - 1)" using ok assms(4) t_latest_nth[OF ok] unfolding t_versions_ok_def by metis
qed (use grows assms(5) in \<open>auto simp: t_grows_def t_latest_def\<close>)

lemma target_inv_push:
  assumes inv: "target_inv lib w" and grows: "t_grows w w'" and vs: "twVers w' = twVers w @ [v]" and fresh: "t_fresh w (t_rv v)"
    and rest: "twOp w' = twOp w" "twAg w' = twAg w" "set (twWrites w') \<subseteq> set (twWrites w)"
    and ready: "t_true lib v ConditionHostReady \<or> t_true lib v ConditionAvailable \<Longrightarrow> t_evidence w' (length (twVers w))"
    and removed: "ttState (tStatus v) = ''Removed'' \<Longrightarrow> omDeleting (tMeta v) \<and> t_active v \<in> twTorn w'"
    and gone: "twGone w' \<Longrightarrow> t_released w' v"
  shows "target_inv lib w'"
proof -
  have ok: "t_versions_ok lib w" using inv by (simp add: target_inv_def)
  have "t_latest w' = v" using vs by (simp add: t_latest_def)
  moreover have "t_write_ok lib w' x" if "x \<in> set (twWrites w')" for x
    by (rule t_write_ok_mono[OF _ grows]) (use that inv rest(3) vs in \<open>auto simp: target_inv_def\<close>)
  ultimately show ?thesis
    using t_versions_push[OF ok grows vs fresh rest(1,2) ready removed] gone by (simp add: target_inv_def)
qed

lemma target_inv_same:
  assumes inv: "target_inv lib w" and grows: "t_grows w w'" and vs: "twVers w' = twVers w" and gone: "twGone w' = twGone w"
    and idx: "twOp w' < length (twVers w)" "\<forall>n. twAg w' n < length (twVers w)"
    and writes: "\<And>x. x \<in> set (twWrites w') \<Longrightarrow> x \<in> set (twWrites w) \<or> t_write_ok lib w' x"
  shows "target_inv lib w'"
proof -
  have ok: "t_versions_ok lib w" using inv by (simp add: target_inv_def)
  have "t_evidence w' i" if "t_evidence w i" "i < length (twVers w)" for i
    by (rule t_evidence_mono[OF that, of _ "[]"]) (use vs grows in \<open>auto simp: t_grows_def\<close>)
  then have "t_versions_ok lib w'" using ok grows idx unfolding t_versions_ok_def vs t_grows_def by blast
  moreover have "t_write_ok lib w' x" if "x \<in> set (twWrites w')" for x
    using writes[OF that] t_write_ok_mono[OF _ grows, of lib x] inv vs by (auto simp: target_inv_def)
  moreover have "t_released w' (t_latest w')" if "twGone w'"
    using that inv t_released_mono[OF _ grows] gone vs by (auto simp: target_inv_def t_latest_def)
  ultimately show ?thesis by (simp add: target_inv_def)
qed

text \<open>A true HostReady names a node.\<close>

lemma t_ready_placed:
  assumes "t_versions_ok lib w" and "v \<in> set (twVers w)" and "t_true lib v ConditionHostReady"
  shows "t_active v \<noteq> ''''"
proof -
  from assms(2) obtain i where i: "i < length (twVers w)" "v = twVers w ! i" by (metis in_set_conv_nth)
  with assms(1,3) have "t_evidence w i" unfolding t_versions_ok_def by blast
  with i(2) show ?thesis unfolding t_evidence_def t_since_def by blast
qed

lemma t_op_in: "t_versions_ok lib w \<Longrightarrow> t_op w \<in> set (twVers w)" and t_ag_in: "t_versions_ok lib w \<Longrightarrow> t_ag w n \<in> set (twVers w)"
  by (auto simp: t_versions_ok_def)

lemma t_op_pass_inv:
  assumes lib: "metalib_laws lib" and inv: "target_inv lib w" and none: "twWrites w = []" and c: "op_refused w c"
  shows "target_inv lib (w\<lparr>twWrites := fst (TargetReconcile lib c (keyOf (tMeta (t_op w)))), twLost := (twLost w \<union> op_lost c (t_op w))\<rparr>)"
    (is "target_inv lib ?w")
proof -
  have ok: "t_versions_ok lib w" using inv by (simp add: target_inv_def)
  note op = t_op_in[OF ok]
  have get: "GetTarget c (keyOf (tMeta (t_op w))) = Inr (t_op w)" and no: "\<forall>t. isl (UpdateTarget c t)" using c by (simp_all add: op_refused_def)
  show ?thesis
  proof (rule target_inv_same[OF inv])
    fix x
    assume x: "x \<in> set (twWrites ?w)"
    then have x': "x \<in> set (fst (TargetReconcile lib c (keyOf (tMeta (t_op w)))))" by simp
    note d = metalib_laws.op_pass_decides[OF lib get no t_ready_placed[OF ok op] x']
    have "t_write_ok lib ?w x"
    proof (cases x)
      case (WTargetStatus t)
      with d op show ?thesis by (auto simp: t_write_ok_def)
    next
      case (WTarget t)
      have rel: "t_released ?w (t_op w)" if "target_release_ok c (t_op w)"
      proof (cases "ttState (tStatus (t_op w)) = ''Removed''")
        case True
        then have "t_active (t_op w) \<in> twTorn w" using ok op unfolding t_versions_ok_def by blast
        then show ?thesis by (simp add: t_released_def)
      next
        case False
        with that show ?thesis by (auto simp: target_release_ok_def t_released_def op_lost_def)
      qed
      show ?thesis using d op rel WTarget by (auto simp: t_write_ok_def)
    qed
    then show "x \<in> set (twWrites w) \<or> t_write_ok lib ?w x" ..
  qed (use ok in \<open>auto simp: t_grows_def t_versions_ok_def\<close>)
qed

lemma t_put_object_inv:
  assumes inv: "target_inv lib w" and fresh: "t_fresh w rv" and fin: "omFinalizers (tMeta t) \<noteq> [] \<or> t_released w (t_latest w)"
    and ws: "set ws \<subseteq> set (twWrites w)"
  shows "target_inv lib ((t_put_object t rv w)\<lparr>twWrites := ws\<rparr>)"
proof -
  have ok: "t_versions_ok lib w" using inv by (simp add: target_inv_def)
  let ?v = "(t_latest w)\<lparr>tSpec := tSpec t, tMeta := (tMeta (t_latest w))\<lparr>omFinalizers := omFinalizers (tMeta t), omResourceVersion := rv\<rparr>\<rparr>"
  let ?w = "(t_put_object t rv w)\<lparr>twWrites := ws\<rparr>"
  have vs: "twVers ?w = twVers w @ [?v]" and grows: "t_grows w ?w" by (simp_all add: t_put_object_def t_grows_def)
  show ?thesis
    by (rule target_inv_push[OF inv grows vs])
       (use fresh fin ws ok t_latest_in[OF ok] t_keep_evidence[OF ok grows vs] in
         \<open>auto simp: t_put_object_def t_released_def t_versions_ok_def\<close>)
qed

lemma t_put_status_inv:
  assumes inv: "target_inv lib w" and same: "t_same w t" and fresh: "t_fresh w rv" and from_v: "\<exists>v \<in> set (twVers w). t_status_from lib v t"
    and ws: "set ws \<subseteq> set (twWrites w)"
  shows "target_inv lib ((t_put_status t rv w)\<lparr>twWrites := ws\<rparr>)"
proof -
  have ok: "t_versions_ok lib w" using inv by (simp add: target_inv_def)
  from from_v obtain v where v: "v \<in> set (twVers w)" "t_status_from lib v t" by blast
  have "v = t_latest w" by (rule t_rv_unique[OF ok v(1) t_latest_in[OF ok]]) (use v(2) same in \<open>simp add: t_status_from_def t_same_def\<close>)
  with v(2) have d: "t_status_from lib (t_latest w) t" by simp
  let ?v = "(t_latest w)\<lparr>tStatus := tStatus t, tMeta := (tMeta (t_latest w))\<lparr>omResourceVersion := rv\<rparr>\<rparr>"
  let ?w = "(t_put_status t rv w)\<lparr>twWrites := ws\<rparr>"
  have vs: "twVers ?w = twVers w @ [?v]" and grows: "t_grows w ?w" by (simp_all add: t_put_status_def t_grows_def)
  have alive: "\<not> twGone w" using same by (simp add: t_same_def)
  show ?thesis
    by (rule target_inv_push[OF inv grows vs])
       (use fresh ws alive d ok t_latest_in[OF ok] t_keep_evidence[OF ok grows vs] in
         \<open>auto simp: t_put_status_def t_status_from_def t_versions_ok_def\<close>)
qed

lemma op_holds_inv:
  assumes lib: "metalib_laws lib" and inv: "target_inv lib w" and none: "twWrites w = []"
    and get: "GetTarget c (keyOf (tMeta (t_op w))) = Inr (t_op w)" and live: "\<not> omDeleting (tMeta (t_op w))"
    and add: "snd (AddFinalizer lib (tMeta (t_op w)) teardownFinalizer)" and same: "t_same w (t_op w)" and fresh: "t_fresh w rv"
    and upd: "UpdateTarget c (t_held lib (t_op w)) = Inr (t_latest (t_put_object (t_held lib (t_op w)) rv w))"
  shows "target_inv lib ((t_put_object (t_held lib (t_op w)) rv w)\<lparr>twWrites := tl (fst (TargetReconcile lib c (keyOf (tMeta (t_op w)))))\<rparr>)"
proof -
  let ?w1 = "(t_put_object (t_held lib (t_op w)) rv w)\<lparr>twWrites := []\<rparr>"
  let ?w2 = "(t_put_object (t_held lib (t_op w)) rv w)\<lparr>twWrites := tl (fst (TargetReconcile lib c (keyOf (tMeta (t_op w)))))\<rparr>"
  let ?b = "t_latest (t_put_object (t_held lib (t_op w)) rv w)"
  have ok: "t_versions_ok lib w" using inv by (simp add: target_inv_def)
  have inv1: "target_inv lib ?w1"
    by (rule t_put_object_inv[OF inv fresh]) (simp_all add: metalib_laws.held_same(4)[OF lib])
  then have ok1: "t_versions_ok lib ?w1" by (simp add: target_inv_def)
  have "t_latest w = t_op w"
    by (rule t_rv_unique[OF ok t_latest_in[OF ok] t_op_in[OF ok]]) (use same in \<open>simp add: t_same_def\<close>)
  then have b_live: "\<not> omDeleting (tMeta ?b)" using live by (simp add: t_put_object_def t_latest_def)
  have b_in: "?b \<in> set (twVers ?w1)" using t_latest_in[OF ok1] by (simp add: t_latest_def)
  show ?thesis
  proof (rule target_inv_same[OF inv1])
    fix x
    assume "x \<in> set (twWrites ?w2)"
    then have "x \<in> set (tl (fst (TargetReconcile lib c (keyOf (tMeta (t_op w))))))" by simp
    from op_hold_decides[OF lib get live add upd b_live t_ready_placed[OF ok1 b_in] this]
    obtain t where "x = WTargetStatus t" "t_status_from lib ?b t" by blast
    with b_in have "t_write_ok lib ?w2 x" by (auto simp: t_write_ok_def)
    then show "x \<in> set (twWrites ?w1) \<or> t_write_ok lib ?w2 x" ..
  qed (use ok1 in \<open>auto simp: t_grows_def t_versions_ok_def\<close>)
qed

lemma t_ran_simps [simp]:
  "twVers (t_ran lib ah c n h w) = twVers w" "twOp (t_ran lib ah c n h w) = twOp w" "twAg (t_ran lib ah c n h w) = twAg w"
  "twWrites (t_ran lib ah c n h w) = twWrites w" "twGone (t_ran lib ah c n h w) = twGone w" "twLost (t_ran lib ah c n h w) = twLost w"
  "t_latest (t_ran lib ah c n h w) = t_latest w"
  by (simp_all add: t_ran_def t_latest_def)

lemma t_ran_grows: "t_grows w (t_ran lib ah c n h w)"
  by (auto simp: t_grows_def t_ran_def)

lemma ag_lands_inv:
  assumes lib: "metalib_laws lib" and inv: "target_inv lib w" and n: "n \<noteq> ''''"
    and get: "GetTarget c (keyOf (tMeta (t_ag w n))) = Inr (t_ag w n)"
    and x: "AgentTargetStatus t \<in> set (t_reports lib ah c w n h)" and same: "t_same w t" and fresh: "t_fresh w rv"
  shows "target_inv lib (t_put_status t rv (t_ran lib ah c n h w))"
proof -
  have ok: "t_versions_ok lib w" using inv by (simp add: target_inv_def)
  note d = agent_decides[OF lib get x]
  have rv: "t_rv (t_ag w n) = t_rv (t_latest w)" using d(1) same by (simp add: t_same_def)
  have seen: "twAg w n < length (twVers w)" using ok by (simp add: t_versions_ok_def)
  have idx: "twAg w n = length (twVers w) - 1" by (rule t_rv_index[OF ok seen rv])
  then have v: "t_ag w n = t_latest w" using t_latest_nth[OF ok] by simp
  let ?v = "(t_latest w)\<lparr>tStatus := tStatus t, tMeta := (tMeta (t_latest w))\<lparr>omResourceVersion := rv\<rparr>\<rparr>"
  let ?w = "t_put_status t rv (t_ran lib ah c n h w)"
  have vs: "twVers ?w = twVers w @ [?v]" by (simp add: t_put_status_def)
  have grows: "t_grows w ?w" using t_ran_grows by (simp add: t_put_status_def t_grows_def)
  have act: "t_active ?v = n" "t_active (t_latest w) = n" using d(2,3) v by simp_all
  have exported: "t_evidence ?w (length (twVers w))" if "t_exports lib ah c w n h"
  proof (rule t_since_extend[OF seen vs])
    show "(t_active ?v, twAg w n) \<in> twServed ?w" using that d(2) by (simp add: t_put_status_def t_ran_def)
    show "t_active ?v \<noteq> ''''" using n act by simp
    show "t_active (twVers w ! k) = t_active ?v" if "twAg w n \<le> k" "k < length (twVers w)" for k
    proof -
      have "k = twAg w n" using that idx by simp
      then show ?thesis using d(2,3) by simp
    qed
  qed
  have kept: "t_evidence ?w (length (twVers w))" if "t_true lib (t_latest w) ConditionHostReady \<or> t_true lib (t_latest w) ConditionAvailable"
    by (rule t_keep_evidence[OF ok grows vs that]) (simp only: act)
  show ?thesis
  proof (rule target_inv_push[OF inv grows vs])
    show "t_fresh w (t_rv ?v)" using fresh by simp
    show "t_evidence ?w (length (twVers w))" if "t_true lib ?v ConditionHostReady \<or> t_true lib ?v ConditionAvailable"
      using that d(4,5) exported kept v by auto
    show "omDeleting (tMeta ?v) \<and> t_active ?v \<in> twTorn ?w" if "ttState (tStatus ?v) = ''Removed''"
      using that d(2) d(6) v by (auto simp: t_put_status_def t_ran_def t_tears_def)
  qed (use same in \<open>simp_all add: t_put_status_def t_same_def\<close>)
qed

lemma target_inv_step:
  assumes lib: "metalib_laws lib" and step: "target_step lib ah w w'" and inv: "target_inv lib w"
  shows "target_inv lib w'"
proof -
  have ok: "t_versions_ok lib w" using inv by (simp add: target_inv_def)
  have edit: "target_inv lib (t_push u rv w)" if "tStatus u = tStatus (t_latest w)" "omDeleting (tMeta (t_latest w)) \<longrightarrow> omDeleting (tMeta u)"
    "t_fresh w rv" "\<not> twGone w" for u rv
  proof -
    have vs: "twVers (t_push u rv w) = twVers w @ [u\<lparr>tMeta := (tMeta u)\<lparr>omResourceVersion := rv\<rparr>\<rparr>]" and grows: "t_grows w (t_push u rv w)"
      by (simp_all add: t_grows_def)
    show ?thesis
      by (rule target_inv_push[OF inv grows vs])
         (use that ok t_latest_in[OF ok] t_keep_evidence[OF ok grows vs] in \<open>auto simp: t_versions_ok_def\<close>)
  qed
  show ?thesis using step
  proof cases
    case (op_pass c)
    with t_op_pass_inv[OF lib inv] show ?thesis by simp
  next
    case (op_holds c rv)
    with op_holds_inv[OF lib inv op_holds(2-8)] show ?thesis by simp
  next
    case (op_status t xs rv)
    have "\<exists>v \<in> set (twVers w). t_status_from lib v t" using inv op_status(2) by (auto simp: target_inv_def t_write_ok_def)
    with t_put_status_inv[OF inv op_status(3,4)] op_status(1,2) show ?thesis by auto
  next
    case (op_updates t xs rv)
    have "t_write_ok lib w (WTarget t)" using inv op_updates(2) by (simp add: target_inv_def)
    then have "omFinalizers (tMeta t) \<noteq> [] \<or> t_released w (t_latest w)"
      using t_rv_unique[OF ok _ t_latest_in[OF ok]] op_updates(3) unfolding t_write_ok_def t_same_def by fastforce
    from t_put_object_inv[OF inv op_updates(4) this, of xs] op_updates(1,2) show ?thesis by auto
  next
    case (ag_pass n c h)
    have "target_inv lib (t_ran lib ah c n h w)"
      by (rule target_inv_same[OF inv t_ran_grows]) (use ok in \<open>auto simp: t_versions_ok_def\<close>)
    with ag_pass(1) show ?thesis by simp
  next
    case (ag_lands n c t h rv)
    with ag_lands_inv[OF lib inv ag_lands(2-6)] show ?thesis by simp
  next
    case (user_deletes rv)
    with edit show ?thesis by simp
  next
    case (user_edits rv sp g)
    with edit show ?thesis by simp
  qed (use ok in \<open>auto intro!: target_inv_same[OF inv] simp: t_grows_def t_versions_ok_def\<close>)
qed

lemma target_run_inv:
  assumes lib: "metalib_laws lib" and run: "target_run lib ah w"
  shows "target_inv lib w"
proof -
  from run obtain w0 where start: "target_start w0" and steps: "(target_step lib ah)\<^sup>*\<^sup>* w0 w" by (auto simp: target_run_def)
  have "target_inv lib w0"
    using start by (auto simp: target_start_def target_inv_def t_versions_ok_def metalib_laws.is_true[OF lib] metalib_laws.find_nil[OF lib])
  with steps show ?thesis by (induction rule: rtranclp_induct) (auto intro: target_inv_step[OF lib])
qed

section \<open>Properties\<close>

text \<open>\<^bold>\<open>C2\<close>. A promise of service follows the target. In every interleaving of the operator and the agents,
  each over its own cached copy, with conflicts, lost answers, restarts, edits and any failing hosts and
  nodes: a version of the object that says HostReady or Available names an active node whose agent
  exported the whole target on some version up to it, and the active node has not changed in between,
  so a move never carries the promise over. And the object goes only when it was never placed, or its
  active node's agent tore the deleted target down, or that node was seen gone or unready.\<close>

theorem target_handover_safe:
  assumes "metalib_laws lib" and "target_run lib ah w"
  shows "(\<forall>i < length (twVers w). t_true lib (twVers w ! i) ConditionHostReady \<or> t_true lib (twVers w ! i) ConditionAvailable \<longrightarrow>
      (\<exists>j \<le> i. (t_active (twVers w ! i), j) \<in> twServed w \<and> t_active (twVers w ! i) \<noteq> '''' \<and>
         (\<forall>k. j \<le> k \<and> k \<le> i \<longrightarrow> t_active (twVers w ! k) = t_active (twVers w ! i)))) \<and>
    (twGone w \<longrightarrow> t_active (t_latest w) = '''' \<or> t_active (t_latest w) \<in> twTorn w \<union> twLost w)"
  using target_run_inv[OF assms] unfolding target_inv_def t_versions_ok_def t_evidence_def t_since_def t_released_def by blast

section \<open>Runs\<close>

text \<open>A round of the operator: it sees the latest version, decides a status and writes it.\<close>

lemma run_step: "target_run lib ah w \<Longrightarrow> target_step lib ah w w' \<Longrightarrow> target_run lib ah w'"
  by (auto simp: target_run_def intro: rtranclp.rtrancl_into_rtrancl)

lemma op_round:
  assumes run: "target_run lib ah w" and lib: "metalib_laws lib" and idle: "twWrites w = []" "\<not> twGone w"
    and c: "GetTarget c (keyOf (tMeta (t_latest w))) = Inr (t_latest w)" "\<forall>t. isl (UpdateTarget c t)"
    and ws: "fst (TargetReconcile lib c (keyOf (tMeta (t_latest w)))) = [WTargetStatus ((t_latest w)\<lparr>tStatus := s\<rparr>)]"
    and fresh: "t_fresh w rv"
  shows "\<exists>w'. target_run lib ah w' \<and> twVers w' = twVers w @ [(t_latest w)\<lparr>tStatus := s, tMeta := (tMeta (t_latest w))\<lparr>omResourceVersion := rv\<rparr>\<rparr>] \<and>
    twWrites w' = [] \<and> \<not> twGone w' \<and> twAg w' = twAg w \<and> twApplied w' = twApplied w \<and> twServed w' = twServed w"
proof -
  have ok: "t_versions_ok lib w" using target_run_inv[OF lib run] by (simp add: target_inv_def)
  define w1 where "w1 = w\<lparr>twOp := length (twVers w) - 1\<rparr>"
  have l1: "t_latest w1 = t_latest w" "t_op w1 = t_latest w" using t_latest_nth[OF ok] by (simp_all add: w1_def t_latest_def)
  have r1: "target_run lib ah w1" unfolding w1_def
    by (rule run_step[OF run target_step.op_observes]) (use ok in \<open>auto simp: t_versions_ok_def\<close>)
  let ?t = "(t_latest w)\<lparr>tStatus := s\<rparr>"
  define w2 where "w2 = w1\<lparr>twWrites := [WTargetStatus ?t], twLost := (twLost w1 \<union> op_lost c (t_op w1))\<rparr>"
  have "target_step lib ah w1 (w1\<lparr>twWrites := fst (TargetReconcile lib c (keyOf (tMeta (t_op w1)))), twLost := (twLost w1 \<union> op_lost c (t_op w1))\<rparr>)"
    by (rule target_step.op_pass) (use idle c in \<open>auto simp: w1_def[symmetric] op_refused_def l1\<close>, simp add: w1_def)
  then have r2: "target_run lib ah w2" using run_step[OF r1] ws by (simp add: w2_def l1)
  have l2: "t_latest w2 = t_latest w" by (simp add: w2_def w1_def t_latest_def)
  have p2: "twVers w2 = twVers w" "twGone w2 = twGone w" "twAg w2 = twAg w" "twApplied w2 = twApplied w" "twServed w2 = twServed w"
    "twWrites w2 = [WTargetStatus ?t]" by (simp_all add: w2_def w1_def)
  have "target_step lib ah w2 ((t_put_status ?t rv w2)\<lparr>twWrites := []\<rparr>)"
    by (rule target_step.op_status[OF p2(6)]) (use idle fresh in \<open>simp_all add: t_same_def l2 t_fresh_def p2\<close>)
  from run_step[OF r2 this] show ?thesis
    by (intro exI[of _ "(t_put_status ?t rv w2)\<lparr>twWrites := []\<rparr>"]) (use idle in \<open>simp add: t_put_status_def l2 p2\<close>)
qed

text \<open>A round of an agent that sees the latest version.\<close>

lemma ag_round:
  assumes run: "target_run lib ah w" and lib: "metalib_laws lib" and alive: "\<not> twGone w" and n: "n \<noteq> ''''"
    and c: "GetTarget c (keyOf (tMeta (t_latest w))) = Inr (t_latest w)"
    and m: "m = TargetAgentReconcile lib c (thOs (ah n)) (thFs (ah n)) (thLib (ah n)) (thRt (ah n)) n (keyOf (tMeta (t_latest w))) (twApplied w n)"
    and x: "AgentTargetStatus ((t_latest w)\<lparr>tStatus := s\<rparr>) \<in> set (fst (snd (value_of m h)))" and fresh: "t_fresh w rv"
  shows "\<exists>w'. target_run lib ah w' \<and> twVers w' = twVers w @ [(t_latest w)\<lparr>tStatus := s, tMeta := (tMeta (t_latest w))\<lparr>omResourceVersion := rv\<rparr>\<rparr>] \<and>
    twWrites w' = twWrites w \<and> \<not> twGone w' \<and> twApplied w' = (twApplied w)(n := fst (value_of m h))"
proof -
  have ok: "t_versions_ok lib w" using target_run_inv[OF lib run] by (simp add: target_inv_def)
  define w1 where "w1 = w\<lparr>twAg := (twAg w)(n := length (twVers w) - 1)\<rparr>"
  have l1: "t_latest w1 = t_latest w" "t_ag w1 n = t_latest w" using t_latest_nth[OF ok] by (simp_all add: w1_def t_latest_def)
  have r1: "target_run lib ah w1" unfolding w1_def
  proof (rule run_step[OF run target_step.ag_observes])
    have "twAg w n < length (twVers w)" using ok by (simp add: t_versions_ok_def)
    then show "twAg w n \<le> length (twVers w) - 1" "length (twVers w) - 1 < length (twVers w)" by simp_all
  qed
  have p1: "twVers w1 = twVers w" "twGone w1 = twGone w" "twWrites w1 = twWrites w" "twApplied w1 = twApplied w" by (simp_all add: w1_def)
  have pass: "t_agent_pass lib ah c w1 n = m" unfolding t_agent_pass_def l1 m by (simp add: w1_def)
  let ?t = "(t_latest w)\<lparr>tStatus := s\<rparr>"
  have "target_step lib ah w1 (t_put_status ?t rv (t_ran lib ah c n h w1))"
    by (rule target_step.ag_lands) (use n c x alive fresh in \<open>simp_all add: l1 l1(2)[unfolded p1] pass t_same_def t_fresh_def p1\<close>)
  from run_step[OF r1 this] show ?thesis
    by (intro exI[of _ "t_put_status ?t rv (t_ran lib ah c n h w1)"])
       (use alive in \<open>simp add: t_put_status_def l1 p1, simp add: t_ran_def pass p1\<close>)
qed

text \<open>A replicated target on nodes \<open>a\<close> and \<open>b\<close>: it is placed on \<open>a\<close> and exported there; \<open>a\<close> drops out and
  it moves to \<open>b\<close>; then \<open>b\<close> drops out and it returns to \<open>a\<close>.\<close>

definition wit_hosts :: "string \<Rightarrow> unit target_host" where
  "wit_hosts n = \<lparr>thOs = acl_host, thFs = quiet_fs, thLib = lio_lib, thRt = ''''\<rparr>"

definition wit_target :: "string \<Rightarrow> TargetStatus \<Rightarrow> Target" where
  "wit_target rv s = \<lparr>tMeta = (meta0 ''ns'' ''t'')\<lparr>omResourceVersion := rv, omFinalizers := [teardownFinalizer]\<rparr>,
     tSpec = \<lparr>tsVIP = ''10.0.0.9'', tsLUNs = [\<lparr>lunID = 0, lunClaimName = ''v''\<rparr>], tsInitiators = []\<rparr>, tStatus = s\<rparr>"

definition wit_cluster :: "string list \<Rightarrow> Target \<Rightarrow> kclient" where
  "wit_cluster down t = (with_volumes [''v'' \<mapsto> vol_on ''v'' [''a'', ''b'']] client0)\<lparr>GetTarget := \<lambda>_. Inr t,
     ListNodes := Inr [node0 ''a'' (''a'' \<notin> set down), node0 ''b'' (''b'' \<notin> set down)], UpdateTarget := \<lambda>_. Inl not_found\<rparr>"

definition wit_status :: "Condition list \<Rightarrow> string \<Rightarrow> string \<Rightarrow> LUNStatus list \<Rightarrow> string \<Rightarrow> TargetStatus" where
  "wit_status conds iqn node luns st = \<lparr>ttConditions = conds, ttIQN = iqn, ttActiveNode = node, ttLUNs = luns,
     ttChapSecretVersions = [], ttSessions = 0, ttState = st\<rparr>"

abbreviation wit_waiting :: Condition where
  "wit_waiting \<equiv> \<lparr>cType = ConditionAvailable, cStatus = ConditionFalse, cReason = ReasonWaitingForAgent,
     cMessage = ''waiting for the node agent to export the target'', cObservedGeneration = 0\<rparr>"

abbreviation wit_ready :: Condition where
  "wit_ready \<equiv> \<lparr>cType = ConditionHostReady, cStatus = ConditionTrue, cReason = ReasonReady, cMessage = '''', cObservedGeneration = 0\<rparr>"

definition wit_on :: "Condition list \<Rightarrow> string \<Rightarrow> string \<Rightarrow> TargetStatus" where
  "wit_on conds node st = wit_status (wit_waiting # conds) (IQNPrefix @ ''t'') node [\<lparr>lsID = 0, lsDevice = ''/dev/drbd-v''\<rparr>] st"

definition wit_steps :: "TargetStatus list" where
  "wit_steps = [wit_status [] '''' '''' [] '''', wit_on [] ''a'' '''', wit_on [wit_ready] ''a'' ''Exported'',
     wit_on [movedCondition ''b'' 0] ''b'' ''Exported'', wit_on [movedCondition ''a'' 0] ''a'' ''Exported'']"

definition op_statuses :: "string list \<Rightarrow> Target \<Rightarrow> TargetStatus option list" where
  "op_statuses down t = map (\<lambda>x. case x of WTargetStatus t \<Rightarrow> Some (tStatus t) | _ \<Rightarrow> None)
     (fst (TargetReconcile std_metalib (wit_cluster down t) demo_key))"

lemma wit_op_statuses:
  "op_statuses [] (wit_target ''0'' (wit_steps ! 0)) = [Some (wit_steps ! 1)]"
  "op_statuses [''a''] (wit_target ''2'' (wit_steps ! 2)) = [Some (wit_steps ! 3)]"
  "op_statuses [''b''] (wit_target ''3'' (wit_steps ! 3)) = [Some (wit_steps ! 4)]"
  by code_simp+

lemma wit_cluster_gets [simp]: "GetTarget (wit_cluster down t) k = Inr t" "isl (UpdateTarget (wit_cluster down t) u)"
  by (simp_all add: wit_cluster_def)

lemma wit_target_simps [simp]:
  "keyOf (tMeta (wit_target rv s)) = demo_key" "t_rv (wit_target rv s) = rv" "tStatus (wit_target rv s) = s"
  "(wit_target rv s)\<lparr>tStatus := s'\<rparr> = wit_target rv s'"
  "(wit_target rv s)\<lparr>tMeta := (tMeta (wit_target rv s'))\<lparr>omResourceVersion := rv'\<rparr>\<rparr> = wit_target rv' s"
  by (simp_all add: wit_target_def keyOf_def meta0_def demo_key_def)

text \<open>A pass writes the object it read with another status.\<close>

lemma wit_op_writes:
  assumes "op_statuses down (wit_target rv s) = [Some s']"
  shows "fst (TargetReconcile std_metalib (wit_cluster down (wit_target rv s)) demo_key) = [WTargetStatus (wit_target rv s')]"
proof -
  let ?v = "wit_target rv s"
  let ?ws = "fst (TargetReconcile std_metalib (wit_cluster down ?v) demo_key)"
  from assms obtain z where z: "?ws = [z]" "(case z of WTargetStatus t \<Rightarrow> Some (tStatus t) | _ \<Rightarrow> None) = Some s'"
    by (auto simp: op_statuses_def map_eq_Cons_conv)
  from z(2) obtain t where "z = WTargetStatus t" and st: "tStatus t = s'" by (cases z) auto
  with z(1) have ws: "?ws = [WTargetStatus t]" by simp
  have hand: "target_in_hand std_metalib (wit_cluster down ?v) demo_key = Some ?v"
    by (simp add: target_in_hand_def std_metalib_def wit_target_def meta0_def)
  have "WTargetStatus t \<in> set ?ws" using ws by simp
  then obtain res where "target_status_pass std_metalib (wit_cluster down ?v) ?v = Inr (t, res)"
    unfolding target_status_written hand by auto
  from target_status_pass_frame(1,2)[OF this] st have "t = ?v\<lparr>tStatus := s'\<rparr>" by (cases t) (simp add: wit_target_def)
  with ws show ?thesis by simp
qed

abbreviation wit_agent :: "Target \<Rightarrow> applied_cache \<Rightarrow> (unit, applied_cache \<times> agent_target_write outcome) prog" where
  "wit_agent t applied \<equiv> TargetAgentReconcile std_metalib (wit_cluster [] t) acl_host quiet_fs lio_lib '''' ''a'' demo_key applied"

lemma wit_agent_run:
  "map (\<lambda>x. case x of AgentTargetStatus t \<Rightarrow> tStatus t) (fst (snd (value_of (wit_agent (wit_target ''1'' (wit_steps ! 1)) Map.empty) ()))) = [wit_steps ! 2]"
  "fst (value_of (wit_agent (wit_target ''1'' (wit_steps ! 1)) Map.empty) ()) demo_key = Some ''g0|0:/dev/drbd-v''"
  by code_simp+

lemma wit_agent_writes:
  "AgentTargetStatus (wit_target ''1'' (wit_steps ! 2)) \<in> set (fst (snd (value_of (wit_agent (wit_target ''1'' (wit_steps ! 1)) Map.empty) ())))"
proof -
  let ?v = "wit_target ''1'' (wit_steps ! 1)"
  let ?m = "wit_agent ?v Map.empty"
  from wit_agent_run(1) obtain z where z: "fst (snd (value_of ?m ())) = [z]" "(case z of AgentTargetStatus t \<Rightarrow> tStatus t) = wit_steps ! 2"
    by (auto simp: map_eq_Cons_conv)
  from z(2) obtain t where "z = AgentTargetStatus t" and st: "tStatus t = wit_steps ! 2" by (cases z) auto
  with z(1) have ws: "fst (snd (value_of ?m ())) = [AgentTargetStatus t]" by simp
  have live: "\<not> omDeleting (tMeta ?v)" "t_active ?v = ''a''"
    by (simp_all add: wit_target_def meta0_def wit_steps_def wit_on_def wit_status_def)
  have "AgentTargetStatus t \<in> set (fst (snd (value_of ?m ())))" using ws by simp
  from bspec[OF conjunct1[OF ensures_run[OF live_pass[OF wit_cluster_gets(1) live]]] this]
  obtain e where "t = host_status std_metalib ?v e" by blast
  with st have "t = ?v\<lparr>tStatus := wit_steps ! 2\<rparr>" by (cases t) (auto simp: host_status_def Let_def wit_target_def)
  with ws show ?thesis by simp
qed

text \<open>The operator's part of the run, one version after the other.\<close>

lemma wit_op_round:
  assumes run: "target_run std_metalib wit_hosts w" and idle: "twWrites w = []" "\<not> twGone w"
    and vs: "twVers w = vs @ [wit_target rv s]" and st: "op_statuses down (wit_target rv s) = [Some s']"
    and fresh: "rv' \<notin> t_rv ` set (vs @ [wit_target rv s])"
  shows "\<exists>w'. target_run std_metalib wit_hosts w' \<and> twVers w' = vs @ [wit_target rv s, wit_target rv' s'] \<and> twWrites w' = [] \<and> \<not> twGone w' \<and>
    twAg w' = twAg w \<and> twApplied w' = twApplied w \<and> twServed w' = twServed w"
proof -
  have l: "t_latest w = wit_target rv s" using vs by (simp add: t_latest_def)
  have "\<exists>w'. target_run std_metalib wit_hosts w' \<and>
      twVers w' = twVers w @ [(t_latest w)\<lparr>tStatus := s', tMeta := (tMeta (t_latest w))\<lparr>omResourceVersion := rv'\<rparr>\<rparr>] \<and>
      twWrites w' = [] \<and> \<not> twGone w' \<and> twAg w' = twAg w \<and> twApplied w' = twApplied w \<and> twServed w' = twServed w"
    by (rule op_round[OF run std.metalib_laws_axioms idle, where c = "wit_cluster down (wit_target rv s)"])
       (use wit_op_writes[OF st] fresh vs in \<open>simp_all add: l t_fresh_def\<close>)
  then show ?thesis using vs by (simp add: l)
qed

lemma wit_exported:
  "\<exists>w. target_run std_metalib wit_hosts w \<and> twVers w = [wit_target ''0'' (wit_steps ! 0), wit_target ''1'' (wit_steps ! 1), wit_target ''2'' (wit_steps ! 2)] \<and>
     twWrites w = [] \<and> \<not> twGone w \<and> twApplied w ''a'' demo_key = Some ''g0|0:/dev/drbd-v''"
proof -
  define w0 :: target_world where "w0 = \<lparr>twVers = [wit_target ''0'' (wit_steps ! 0)], twOp = 0, twAg = \<lambda>_. 0, twApplied = \<lambda>_. Map.empty,
    twWrites = [], twGone = False, twServed = {}, twTorn = {}, twLost = {}\<rparr>"
  have "target_start w0" by (simp add: target_start_def w0_def wit_target_def meta0_def wit_steps_def wit_status_def)
  then have r0: "target_run std_metalib wit_hosts w0" by (auto simp: target_run_def)
  obtain w1 where w1: "target_run std_metalib wit_hosts w1" "twVers w1 = [wit_target ''0'' (wit_steps ! 0), wit_target ''1'' (wit_steps ! 1)]"
    "twWrites w1 = []" "\<not> twGone w1" "twApplied w1 = (\<lambda>_. Map.empty)"
    using wit_op_round[OF r0, of "[]" "''0''" "wit_steps ! 0" "[]" "wit_steps ! 1" "''1''"] wit_op_statuses(1) by (auto simp: w0_def)
  have l: "t_latest w1 = wit_target ''1'' (wit_steps ! 1)" using w1(2) by (simp add: t_latest_def)
  have "\<exists>w'. target_run std_metalib wit_hosts w' \<and>
      twVers w' = twVers w1 @ [(t_latest w1)\<lparr>tStatus := wit_steps ! 2, tMeta := (tMeta (t_latest w1))\<lparr>omResourceVersion := ''2''\<rparr>\<rparr>] \<and>
      twWrites w' = twWrites w1 \<and> \<not> twGone w' \<and>
      twApplied w' = (twApplied w1)(''a'' := fst (value_of (wit_agent (wit_target ''1'' (wit_steps ! 1)) Map.empty) ()))"
    by (rule ag_round[OF w1(1) std.metalib_laws_axioms w1(4), where c = "wit_cluster [] (wit_target ''1'' (wit_steps ! 1))"])
       (use wit_agent_writes in \<open>simp_all add: l w1(2,5) wit_hosts_def t_fresh_def\<close>)
  then obtain w2 where "target_run std_metalib wit_hosts w2"
      "twVers w2 = twVers w1 @ [(t_latest w1)\<lparr>tStatus := wit_steps ! 2, tMeta := (tMeta (t_latest w1))\<lparr>omResourceVersion := ''2''\<rparr>\<rparr>]"
      "twWrites w2 = twWrites w1" "\<not> twGone w2"
      "twApplied w2 = (twApplied w1)(''a'' := fst (value_of (wit_agent (wit_target ''1'' (wit_steps ! 1)) Map.empty) ()))" by blast
  then show ?thesis using wit_agent_run(2) w1(2,3) l by (intro exI[of _ w2]) simp
qed

theorem target_handover_safe_witness:
  "\<exists>w. target_run std_metalib wit_hosts w \<and> t_true std_metalib (twVers w ! 2) ConditionHostReady \<and> (\<exists>j \<le> 2. (''a'', j) \<in> twServed w)"
proof -
  from wit_exported obtain w where w: "target_run std_metalib wit_hosts w"
    "twVers w = [wit_target ''0'' (wit_steps ! 0), wit_target ''1'' (wit_steps ! 1), wit_target ''2'' (wit_steps ! 2)]" by blast
  have r: "t_true std_metalib (twVers w ! 2) ConditionHostReady" "t_active (twVers w ! 2) = ''a''"
    by (simp_all add: w(2) wit_steps_def wit_on_def wit_status_def std_metalib_def)
  have "2 < length (twVers w)" by (simp add: w(2))
  with target_handover_safe[OF std.metalib_laws_axioms w(1)] r have "\<exists>j \<le> 2. (''a'', j) \<in> twServed w" by metis
  with w(1) r(1) show ?thesis by blast
qed

text \<open>The promise is not always renewed. An agent that did not see the versions in which the target was
  placed elsewhere (its node was cut off) still remembers the pass it converged: its key has the
  generation, the devices and the secrets, which are the same after the return, so the pass is skipped,
  HostReady stays as the operator reset it, and the target stays unavailable until its spec or a secret
  changes or the agent restarts.\<close>

lemma remembered_pass:
  assumes "GetTarget c req = Inr t" and "\<not> omDeleting (tMeta t)" and "ttActiveNode (tStatus t) = node"
    and "ensure_inputs c t = Inr (key, chap)" and "applied req = Some key"
  shows "value_of (TargetAgentReconcile lib c os fs glib rt node req applied) h = (applied, done_with []) \<and>
    log_of (TargetAgentReconcile lib c os fs glib rt node req applied) h = []"
  using assms by (simp add: TargetAgentReconcile_def mget_def value_of_def log_of_def State_Monad.return_def)

theorem returned_target_skipped:
  "\<exists>w. target_run std_metalib wit_hosts w \<and> t_ag w ''a'' = t_latest w \<and> t_active (t_latest w) = ''a'' \<and>
     \<not> t_true std_metalib (t_latest w) ConditionHostReady \<and> \<not> t_true std_metalib (t_latest w) ConditionAvailable \<and>
     (\<forall>c h. GetTarget c demo_key = Inr (t_latest w) \<longrightarrow>
        t_reports std_metalib wit_hosts c w ''a'' h = [] \<and> log_of (t_agent_pass std_metalib wit_hosts c w ''a'') h = [])"
proof -
  from wit_exported obtain w2 where w2: "target_run std_metalib wit_hosts w2" "twWrites w2 = []" "\<not> twGone w2"
    "twVers w2 = [wit_target ''0'' (wit_steps ! 0), wit_target ''1'' (wit_steps ! 1)] @ [wit_target ''2'' (wit_steps ! 2)]"
    "twApplied w2 ''a'' demo_key = Some ''g0|0:/dev/drbd-v''" by auto
  from wit_op_round[OF w2(1,2,3,4) wit_op_statuses(2), of "''3''"] obtain w3 where w3: "target_run std_metalib wit_hosts w3" "twWrites w3 = []" "\<not> twGone w3"
    "twVers w3 = [wit_target ''0'' (wit_steps ! 0), wit_target ''1'' (wit_steps ! 1), wit_target ''2'' (wit_steps ! 2)] @ [wit_target ''3'' (wit_steps ! 3)]"
    "twApplied w3 = twApplied w2" by auto
  from wit_op_round[OF w3(1,2,3,4) wit_op_statuses(3), of "''4''"] obtain w4 where w4: "target_run std_metalib wit_hosts w4"
    "t_latest w4 = wit_target ''4'' (wit_steps ! 4)" "twVers w4 ! 4 = t_latest w4" "length (twVers w4) = 5" "twApplied w4 = twApplied w2"
    using w3(5) by (auto simp: t_latest_def)
  define w where "w = w4\<lparr>twAg := (twAg w4)(''a'' := 4)\<rparr>"
  have ok: "t_versions_ok std_metalib w4" using target_run_inv[OF std.metalib_laws_axioms w4(1)] by (simp add: target_inv_def)
  then have "twAg w4 ''a'' < 5" using w4(4) by (simp add: t_versions_ok_def)
  then have run: "target_run std_metalib wit_hosts w" unfolding w_def
    by (intro run_step[OF w4(1) target_step.ag_observes]) (simp_all add: w4(4))
  have l: "t_latest w = wit_target ''4'' (wit_steps ! 4)" "t_ag w ''a'' = t_latest w"
    using w4(2,3) by (simp_all add: w_def t_latest_def)
  have s: "ttLUNs (wit_steps ! 4) = [\<lparr>lsID = 0, lsDevice = ''/dev/drbd-v''\<rparr>]" "ttActiveNode (wit_steps ! 4) = ''a''"
    by (simp_all add: wit_steps_def wit_on_def wit_status_def)
  have key: "ensure_inputs c (t_latest w) = Inr (''g0|0:/dev/drbd-v'', Map.empty)" for c
  proof -
    have "itoa 0 = ''0''" by code_simp
    then show ?thesis by (simp add: ensure_inputs_def l(1) s) (simp add: wit_target_def meta0_def)
  qed
  have skip: "t_reports std_metalib wit_hosts c w ''a'' h = [] \<and> log_of (t_agent_pass std_metalib wit_hosts c w ''a'') h = []"
    if "GetTarget c demo_key = Inr (t_latest w)" for c h
  proof -
    have cached: "twApplied w ''a'' demo_key = Some ''g0|0:/dev/drbd-v''" using w2(5) w4(5) by (simp add: w_def)
    have live: "\<not> omDeleting (tMeta (t_latest w))" "ttActiveNode (tStatus (t_latest w)) = ''a''"
      by (simp_all add: l(1) s) (simp add: wit_target_def meta0_def)
    have req: "keyOf (tMeta (t_ag w ''a'')) = demo_key" by (simp add: l)
    show ?thesis unfolding t_agent_pass_def req by (simp add: remembered_pass[where applied = "twApplied w ''a''", OF that live key cached])
  qed
  have "\<not> t_true std_metalib (t_latest w) ConditionHostReady" "\<not> t_true std_metalib (t_latest w) ConditionAvailable"
    by (simp_all add: l wit_steps_def wit_on_def wit_status_def std_metalib_def movedCondition_def)
  with run l skip s show ?thesis by (intro exI[of _ w]) simp
qed

end
