(* ===== verification/Operator_Settles.thy ===== *)
theory Operator_Settles
  imports Crd_Schema Pool_Ctl Share_Ctl User_Ctl
begin

text \<open>
  The operator's own feedback: every status it writes wakes its reconciler again. The theory shows that
  on a cluster that does not change the loop ends, each pass computing in the end the status that is
  already stored.
\<close>

section \<open>Placement, asked again\<close>

lemma first_max_again:
  assumes c: "first_max (score pref) xs c"
  shows "first_max (score (cdNode c)) xs c"
proof -
  let ?n = "cdNode c"
  from c obtain ys zs where xs: "xs = ys @ c # zs" and ys: "\<forall>y \<in> set ys. score pref y < score pref c"
    and zs: "\<forall>z \<in> set zs. score pref z \<le> score pref c" by (auto simp: first_max_def)
  have less: "score ?n y < score ?n c" if "score pref y < score pref c" for y
    using that by (auto simp: score_def Let_def split: if_splits)
  have le: "score ?n y \<le> score ?n c" if "score pref y \<le> score pref c" for y
    using that by (auto simp: score_def Let_def split: if_splits)
  show ?thesis by (rule first_maxI[OF xs]) (use ys zs less le in auto)
qed

lemma resolve_again:
  assumes "plcErr (ResolvePlacement v pref avoid) = None"
  shows "ResolvePlacement v (plcNode (ResolvePlacement v pref avoid)) avoid = ResolvePlacement v pref avoid"
proof (cases rule: ResolvePlacement_cases[of v avoid pref])
  case none
  with assms show ?thesis by simp
next
  case (some c)
  from first_max_again[OF some(1)] show ?thesis
  proof (cases rule: ResolvePlacement_cases[of v avoid "cdNode c"])
    case none
    with some(1) show ?thesis by (auto simp: first_max_def)
  next
    case inner: (some e)
    with first_max_unique[OF inner(1) first_max_again[OF some(1)]] some(2) show ?thesis by simp
  qed
qed

section \<open>One more pass\<close>

context metalib_lists
begin

lemma set_pool_again: "FindStatusCondition lib (spConditions (spStatus p)) (cType c) = Some c \<Longrightarrow> set_pool_cond lib p c = p"
  by (simp add: set_pool_cond_def set_same)

lemma set_target_again: "FindStatusCondition lib (ttConditions (tStatus t)) (cType c) = Some c \<Longrightarrow> set_target_cond lib t c = t"
  by (simp add: set_target_cond_def set_same)

lemma set_share_again: "FindStatusCondition lib (shConditions (shStatus s)) (cType c) = Some c \<Longrightarrow> set_share_cond lib s c = s"
  by (simp add: set_share_cond_def set_same)

lemma pool_settles:
  assumes "pool_status_pass lib c p = (ws, p', err)"
  shows "pool_status_pass lib c p' = (ws, p', err)"
proof -
  obtain ws' ready msg e where ep: "EnsurePool lib c p = (ws', ready, msg, e)" by (metis prod_cases4)
  have frame: "spMeta p' = spMeta p" "spSpec p' = spSpec p"
    using assms by (auto simp: pool_status_pass_def ep Let_def split: if_splits option.splits)
  have host: "pool_true lib p' ConditionHostReady = pool_true lib p ConditionHostReady"
    using pool_status_pass_frame[OF assms, of ConditionHostReady] by (simp add: is_true)
  have spec: "PoolSpec p' = PoolSpec p" using frame by (simp add: PoolSpec_def VGName_def)
  then have "newPool p' = newPool p" using frame by (simp add: newPool_def)
  with spec have ep': "EnsurePool lib c p' = (ws', ready, msg, e)" using ep frame by (simp only: EnsurePool_def)
  have cond: "pool_cond ty st re m p' = pool_cond ty st re m p" for ty st re m using frame by (simp add: pool_cond_def)
  have one: "set_pool_cond lib p' (pool_cond ConditionAvailable st re m p) = p'"
    if "p' = set_pool_cond lib p (pool_cond ConditionAvailable st re m p)" for st re m
    by (rule set_pool_again) (simp add: that find_set)
  have two: "set_pool_cond lib (set_pool_cond lib p' (pool_cond ConditionRegistered st re m p)) (pool_cond ConditionAvailable st' re' m' p) = p'"
    if "p' = set_pool_cond lib (set_pool_cond lib p (pool_cond ConditionRegistered st re m p)) (pool_cond ConditionAvailable st' re' m' p)" for st re m st' re' m'
  proof -
    have "set_pool_cond lib p' (pool_cond ConditionRegistered st re m p) = p'" by (rule set_pool_again) (simp add: that find_set)
    moreover have "set_pool_cond lib p' (pool_cond ConditionAvailable st' re' m' p) = p'" by (rule set_pool_again) (simp add: that find_set)
    ultimately show ?thesis by simp
  qed
  note again = pool_status_pass_def[of lib c p', unfolded frame host ep' cond Let_def prod.case]
    and run = assms[unfolded pool_status_pass_def ep Let_def prod.case]
  show ?thesis
  proof (cases "int (length (spsDevices (spSpec p))) < MinDevices (spsRaid (spSpec p)) \<or> spsThin (spSpec p) = Some False \<or> \<not> pool_true lib p ConditionHostReady")
    case True
    then show ?thesis using run unfolding again by (elim disjE) (auto simp: one two split: if_splits)
  next
    case False
    let ?verdict = "case e of None \<Rightarrow> if \<not> ready then (ConditionFalse, ReasonWaitingForPool, msg) else (ConditionTrue, ReasonReady, '''')
      | Some x \<Rightarrow> (ConditionFalse, ReasonBackendError, eText x)"
    obtain st re m where v: "?verdict = (st, re, m)" by (metis prod_cases3)
    from False run have "ws = ws'" "p' = set_pool_cond lib (set_pool_cond lib p (pool_cond ConditionRegistered st re m p)) (pool_cond ConditionAvailable st re m p)" "err = e"
      by (simp_all add: v)
    with False two show ?thesis unfolding again by (simp add: v)
  qed
qed

lemma user_settles:
  assumes "user_status lib c u = Inr u'"
  shows "user_status lib c u' = Inr u'"
  using assms by (auto simp: user_status_def Let_def find_set set_same split: sum.splits if_splits)

lemma share_settles:
  assumes "share_status_pass lib c s = Inr (s', res)"
  shows "share_status_pass lib c s' = Inr (s', res)"
proof -
  have meta: "shMeta s' = shMeta s" "shSpec s' = shSpec s"
    using assms by (auto simp: share_status_pass_def share_place_def set_share_cond_def Let_def split: prod.splits sum.splits option.splits if_splits)
  obtain vol re msg where cv: "claimVolume c (omNamespace (shMeta s)) (ssClaimName (shSpec s)) = (vol, re, msg)" by (metis prod_cases3)
  show ?thesis
  proof (cases "re = ''''")
    case False
    with assms cv show ?thesis by (auto simp: share_status_pass_def find_set set_share_again)
  next
    case True
    with assms cv obtain avoid where un: "unreadyNodes c = Inr avoid" by (auto simp: share_status_pass_def split: sum.splits)
    let ?v = "case vol of None \<Rightarrow> volume0 '''' | Some v \<Rightarrow> v"
    let ?p = "ResolvePlacement ?v (shNode (shStatus s)) avoid"
    show ?thesis
    proof (cases "plcErr ?p")
      case (Some e)
      with assms cv True un show ?thesis by (auto simp: share_status_pass_def share_place_def Let_def find_set set_share_again)
    next
      case None
      note again = resolve_again[OF None]
      from assms cv True un None obtain conds cond where s': "s' = set_share_cond lib (s\<lparr>shStatus := (shStatus s)
             \<lparr>shNode := plcNode ?p, shDevice := plcDevice ?p, shConditions := conds\<rparr>\<rparr>) cond"
        and cond: "cond = (if IsStatusConditionTrue lib conds ConditionHostReady
          then available0 (omGeneration (shMeta s))\<lparr>cStatus := ConditionTrue, cReason := ReasonReady\<rparr>
          else available0 (omGeneration (shMeta s))\<lparr>cReason := ReasonWaitingForAgent, cMessage := ''waiting for the node agent to mount and export''\<rparr>)"
        and res: "res = no_requeue"
        by (auto simp: share_status_pass_def share_place_def Let_def)
      have ty: "cType cond = ConditionAvailable" unfolding cond by simp
      have node: "shNode (shStatus s') = plcNode ?p" "shDevice (shStatus s') = plcDevice ?p"
        "IsStatusConditionTrue lib (shConditions (shStatus s')) ConditionHostReady = IsStatusConditionTrue lib conds ConditionHostReady"
        "FindStatusCondition lib (shConditions (shStatus s')) (cType cond) = Some cond"
        using s' ty by (simp_all add: is_true_set find_set)
      have "share_place lib avoid ?v s' = (s', cond)"
        unfolding share_place_def Let_def node again None meta
        using node cond meta by (simp add: meta)
      with node(4) cv True un res show ?thesis by (simp add: share_status_pass_def meta set_share_again)
    qed
  qed
qed

end

text \<open>A Target pass in two parts: what it records before it places, and the placement.\<close>

definition target_prepared :: "SecretVersion list \<Rightarrow> Target \<Rightarrow> Target" where
  "target_prepared versions t = t\<lparr>tStatus := (tStatus t)\<lparr>ttIQN := IQNPrefix @ omName (tMeta t), ttChapSecretVersions := versions\<rparr>\<rparr>"

lemma target_pass_eq:
  assumes "chapSecrets c t = Inr (versions, problem)"
    and "claim_loop c (omNamespace (tMeta t)) (tsLUNs (tSpec t)) [] = (vols, reason, msg)"
  shows "target_status_pass lib c t =
    (if reason \<noteq> '''' then
       Inr (set_target_cond lib (target_prepared versions t) (available0 (omGeneration (tMeta t))\<lparr>cReason := reason, cMessage := msg\<rparr>),
            if reason = ReasonWaitingForVolume then requeue volumeSettleInterval else no_requeue)
     else (case unreadyNodes c of Inl e \<Rightarrow> Inl e
       | Inr avoid \<Rightarrow> (case target_place lib avoid vols problem (target_prepared versions t) of
           (t', cond) \<Rightarrow> Inr (set_target_cond lib t' cond, no_requeue))))"
proof -
  have "chapSecrets c (t\<lparr>tStatus := x\<rparr>) = chapSecrets c t" for x by (simp add: chapSecrets_def)
  then show ?thesis using assms unfolding target_status_pass_def target_prepared_def Let_def by (cases "unreadyNodes c") simp_all
qed

lemma target_prepared_again:
  assumes "ttIQN (tStatus t) = IQNPrefix @ omName (tMeta t)" and "ttChapSecretVersions (tStatus t) = versions"
  shows "target_prepared versions t = t"
  unfolding target_prepared_def assms[symmetric] by simp

context metalib_lists
begin

lemma place_again:
  assumes place: "target_place lib avoid vols problem u = (u', cond)" and stays: "ttActiveNode (tStatus u') = ttActiveNode (tStatus u)"
    and t: "t = set_target_cond lib u' cond"
  shows "target_place lib avoid vols problem t = (t, cond)"
proof -
  have ty: "cType cond = ConditionAvailable" by (rule target_place_cond_type[OF place])
  have frame: "tMeta t = tMeta u" "tSpec t = tSpec u" "ttActiveNode (tStatus t) = ttActiveNode (tStatus u)"
    using place stays t by (auto simp: target_place_def Let_def split: sum.splits prod.splits if_splits)
  show ?thesis
  proof (cases "place_loop (ttActiveNode (tStatus u)) avoid 0 (zip vols (tsLUNs (tSpec u))) '''' False []")
    case (Inl e)
    then show ?thesis using place unfolding target_place_def frame Let_def by auto
  next
    case (Inr r)
    obtain node repl luns where r: "r = (node, repl, luns)" by (cases r) auto
    show ?thesis
    proof (cases "repl \<and> tsVIP (tSpec u) = ''''")
      case True
      with Inr r show ?thesis using place unfolding target_place_def frame Let_def by auto
    next
      case False
      then have u': "u' = u\<lparr>tStatus := (tStatus u)\<lparr>ttActiveNode := node, ttLUNs := luns, ttConditions := ttConditions (tStatus u')\<rparr>\<rparr>"
        and cond: "cond = (if problem \<noteq> '''' then available0 (omGeneration (tMeta u))\<lparr>cReason := ReasonInvalidSpec, cMessage := problem\<rparr>
           else if IsStatusConditionTrue lib (ttConditions (tStatus u')) ConditionHostReady then
             available0 (omGeneration (tMeta u))\<lparr>cStatus := ConditionTrue, cReason := ReasonReady\<rparr>
           else available0 (omGeneration (tMeta u))\<lparr>cReason := ReasonWaitingForAgent,
                   cMessage := ''waiting for the node agent to export the target''\<rparr>)"
        using place Inr r by (auto simp: target_place_def Let_def)
      have act: "ttActiveNode (tStatus u') = node" "ttLUNs (tStatus u') = luns" by (subst u', simp)+
      then have same: "ttActiveNode (tStatus u) = node" using stays by simp
      have t_st: "ttActiveNode (tStatus t) = node" "ttLUNs (tStatus t) = luns"
        "IsStatusConditionTrue lib (ttConditions (tStatus t)) ConditionHostReady = IsStatusConditionTrue lib (ttConditions (tStatus u')) ConditionHostReady"
        using t act ty by (simp_all add: is_true_set)
      have "t\<lparr>tStatus := (tStatus t)\<lparr>ttActiveNode := node, ttLUNs := luns, ttConditions := ttConditions (tStatus t)\<rparr>\<rparr> = t"
        unfolding t_st(1)[symmetric] t_st(2)[symmetric] by simp
      moreover have "target_place lib avoid vols problem t =
          (t\<lparr>tStatus := (tStatus t)\<lparr>ttActiveNode := node, ttLUNs := luns, ttConditions := ttConditions (tStatus t)\<rparr>\<rparr>, cond)"
        unfolding target_place_def frame same Let_def Inr[unfolded same] r sum.case prod.case if_not_P[OF False] by (simp add: t_st(3) cond)
      ultimately show ?thesis by simp
    qed
  qed
qed

lemma target_settles_in_place:
  assumes run: "target_status_pass lib c t = Inr (t', res)" and stays: "ttActiveNode (tStatus t') = ttActiveNode (tStatus t)"
  shows "target_status_pass lib c t' = Inr (t', res)"
proof -
  obtain versions problem where cs: "chapSecrets c t = Inr (versions, problem)"
    by (rule target_status_pass_cases[OF run]) blast
  obtain vols reason msg where cl: "claim_loop c (omNamespace (tMeta t)) (tsLUNs (tSpec t)) [] = (vols, reason, msg)" by (metis prod_cases3)
  note frame = target_status_pass_frame[OF run]
  have cs': "chapSecrets c t' = Inr (versions, problem)" using cs frame by (simp add: chapSecrets_def)
  have cl': "claim_loop c (omNamespace (tMeta t')) (tsLUNs (tSpec t')) [] = (vols, reason, msg)" using cl frame by simp
  have versions: "ttChapSecretVersions (tStatus t') = versions"
    using run[unfolded target_pass_eq[OF cs cl]]
    by (auto simp: target_prepared_def target_place_def Let_def split: if_splits sum.splits prod.splits)
  have prep: "target_prepared versions t' = t'" by (rule target_prepared_again) (use versions frame in simp_all)
  show ?thesis
  proof (cases "reason = ''''")
    case False
    with run show ?thesis unfolding target_pass_eq[OF cs cl] target_pass_eq[OF cs' cl'] prep frame
      by (auto simp: set_target_again find_set)
  next
    case True
    with run obtain avoid u cond where un: "unreadyNodes c = Inr avoid"
      and place: "target_place lib avoid vols problem (target_prepared versions t) = (u, cond)" and t': "t' = set_target_cond lib u cond" and res: "res = no_requeue"
      unfolding target_pass_eq[OF cs cl] by (auto split: sum.splits prod.splits)
    have "target_place lib avoid vols problem t' = (t', cond)"
      by (rule place_again[OF place _ t']) (use stays t' in \<open>simp add: target_prepared_def\<close>)
    moreover have "set_target_cond lib t' cond = t'" by (rule set_target_again) (simp add: t' find_set)
    ultimately show ?thesis unfolding target_pass_eq[OF cs' cl'] prep using True un res by simp
  qed
qed

end

lemma place_loop_again:
  assumes one: "place_loop n1 avoid 0 xs '''' False [] = Inr (node, repl, luns)"
  obtains luns1 where "place_loop a avoid 0 xs '''' False [] =
    Inr (if xs = [] then '''' else plcNode (ResolvePlacement (fst (hd xs)) a avoid), repl, luns1)"
proof -
  have err: "plcErr (ResolvePlacement v a avoid) = None \<longleftrightarrow> plcErr (ResolvePlacement v n1 avoid) = None" for v by (simp add: rp.err_iff)
  show ?thesis by (rule that) (use one in \<open>auto simp: place_loop_Inr err\<close>)
qed

context metalib_lists
begin

lemma target_second_pass:
  assumes run1: "target_status_pass lib c t = Inr (t1, res1)" and run2: "target_status_pass lib c t1 = Inr (t2, res2)"
  shows "ttActiveNode (tStatus t2) = ttActiveNode (tStatus t1)"
proof -
  obtain versions problem where cs: "chapSecrets c t = Inr (versions, problem)"
    by (rule target_status_pass_cases[OF run1]) blast
  obtain vols reason msg where cl: "claim_loop c (omNamespace (tMeta t)) (tsLUNs (tSpec t)) [] = (vols, reason, msg)" by (metis prod_cases3)
  note frame = target_status_pass_frame[OF run1]
  have cs': "chapSecrets c t1 = Inr (versions, problem)" using cs frame by (simp add: chapSecrets_def)
  have cl': "claim_loop c (omNamespace (tMeta t1)) (tsLUNs (tSpec t1)) [] = (vols, reason, msg)" using cl frame by simp
  let ?luns = "tsLUNs (tSpec t)"
  let ?xs = "zip vols ?luns"
  show ?thesis
  proof (cases "reason = ''''")
    case False
    with run2 show ?thesis unfolding target_pass_eq[OF cs' cl'] by (auto simp: target_prepared_def)
  next
    case True
    with run2 obtain avoid u2 cond2 where un: "unreadyNodes c = Inr avoid"
      and p2: "target_place lib avoid vols problem (target_prepared versions t1) = (u2, cond2)" and t2: "t2 = set_target_cond lib u2 cond2"
      unfolding target_pass_eq[OF cs' cl'] by (auto split: sum.splits prod.splits)
    from True run1 un obtain u1 cond1 where p1: "target_place lib avoid vols problem (target_prepared versions t) = (u1, cond1)"
      and t1: "t1 = set_target_cond lib u1 cond1"
      unfolding target_pass_eq[OF cs cl] by (auto split: prod.splits)
    from p2 show ?thesis
    proof (cases rule: target_place_cases)
      case (placed node luns repl)
      have loop2: "place_loop (ttActiveNode (tStatus t1)) avoid 0 ?xs '''' False [] = Inr (node, repl, luns)"
        using placed(1) frame by (simp add: target_prepared_def)
      obtain luns1 where loop1: "place_loop (ttActiveNode (tStatus t)) avoid 0 ?xs '''' False [] =
          Inr (if ?xs = [] then '''' else plcNode (ResolvePlacement (fst (hd ?xs)) (ttActiveNode (tStatus t)) avoid), repl, luns1)"
        by (rule place_loop_again[OF loop2])
      have vip: "\<not> (repl \<and> tsVIP (tSpec t) = '''')" using placed(2) frame by (auto simp: target_prepared_def)
      have "ttActiveNode (tStatus u1) = (if ?xs = [] then '''' else plcNode (ResolvePlacement (fst (hd ?xs)) (ttActiveNode (tStatus t)) avoid))"
        using p1 loop1 vip by (auto simp: target_place_def target_prepared_def Let_def)
      then have n1: "ttActiveNode (tStatus t1) = (if ?xs = [] then '''' else plcNode (ResolvePlacement (fst (hd ?xs)) (ttActiveNode (tStatus t)) avoid))"
        using t1 by simp
      have "node = ttActiveNode (tStatus t1)"
      proof (cases "?xs = []")
        case True
        then show ?thesis using loop2 n1 by (simp add: place_loop_Inr)
      next
        case False
        then have "hd ?xs \<in> set ?xs" by simp
        then have ok: "plcErr (ResolvePlacement (fst (hd ?xs)) (ttActiveNode (tStatus t)) avoid) = None"
          using loop1 by (auto simp: place_loop_Inr)
        have "node = plcNode (ResolvePlacement (fst (hd ?xs)) (ttActiveNode (tStatus t1)) avoid)"
          using loop2 False by (simp add: place_loop_Inr)
        then show ?thesis using n1 False resolve_again[OF ok] by simp
      qed
      then show ?thesis using placed(3) t2 by simp
    qed (use t2 in \<open>auto simp: target_prepared_def\<close>)
  qed
qed

end

section \<open>The feedback loop\<close>

text \<open>The status one pass of the operator puts in place of another; a pass that computes the stored status
  again leaves the object, and nothing is woken. \<open>c\<close> is what the rest of the cluster answers.\<close>

inductive status_event :: "metalib \<Rightarrow> kclient \<Rightarrow> written \<Rightarrow> written \<Rightarrow> bool" for lib :: metalib and c :: kclient where
  pool_event: "pool_status_pass lib c p = (ws, p', err) \<Longrightarrow> p' \<noteq> p \<Longrightarrow> status_event lib c (PoolStatus p) (PoolStatus p')"
| target_event: "target_status_pass lib c t = Inr (t', res) \<Longrightarrow> t' \<noteq> t \<Longrightarrow> status_event lib c (TargetStat t) (TargetStat t')"
| share_event: "share_status_pass lib c s = Inr (s', res) \<Longrightarrow> s' \<noteq> s \<Longrightarrow> status_event lib c (ShareStat s) (ShareStat s')"
| user_event: "user_status lib c u = Inr u' \<Longrightarrow> u' \<noteq> u \<Longrightarrow> status_event lib c (UserStat u) (UserStat u')"

inductive_cases event_elims:
  "status_event lib c (PoolStatus p) y" "status_event lib c (TargetStat t) y" "status_event lib c (ShareStat s) y"
  "status_event lib c (UserStat u) y" "status_event lib c (InventoryStat i) y"

lemma no_third_event:
  assumes lib: "metalib_lists lib" and "status_event lib c x y" and "status_event lib c y z"
  shows "\<not> status_event lib c z w"
  using assms(2)
proof cases
  case (pool_event p ws p' err)
  with metalib_lists.pool_settles[OF lib pool_event(3)] assms(3) show ?thesis by (auto elim!: event_elims)
next
  case (share_event s s' res)
  with metalib_lists.share_settles[OF lib share_event(3)] assms(3) show ?thesis by (auto elim!: event_elims)
next
  case (user_event u u')
  with metalib_lists.user_settles[OF lib user_event(3)] assms(3) show ?thesis by (auto elim!: event_elims)
next
  case (target_event t t1 res1)
  with assms(3) obtain t2 res2 where t2: "z = TargetStat t2" "target_status_pass lib c t1 = Inr (t2, res2)" by (auto elim!: event_elims)
  have "target_status_pass lib c t2 = Inr (t2, res2)"
    by (rule metalib_lists.target_settles_in_place[OF lib t2(2) metalib_lists.target_second_pass[OF lib target_event(3) t2(2)]])
  with t2(1) show ?thesis by (auto elim!: event_elims)
qed

lemma bounded_chains_wf:
  assumes "\<And>x y z w. R x y \<Longrightarrow> R y z \<Longrightarrow> \<not> R z w"
  shows "wfp (\<lambda>y x. R x y)"
proof -
  let ?acc = "Wellfounded.accp (\<lambda>y x. R x y)"
  have "?acc z" if "R x y" "R y z" for x y z by (rule accp.intros) (use assms that in blast)
  then have "?acc y" if "R x y" for x y by (rule accp.intros) (use that in blast)
  then have "?acc x" for x by (rule accp.intros) blast
  then show ?thesis by (simp add: wfp_iff_accp)
qed

section \<open>Properties\<close>

text \<open>\<^bold>\<open>C5\<close>. The operator's loop ends: on a cluster that does not change, the passes a reconciler's own
  status writes wake form no infinite chain, for StoragePools, Targets, Shares and LocalUsers alike, and
  at most two of them change anything (a second one only for a target whose later LUNs were resolved
  with its former node as the preferred one).\<close>

theorem operator_settles:
  assumes "metalib_lists lib"
  shows "wfp (\<lambda>y x. status_event lib c x y) \<and>
    (\<forall>x y z u. status_event lib c x y \<and> status_event lib c y z \<longrightarrow> \<not> status_event lib c z u)"
  using no_third_event[OF assms] bounded_chains_wf[of "status_event lib c"] by blast

definition fresh_user :: LocalUser where
  "fresh_user = \<lparr>luMeta = meta0 ''ns'' ''u'', luSpec = \<lparr>luRole = ''admin'', luSMB = True, luPasswordSecretRef = ''s''\<rparr>,
     luStatus = \<lparr>luConditions = [], luPasswordSecretVersion = ''''\<rparr>\<rparr>"

theorem operator_settles_witness:
  "\<exists>y. status_event std_metalib client0 (UserStat fresh_user) y \<and> (\<forall>z u. status_event std_metalib client0 y z \<longrightarrow> \<not> status_event std_metalib client0 z u)"
proof -
  obtain u' where u': "user_status std_metalib client0 fresh_user = Inr u'" and conds: "luConditions (luStatus u') \<noteq> []"
    by (auto simp: user_status_def client0_def not_found_def fresh_user_def std_metalib_def Let_def)
  have "u' \<noteq> fresh_user" using conds by (auto simp: fresh_user_def)
  then have e: "status_event std_metalib client0 (UserStat fresh_user) (UserStat u')" by (rule status_event.user_event[OF u'])
  with conjunct2[OF operator_settles[OF std_lists.metalib_lists_axioms, of client0]] show ?thesis by blast
qed

end
