(* ===== verification/Watches.thy ===== *)
theory Watches
  imports Operator_Settles Claim_Binder Tier_Ctl
begin

text \<open>
  What wakes the operator: the watches each controller registers in \<open>SetupWithManager\<close>
  (\<open>operator/internal/controller\<close>), with their filters and their maps from an event to the objects to
  reconcile, as \<open>operator/cmd/main.go\<close> registers them with one manager.
\<close>

section \<open>Events and requests\<close>

text \<open>A Volume event carries what was there before and after (\<open>None\<close>: created, deleted).\<close>

datatype cluster_event =
    NodeE node_event
  | VolumeE string "Volume option" "Volume option"
  | SecretE ObjectMeta
  | PoolE string
  | TargetE NamespacedName
  | ShareE NamespacedName
  | StoragePoolE string
  | LocalUserE NamespacedName
  | ClaimE NamespacedName
  | ClassE string

definition volume_passes :: "Volume option \<Rightarrow> Volume option \<Rightarrow> bool" where
  "volume_passes old new = (case (old, new) of (Some v, Some w) \<Rightarrow> volumeServingChanged v w | _ \<Rightarrow> True)"

definition target_wakes :: "kclient \<Rightarrow> cluster_event \<Rightarrow> NamespacedName list" where
  "target_wakes c ev = (case ev of
      TargetE k \<Rightarrow> [k]
    | NodeE e \<Rightarrow> if nodeReadyChanged e then allTargets c else []
    | VolumeE name old new \<Rightarrow> if volume_passes old new then volumeTargets c name else []
    | SecretE obj \<Rightarrow> secretTargets c obj
    | _ \<Rightarrow> [])"

definition share_wakes :: "kclient \<Rightarrow> cluster_event \<Rightarrow> NamespacedName list" where
  "share_wakes c ev = (case ev of
      ShareE k \<Rightarrow> [k]
    | NodeE e \<Rightarrow> if nodeReadyChanged e then allShares c else []
    | VolumeE name old new \<Rightarrow> if volume_passes old new then volumeShares c name else []
    | _ \<Rightarrow> [])"

definition pool_wakes :: "cluster_event \<Rightarrow> string list" where
  "pool_wakes ev = (case ev of StoragePoolE n \<Rightarrow> [n] | PoolE n \<Rightarrow> [n] | _ \<Rightarrow> [])"

definition user_wakes :: "kclient \<Rightarrow> cluster_event \<Rightarrow> NamespacedName list" where
  "user_wakes c ev = (case ev of LocalUserE k \<Rightarrow> [k] | SecretE obj \<Rightarrow> secretUsers c obj | _ \<Rightarrow> [])"

definition binder_wakes :: "kclient \<Rightarrow> cluster_event \<Rightarrow> NamespacedName list" where
  "binder_wakes c ev = (case ev of
      ClaimE k \<Rightarrow> [k]
    | StoragePoolE _ \<Rightarrow> pendingHostClaims c
    | ClassE _ \<Rightarrow> pendingHostClaims c
    | NodeE e \<Rightarrow> if nodeReadyChanged e then pendingHostClaims c else []
    | _ \<Rightarrow> [])"

definition tier_wakes :: "cluster_event \<Rightarrow> string list" where
  "tier_wakes ev = (case ev of StoragePoolE _ \<Rightarrow> [''tiers''] | ClassE _ \<Rightarrow> [''tiers''] | _ \<Rightarrow> [])"

datatype request =
    ReqPool string
  | ReqTarget NamespacedName
  | ReqShare NamespacedName
  | ReqUser NamespacedName
  | ReqClaim NamespacedName
  | ReqTiers string

text \<open>The controllers in the order the binary registers them.\<close>

definition operator_wakes :: "kclient \<Rightarrow> cluster_event \<Rightarrow> request list" where
  "operator_wakes c ev =
     map ReqPool (pool_wakes ev) @ map ReqTarget (target_wakes c ev) @ map ReqShare (share_wakes c ev) @
     map ReqUser (user_wakes c ev) @ map ReqClaim (binder_wakes c ev) @ map ReqTiers (tier_wakes ev)"

lemma operator_wakes_iff [simp]:
  "ReqPool n \<in> set (operator_wakes c ev) \<longleftrightarrow> n \<in> set (pool_wakes ev)"
  "ReqTarget k \<in> set (operator_wakes c ev) \<longleftrightarrow> k \<in> set (target_wakes c ev)"
  "ReqShare k \<in> set (operator_wakes c ev) \<longleftrightarrow> k \<in> set (share_wakes c ev)"
  "ReqUser k \<in> set (operator_wakes c ev) \<longleftrightarrow> k \<in> set (user_wakes c ev)"
  by (auto simp: operator_wakes_def)

section \<open>Changes of the cluster\<close>

text \<open>One object the passes read changes, with the event its watch delivers. An update of a Volume does
  not merely reorder its replicas; a Secret's event carries its name and namespace.\<close>

definition found :: "go_error + 'a \<Rightarrow> 'a option" where
  "found r = (case r of Inl _ \<Rightarrow> None | Inr x \<Rightarrow> Some x)"

definition volume_update :: "Volume \<Rightarrow> Volume \<Rightarrow> bool" where
  "volume_update v w \<longleftrightarrow> nodes_distinct v \<and> nodes_distinct w \<and> omName (vMeta w) = omName (vMeta v) \<and>
     (volumeServingChanged v w \<or> map rsNode (vtReplicas (vStatus w)) = map rsNode (vtReplicas (vStatus v)))"

inductive cluster_change :: "kclient \<Rightarrow> cluster_event \<Rightarrow> kclient \<Rightarrow> bool" where
  node_updated: "ListNodes c = Inr (xs @ old # ys) \<Longrightarrow> omName (nMeta new) = omName (nMeta old) \<Longrightarrow>
    cluster_change c (NodeE (NodeUpdate old new)) (c\<lparr>GetNode := g, ListNodes := Inr (xs @ new # ys)\<rparr>)"
| node_created: "ListNodes c = Inr (xs @ ys) \<Longrightarrow> omName (nMeta new) \<notin> (\<lambda>n. omName (nMeta n)) ` set (xs @ ys) \<Longrightarrow>
    cluster_change c (NodeE (NodeCreate new)) (c\<lparr>GetNode := g, ListNodes := Inr (xs @ new # ys)\<rparr>)"
| node_deleted: "ListNodes c = Inr (xs @ old # ys) \<Longrightarrow>
    cluster_change c (NodeE (NodeDelete old)) (c\<lparr>GetNode := g, ListNodes := Inr (xs @ ys)\<rparr>)"
| volume_changed: "(\<And>v w. found (GetVolume c name) = Some v \<Longrightarrow> found ans = Some w \<Longrightarrow> volume_update v w) \<Longrightarrow>
    cluster_change c (VolumeE name (found (GetVolume c name)) (found ans)) (c\<lparr>GetVolume := (GetVolume c)(name := ans)\<rparr>)"
| secret_changed: "cluster_change c (SecretE obj) (c\<lparr>GetSecret := (GetSecret c)(keyOf obj := ans)\<rparr>)"
| pool_changed: "cluster_change c (PoolE name) (c\<lparr>GetPool := (GetPool c)(name := ans)\<rparr>)"

text \<open>What the claims promise: a PersistentVolume of the r-drbd driver is named like its Volume and refers
  back to the claim bound to it.\<close>

definition claims_bound :: "kclient \<Rightarrow> bool" where
  "claims_bound c \<longleftrightarrow> (\<forall>ns cl pvc pv csi. GetPVC c \<lparr>nnNamespace = ns, nnName = cl\<rparr> = Inr pvc \<and> GetPV c (pvcVolumeName pvc) = Inr pv \<and>
     pvCSI pv = Some csi \<and> csiDriver csi = Driver \<longrightarrow>
     csiVolumeHandle csi = pvcVolumeName pvc \<and> pvClaimRef pv = Some \<lparr>nnNamespace = ns, nnName = cl\<rparr>)"

definition lists_target :: "kclient \<Rightarrow> Target \<Rightarrow> bool" where
  "lists_target c t \<longleftrightarrow> (\<forall>ns \<in> {None, Some (omNamespace (tMeta t))}. \<exists>ts. ListTargets c ns = Inr ts \<and> t \<in> set ts)"

definition lists_share :: "kclient \<Rightarrow> Share \<Rightarrow> bool" where
  "lists_share c s \<longleftrightarrow> (\<forall>ns \<in> {None, Some (omNamespace (shMeta s))}. \<exists>ss. ListShares c ns = Inr ss \<and> s \<in> set ss)"

definition lists_user :: "kclient \<Rightarrow> LocalUser \<Rightarrow> bool" where
  "lists_user c u \<longleftrightarrow> (\<exists>us. ListLocalUsers c (Some (omNamespace (luMeta u))) = Inr us \<and> u \<in> set us)"

section \<open>What a dropped event leaves alone\<close>

text \<open>Placement reads of a Volume its serving key and the order of its replicas.\<close>

lemma resolve_serving:
  assumes up: "volume_update v w" and same: "\<not> volumeServingChanged v w"
  shows "ResolvePlacement w = ResolvePlacement v"
proof -
  have dv: "nodes_distinct v" and dw: "nodes_distinct w" and name: "omName (vMeta w) = omName (vMeta v)"
    and order: "map rsNode (vtReplicas (vStatus w)) = map rsNode (vtReplicas (vStatus v))" using up same by (auto simp: volume_update_def)
  have key: "serving v = serving w" using same by (simp add: volumeServingChanged_def)
  let ?vs = "vtReplicas (vStatus v)" and ?ws = "vtReplicas (vStatus w)"
  have len: "length ?ws = length ?vs" using arg_cong[OF order, of length] by simp
  have each: "serving_replica (?ws ! i) = serving_replica (?vs ! i)" if "i < length ?vs" for i
  proof -
    have n: "rsNode (?ws ! i) = rsNode (?vs ! i)" using arg_cong[OF order, of "\<lambda>l. l ! i"] that len by simp
    have "skReplicas (serving w) (rsNode (?ws ! i)) = Some (serving_replica (?ws ! i))"
      using serving_replicas_iff[OF dw] that len by (metis nth_mem)
    moreover have "skReplicas (serving v) (rsNode (?vs ! i)) = Some (serving_replica (?vs ! i))"
      using serving_replicas_iff[OF dv] that by (metis nth_mem)
    ultimately show ?thesis using key n by simp
  qed
  have reps: "map serving_replica ?ws = map serving_replica ?vs" by (rule nth_equalityI) (use len each in auto)
  have cands: "candidates u = map (\<lambda>r. \<lparr>cdNode = rsNode r, cdDevice = rsDevicePath r, cdInUse = rsInUse r \<or> skPrimary (serving u) = rsNode r,
       cdUpToDate = rsDiskState r = ''UpToDate''\<rparr>)
     (filter (\<lambda>r. rsPresent r \<and> rsDevicePath r \<noteq> '''' \<and> skRoles (serving u) (rsNode r) = Some RoleDiskful) (map serving_replica (vtReplicas (vStatus u))))"
    if "nodes_distinct u" for u
    unfolding candidates_def servable_def
    by (simp add: Diskful_roles[OF that] filter_map comp_def serving_replica_def) (simp add: serving_def)
  have "candidates w = candidates v" unfolding cands[OF dw] cands[OF dv] reps key ..
  moreover have "replica_count w = replica_count v" by (simp add: replica_count_roles dv dw key)
  ultimately show ?thesis unfolding fun_eq_iff ResolvePlacement_def by (simp only: name) simp
qed

definition same_placement :: "Volume \<Rightarrow> Volume \<Rightarrow> bool" where
  "same_placement v w \<longleftrightarrow> ResolvePlacement w = ResolvePlacement v"

lemma place_loop_same:
  "list_all2 same_placement vs ws \<Longrightarrow>
     place_loop active avoid i (zip ws luns) node repl acc = place_loop active avoid i (zip vs luns) node repl acc"
proof (induction arbitrary: luns i node repl acc rule: list_all2_induct)
  case (Cons v vs w ws)
  have r: "ResolvePlacement w = ResolvePlacement v" using Cons.hyps(1) by (simp add: same_placement_def)
  show ?case by (cases luns) (simp_all add: Let_def r Cons.IH split: option.split)
qed simp

lemma target_place_same:
  assumes "list_all2 same_placement vs ws"
  shows "target_place lib avoid ws problem t = target_place lib avoid vs problem t"
  unfolding target_place_def place_loop_same[OF assms] ..

text \<open>Two clients that resolve a claim alike: the same failure, or Volumes placed alike.\<close>

definition claim_same :: "kclient \<Rightarrow> kclient \<Rightarrow> string \<Rightarrow> string \<Rightarrow> bool" where
  "claim_same c c' ns cl \<longleftrightarrow> claimVolume c' ns cl = claimVolume c ns cl \<or>
     (\<exists>v w. claimVolume c ns cl = (Some v, '''', '''') \<and> claimVolume c' ns cl = (Some w, '''', '''') \<and> same_placement v w)"

lemma claim_loop_same:
  assumes "\<forall>l \<in> set luns. claim_same c c' ns (lunClaimName l)" and "list_all2 same_placement vs ws"
  shows "\<exists>us us' r m. claim_loop c ns luns vs = (us, r, m) \<and> claim_loop c' ns luns ws = (us', r, m) \<and> list_all2 same_placement us us'"
  using assms
proof (induction luns arbitrary: vs ws)
  case (Cons l luns)
  have refl: "same_placement v v" for v by (simp add: same_placement_def)
  from Cons.prems(1) have "claim_same c c' ns (lunClaimName l)" by simp
  then show ?case unfolding claim_same_def
  proof (elim disjE exE conjE)
    assume eq: "claimVolume c' ns (lunClaimName l) = claimVolume c ns (lunClaimName l)"
    obtain v r m where cv: "claimVolume c ns (lunClaimName l) = (v, r, m)" by (metis prod_cases3)
    show ?thesis
    proof (cases "r = ''''")
      case True
      have "list_all2 same_placement (vs @ (case v of None \<Rightarrow> [] | Some x \<Rightarrow> [x])) (ws @ (case v of None \<Rightarrow> [] | Some x \<Rightarrow> [x]))"
        using Cons.prems(2) by (auto simp: list_all2_appendI refl split: option.splits)
      from Cons.IH[OF _ this] Cons.prems(1) eq cv True show ?thesis by simp
    qed (use eq cv Cons.prems(2) in auto)
  next
    fix v w
    assume cv: "claimVolume c ns (lunClaimName l) = (Some v, '''', '''')" "claimVolume c' ns (lunClaimName l) = (Some w, '''', '''')" "same_placement v w"
    have "list_all2 same_placement (vs @ [v]) (ws @ [w])" using Cons.prems(2) cv(3) by (simp add: list_all2_appendI)
    from Cons.IH[OF _ this] Cons.prems(1) cv(1,2) show ?thesis by simp
  qed
qed auto

text \<open>So a pass with the same secrets, claims and nodes ends the same.\<close>

lemma target_pass_same:
  assumes secrets: "chapSecrets c' t = chapSecrets c t" and nodes: "unreadyNodes c' = unreadyNodes c"
    and claims: "\<forall>l \<in> set (tsLUNs (tSpec t)). claim_same c c' (omNamespace (tMeta t)) (lunClaimName l)"
  shows "target_status_pass lib c' t = target_status_pass lib c t"
proof (cases "chapSecrets c t")
  case (Inl e)
  have "chapSecrets d (t\<lparr>tStatus := x\<rparr>) = chapSecrets d t" for d x by (simp add: chapSecrets_def)
  with Inl secrets show ?thesis by (simp add: target_status_pass_def Let_def)
next
  case (Inr r)
  obtain versions problem where r: "r = (versions, problem)" by fastforce
  from claim_loop_same[OF claims, of "[]" "[]"] obtain us us' re m where
    l: "claim_loop c (omNamespace (tMeta t)) (tsLUNs (tSpec t)) [] = (us, re, m)"
       "claim_loop c' (omNamespace (tMeta t)) (tsLUNs (tSpec t)) [] = (us', re, m)" "list_all2 same_placement us us'" by auto
  have cs: "chapSecrets c t = Inr (versions, problem)" "chapSecrets c' t = Inr (versions, problem)" using Inr r secrets by simp_all
  show ?thesis unfolding target_pass_eq[OF cs(1) l(1)] target_pass_eq[OF cs(2) l(2)] nodes target_place_same[OF l(3)] ..
qed

lemma share_pass_same:
  assumes nodes: "unreadyNodes c' = unreadyNodes c" and claim: "claim_same c c' (omNamespace (shMeta s)) (ssClaimName (shSpec s))"
  shows "share_status_pass lib c' s = share_status_pass lib c s"
  using claim unfolding claim_same_def
proof (elim disjE exE conjE)
  fix v w
  assume "claimVolume c (omNamespace (shMeta s)) (ssClaimName (shSpec s)) = (Some v, '''', '''')"
    "claimVolume c' (omNamespace (shMeta s)) (ssClaimName (shSpec s)) = (Some w, '''', '''')" "same_placement v w"
  moreover from this(3) have "share_place lib avoid w s = share_place lib avoid v s" for avoid by (simp add: share_place_def same_placement_def)
  ultimately show ?thesis by (cases "unreadyNodes c") (simp_all add: share_status_pass_def nodes)
qed (simp only: share_status_pass_def nodes)

section \<open>Which passes an event concerns\<close>

lemma unready_update:
  assumes "ListNodes c = Inr (xs @ old # ys)" and "omName (nMeta new) = omName (nMeta old)" and "nodeReady new = nodeReady old"
  shows "unreadyNodes (c\<lparr>GetNode := g, ListNodes := Inr (xs @ new # ys)\<rparr>) = unreadyNodes c"
  using assms by (simp add: unreadyNodes_def)

lemma unready_create:
  assumes "ListNodes c = Inr (xs @ ys)" and "nodeReady new"
  shows "unreadyNodes (c\<lparr>GetNode := g, ListNodes := Inr (xs @ new # ys)\<rparr>) = unreadyNodes c"
  using assms by (simp add: unreadyNodes_def)

lemma claimVolume_eq:
  assumes "GetPVC c' = GetPVC c" and "GetPV c' = GetPV c" and "GetVolume c' = GetVolume c"
  shows "claimVolume c' ns cl = claimVolume c ns cl"
  unfolding claimVolume_def assms ..

text \<open>A Volume event concerns the claims that resolve to it; those are the ones its map finds.\<close>

lemma volume_claim_same:
  assumes bound: "claims_bound c" and c': "c' = c\<lparr>GetVolume := (GetVolume c)(name := ans)\<rparr>"
    and up: "\<And>v w. found (GetVolume c name) = Some v \<Longrightarrow> found ans = Some w \<Longrightarrow> volume_update v w"
    and quiet: "\<not> volume_passes (found (GetVolume c name)) (found ans) \<or> volumeClaim c' name \<noteq> (\<lparr>nnNamespace = ns, nnName = cl\<rparr>, True)"
  shows "claim_same c c' ns cl"
proof (cases "\<exists>pvc pv csi. GetPVC c \<lparr>nnNamespace = ns, nnName = cl\<rparr> = Inr pvc \<and> pvcVolumeName pvc \<noteq> '''' \<and> GetPV c (pvcVolumeName pvc) = Inr pv \<and>
    pvCSI pv = Some csi \<and> csiDriver csi = Driver \<and> csiVolumeHandle csi = name")
  case False
  then have "claimVolume c' ns cl = claimVolume c ns cl"
    unfolding claimVolume_def c' by (auto split: sum.splits option.splits)
  then show ?thesis by (simp add: claim_same_def)
next
  case True
  then obtain pvc pv csi where r: "GetPVC c \<lparr>nnNamespace = ns, nnName = cl\<rparr> = Inr pvc" "pvcVolumeName pvc \<noteq> ''''" "GetPV c (pvcVolumeName pvc) = Inr pv"
    "pvCSI pv = Some csi" "csiDriver csi = Driver" "csiVolumeHandle csi = name" by blast
  have "csiVolumeHandle csi = pvcVolumeName pvc \<and> pvClaimRef pv = Some \<lparr>nnNamespace = ns, nnName = cl\<rparr>"
    using bound[unfolded claims_bound_def] r by blast
  with r(3,6) have "volumeClaim c' name = (\<lparr>nnNamespace = ns, nnName = cl\<rparr>, True)" by (simp add: volumeClaim_def c')
  with quiet have drop: "\<not> volume_passes (found (GetVolume c name)) (found ans)" by simp
  then obtain v w where vw: "GetVolume c name = Inr v" "ans = Inr w" "\<not> volumeServingChanged v w"
    by (auto simp: volume_passes_def found_def split: sum.splits option.splits)
  have "same_placement v w" unfolding same_placement_def
    by (rule resolve_serving[OF up vw(3)]) (simp_all add: found_def vw)
  with r vw show ?thesis by (simp add: claim_same_def claimVolume_def c')
qed

lemma chap_loop_secret:
  assumes "k \<notin> (\<lambda>ini. \<lparr>nnNamespace = ns, nnName = iniChapSecretRef ini\<rparr>) ` {ini \<in> set inis. iniChapSecretRef ini \<noteq> ''''}"
  shows "chap_loop (c\<lparr>GetSecret := (GetSecret c)(k := ans)\<rparr>) ns inis seen vs p = chap_loop c ns inis seen vs p"
  using assms
proof (induction inis arbitrary: seen vs p)
  case (Cons ini inis)
  then have "iniChapSecretRef ini \<noteq> '''' \<Longrightarrow> \<lparr>nnNamespace = ns, nnName = iniChapSecretRef ini\<rparr> \<noteq> k" by auto
  with Cons show ?case by (auto simp: Let_def split: sum.splits prod.splits)
qed simp

lemma secretTargets_mem:
  assumes "lists_target c t" and "\<exists>ini \<in> set (tsInitiators (tSpec t)). iniChapSecretRef ini = omName obj" and "omNamespace obj = omNamespace (tMeta t)"
  shows "keyOf (tMeta t) \<in> set (secretTargets c obj)"
proof -
  from assms(1) obtain ts where "ListTargets c (Some (omNamespace (tMeta t))) = Inr ts" "t \<in> set ts" by (auto simp: lists_target_def)
  with assms(2,3) show ?thesis by (auto simp: secretTargets_def list_ex_iff intro!: imageI)
qed

lemma volumeTargets_mem:
  assumes "lists_target c t" and "volumeClaim c name = (\<lparr>nnNamespace = omNamespace (tMeta t), nnName = lunClaimName l\<rparr>, True)" and "l \<in> set (tsLUNs (tSpec t))"
  shows "keyOf (tMeta t) \<in> set (volumeTargets c name)"
proof -
  from assms(1) obtain ts where "ListTargets c (Some (omNamespace (tMeta t))) = Inr ts" "t \<in> set ts" by (auto simp: lists_target_def)
  with assms(2,3) show ?thesis by (auto simp: volumeTargets_def list_ex_iff intro!: imageI)
qed

lemma volumeShares_mem:
  assumes "lists_share c s" and "volumeClaim c name = (\<lparr>nnNamespace = omNamespace (shMeta s), nnName = ssClaimName (shSpec s)\<rparr>, True)"
  shows "keyOf (shMeta s) \<in> set (volumeShares c name)"
proof -
  from assms(1) obtain ss where "ListShares c (Some (omNamespace (shMeta s))) = Inr ss" "s \<in> set ss" by (auto simp: lists_share_def)
  with assms(2) show ?thesis by (auto simp: volumeShares_def intro!: imageI)
qed

lemma target_unwoken:
  assumes change: "cluster_change c ev c'" and bound: "claims_bound c" and listed: "lists_target c t"
    and node: "\<And>n. ev = NodeE (NodeCreate n) \<Longrightarrow> nodeReady n" and quiet: "keyOf (tMeta t) \<notin> set (target_wakes c' ev)"
  shows "target_status_pass lib c' t = target_status_pass lib c t"
proof -
  from listed obtain all where all: "ListTargets c None = Inr all" "t \<in> set all" by (auto simp: lists_target_def)
  have every: "keyOf (tMeta t) \<in> set (allTargets d)" if "ListTargets d = ListTargets c" for d using all that by (auto simp: allTargets_def)
  have claims: "\<forall>l \<in> set (tsLUNs (tSpec t)). claim_same c d (omNamespace (tMeta t)) (lunClaimName l)"
    if "GetPVC d = GetPVC c" "GetPV d = GetPV c" "GetVolume d = GetVolume c" for d using claimVolume_eq[OF that] by (simp add: claim_same_def)
  have secrets: "chapSecrets d t = chapSecrets c t" if "GetSecret d = GetSecret c" for d
  proof -
    have "chap_loop d ns inis seen vs p = chap_loop c ns inis seen vs p" for ns inis seen vs p
      by (induction inis arbitrary: seen vs p) (simp_all add: that Let_def split: sum.split prod.split)
    then show ?thesis by (simp add: chapSecrets_def)
  qed
  have nodes: "unreadyNodes d = unreadyNodes c" if "ListNodes d = ListNodes c" for d using that by (simp add: unreadyNodes_def)
  from change show ?thesis
  proof cases
    case (node_updated xs old ys new g)
    have "nodeReady new = nodeReady old" using quiet every[of c'] unfolding node_updated(1,2) by (auto simp: target_wakes_def split: if_splits)
    then show ?thesis unfolding node_updated(2)
      by (intro target_pass_same secrets claims unready_update[OF node_updated(3,4)]) simp_all
  next
    case (node_created xs ys new g)
    with node have "nodeReady new" by blast
    then show ?thesis unfolding node_created(2)
      by (intro target_pass_same secrets claims unready_create[OF node_created(3)]) simp_all
  next
    case (node_deleted xs old ys g)
    then show ?thesis using quiet every[of c'] by (simp add: target_wakes_def)
  next
    case (volume_changed name ans)
    have l': "lists_target c' t" using listed by (simp add: lists_target_def volume_changed(2))
    have "claim_same c c' (omNamespace (tMeta t)) (lunClaimName l)" if l: "l \<in> set (tsLUNs (tSpec t))" for l
    proof (rule volume_claim_same[OF bound volume_changed(2) volume_changed(3)])
      show "\<not> volume_passes (found (GetVolume c name)) (found ans) \<or>
          volumeClaim c' name \<noteq> (\<lparr>nnNamespace = omNamespace (tMeta t), nnName = lunClaimName l\<rparr>, True)"
        using quiet volumeTargets_mem[OF l' _ l, of name] unfolding volume_changed(1) by (auto simp: target_wakes_def)
    qed
    then show ?thesis by (intro target_pass_same secrets nodes ballI) (simp_all add: volume_changed(2))
  next
    case (secret_changed obj ans)
    have l': "lists_target c' t" using listed by (simp add: lists_target_def secret_changed(2))
    have "keyOf obj \<notin> (\<lambda>ini. \<lparr>nnNamespace = omNamespace (tMeta t), nnName = iniChapSecretRef ini\<rparr>) ` {ini \<in> set (tsInitiators (tSpec t)). iniChapSecretRef ini \<noteq> ''''}"
    proof
      assume "keyOf obj \<in> (\<lambda>ini. \<lparr>nnNamespace = omNamespace (tMeta t), nnName = iniChapSecretRef ini\<rparr>) ` {ini \<in> set (tsInitiators (tSpec t)). iniChapSecretRef ini \<noteq> ''''}"
      then have "keyOf (tMeta t) \<in> set (secretTargets c' obj)" by (intro secretTargets_mem[OF l']) (auto simp: keyOf_def)
      with quiet show False unfolding secret_changed(1) by (simp add: target_wakes_def)
    qed
    then have "chapSecrets c' t = chapSecrets c t" unfolding secret_changed(2) chapSecrets_def by (rule chap_loop_secret)
    then show ?thesis by (rule target_pass_same) (use secret_changed(2) in \<open>auto intro!: nodes claims[rule_format]\<close>)
  next
    case (pool_changed name ans)
    show ?thesis unfolding pool_changed(2) by (intro target_pass_same secrets nodes claims) simp_all
  qed
qed

lemma share_unwoken:
  assumes change: "cluster_change c ev c'" and bound: "claims_bound c" and listed: "lists_share c s"
    and node: "\<And>n. ev = NodeE (NodeCreate n) \<Longrightarrow> nodeReady n" and quiet: "keyOf (shMeta s) \<notin> set (share_wakes c' ev)"
  shows "share_status_pass lib c' s = share_status_pass lib c s"
proof -
  from listed obtain all where all: "ListShares c None = Inr all" "s \<in> set all" by (auto simp: lists_share_def)
  have every: "keyOf (shMeta s) \<in> set (allShares d)" if "ListShares d = ListShares c" for d using all that by (auto simp: allShares_def)
  have claims: "claim_same c d (omNamespace (shMeta s)) (ssClaimName (shSpec s))"
    if "GetPVC d = GetPVC c" "GetPV d = GetPV c" "GetVolume d = GetVolume c" for d using claimVolume_eq[OF that] by (simp add: claim_same_def)
  have nodes: "unreadyNodes d = unreadyNodes c" if "ListNodes d = ListNodes c" for d using that by (simp add: unreadyNodes_def)
  from change show ?thesis
  proof cases
    case (node_updated xs old ys new g)
    have "nodeReady new = nodeReady old" using quiet every[of c'] unfolding node_updated(1,2) by (auto simp: share_wakes_def split: if_splits)
    then show ?thesis unfolding node_updated(2) by (intro share_pass_same claims unready_update[OF node_updated(3,4)]) simp_all
  next
    case (node_created xs ys new g)
    with node have "nodeReady new" by blast
    then show ?thesis unfolding node_created(2) by (intro share_pass_same claims unready_create[OF node_created(3)]) simp_all
  next
    case (node_deleted xs old ys g)
    then show ?thesis using quiet every[of c'] by (simp add: share_wakes_def)
  next
    case (volume_changed name ans)
    have l': "lists_share c' s" using listed by (simp add: lists_share_def volume_changed(2))
    have "claim_same c c' (omNamespace (shMeta s)) (ssClaimName (shSpec s))"
    proof (rule volume_claim_same[OF bound volume_changed(2) volume_changed(3)])
      show "\<not> volume_passes (found (GetVolume c name)) (found ans) \<or>
          volumeClaim c' name \<noteq> (\<lparr>nnNamespace = omNamespace (shMeta s), nnName = ssClaimName (shSpec s)\<rparr>, True)"
        using quiet volumeShares_mem[OF l', of name] unfolding volume_changed(1) by (auto simp: share_wakes_def)
    qed
    then show ?thesis by (intro share_pass_same nodes) (simp_all add: volume_changed(2))
  qed (auto intro!: share_pass_same nodes claims)
qed

lemma pool_unwoken:
  assumes change: "cluster_change c ev c'" and quiet: "omName (spMeta p) \<notin> set (pool_wakes ev)"
  shows "pool_status_pass lib c' p = pool_status_pass lib c p"
proof -
  have "GetPool c' (omName (spMeta p)) = GetPool c (omName (spMeta p))" "CreatePool c' = CreatePool c"
    using change quiet by (auto elim!: cluster_change.cases simp: pool_wakes_def)
  then have "EnsurePool lib c' p = EnsurePool lib c p" by (simp only: EnsurePool_def Let_def)
  then show ?thesis by (simp only: pool_status_pass_def)
qed

lemma user_unwoken:
  assumes change: "cluster_change c ev c'" and listed: "lists_user c u" and quiet: "keyOf (luMeta u) \<notin> set (user_wakes c' ev)"
  shows "user_status lib c' u = user_status lib c u"
proof -
  from listed obtain us where us: "ListLocalUsers c (Some (omNamespace (luMeta u))) = Inr us" "u \<in> set us" by (auto simp: lists_user_def)
  have "keyOf obj \<noteq> \<lparr>nnNamespace = omNamespace (luMeta u), nnName = luPasswordSecretRef (luSpec u)\<rparr>" if "ev = SecretE obj" for obj
  proof
    assume k: "keyOf obj = \<lparr>nnNamespace = omNamespace (luMeta u), nnName = luPasswordSecretRef (luSpec u)\<rparr>"
    have "ListLocalUsers c' = ListLocalUsers c" using change by (auto elim!: cluster_change.cases)
    with us k have "keyOf (luMeta u) \<in> set (secretUsers c' obj)" by (auto simp: secretUsers_def keyOf_def intro!: imageI)
    with quiet that show False by (simp add: user_wakes_def)
  qed
  then have "GetSecret c' \<lparr>nnNamespace = omNamespace (luMeta u), nnName = luPasswordSecretRef (luSpec u)\<rparr> =
      GetSecret c \<lparr>nnNamespace = omNamespace (luMeta u), nnName = luPasswordSecretRef (luSpec u)\<rparr>"
    using change by (auto elim!: cluster_change.cases)
  then show ?thesis by (simp only: user_status_def Let_def)
qed

section \<open>Properties\<close>


definition watch_client :: kclient where
  "watch_client = (with_volumes [''v'' \<mapsto> vol_on ''v'' [''a'', ''b'']] client0)\<lparr>ListNodes := Inr [node0 ''b'' True],
     ListTargets := \<lambda>_. Inr [demo_target ''a''], ListShares := \<lambda>_. Inr [share0 ''ns'' ''s''], ListLocalUsers := \<lambda>_. Inr [fresh_user]\<rparr>"

lemma watch_client_lists: "lists_target watch_client (demo_target ''a'')" "lists_share watch_client (share0 ''ns'' ''s'')"
  "lists_user watch_client fresh_user"
  by (simp_all add: lists_target_def lists_share_def lists_user_def watch_client_def)

definition new_secret :: Secret where
  "new_secret = \<lparr>secMeta = (meta0 ''ns'' ''s'')\<lparr>omResourceVersion := ''7''\<rparr>, secData = [''password'' \<mapsto> ''pw'']\<rparr>"


text \<open>A node that joins unready is not seen: its creation is filtered out, although placement would avoid
  it. When a node's object was deleted and registers again without becoming ready, the targets recorded
  on it stay there, reported Available, until something else wakes them.\<close>

theorem unready_node_unseen:
  "\<exists>c c' n. cluster_change c (NodeE (NodeCreate n)) c' \<and> lists_target c (demo_target ''a'') \<and> operator_wakes c' (NodeE (NodeCreate n)) = [] \<and>
     (\<exists>t res. target_status_pass std_metalib c (demo_target ''a'') = Inr (t, res) \<and> ttActiveNode (tStatus t) = ''a'' \<and>
        IsStatusConditionTrue std_metalib (ttConditions (tStatus t)) ConditionAvailable) \<and>
     (\<exists>t res. target_status_pass std_metalib c' (demo_target ''a'') = Inr (t, res) \<and> ttActiveNode (tStatus t) = ''b'')"
proof -
  let ?n = "node0 ''a'' False"
  let ?c' = "watch_client\<lparr>GetNode := GetNode watch_client, ListNodes := Inr ([] @ ?n # [node0 ''b'' True])\<rparr>"
  have "cluster_change watch_client (NodeE (NodeCreate ?n)) ?c'"
    by (rule cluster_change.node_created) (simp_all add: watch_client_def node0_def meta0_def)
  moreover have "case target_status_pass std_metalib watch_client (demo_target ''a'') of Inl _ \<Rightarrow> False
      | Inr (t, res) \<Rightarrow> ttActiveNode (tStatus t) = ''a'' \<and> IsStatusConditionTrue std_metalib (ttConditions (tStatus t)) ConditionAvailable"
    by code_simp
  moreover have "case target_status_pass std_metalib ?c' (demo_target ''a'') of Inl _ \<Rightarrow> False | Inr (t, res) \<Rightarrow> ttActiveNode (tStatus t) = ''b''"
    by code_simp
  ultimately show ?thesis using watch_client_lists(1)
    by (intro exI[of _ watch_client] exI[of _ ?c'] exI[of _ ?n])
       (auto simp: operator_wakes_def pool_wakes_def target_wakes_def share_wakes_def user_wakes_def binder_wakes_def tier_wakes_def split: sum.splits)
qed

text \<open>Claims and PersistentVolumes are not watched: a pass that waits for one asks to be run again.\<close>

lemma waiting_requeues:
  assumes "claim_loop c (omNamespace (tMeta t)) (tsLUNs (tSpec t)) [] = (vols, ReasonWaitingForVolume, msg)"
    and "target_status_pass lib c t = Inr (t', res)"
  shows "RequeueAfter res = volumeSettleInterval"
proof -
  obtain versions problem where cs: "chapSecrets c t = Inr (versions, problem)" by (rule target_status_pass_cases[OF assms(2)]) blast
  from assms(2) show ?thesis unfolding target_pass_eq[OF cs assms(1)] by (auto simp: requeue_def)
qed

end
