(* ===== verification/Binaries.thy ===== *)
theory Binaries
  imports Watches Server_Main Auth_Kube
begin

text \<open>
  The \<open>main\<close> functions: what \<open>operator/cmd/main.go\<close> makes of its flags and the order in which it
  registers controllers and probes, and how \<open>cmd/stornas-agent/main.go\<close> gives one node name and one SMART
  store to all its reconcilers, and how \<open>cmd/stornas/main.go\<close> comes up (its routes are in \<open>Server_Main\<close>, its
  wiring of stores and streams in \<open>Stream_Hub\<close>). Flag parsing, the manager itself and the certificate
  watchers are the libraries'; their answers are arguments.
\<close>

section \<open>The operator (operator/cmd/main.go)\<close>

record op_flags =
  flMetricsAddr :: string
  flProbeAddr :: string
  flLeaderElect :: bool
  flSecureMetrics :: bool
  flWebhookCertPath :: string
  flWebhookCertName :: string
  flWebhookCertKey :: string
  flMetricsCertPath :: string
  flMetricsCertName :: string
  flMetricsCertKey :: string
  flEnableHTTP2 :: bool

definition default_flags :: op_flags where
  "default_flags = \<lparr>flMetricsAddr = ''0'', flProbeAddr = '':8081'', flLeaderElect = False, flSecureMetrics = True,
     flWebhookCertPath = '''', flWebhookCertName = ''tls.crt'', flWebhookCertKey = ''tls.key'',
     flMetricsCertPath = '''', flMetricsCertName = ''tls.crt'', flMetricsCertKey = ''tls.key'', flEnableHTTP2 = False\<rparr>"

text \<open>A TLS option edits the protocols a server offers.\<close>

definition disableHTTP2 :: "string list \<Rightarrow> string list" where
  "disableHTTP2 nextProtos = [''http/1.1'']"

definition tlsOpts :: "op_flags \<Rightarrow> (string list \<Rightarrow> string list) list" where
  "tlsOpts fl = (if \<not> flEnableHTTP2 fl then [disableHTTP2] else [])"

record server_certs =
  scCertDir :: string
  scCertName :: string
  scKeyName :: string

definition certs_of :: "string \<Rightarrow> string \<Rightarrow> string \<Rightarrow> server_certs" where
  "certs_of path name key =
     (if length path > 0 then \<lparr>scCertDir = path, scCertName = name, scKeyName = key\<rparr>
      else \<lparr>scCertDir = '''', scCertName = '''', scKeyName = ''''\<rparr>)"

record webhook_Options =
  woTLSOpts :: "(string list \<Rightarrow> string list) list"
  woCerts :: server_certs

definition webhookServerOptions :: "op_flags \<Rightarrow> webhook_Options" where
  "webhookServerOptions fl = \<lparr>woTLSOpts = tlsOpts fl, woCerts = certs_of (flWebhookCertPath fl) (flWebhookCertName fl) (flWebhookCertKey fl)\<rparr>"

datatype metrics_filter = WithAuthenticationAndAuthorization

record metrics_Options =
  moBindAddress :: string
  moSecureServing :: bool
  moTLSOpts :: "(string list \<Rightarrow> string list) list"
  moFilterProvider :: "metrics_filter option"
  moCerts :: server_certs

definition metricsServerOptions :: "op_flags \<Rightarrow> metrics_Options" where
  "metricsServerOptions fl =
     \<lparr>moBindAddress = flMetricsAddr fl, moSecureServing = flSecureMetrics fl, moTLSOpts = tlsOpts fl,
      moFilterProvider = (if flSecureMetrics fl then Some WithAuthenticationAndAuthorization else None),
      moCerts = certs_of (flMetricsCertPath fl) (flMetricsCertName fl) (flMetricsCertKey fl)\<rparr>"

record manager_Options =
  mgMetrics :: metrics_Options
  mgWebhook :: webhook_Options
  mgHealthProbeBindAddress :: string
  mgLeaderElection :: bool
  mgLeaderElectionID :: string

definition managerOptions :: "op_flags \<Rightarrow> manager_Options" where
  "managerOptions fl =
     \<lparr>mgMetrics = metricsServerOptions fl, mgWebhook = webhookServerOptions fl, mgHealthProbeBindAddress = flProbeAddr fl,
      mgLeaderElection = flLeaderElect fl, mgLeaderElectionID = ''f733c7a3.stornas.io''\<rparr>"

text \<open>The start: the manager, the six controllers and the two probes in order; the first failure ends the
  process with status 1, before anything runs. \<open>attempt\<close> answers each setup step.\<close>

datatype setup_step = RegisterScheme string | CreateManager | SetupController string | HealthzCheck | ReadyzCheck | StartManager

definition setup_steps :: "setup_step list" where
  "setup_steps = CreateManager # map SetupController [''StoragePool'', ''Target'', ''Share'', ''LocalUser'', ''ClaimBinder'', ''TierClasses''] @
     [HealthzCheck, ReadyzCheck, StartManager]"

fun run_setup :: "(setup_step \<Rightarrow> go_error option) \<Rightarrow> setup_step list \<Rightarrow> setup_step list \<times> int" where
  "run_setup attempt [] = ([], 0)"
| "run_setup attempt (s # ss) =
     (case attempt s of Some _ \<Rightarrow> ([s], 1) | None \<Rightarrow> (case run_setup attempt ss of (done, code) \<Rightarrow> (s # done, code)))"

definition operator_main :: "(setup_step \<Rightarrow> go_error option) \<Rightarrow> op_flags \<Rightarrow> manager_Options \<times> setup_step list \<times> int" where
  "operator_main attempt fl = (managerOptions fl, run_setup attempt setup_steps)"

section \<open>The agent (cmd/stornas-agent/main.go)\<close>

record agent_binary =
  abPoolNode :: string
  abPoolSmart :: nat \<comment> \<open>which store; the binary makes one\<close>
  abShareNode :: string
  abShareManagerNode :: string
  abInventoryNode :: string
  abInventorySmart :: nat
  abTargetNode :: string

text \<open>Its start runs to the first failure like the operator's (\<open>log.Fatal\<close> exits with status 1), over the two
  schemes, the manager, the five parts and the manager's run; an unset node name ends it before that.\<close>

definition agent_steps :: "setup_step list" where
  "agent_steps = map RegisterScheme [''client-go'', ''storage.stornas.io''] @ CreateManager #
     map SetupController [''Pool'', ''Share'', ''LocalUser'', ''Inventory'', ''Target''] @ [StartManager]"

definition agent_main :: "(setup_step \<Rightarrow> go_error option) \<Rightarrow> string \<Rightarrow> string + agent_binary \<times> setup_step list \<times> int" where
  "agent_main attempt node =
     (if node = '''' then Inl ''NODE_NAME is required (set from spec.nodeName in the DaemonSet)''
      else Inr (\<lparr>abPoolNode = node, abPoolSmart = 0, abShareNode = node, abShareManagerNode = node,
                 abInventoryNode = node, abInventorySmart = 0, abTargetNode = node\<rparr>, run_setup attempt agent_steps))"

text \<open>Each reconciler watches its own kind only, unfiltered (the \<open>SetupWithManager\<close> functions of
  \<open>internal/agent\<close>).\<close>

definition agent_wakes :: "cluster_event \<Rightarrow> request list" where
  "agent_wakes ev = (case ev of
      StoragePoolE n \<Rightarrow> [ReqPool n]
    | ShareE k \<Rightarrow> [ReqShare k]
    | LocalUserE k \<Rightarrow> [ReqUser k]
    | TargetE k \<Rightarrow> [ReqTarget k]
    | _ \<Rightarrow> [])"

section \<open>The server (cmd/stornas/main.go)\<close>

text \<open>A flag that was given on the command line overrides the environment. \<open>listen\<close> is how \<open>ListenAndServe\<close>
  ended: \<open>None\<close> for \<open>http.ErrServerClosed\<close>, the orderly shutdown.\<close>

record 'c server_boot =
  sbAddr :: string
  sbWebDir :: string
  sbConfig :: 'c
  sbNamespace :: string
  sbWrites :: "kube_write list"
  sbLog :: "string list"
  sbExit :: int

definition bootstrap_log :: "go_error + string \<Rightarrow> string list" where
  "bootstrap_log r = (case r of
      Inl e \<Rightarrow> [''auth bootstrap: '' @ eText e @ '' (login unavailable until a LocalUser exists)'']
    | Inr pw \<Rightarrow> if pw \<noteq> '''' then [''initial admin password: '' @ pw] else [])"

definition server_main ::
    "(string \<Rightarrow> string) \<Rightarrow> string option \<Rightarrow> string option \<Rightarrow> go_error + 'c \<Rightarrow> go_error + 'c \<Rightarrow> ('c \<Rightarrow> go_error option) \<Rightarrow> ('c \<Rightarrow> go_error option) \<Rightarrow>
     string \<Rightarrow> kubeapi \<Rightarrow> go_error option \<Rightarrow> string + 'c server_boot" where
  "server_main getenv addrFlag webFlag inCluster loaded newClientset newDynamic password k listen =
     (case kubeConfig inCluster loaded of
        Inl e \<Rightarrow> Inl (''kubernetes config: '' @ eText e)
      | Inr cfg \<Rightarrow>
        (case newClientset cfg of
           Some e \<Rightarrow> Inl (eText e)
         | None \<Rightarrow>
           (case newDynamic cfg of
              Some e \<Rightarrow> Inl (eText e)
            | None \<Rightarrow>
              let ns = envOr getenv ''STORNAS_NAMESPACE'' ''stornas-system'';
                  boot = Bootstrap ns password k in
              Inr \<lparr>sbAddr = (case addrFlag of None \<Rightarrow> envOr getenv ''STORNAS_ADDR'' '':8080'' | Some a \<Rightarrow> a),
                   sbWebDir = (case webFlag of None \<Rightarrow> envOr getenv ''STORNAS_WEB'' ''web/build'' | Some w \<Rightarrow> w),
                   sbConfig = cfg, sbNamespace = ns, sbWrites = fst boot, sbLog = bootstrap_log (snd boot),
                   sbExit = (if listen = None then 0 else 1)\<rparr>)))"

section \<open>What the wiring gives\<close>

text \<open>The server comes up although its bootstrap fails, and a password is logged only on a cluster without
  users, for the admin user just written.\<close>

lemma server_serves_without_bootstrap:
  "kubeConfig inCluster loaded = Inr cfg \<Longrightarrow> newClientset cfg = None \<Longrightarrow> newDynamic cfg = None \<Longrightarrow>
     \<exists>b. server_main getenv a w inCluster loaded newClientset newDynamic password k listen = Inr b \<and> sbConfig b = cfg \<and>
       (isl (snd (Bootstrap (sbNamespace b) password k)) \<longrightarrow> length (sbLog b) = 1)"
  by (auto simp: server_main_def bootstrap_log_def Let_def isl_def)

lemma password_logged_once:
  assumes "server_main getenv a w inCluster loaded newClientset newDynamic password k listen = Inr b"
    and "(''initial admin password: '' @ pw) \<in> set (sbLog b)"
  shows "kaUsers k = Inr [] \<and> pw = password \<and>
    sbWrites b = [KCreateSecret (admin_secret (sbNamespace b) password), KCreateUser (admin_object (sbNamespace b))]"
  using assms by (auto simp: server_main_def bootstrap_log_def Bootstrap_def Let_def split: sum.splits option.splits if_splits)

lemma tls_http1: "\<not> flEnableHTTP2 fl \<Longrightarrow> foldl (\<lambda>ps f. f ps) ps (tlsOpts fl) = [''http/1.1'']"
  by (simp add: tlsOpts_def disableHTTP2_def)

text \<open>Metrics are never served over HTTPS without the authentication filter, and by default neither server
  offers HTTP/2.\<close>

lemma metrics_guarded:
  "moSecureServing (mgMetrics (fst (operator_main attempt fl))) \<longrightarrow>
     moFilterProvider (mgMetrics (fst (operator_main attempt fl))) = Some WithAuthenticationAndAuthorization"
  "foldl (\<lambda>ps f. f ps) ps (moTLSOpts (mgMetrics (fst (operator_main attempt default_flags)))) = [''http/1.1'']"
  "foldl (\<lambda>ps f. f ps) ps (woTLSOpts (mgWebhook (fst (operator_main attempt default_flags)))) = [''http/1.1'']"
  by (simp_all add: operator_main_def managerOptions_def metricsServerOptions_def webhookServerOptions_def tls_http1 default_flags_def)

text \<open>Nothing is started over a controller that could not be set up.\<close>

lemma run_setup_prefix:
  "run_setup attempt ss = (done, code) \<Longrightarrow>
     (code = 0 \<longrightarrow> done = ss \<and> (\<forall>s \<in> set ss. attempt s = None)) \<and>
     (code \<noteq> 0 \<longrightarrow> (\<exists>ok s rest. ss = ok @ s # rest \<and> done = ok @ [s] \<and> (\<forall>x \<in> set ok. attempt x = None) \<and> attempt s \<noteq> None))"
proof (induction ss arbitrary: "done" code)
  case (Cons s ss)
  show ?case
  proof (cases "attempt s")
    case None
    obtain d k where r: "run_setup attempt ss = (d, k)" by fastforce
    with Cons.prems None have dk: "done = s # d" "code = k" by simp_all
    from Cons.IH[OF r] show ?thesis
    proof (cases "k = 0")
      case False
      with Cons.IH[OF r] obtain ok x rest where "ss = ok @ x # rest" "d = ok @ [x]" "\<forall>y \<in> set ok. attempt y = None" "attempt x \<noteq> None" by blast
      then have "s # ss = (s # ok) @ x # rest" "done = (s # ok) @ [x]" "\<forall>y \<in> set (s # ok). attempt y = None" "attempt x \<noteq> None"
        using dk None by simp_all
      with dk False show ?thesis by blast
    qed (use dk None in auto)
  next
    case (Some e)
    with Cons.prems have "done = [s]" "code = 1" by simp_all
    with Some show ?thesis by (intro conjI impI exI[of _ "[]"] exI[of _ s] exI[of _ ss]) auto
  qed
qed simp

lemma started_complete:
  assumes start: "StartManager \<notin> set init" "StartManager \<in> set (fst (run_setup attempt (init @ [StartManager])))"
  shows "\<forall>s \<in> set init. attempt s = None"
proof -
  let ?steps = "init @ [StartManager]"
  obtain d k where r: "run_setup attempt ?steps = (d, k)" by fastforce
  note p = run_setup_prefix[OF r]
  show ?thesis
  proof (cases "k = 0")
    case True
    with p show ?thesis by auto
  next
    case False
    with p obtain ok s rest where s: "?steps = ok @ s # rest" "d = ok @ [s]" "\<forall>x \<in> set ok. attempt x = None" by blast
    have mem: "StartManager \<in> set (ok @ [s])" using start(2) r s(2) by simp
    show ?thesis
    proof (cases rest rule: rev_cases)
      case Nil
      with s(1) have "init = ok" by simp
      with s(3) show ?thesis by simp
    next
      case (snoc rest' x)
      with s(1) have "init = ok @ s # rest'" by simp
      with mem start(1) show ?thesis by auto
    qed
  qed
qed

text \<open>So neither binary runs with a controller, a probe or a scheme missing.\<close>

lemma operator_started:
  assumes "StartManager \<in> set (fst (snd (operator_main attempt fl)))"
  shows "\<forall>s \<in> set (butlast setup_steps). attempt s = None"
  using started_complete[of "butlast setup_steps" attempt] assms by (simp add: operator_main_def setup_steps_def)

lemma agent_started:
  assumes "agent_main attempt node = Inr (a, begun, code)" "StartManager \<in> set begun"
  shows "node \<noteq> '''' \<and> (\<forall>s \<in> set (butlast agent_steps). attempt s = None)"
  using started_complete[of "butlast agent_steps" attempt] assms
  by (auto simp: agent_main_def agent_steps_def split: if_splits)

text \<open>A Secret is watched by the operator alone, yet a rotated one reaches the agents: the operator's next pass
  over its user or target changes the recorded version, hence the object, and that event wakes the agent.\<close>

lemma password_rotation_relayed:
  assumes "GetSecret c \<lparr>nnNamespace = omNamespace (luMeta u), nnName = luPasswordSecretRef (luSpec u)\<rparr> = Inr s"
    and "snd (LocalUserPassword (secData s))" and "luPasswordSecretVersion (luStatus u) \<noteq> omResourceVersion (secMeta s)"
  shows "\<exists>u'. user_status lib c u = Inr u' \<and> u' \<noteq> u \<and> ReqUser (keyOf (luMeta u')) \<in> set (agent_wakes (LocalUserE (keyOf (luMeta u'))))"
proof -
  from assms(1,2) obtain u' where u': "user_status lib c u = Inr u'" "luPasswordSecretVersion (luStatus u') = omResourceVersion (secMeta s)"
    by (simp add: user_status_def Let_def)
  moreover from u'(2) assms(3) have "u' \<noteq> u" by auto
  ultimately show ?thesis by (auto simp: agent_wakes_def)
qed

lemma target_pass_versions:
  assumes "target_status_pass lib c t = Inr (t', res)" and "chapSecrets c t = Inr (versions, problem)"
  shows "ttChapSecretVersions (tStatus t') = versions"
  using assms(1) by (cases rule: target_status_pass_cases) (use assms(2) in \<open>auto elim!: target_place_cases\<close>)

lemma chap_rotation_relayed:
  assumes pass: "target_status_pass lib c t = Inr (t', res)"
    and ref: "ini \<in> set (tsInitiators (tSpec t))" "iniChapSecretRef ini \<noteq> ''''" "chap_usable c (omNamespace (tMeta t)) (iniChapSecretRef ini)"
    and stale: "\<lparr>svName = iniChapSecretRef ini, svResourceVersion = secret_version c (omNamespace (tMeta t)) (iniChapSecretRef ini)\<rparr> \<notin>
      set (ttChapSecretVersions (tStatus t))"
  shows "t' \<noteq> t \<and> ReqTarget (keyOf (tMeta t')) \<in> set (agent_wakes (TargetE (keyOf (tMeta t'))))"
proof -
  obtain versions problem where cs: "chapSecrets c t = Inr (versions, problem)" by (rule target_status_pass_cases[OF pass]) blast
  have "ttChapSecretVersions (tStatus t') = versions" using target_pass_versions[OF pass cs] .
  moreover from chap_versions_exact[OF cs] ref
  have "\<lparr>svName = iniChapSecretRef ini, svResourceVersion = secret_version c (omNamespace (tMeta t)) (iniChapSecretRef ini)\<rparr> \<in> set versions" by blast
  ultimately show ?thesis using stale by (auto simp: agent_wakes_def)
qed

lemma agent_one_node:
  "agent_main attempt node = Inr (a, r) \<Longrightarrow> node \<noteq> '''' \<and> abPoolNode a = node \<and> abShareNode a = node \<and> abShareManagerNode a = node \<and>
     abInventoryNode a = node \<and> abTargetNode a = node \<and> abPoolSmart a = abInventorySmart a"
  by (auto simp: agent_main_def split: if_splits)

end
