(* ===== verification/Stream_Conn.thy ===== *)
theory Stream_Conn
  imports Prelude
begin

text \<open>
  The life of one WebSocket connection (\<open>ServeHTTP\<close> of \<open>internal/stream/hub.go\<close>) in time: the read loop with
  its deadline, the pong handler that moves it, and the writer with its ticker and write deadlines. A
  step is one action of one of the two goroutines, of the hub or of the peer, or the clock moving on.
  The clock waits for a goroutine that can run and for the instants at which a timer fires or a
  deadline makes a blocked call return. \<open>Stream_Hub\<close> has the frames; here a frame is only something to
  write.
\<close>

section \<open>The connection\<close>

text \<open>In nanoseconds, as \<open>time.Duration\<close> counts.\<close>

definition pongWait :: nat where "pongWait = 60 * 1000000000"
definition pingPeriod :: nat where "pingPeriod = 50 * 1000000000"
definition writeWait :: nat where "writeWait = 10 * 1000000000"

text \<open>The reader has not set its deadline yet, is in \<open>ReadMessage\<close>, or has left the hub and closed \<open>quit\<close>. The
  writer has not run yet, is in its select, is writing under a deadline (a ping or a frame), or has
  returned, which closes the socket and stops the ticker.\<close>

datatype reader = Arming | InRead | Removed

datatype writer = Starting | Selecting | Writing nat | Returned

record live =
  lvNow :: nat
  lvReader :: reader
  lvReadDeadline :: nat
  lvWriter :: writer
  lvTicker :: nat \<comment> \<open>when it fires next\<close>
  lvTick :: bool \<comment> \<open>\<open>ping.C\<close> holds a tick\<close>
  lvOut :: bool \<comment> \<open>the mailbox holds a frame\<close>
  lvRefreshed :: nat \<comment> \<open>when the read deadline was last set\<close>
  lvRemovedAt :: nat \<comment> \<open>when the reader left the hub\<close>
  lvUnanswered :: "nat option" \<comment> \<open>the first tick since the last pong\<close>

definition new_live :: "nat \<Rightarrow> live" where
  "new_live now = \<lparr>lvNow = now, lvReader = Arming, lvReadDeadline = 0, lvWriter = Starting, lvTicker = 0, lvTick = False, lvOut = False,
     lvRefreshed = now, lvRemovedAt = 0, lvUnanswered = None\<rparr>"

definition SetReadDeadline :: "live \<Rightarrow> live" where
  "SetReadDeadline s = s\<lparr>lvReadDeadline := lvNow s + pongWait, lvRefreshed := lvNow s\<rparr>"

definition remove_live :: "live \<Rightarrow> live" where
  "remove_live s = s\<lparr>lvReader := Removed, lvRemovedAt := lvNow s\<rparr>"

text \<open>A goroutine that can go on without waiting.\<close>

definition runnable :: "live \<Rightarrow> bool" where
  "runnable s \<longleftrightarrow> lvReader s = Arming \<or> lvWriter s = Starting \<or> (lvReader s = InRead \<and> lvWriter s = Returned) \<or>
     (lvWriter s = Selecting \<and> (lvOut s \<or> lvTick s \<or> lvReader s = Removed))"

text \<open>The instants the clock does not pass over.\<close>

definition due :: "live \<Rightarrow> nat list" where
  "due s = (if lvReader s = InRead then [lvReadDeadline s] else []) @
     (case lvWriter s of Writing d \<Rightarrow> [d, lvTicker s] | Selecting \<Rightarrow> [lvTicker s] | _ \<Rightarrow> [])"

inductive live_step :: "live \<Rightarrow> live \<Rightarrow> bool" where
  start_writer: "lvWriter s = Starting \<Longrightarrow> live_step s (s\<lparr>lvWriter := Selecting, lvTicker := lvNow s + pingPeriod\<rparr>)"
| arm: "lvReader s = Arming \<Longrightarrow> live_step s ((SetReadDeadline s)\<lparr>lvReader := InRead\<rparr>)"
| frame: "lvReader s \<noteq> Removed \<Longrightarrow> live_step s (s\<lparr>lvOut := True\<rparr>)"
| tick: "lvWriter s = Selecting \<or> lvWriter s = Writing d \<Longrightarrow> lvTicker s \<le> lvNow s \<Longrightarrow>
    live_step s (s\<lparr>lvTick := True, lvTicker := lvTicker s + pingPeriod,
      lvUnanswered := (case lvUnanswered s of None \<Rightarrow> Some (lvTicker s) | Some u \<Rightarrow> Some u)\<rparr>)"
| write_frame: "lvWriter s = Selecting \<Longrightarrow> lvOut s \<Longrightarrow> live_step s (s\<lparr>lvOut := False, lvWriter := Writing (lvNow s + writeWait)\<rparr>)"
| write_ping: "lvWriter s = Selecting \<Longrightarrow> lvTick s \<Longrightarrow> live_step s (s\<lparr>lvTick := False, lvWriter := Writing (lvNow s + writeWait)\<rparr>)"
| written: "lvWriter s = Writing d \<Longrightarrow> live_step s (s\<lparr>lvWriter := Selecting\<rparr>)"
| write_error: "lvWriter s = Writing d \<Longrightarrow> live_step s (s\<lparr>lvWriter := Returned\<rparr>)"
| quit: "lvWriter s = Selecting \<Longrightarrow> lvReader s = Removed \<Longrightarrow> live_step s (s\<lparr>lvWriter := Returned\<rparr>)"
| pong: "lvReader s = InRead \<Longrightarrow> lvWriter s \<noteq> Returned \<Longrightarrow> live_step s ((SetReadDeadline s)\<lparr>lvUnanswered := None\<rparr>)"
| peer_gone: "lvReader s = InRead \<Longrightarrow> live_step s (remove_live s)"
| closed: "lvReader s = InRead \<Longrightarrow> lvWriter s = Returned \<Longrightarrow> live_step s (remove_live s)"
| expired: "lvReader s = InRead \<Longrightarrow> lvReadDeadline s \<le> lvNow s \<Longrightarrow> live_step s (remove_live s)"
| clock: "\<not> runnable s \<Longrightarrow> lvNow s < t \<Longrightarrow> list_all (\<lambda>x. t \<le> x) (due s) \<Longrightarrow> live_step s (s\<lparr>lvNow := t\<rparr>)"

text \<open>Runs all of whose states satisfy \<open>P\<close>.\<close>

inductive live_run :: "(live \<Rightarrow> bool) \<Rightarrow> live \<Rightarrow> bool" for P :: "live \<Rightarrow> bool" where
  opened: "live_run P (new_live now)"
| stepped: "live_run P s \<Longrightarrow> live_step s s' \<Longrightarrow> P s' \<Longrightarrow> live_run P s'"

text \<open>A prompt client: its pong comes less than ten seconds after the tick that asked for it, the writer's
  delays, both ways of the network and a frame in front of the ping included.\<close>

definition prompt :: "live \<Rightarrow> bool" where
  "prompt s \<longleftrightarrow> (case lvUnanswered s of None \<Rightarrow> True | Some u \<Rightarrow> lvNow s < u + (pongWait - pingPeriod))"

lemmas wait_defs = pongWait_def pingPeriod_def writeWait_def

section \<open>The invariant\<close>

text \<open>The writes still ahead of a writer whose reader has left: the mailbox, a tick, and the one tick that
  can still fire.\<close>

definition writes_left :: "live \<Rightarrow> nat" where
  "writes_left s = of_bool (lvOut s) + of_bool (lvTick s) + of_bool (lvTicker s < lvRemovedAt s + pingPeriod)"

definition last_moment :: "live \<Rightarrow> nat" where
  "last_moment s = (case lvWriter s of Writing d \<Rightarrow> d | _ \<Rightarrow> lvNow s)"

definition live_inv :: "live \<Rightarrow> bool" where
  "live_inv s \<longleftrightarrow>
     lvRefreshed s \<le> lvNow s \<and>
     (lvReader s = InRead \<longrightarrow> lvReadDeadline s = lvRefreshed s + pongWait \<and> lvNow s \<le> lvReadDeadline s) \<and>
     (\<forall>d. lvWriter s = Writing d \<longrightarrow> lvNow s \<le> d \<and> d \<le> lvNow s + writeWait) \<and>
     (lvWriter s = Selecting \<or> (\<exists>d. lvWriter s = Writing d) \<longrightarrow> lvNow s \<le> lvTicker s \<and> lvTicker s \<le> lvNow s + pingPeriod) \<and>
     (lvReader s = Removed \<longrightarrow> lvRemovedAt s \<le> lvNow s) \<and>
     (lvReader s = Removed \<and> lvWriter s \<noteq> Returned \<longrightarrow> last_moment s + writeWait * writes_left s \<le> lvRemovedAt s + 4 * writeWait)"

lemma live_inv_step: "live_step s s' \<Longrightarrow> live_inv s \<Longrightarrow> live_inv s'"
proof (induction rule: live_step.induct)
  case (tick s d)
  then show ?case
    by (cases "lvReader s"; cases "lvWriter s") (auto simp: live_inv_def last_moment_def writes_left_def wait_defs split: if_splits)
next
  case (clock s t)
  then show ?case
    by (cases "lvReader s"; cases "lvWriter s") (auto simp: live_inv_def last_moment_def writes_left_def runnable_def due_def)
qed (auto simp: live_inv_def last_moment_def writes_left_def SetReadDeadline_def remove_live_def wait_defs split: writer.splits)

lemma live_run_inv: "live_run P s \<Longrightarrow> live_inv s"
proof (induction rule: live_run.induct)
  case (opened now)
  show ?case by (simp add: live_inv_def new_live_def)
next
  case (stepped s s')
  then show ?case by (blast intro: live_inv_step)
qed

section \<open>A prompt client is kept\<close>

text \<open>Until a tick goes unanswered the next one comes at most a period after the last refresh, and the first
  unanswered one came by then.\<close>

definition kept_inv :: "live \<Rightarrow> bool" where
  "kept_inv s \<longleftrightarrow> lvReader s \<noteq> Removed \<longrightarrow>
     lvNow s < lvRefreshed s + pongWait \<and>
     (lvReader s = Arming \<or> lvWriter s = Starting \<longrightarrow> lvNow s = lvRefreshed s) \<and>
     (case lvUnanswered s of
        None \<Rightarrow> lvWriter s = Selecting \<or> (\<exists>d. lvWriter s = Writing d) \<longrightarrow> lvTicker s \<le> lvRefreshed s + pingPeriod
      | Some u \<Rightarrow> u \<le> lvRefreshed s + pingPeriod)"

lemma kept_inv_step: "live_step s s' \<Longrightarrow> live_inv s \<Longrightarrow> prompt s' \<Longrightarrow> kept_inv s \<Longrightarrow> kept_inv s'"
proof (induction rule: live_step.induct)
  case (clock s t)
  then show ?case
    by (cases "lvReader s"; cases "lvWriter s"; cases "lvUnanswered s")
       (auto simp: kept_inv_def prompt_def runnable_def due_def wait_defs)
qed (auto simp: kept_inv_def live_inv_def SetReadDeadline_def remove_live_def wait_defs split: option.splits)

lemma live_run_kept: "live_run P s \<Longrightarrow> \<forall>x. P x \<longrightarrow> prompt x \<Longrightarrow> kept_inv s"
proof (induction rule: live_run.induct)
  case (stepped s s')
  then show ?case by (meson kept_inv_step live_run_inv)
qed (simp add: kept_inv_def new_live_def wait_defs)

section \<open>The clock is never held up\<close>

text \<open>With a peer that answers and takes what is written, time passes and the connection stays: the bounds
  are not those of a model that stands still.\<close>

lemma two_steps: "live_step a b \<Longrightarrow> live_step b c \<Longrightarrow> live_step\<^sup>*\<^sup>* a c"
  by (meson converse_rtranclp_into_rtranclp r_into_rtranclp)

lemma one_step: "live_step a b \<Longrightarrow> live_step\<^sup>*\<^sup>* a b"
  by (rule r_into_rtranclp)

lemma same_field:
  "lvWriter s = Selecting \<Longrightarrow> s\<lparr>lvWriter := Selecting\<rparr> = s"
  "\<not> lvOut s \<Longrightarrow> s\<lparr>lvOut := False\<rparr> = s" "\<not> lvTick s \<Longrightarrow> s\<lparr>lvTick := False\<rparr> = s"
  by (cases s; simp)+

lemma write_out:
  assumes "lvWriter s = Selecting"
  shows "live_step\<^sup>*\<^sup>* s (s\<lparr>lvOut := False, lvTick := False\<rparr>)"
proof -
  have out: "live_step\<^sup>*\<^sup>* s (s\<lparr>lvOut := False\<rparr>)"
  proof (cases "lvOut s")
    case True
    from two_steps[OF live_step.write_frame[OF assms True] live_step.written] same_field(1)[of "s\<lparr>lvOut := False\<rparr>"] assms
    show ?thesis by simp
  qed (simp add: same_field)
  let ?s = "s\<lparr>lvOut := False\<rparr>"
  have "live_step\<^sup>*\<^sup>* ?s (?s\<lparr>lvTick := False\<rparr>)"
  proof (cases "lvTick s")
    case True
    have w: "lvWriter ?s = Selecting" "lvTick ?s" using assms True by simp_all
    from two_steps[OF live_step.write_ping[OF w] live_step.written] same_field(1)[of "?s\<lparr>lvTick := False\<rparr>"] assms
    show ?thesis by simp
  next
    case False
    then have "?s\<lparr>lvTick := False\<rparr> = ?s" by (intro same_field(3)) simp
    then show ?thesis by (simp only: rtranclp.rtrancl_refl)
  qed
  with out show ?thesis by (rule rtranclp_trans)
qed

lemma clock_free:
  assumes inv: "live_inv s" and "lvReader s \<noteq> Removed" and "lvWriter s \<noteq> Returned"
  shows "\<exists>s'. live_step\<^sup>*\<^sup>* s s' \<and> lvNow s < lvNow s' \<and> lvReader s' = InRead \<and> lvWriter s' = Selecting"
proof -
  obtain s1 where s1: "live_step s s1" "lvReader s1 = InRead" "lvReadDeadline s1 = lvNow s1 + pongWait" "lvNow s1 = lvNow s" "lvWriter s1 = lvWriter s"
    using assms(2,3) live_step.arm[of s] live_step.pong[of s] by (cases "lvReader s") (auto simp: SetReadDeadline_def)
  obtain s2 where s2: "live_step\<^sup>*\<^sup>* s1 s2" "lvReader s2 = InRead" "lvReadDeadline s2 = lvNow s2 + pongWait" "lvNow s2 = lvNow s" "lvWriter s2 = Selecting"
  proof (cases "lvWriter s")
    case Starting
    show ?thesis by (rule that[OF one_step[OF live_step.start_writer]]) (use s1 Starting in simp_all)
  next
    case Selecting
    show ?thesis by (rule that[OF rtranclp.rtrancl_refl]) (use s1 Selecting in simp_all)
  next
    case (Writing d)
    show ?thesis by (rule that[OF one_step[OF live_step.written]]) (use s1 Writing in simp_all)
  qed (use assms(3) in simp)
  have run2: "live_step\<^sup>*\<^sup>* s s2" using s1(1) s2(1) by (rule converse_rtranclp_into_rtranclp)
  then have "live_inv s2" using inv by (induction rule: rtranclp_induct) (auto intro: live_inv_step)
  then have t2: "lvNow s \<le> lvTicker s2" using s2(4,5) by (simp add: live_inv_def)
  obtain s3 where s3: "live_step\<^sup>*\<^sup>* s2 s3" "lvReader s3 = InRead" "lvReadDeadline s3 = lvNow s3 + pongWait" "lvNow s3 = lvNow s" "lvWriter s3 = Selecting"
    "lvNow s < lvTicker s3"
  proof (cases "lvNow s < lvTicker s2")
    case True
    with s2 that[of s2] show ?thesis by simp
  next
    case False
    with s2 t2 live_step.tick[of s2] show ?thesis by (intro that[OF one_step[OF live_step.tick[of s2]]]) (auto simp: wait_defs)
  qed
  let ?s4 = "s3\<lparr>lvOut := False, lvTick := False\<rparr>"
  have "live_step ?s4 (?s4\<lparr>lvNow := Suc (lvNow s)\<rparr>)"
    by (rule live_step.clock) (use s3 in \<open>auto simp: runnable_def due_def wait_defs\<close>)
  with run2 s3(1) write_out[OF s3(5)] have "live_step\<^sup>*\<^sup>* s (?s4\<lparr>lvNow := Suc (lvNow s)\<rparr>)" by (meson rtranclp.rtrancl_into_rtrancl rtranclp_trans)
  then show ?thesis using s3 by (intro exI[of _ "?s4\<lparr>lvNow := Suc (lvNow s)\<rparr>"]) simp
qed

section \<open>Properties\<close>

text \<open>\<^bold>\<open>C40\<close>. What the keepalive bounds. Whatever the peer, the hub and the scheduler do, a connection still in the
  hub had its read deadline set at most 60 seconds ago, when it was opened or by its last pong, so a
  half-open one is dropped by then; once it has left the hub its writer returns within 40 seconds,
  four writes at their longest. And a client whose pongs come less than ten seconds after the ticks that
  ask for them never reaches its read deadline.\<close>

theorem keepalive_bounds:
  assumes "live_run P s"
  shows "(lvReader s = InRead \<longrightarrow> lvNow s \<le> lvRefreshed s + pongWait) \<and>
    (lvReader s = Removed \<and> lvWriter s \<noteq> Returned \<longrightarrow> lvNow s \<le> lvRemovedAt s + 4 * writeWait) \<and>
    ((\<forall>x. P x \<longrightarrow> prompt x) \<and> lvReader s = InRead \<longrightarrow> lvNow s < lvReadDeadline s)"
proof (intro conjI impI)
  note inv = live_run_inv[OF assms]
  show "lvNow s \<le> lvRefreshed s + pongWait" if "lvReader s = InRead" using inv that by (simp add: live_inv_def)
  show "lvNow s \<le> lvRemovedAt s + 4 * writeWait" if "lvReader s = Removed \<and> lvWriter s \<noteq> Returned"
    using inv that by (cases "lvWriter s") (auto simp: live_inv_def last_moment_def)
  show "lvNow s < lvReadDeadline s" if "(\<forall>x. P x \<longrightarrow> prompt x) \<and> lvReader s = InRead"
    using live_run_kept[OF assms] inv that by (auto simp: kept_inv_def live_inv_def)
qed


definition at_time :: "nat \<Rightarrow> reader \<Rightarrow> nat \<Rightarrow> writer \<Rightarrow> nat \<Rightarrow> bool \<Rightarrow> nat \<Rightarrow> nat option \<Rightarrow> live" where
  "at_time now rd dl wr tk tick ref un = \<lparr>lvNow = now, lvReader = rd, lvReadDeadline = dl, lvWriter = wr, lvTicker = tk, lvTick = tick,
     lvOut = False, lvRefreshed = ref, lvRemovedAt = 0, lvUnanswered = un\<rparr>"

lemma next_state:
  assumes "live_run prompt s" and "live_step s s'" and "s' = x" and "prompt x"
  shows "live_run prompt x"
  using assms live_run.stepped by blast

abbreviation "s50 \<equiv> pingPeriod"

abbreviation "s51 \<equiv> pingPeriod + 1000000000"

text \<open>The first ping and its pong a second later.\<close>

lemma first_pong:
  "live_run prompt (at_time s51 InRead (s51 + pongWait) Selecting (2 * s50) False s51 None)"
proof -
  have "live_run prompt (at_time 0 Arming 0 Starting 0 False 0 None)"
    using live_run.opened[of prompt 0] by (simp add: new_live_def at_time_def)
  then have "live_run prompt (at_time 0 Arming 0 Selecting s50 False 0 None)"
    by (rule next_state[OF _ live_step.start_writer]) (simp_all add: at_time_def prompt_def)
  then have "live_run prompt (at_time 0 InRead pongWait Selecting s50 False 0 None)"
    by (rule next_state[OF _ live_step.arm]) (simp_all add: at_time_def prompt_def SetReadDeadline_def)
  then have "live_run prompt (at_time s50 InRead pongWait Selecting s50 False 0 None)"
    by (rule next_state[OF _ live_step.clock[where t = s50]]) (simp_all add: at_time_def prompt_def runnable_def due_def wait_defs)
  then have "live_run prompt (at_time s50 InRead pongWait Selecting (2 * s50) True 0 (Some s50))"
    by (rule next_state[OF _ live_step.tick]) (simp_all add: at_time_def prompt_def wait_defs)
  then have "live_run prompt (at_time s50 InRead pongWait (Writing (s50 + writeWait)) (2 * s50) False 0 (Some s50))"
    by (rule next_state[OF _ live_step.write_ping]) (simp_all add: at_time_def prompt_def wait_defs)
  then have "live_run prompt (at_time s50 InRead pongWait Selecting (2 * s50) False 0 (Some s50))"
    by (rule next_state[OF _ live_step.written]) (simp_all add: at_time_def prompt_def wait_defs)
  then have "live_run prompt (at_time s51 InRead pongWait Selecting (2 * s50) False 0 (Some s50))"
    by (rule next_state[OF _ live_step.clock[where t = s51]]) (simp_all add: at_time_def prompt_def runnable_def due_def wait_defs)
  then show ?thesis
    by (rule next_state[OF _ live_step.pong]) (simp_all add: at_time_def prompt_def SetReadDeadline_def)
qed

theorem keepalive_bounds_witness:
  "\<exists>s. live_run prompt s \<and> lvReader s = InRead \<and> pingPeriod < lvNow s \<and> lvNow s < lvReadDeadline s \<and> lvNow s \<le> lvRefreshed s + pongWait"
  using keepalive_bounds[OF first_pong] first_pong
  by (intro exI[of _ "at_time s51 InRead (s51 + pongWait) Selecting (2 * s50) False s51 None"]) (simp add: at_time_def)

end
