(* ===== verification/Spec2Isabelle.thy ===== *)
theory Spec2Isabelle
  imports Share_Ctl Pool_Ctl Claim_Binder Tier_Ctl User_Ctl Target_Agent Share_Agent User_Agent Inventory
    Ttlcache Tasks Reflect_Store Auth_Kube Api_Safety Pool_Protocol Server_Main Stream_Hub Restfactory Snapshot_Canonical
    Status_Schema Target_Protocol Watches Binaries Stream_Conn
begin

text \<open>
  \<^bold>\<open>stornas\<close> is a storage appliance on Kubernetes. Three programs share the cluster's API server
  and nothing else:

  \<^item> the \<^emph>\<open>operator\<close> (\<open>operator/\<close>) decides: it places iSCSI targets and shares on nodes, registers
    pools with the r-drbd replication layer, binds claims and keeps storage classes;
  \<^item> the \<^emph>\<open>node agent\<close> (\<open>cmd/stornas-agent\<close>, \<open>internal/agent\<close>, \<open>internal/lvm\<close>,
    \<open>internal/mdraid\<close>) acts: it builds and wipes volume groups and arrays, exports targets through
    LIO and shares through NFS and samba, keeps samba users, and publishes the disks it sees;
  \<^item> the \<^emph>\<open>server\<close> (\<open>cmd/stornas\<close> and the other packages under \<open>internal/\<close>) serves the console: it
    mirrors the cluster into memory, streams snapshots, keeps sessions and turns requests into objects.

  They interact through object statuses: the operator writes a placement, the agent of that node
  converges the host and answers with a condition, and deletion is a handshake of finalizers and
  conditions. The theorems are about each program's decisions and about those handshakes.

  \<^bold>\<open>Conventions.\<close> A Go struct is a record, an enumeration a datatype, a pointer or a missing
  map entry an \<open>option\<close>. A reconciler is a function from the answers of the API (record
  \<open>kclient\<close> of \<open>Cluster\<close>) to the writes it issues, in order, with its result. Host code is a
  program in the state monad of \<open>Host\<close>: it runs commands and file operations against a host that
  is a parameter, and keeps the log of every command with its answer; theorems about it hold for
  every host. Code outside the repository is a parameter: the condition and finalizer helpers
  (\<open>metalib\<close>, laws in the locale \<open>metalib_laws\<close>, interpreted on a reference implementation in
  \<open>K8s\<close>), JSON decoding and the other decoders (\<open>golib\<close>), client-go's indexer (\<open>indexer\<close>). The
  clock is an argument. Where Go ranges over a map the order is either an argument or shown not to
  matter. Loops are structural recursions; no definition runs on fuel.

  \<^bold>\<open>Shared theories.\<close> \<open>Prelude\<close> (zero-valued maps, strings, sorting with the locales
  \<open>weak_order\<close> and \<open>strict_order\<close>), \<open>K8s\<close> (errors, metadata, conditions, library laws), \<open>Go_Strings\<close> and
  \<open>Go_Time\<close> (the parts of \<open>strings\<close>, \<open>strconv\<close> and \<open>time\<close> in use; printed RFC 3339 instants
  sort as instants do), \<open>Api_Types\<close> (the custom resources and the pure functions beside them).

  \<^bold>\<open>Operator.\<close> \<open>Placement\<close> models \<open>rdrbd/resolver.go\<close>: the choice refines a specification by
  ranking and fails over. \<open>Cluster\<close> models \<open>claim.go\<close> and \<open>nodes.go\<close>. \<open>Target_Ctl\<close>,
  \<open>Share_Ctl\<close>, \<open>Pool_Ctl\<close>, \<open>Claim_Binder\<close>, \<open>Tier_Ctl\<close> and \<open>User_Ctl\<close> model one controller each,
  whole \<open>Reconcile\<close> functions with their error paths: a move resets the readiness of the old node, a
  fenced target waits, finalizers are released only after the agent's confirmation.

  \<^bold>\<open>Node agent.\<close> \<open>Host\<close> has the runner and the reasoning about logs (\<open>ensures\<close>, \<open>keeps\<close>,
  \<open>traces\<close>, \<open>jinv\<close>); \<open>Lvm\<close> and \<open>Mdraid\<close> the tools; \<open>Pool_Agent\<close> the pool convergence, device
  replacement and teardown; \<open>Lio\<close> and \<open>Target_Agent\<close> the iSCSI export; \<open>Share_Host\<close>,
  \<open>Share_Agent\<close> and \<open>User_Agent\<close> NFS and samba; \<open>Inventory\<close> the disk sweep. The safety theorems
  say what is never run whatever the host answers (no wipe of a foreign device, no format of a device
  that is not blank, no access without its secret); the functional ones what has run when success is
  reported.

  \<^bold>\<open>Operator and agent together.\<close> \<open>Pool_Protocol\<close> runs the two \<open>Reconcile\<close> functions of a StoragePool against
  one API server: each over its own cached version, writes accepted only at the version they were read
  at, anything may be delayed or lost. Its inductive step relation has one rule per pass, per write that
  lands and per act of the user or of r-drbd; the invariant shows that the agent touches the host of a
  deleting pool only when r-drbd has given it up for good, and that the object goes only after a teardown or
  the loss of the node. It assumes that the operator reads the r-drbd Pool as it is (a client that reads
  from a cache may lag behind the Pool the pass before created). \<open>Target_Protocol\<close> does the same for a Target
  with one agent per node, restarts and lost answers included: a promise of service never survives a move,
  and a deleted target goes only with its active node's teardown or loss. It also has the run in which
  an agent that missed a move skips the target that came back to it.

  \<^bold>\<open>The operator's loop.\<close> \<open>Watches\<close> models what every \<open>SetupWithManager\<close> of the operator registers, with filters
  and maps: a change that alters what a pass computes wakes that pass, up to a node created unready.
  \<open>Operator_Settles\<close> shows the other half, that the loop of writes and the events they cause ends: the
  relation between a status and the one a pass replaces it with is well-founded, with chains of at most
  two. \<open>Crd_Schema\<close> has what the API server checks of a status (the kubebuilder markers of
  \<open>operator/api/v1alpha1\<close>; locale \<open>metalib_lists\<close> extends the laws of the condition helpers), and
  \<open>Status_Schema\<close> shows that all the statuses written by operator and agents meet it, but for the length of
  a message. \<open>Binaries\<close> models the \<open>main\<close> functions: the options made of the flags, the setup sequence that
  starts nothing over a failed step, one node name for all parts of an agent, and how a rotated secret,
  which agents do not watch, reaches them through the operator's status.

  \<^bold>\<open>Server.\<close> \<open>Ttlcache\<close>, \<open>Eventbus\<close>, \<open>Reflect_Store\<close>, \<open>Tasks\<close> and \<open>Restfactory\<close> (with \<open>tlsconf\<close>) model the
  packages of those names: the cache answers with exactly the recent writes (locale \<open>memo\<close>, which the
  client factory instantiates: no client is handed to another token), the bus's versions detect
  every publication short of a 64-bit wrap, a store publishes exactly the accepted mutations, the task ring is
  the last 100 acts. \<open>Stream_Hub\<close> models \<open>internal/stream\<close> with every interleaving of publications,
  connections and the hub's loop; the locale \<open>settling\<close>, interpreted on it, gives convergence.
  \<open>Stream_Conn\<close> runs one connection's two goroutines against a clock: how long a half-open one can stay, and that a
  prompt client is never dropped.
  \<open>Clusterstate\<close> models \<open>internal/clusterstate\<close> and the wire types of \<open>internal/model\<close>, and
  \<open>Snapshot_Canonical\<close> shows that the frame depends on the cluster's objects and not on the order of a list
  or a map, and what the alerts feed holds. \<open>Unstructured\<close> has the untyped trees (\<open>unstr\<close>, laws in
  \<open>unstr_laws\<close>); \<open>Auth\<close> and \<open>Auth_Kube\<close> the sessions and the user source (\<open>internal/auth\<close>): histories of
  logins, logouts and requests, who passes the admin gate, the password round trip. \<open>Api\<close> models every
  handler of \<open>internal/api\<close> over the cluster's answers (record \<open>apisrv\<close>, library functions in
  \<open>apilib\<close>), \<open>Api_Safety\<close> what they never do and what they record. \<open>Server_Main\<close> has the route table of
  \<open>cmd/stornas/main.go\<close>, its gates, and the console's file fallback.

  \<^bold>\<open>This theory\<close> composes the server: a mutation the cluster accepts has an authenticated author and an
  entry in the activity feed, and every connected browser ends up showing the snapshot of the objects
  the server's stores hold.

  \<^bold>\<open>Decoders.\<close> Conversion of unstructured objects, quantity parsing and the map range order of the snapshot are
  the record \<open>cslib\<close>; JSON encoding of a frame is the argument \<open>marshal\<close>; SHA-256, the client builder and
  the file system of the client factory are arguments.

  \<^bold>\<open>Not modelled.\<close> What the binaries hand to libraries: flag parsing, listeners, signal handling, the
  leader's lease, controller-runtime's queues and client-go's reflector loop, whose documented behaviour the
  theorems assume; generated deep copies and the scheme registration of
  \<open>groupversion_info.go\<close> (a value of the model is its own copy). The web front end, the images and the
  manifests are not Go code.
\<close>

section \<open>From a request to the audit trail\<close>

lemma admin_route_runs:
  assumes "admin_route lib srv ns now now' cookie call m f = ((ws, f', resp), m')" and "ws \<noteq> []"
  shows "fst (RequireAdmin now now' cookie
      (\<lambda>u. api_serve lib srv ns \<lparr>rcUser = Some u, rcNow = now'\<rparr> call f) m) = Inr (ws, f', resp)"
  using assms by (auto simp: admin_route_def split: prod.splits sum.splits)

text \<open>\<^bold>\<open>C4\<close>. Every mutation has an author who proved an identity: in any history of logins, logouts and
  requests, if a request to one of the mutating routes makes the server issue a write that the cluster
  accepts, then the request carried the token of a login whose password the user source had
  confirmed for an admin, which was not logged out and was used within the last twelve hours, and
  exactly one operation naming that user was added to the activity feed.\<close>

theorem mutation_attributed:
  assumes "history srcAt h m t" and "t \<le> now"
    and "admin_route lib srv ns now now' cookie call m f = ((ws, f', resp), m')"
    and "w \<in> set ws" and "apiWrite srv w = None"
  shows "\<exists>c u h1 h2 name pw tl tl' seen op.
     cookie = Some c \<and> uRole u = ''admin'' \<and>
     h = h1 @ LoggedIn c u name pw tl tl' # h2 \<and> LoggedOut c \<notin> set h1 \<and>
     pw \<noteq> '''' \<and> srcLookup (srcAt tl) name = Inr (u, pw) \<and>
     (seen = tl' \<or> Admitted c u seen \<in> set h1) \<and> now \<le> seen + 12 * 3600 * second \<and>
     f' = map_option (RecordOp op) f \<and> opBy op = uName u \<and> (opOK op \<longleftrightarrow> (\<exists>code. resp = Reply code ()))"
proof -
  let ?serve = "\<lambda>u. api_serve lib srv ns \<lparr>rcUser = Some u, rcNow = now'\<rparr> call f"
  have "ws \<noteq> []" using assms(4) by auto
  with admin_route_runs[OF assms(3)]
  have run: "fst (RequireAdmin now now' cookie ?serve m) = Inr (ws, f', resp)" by blast
  then obtain u where u: "fst (userFor now now' cookie m) = Some u" "uRole u = ''admin''"
    "?serve u = (ws, f', resp)"
    by (auto simp: RequireAdmin_Inr)
  from userFor_admits[OF assms(1,2) u(1)] obtain c seen where
    c: "cookie = Some c" "alive srcAt h c u seen" "now \<le> seen + mTTL NewManager" by blast
  from alive_events[OF c(2)] obtain h1 h2 name pw tl tl' where
    ev: "h = h1 @ LoggedIn c u name pw tl tl' # h2" "LoggedOut c \<notin> set h1" "pw \<noteq> ''''"
    "srcLookup (srcAt tl) name = Inr (u, pw)" "seen = tl' \<or> Admitted c u seen \<in> set h1" by blast
  from accepted_write_recorded[OF u(3) assms(4,5)] obtain op where
    op: "f' = map_option (RecordOp op) f" "opBy op = uName u" "opOK op \<longleftrightarrow> (\<exists>code. resp = Reply code ())"
    by (auto simp: attributed_def FromContext_def)
  show ?thesis
    by (rule exI[of _ c], rule exI[of _ u], rule exI[of _ h1], rule exI[of _ h2], rule exI[of _ name],
        rule exI[of _ pw], rule exI[of _ tl], rule exI[of _ tl'], rule exI[of _ seen], rule exI[of _ op])
      (use c ev op u in \<open>simp add: NewManager_def\<close>)
qed

theorem mutation_attributed_witness:
  "\<exists>ws f' resp m' c (u :: User) op. admin_route meta_lib two_pools ''sys'' 9 9 (Some ''tok'') (CDeletePool ''a'') ann_in
       (Some (Feed_New, None)) = ((ws, f', resp), m') \<and> c = ''tok'' \<and> uRole u = ''admin'' \<and>
     f' = map_option (RecordOp op) (Some (Feed_New, None)) \<and> opBy op = uName u"
proof -
  let ?f = "Some (Feed_New, None) :: feed"
  obtain ws f' resp m' where run: "admin_route meta_lib two_pools ''sys'' 9 9 (Some ''tok'') (CDeletePool ''a'')
      ann_in ?f = ((ws, f', resp), m')"
    by (metis prod.collapse)
  have "ws = [DynDelete poolGVR '''' ''a'']"
    using run by (auto simp: admin_route_def RequireAdmin_def userFor_def ann_in_def boss_def second_def
        API_DeletePool_def two_pools_def Let_def)
  then have w: "DynDelete poolGVR '''' ''a'' \<in> set ws" by simp
  have acc: "apiWrite two_pools (DynDelete poolGVR '''' ''a'') = None" by (simp add: two_pools_def)
  have "(5 :: instant) \<le> 9" by simp
  from mutation_attributed[OF ann_history[of "\<lambda>_. one_user ''admin''", OF refl] this run w acc]
  obtain u :: User and op where "uRole u = ''admin''" "f' = map_option (RecordOp op) ?f" "opBy op = uName u" by blast
  with run show ?thesis by blast
qed



section \<open>From the cluster to the browser\<close>

text \<open>What the ten stores of the server hold, and the frame \<open>Run\<close> encodes from one reading of them;
  \<open>json.Marshal\<close> of the envelope is the argument \<open>marshal\<close>.\<close>

datatype server_store =
    Objects "jval list"
  | NodeList "KNode list"
  | ClaimList "KPVC list"
  | EventList "KEvent list"
  | TaskList Feed

fun objects :: "server_store option \<Rightarrow> jval list" where
  "objects (Some (Objects us)) = us"
| "objects _ = []"

fun node_list :: "server_store option \<Rightarrow> KNode list" where
  "node_list (Some (NodeList ns)) = ns"
| "node_list _ = []"

fun claim_list :: "server_store option \<Rightarrow> KPVC list" where
  "claim_list (Some (ClaimList ps)) = ps"
| "claim_list _ = []"

fun event_list :: "server_store option \<Rightarrow> KEvent list" where
  "event_list (Some (EventList es)) = es"
| "event_list _ = []"

fun task_feed :: "server_store option \<Rightarrow> Feed" where
  "task_feed (Some (TaskList f)) = f"
| "task_feed _ = Feed_New"

definition state_of :: "string \<Rightarrow> (server_source \<rightharpoonup> server_store) \<Rightarrow> State" where
  "state_of ns m = \<lparr>stPools = objects (m Pools), stShares = objects (m Shares), stInventories = objects (m Inventories),
     stTargets = objects (m Targets), stSnapshots = objects (m Snapshots), stBacking = objects (m Backing),
     stNodes = node_list (m Nodes), stPvcs = claim_list (m Pvcs), stEvents = event_list (m Events),
     stSystemNamespace = ns\<rparr>"

definition server_frame ::
  "cslib \<Rightarrow> (Snapshot \<Rightarrow> string option) \<Rightarrow> string \<Rightarrow> (server_source \<rightharpoonup> server_store) \<Rightarrow> string option" where
  "server_frame lib marshal ns m = marshal (snapFn lib (state_of ns m) (task_feed (m TaskFeed)))"

abbreviation stornas_hub where
  "stornas_hub lib marshal ns \<equiv> server_hub (server_frame lib marshal ns)"

text \<open>\<^bold>\<open>C3\<close>. Every browser ends up showing the cluster: take any state the server reaches under any interleaving
  of watch events, publications, connections and the hub's loop, and let \<open>st\<close> be the objects its stores
  hold, in any order. Left alone the server comes to rest after finitely many steps, whichever it takes,
  without losing a connection, and at rest every client shows the encoded snapshot of \<open>st\<close>: no
  change was missed while earlier frames were built, and neither the order of the indexers nor that of a
  Go map shows in the bytes.\<close>

theorem viewers_converge:
  assumes "hub_reachable (stornas_hub (lib\<lparr>clPeerOrder := ord\<rparr>) marshal ns) s"
    and "same_state st (state_of ns (\<lambda>i. Some (hStores s i)))" and "state_ok lib st"
    and "\<forall>r. mset (ord r) = mset (clPeerOrder lib r)"
    and "marshal (snapFn lib st (task_feed (Some (hStores s TaskFeed)))) = Some js"
  shows "(\<exists>s'. (hub_step (stornas_hub (lib\<lparr>clPeerOrder := ord\<rparr>) marshal ns))\<^sup>*\<^sup>* s s' \<and> hub_settled (stornas_hub (lib\<lparr>clPeerOrder := ord\<rparr>) marshal ns) s' \<and> dom (hConns s') = dom (hConns s))
    \<and> (\<forall>s' c k. (hub_step (stornas_hub (lib\<lparr>clPeerOrder := ord\<rparr>) marshal ns))\<^sup>*\<^sup>* s s' \<and> hub_settled (stornas_hub (lib\<lparr>clPeerOrder := ord\<rparr>) marshal ns) s' \<and> hConns s' c = Some k \<longrightarrow> cShown k = js)
    \<and> (\<forall>run. run 0 = s \<longrightarrow> (\<exists>i. \<not> hub_step (stornas_hub (lib\<lparr>clPeerOrder := ord\<rparr>) marshal ns) (run i) (run (Suc i))))"
proof -
  have frame: "server_frame (lib\<lparr>clPeerOrder := ord\<rparr>) marshal ns (\<lambda>i. Some (hStores s i)) = Some js"
    using assms(5) by (simp add: server_frame_def snapFn_def State_Snapshot_perm[OF assms(2-4)])
  note C = hub_converges[OF assms(1)]
  show ?thesis
  proof (intro conjI)
    show "\<exists>s'. (hub_step (stornas_hub (lib\<lparr>clPeerOrder := ord\<rparr>) marshal ns))\<^sup>*\<^sup>* s s' \<and> hub_settled (stornas_hub (lib\<lparr>clPeerOrder := ord\<rparr>) marshal ns) s' \<and> dom (hConns s') = dom (hConns s)"
      using C by blast
    show "\<forall>s' c k. (hub_step (stornas_hub (lib\<lparr>clPeerOrder := ord\<rparr>) marshal ns))\<^sup>*\<^sup>* s s' \<and> hub_settled (stornas_hub (lib\<lparr>clPeerOrder := ord\<rparr>) marshal ns) s' \<and> hConns s' c = Some k \<longrightarrow> cShown k = js"
      using C frame by blast
    show "\<forall>run. run 0 = s \<longrightarrow> (\<exists>i. \<not> hub_step (stornas_hub (lib\<lparr>clPeerOrder := ord\<rparr>) marshal ns) (run i) (run (Suc i)))"
      using C by blast
  qed
qed

text \<open>Two nodes listed in the other order, a client that has just attached; the frame names the nodes.\<close>

definition node_stores :: "server_source \<Rightarrow> server_store" where
  "node_stores i = (case i of Nodes \<Rightarrow> NodeList [row_node ''b'' [], row_node ''a'' []] | Pvcs \<Rightarrow> ClaimList []
     | Events \<Rightarrow> EventList [] | TaskFeed \<Rightarrow> TaskList Feed_New | _ \<Rightarrow> Objects [])"

definition hub0 :: "(server_source, server_store) hub" where
  "hub0 = \<lparr>hStores = node_stores, hBus = Bus_New\<lparr>subs := [0 \<mapsto> \<lparr>skinds = set server_kinds, sch = False\<rparr>]\<rparr>,
     hFlight = [], hPhase = Waiting, hKick = False, hConns = Map.empty\<rparr>"

definition names_only :: "Snapshot \<Rightarrow> string option" where
  "names_only sn = Some (concat (map mnName (snNodes sn)))"

lemma hub0_reachable: "hub_reachable (stornas_hub lib marshal ns) (hub_add 1 hub0)"
proof (rule hub_reachable.outside[OF hub_reachable.start])
  show "hub_start (stornas_hub lib marshal ns) hub0"
    by (simp add: hub_start_def hub0_def Subscribe_def server_hub_def Bus_New_def)
  show "world_step (stornas_hub lib marshal ns) hub0 (hub_add 1 hub0)"
    by (rule world_step.attach) (simp add: hub0_def)
qed

theorem viewers_converge_witness:
  "\<exists>s' k. (hub_step (stornas_hub row_lib names_only ''stornas''))\<^sup>*\<^sup>* (hub_add 1 hub0) s' \<and>
     hConns s' 1 = Some k \<and> cShown k = ''ab''"
proof -
  let ?lib = "row_lib\<lparr>clPeerOrder := (\<lambda>_. [''n2'', ''n1''])\<rparr>" and ?h = "hub_add 1 hub0"
  let ?st = "(row_state [row_node ''a'' [], row_node ''b'' []] [] [])\<lparr>stInventories := []\<rparr>"
  let ?hub = "stornas_hub (?lib\<lparr>clPeerOrder := (\<lambda>_. [''n1'', ''n2''])\<rparr>) names_only ''stornas''"
  have lib: "?lib\<lparr>clPeerOrder := (\<lambda>_. [''n1'', ''n2''])\<rparr> = row_lib" by (simp add: row_lib_def)
  have same: "same_state ?st (state_of ''stornas'' (\<lambda>i. Some (hStores ?h i)))"
    by (simp add: same_state_def row_state_def state_of_def hub_add_def hub0_def node_stores_def add_mset_commute)
  have ok: "state_ok ?lib ?st"
    by (simp add: state_ok_def row_state_def decoded_def List.map_filter_def row_node_def meta0_def
        smartAlerts_def alerts_agree_def texts_identify_def)
  have ord: "\<forall>r. mset [''n1'', ''n2''] = mset (clPeerOrder ?lib r)" by (simp add: add_mset_commute)
  have js: "names_only (snapFn ?lib ?st (task_feed (Some (hStores ?h TaskFeed)))) = Some ''ab''"
    by (simp add: names_only_def snapFn_def State_Snapshot_def row_state_def row_node_def meta0_def Let_def
        sort_by_def nodeModel_def)
  note C = viewers_converge[of "\<lambda>_. [''n1'', ''n2'']" ?lib names_only "''stornas''" ?h ?st "''ab''",
    OF hub0_reachable same ok ord js]
  from C obtain s' where s': "(hub_step ?hub)\<^sup>*\<^sup>* ?h s'" "hub_settled ?hub s'" "dom (hConns s') = dom (hConns ?h)"
    by blast
  from s'(3) have "1 \<in> dom (hConns s')" by (simp add: hub_add_def)
  then obtain k where k: "hConns s' 1 = Some k" by blast
  with C s' have "cShown k = ''ab''" by blast
  with k s'(1) show ?thesis unfolding lib by blast
qed

end
